(* ===== verification/Silo_Prelude.thy ===== *)
theory Silo_Prelude
  imports Main "HOL-Library.Word" "HOL-Library.Sublist" "HOL-Library.Char_ord"
    "HOL-Library.List_Lexorder"
begin

text \<open>
  Shared ground of the development: the parts of the Rust standard library that the modelled
  crates use (string slices, option and vector helpers, number formatting and parsing), the
  generic lemmas about them, and the collections of rewrite rules the component theories add to.

  A Rust \<open>String\<close> is its UTF-8 byte sequence, here a \<^typ>\<open>string\<close> (a list of bytes). Every
  operation below works on bytes in the same way as the Rust operation works on the text: the
  patterns the code searches for are ASCII, and an ASCII byte never occurs inside a multi-byte
  UTF-8 sequence.
\<close>

named_theorems str_simps \<open>how the string functions of the standard library compute\<close>
named_theorems frame_simps \<open>fields an operation leaves as they are\<close>

type_synonym u8 = "8 word"
type_synonym u16 = "16 word"
type_synonym u32 = "32 word"
type_synonym u64 = "64 word"

lemma unat_of_nat_u64: "n < 2 ^ 64 \<Longrightarrow> unat (of_nat n :: u64) = n"
  by (simp add: unat_of_nat take_bit_nat_eq_self)

section \<open>Prefixes, suffixes and substrings\<close>

definition strip_prefix :: "string \<Rightarrow> string \<Rightarrow> string option" where
  "strip_prefix p s = (if prefix p s then Some (drop (length p) s) else None)"

definition strip_suffix :: "string \<Rightarrow> string \<Rightarrow> string option" where
  "strip_suffix p s = (if suffix p s then Some (take (length s - length p) s) else None)"

definition ends_with :: "string \<Rightarrow> string \<Rightarrow> bool" where
  "ends_with p s = suffix p s"

fun str_contains :: "string \<Rightarrow> string \<Rightarrow> bool" where
  "str_contains needle [] = (needle = [])"
| "str_contains needle (c # cs) = (prefix needle (c # cs) \<or> str_contains needle cs)"

lemma strip_prefix_Some_iff [str_simps]: "strip_prefix p s = Some r \<longleftrightarrow> s = p @ r"
  by (auto simp: strip_prefix_def prefix_def)

lemma strip_prefix_None_iff [str_simps]: "strip_prefix p s = None \<longleftrightarrow> \<not> prefix p s"
  by (auto simp: strip_prefix_def)

lemma strip_suffix_Some_iff [str_simps]: "strip_suffix p s = Some r \<longleftrightarrow> s = r @ p"
  by (auto simp: strip_suffix_def suffix_def)

lemma strip_suffix_None_iff [str_simps]: "strip_suffix p s = None \<longleftrightarrow> \<not> suffix p s"
  by (auto simp: strip_suffix_def)

lemma str_contains_iff_sublist: "str_contains needle s \<longleftrightarrow> sublist needle s"
  by (induction s) (auto simp: sublist_Cons_right)

lemma str_contains_self: "str_contains (xs @ needle @ ys) (xs @ needle @ ys)"
  by (simp add: str_contains_iff_sublist)

lemma suffix_snoc_singleton: "suffix [c] s \<longleftrightarrow> s \<noteq> [] \<and> last s = c"
  by (cases s rule: rev_cases) (auto simp: suffix_def)

section \<open>Case folding of ASCII letters\<close>

definition ascii_lower :: "char \<Rightarrow> char" where
  "ascii_lower c = (let n = of_char c :: nat in
     if 65 \<le> n \<and> n \<le> 90 then char_of (n + 32) else c)"

definition to_ascii_lowercase :: "string \<Rightarrow> string" where
  "to_ascii_lowercase s = map ascii_lower s"

definition eq_ignore_ascii_case :: "string \<Rightarrow> string \<Rightarrow> bool" where
  "eq_ignore_ascii_case a b = (to_ascii_lowercase a = to_ascii_lowercase b)"

lemma ascii_lower_idem [simp]: "ascii_lower (ascii_lower c) = ascii_lower c"
  by (auto simp: ascii_lower_def Let_def of_char_of)

lemma to_ascii_lowercase_idem [simp]:
  "to_ascii_lowercase (to_ascii_lowercase s) = to_ascii_lowercase s"
  by (simp add: to_ascii_lowercase_def)

lemma to_ascii_lowercase_append [simp]:
  "to_ascii_lowercase (a @ b) = to_ascii_lowercase a @ to_ascii_lowercase b"
  by (simp add: to_ascii_lowercase_def)

lemma length_to_ascii_lowercase [simp]: "length (to_ascii_lowercase s) = length s"
  by (simp add: to_ascii_lowercase_def)

lemma ascii_lower_dot_iff [simp]: "ascii_lower c = CHR ''.'' \<longleftrightarrow> c = CHR ''.''"
proof -
  have "ascii_lower c = CHR ''.'' \<Longrightarrow> c = CHR ''.''"
  proof (cases "65 \<le> (of_char c :: nat) \<and> (of_char c :: nat) \<le> 90")
    case True
    assume eq: "ascii_lower c = CHR ''.''"
    with True have "char_of ((of_char c :: nat) + 32) = CHR ''.''"
      by (simp add: ascii_lower_def)
    then have "(of_char (char_of ((of_char c :: nat) + 32) :: char) :: nat) = of_char (CHR ''.'')"
      by simp
    with True show ?thesis by (simp add: of_char_of)
  next
    case False
    assume "ascii_lower c = CHR ''.''"
    moreover from False have "ascii_lower c = c" unfolding ascii_lower_def Let_def by (rule if_not_P)
    ultimately show ?thesis by simp
  qed
  then show ?thesis by (auto simp: ascii_lower_def)
qed

lemma to_ascii_lowercase_Nil [simp]: "to_ascii_lowercase [] = []"
  by (simp add: to_ascii_lowercase_def)

lemma to_ascii_lowercase_dot [simp]: "to_ascii_lowercase ''.'' = ''.''"
  by (simp add: to_ascii_lowercase_def ascii_lower_def)

lemma last_to_ascii_lowercase:
  "s \<noteq> [] \<Longrightarrow> last (to_ascii_lowercase s) = ascii_lower (last s)"
  by (simp add: to_ascii_lowercase_def last_map)

section \<open>Splitting\<close>

fun split_once :: "char \<Rightarrow> string \<Rightarrow> (string \<times> string) option" where
  "split_once c [] = None"
| "split_once c (x # xs) =
     (if x = c then Some ([], xs)
      else map_option (\<lambda>(a, b). (x # a, b)) (split_once c xs))"

definition rsplit_once :: "char \<Rightarrow> string \<Rightarrow> (string \<times> string) option" where
  "rsplit_once c s = map_option (\<lambda>(a, b). (rev b, rev a)) (split_once c (rev s))"

lemma split_once_Some_iff:
  "split_once c s = Some (a, b) \<longleftrightarrow> s = a @ c # b \<and> c \<notin> set a"
  by (induction s arbitrary: a b) (auto simp: Cons_eq_append_conv)

lemma split_once_None_iff: "split_once c s = None \<longleftrightarrow> c \<notin> set s"
  by (induction s) auto

lemma rsplit_once_Some_iff:
  "rsplit_once c s = Some (a, b) \<longleftrightarrow> s = a @ c # b \<and> c \<notin> set b"
proof -
  have "rsplit_once c s = Some (a, b) \<longleftrightarrow> split_once c (rev s) = Some (rev b, rev a)"
    by (auto simp: rsplit_once_def)
  also have "\<dots> \<longleftrightarrow> rev s = rev b @ c # rev a \<and> c \<notin> set b"
    by (simp add: split_once_Some_iff)
  also have "rev s = rev b @ c # rev a \<longleftrightarrow> s = a @ c # b"
    by (metis append_Cons append_Nil append_assoc rev.simps(2) rev_append rev_rev_ident)
  finally show ?thesis .
qed

lemma rsplit_once_None_iff: "rsplit_once c s = None \<longleftrightarrow> c \<notin> set s"
  by (simp add: rsplit_once_def split_once_None_iff)

text \<open>\<open>str::split(c).next()\<close>: the part before the first separator, the whole text without one.\<close>

definition split_first :: "char \<Rightarrow> string \<Rightarrow> string" where
  "split_first c s = takeWhile (\<lambda>x. x \<noteq> c) s"

text \<open>\<open>trim_end_matches(c)\<close>: every trailing occurrence is removed.\<close>

definition trim_end_matches :: "char \<Rightarrow> string \<Rightarrow> string" where
  "trim_end_matches c s = rev (dropWhile (\<lambda>x. x = c) (rev s))"

lemma trim_end_matches_snoc [simp]:
  "trim_end_matches c (s @ [c]) = trim_end_matches c s"
  by (simp add: trim_end_matches_def)

lemma trim_end_matches_not_suffix: "\<not> suffix [c] (trim_end_matches c s)"
proof (induction s rule: rev_induct)
  case Nil
  then show ?case by (simp add: trim_end_matches_def)
next
  case (snoc x xs)
  then show ?case by (cases "x = c") (auto simp: trim_end_matches_def suffix_def)
qed

text \<open>
  White space is that of \<open>char::is_whitespace\<close>: \<open>ws_len\<close> is the length in bytes of the white-space
  character a text starts with, 0 when it starts with another character.
\<close>

definition is_ws :: "char \<Rightarrow> bool" where
  "is_ws c = (c \<in> {CHR '' '', CHR 0x09, CHR 0x0A, CHR 0x0B, CHR 0x0C, CHR 0x0D})"

definition is_ws2 :: "nat \<Rightarrow> nat \<Rightarrow> bool" where
  "is_ws2 a b = (a = 0xC2 \<and> (b = 0x85 \<or> b = 0xA0))"

definition is_ws3 :: "nat \<Rightarrow> nat \<Rightarrow> nat \<Rightarrow> bool" where
  "is_ws3 a b c =
     (a = 0xE1 \<and> b = 0x9A \<and> c = 0x80 \<or>
      a = 0xE2 \<and> b = 0x80 \<and> (0x80 \<le> c \<and> c \<le> 0x8A \<or> c = 0xA8 \<or> c = 0xA9 \<or> c = 0xAF) \<or>
      a = 0xE2 \<and> b = 0x81 \<and> c = 0x9F \<or>
      a = 0xE3 \<and> b = 0x80 \<and> c = 0x80)"

fun ws_len :: "string \<Rightarrow> nat" where
  "ws_len [] = 0"
| "ws_len (a # s) =
     (if is_ws a then 1
      else case s of
        [] \<Rightarrow> 0
      | b # t \<Rightarrow>
          if is_ws2 (of_char a) (of_char b) then 2
          else (case t of [] \<Rightarrow> 0
                | c # _ \<Rightarrow> if is_ws3 (of_char a) (of_char b) (of_char c) then 3 else 0))"

function split_whitespace_aux :: "string \<Rightarrow> string \<Rightarrow> string list" where
  "split_whitespace_aux acc [] = (if acc = [] then [] else [rev acc])"
| "split_whitespace_aux acc (c # cs) =
     (if ws_len (c # cs) > 0
      then (if acc = [] then [] else [rev acc])
           @ split_whitespace_aux [] (drop (ws_len (c # cs)) (c # cs))
      else split_whitespace_aux (c # acc) cs)"
  by pat_completeness auto
termination
  by (relation "measure (\<lambda>(acc, s). length s)") auto

definition split_whitespace :: "string \<Rightarrow> string list" where
  "split_whitespace s = split_whitespace_aux [] s"

text \<open>\<open>lines().next()\<close>: \<open>None\<close> for the empty text, else the first line without its terminator.\<close>

definition first_line :: "string \<Rightarrow> string option" where
  "first_line s = (if s = [] then None else
     Some (let l = takeWhile (\<lambda>c. c \<noteq> CHR 0x0A) s in
       if l \<noteq> s \<and> l \<noteq> [] \<and> last l = CHR 0x0D then butlast l else l))"

text \<open>\<open>trim_start\<close>, \<open>trim_end\<close> and \<open>trim\<close>.\<close>

function trim_start :: "string \<Rightarrow> string" where
  "trim_start s = (if ws_len s > 0 then trim_start (drop (ws_len s) s) else s)"
  by pat_completeness auto
termination
proof (relation "measure length", goal_cases)
  case (2 s)
  then show ?case by (cases s) auto
qed simp

declare trim_start.simps [simp del]

definition ends_ws_len :: "string \<Rightarrow> nat" where
  "ends_ws_len s =
     (case rev s of
        [] \<Rightarrow> 0
      | c # t \<Rightarrow>
          if is_ws c then 1
          else case t of [] \<Rightarrow> 0
            | b # u \<Rightarrow>
                if is_ws2 (of_char b) (of_char c) then 2
                else (case u of [] \<Rightarrow> 0
                      | a # _ \<Rightarrow> if is_ws3 (of_char a) (of_char b) (of_char c) then 3 else 0))"

function trim_end :: "string \<Rightarrow> string" where
  "trim_end s =
     (if ends_ws_len s > 0 then trim_end (take (length s - ends_ws_len s) s) else s)"
  by pat_completeness auto
termination
proof (relation "measure length", goal_cases)
  case (2 s)
  then show ?case by (cases s) (auto simp: ends_ws_len_def)
qed simp

declare trim_end.simps [simp del]

definition trim :: "string \<Rightarrow> string" where
  "trim s = trim_end (trim_start s)"

section \<open>UTF-8\<close>

text \<open>\<open>str::from_utf8\<close> accepts the well-formed byte sequences of the Unicode standard.\<close>

definition utf8_cont :: "char \<Rightarrow> bool" where
  "utf8_cont c = (let n = of_char c :: nat in 0x80 \<le> n \<and> n < 0xC0)"

definition utf8_second :: "nat \<Rightarrow> char \<Rightarrow> bool" where
  "utf8_second a c = (let n = of_char c :: nat in
     (if a = 0xE0 then 0xA0 else if a = 0xF0 then 0x90 else 0x80) \<le> n \<and>
     n \<le> (if a = 0xED then 0x9F else if a = 0xF4 then 0x8F else 0xBF))"

fun utf8_valid :: "string \<Rightarrow> bool" where
  "utf8_valid [] = True"
| "utf8_valid (c # s) =
     (let a = of_char c :: nat in
      if a < 0x80 then utf8_valid s
      else if 0xC2 \<le> a \<and> a \<le> 0xDF then
        (case s of b # t \<Rightarrow> utf8_cont b \<and> utf8_valid t | [] \<Rightarrow> False)
      else if 0xE0 \<le> a \<and> a \<le> 0xEF then
        (case s of b # d # t \<Rightarrow> utf8_second a b \<and> utf8_cont d \<and> utf8_valid t | _ \<Rightarrow> False)
      else if 0xF0 \<le> a \<and> a \<le> 0xF4 then
        (case s of b # d # e # t \<Rightarrow> utf8_second a b \<and> utf8_cont d \<and> utf8_cont e \<and> utf8_valid t
         | _ \<Rightarrow> False)
      else False)"

definition from_utf8 :: "string \<Rightarrow> string option" where
  "from_utf8 s = (if utf8_valid s then Some s else None)"

text \<open>
  \<open>String::from_utf8_lossy\<close>: every maximal prefix of a well-formed sequence that is not completed
  becomes one replacement character. \<open>utf8_step\<close> says how many bytes to take next, and whether they
  are a character.
\<close>

definition utf8_step :: "string \<Rightarrow> nat \<times> bool" where
  "utf8_step s =
     (case s of
        [] \<Rightarrow> (0, True)
      | c # t \<Rightarrow>
          (let a = of_char c :: nat in
           if a < 0x80 then (1, True)
           else if 0xC2 \<le> a \<and> a \<le> 0xDF then
             (case t of b # _ \<Rightarrow> if utf8_cont b then (2, True) else (1, False) | [] \<Rightarrow> (1, False))
           else if 0xE0 \<le> a \<and> a \<le> 0xEF then
             (case t of
                [] \<Rightarrow> (1, False)
              | b # u \<Rightarrow>
                  if \<not> utf8_second a b then (1, False)
                  else (case u of d # _ \<Rightarrow> if utf8_cont d then (3, True) else (2, False) | [] \<Rightarrow> (2, False)))
           else if 0xF0 \<le> a \<and> a \<le> 0xF4 then
             (case t of
                [] \<Rightarrow> (1, False)
              | b # u \<Rightarrow>
                  if \<not> utf8_second a b then (1, False)
                  else (case u of
                          [] \<Rightarrow> (2, False)
                        | d # v \<Rightarrow>
                            if \<not> utf8_cont d then (2, False)
                            else (case v of e # _ \<Rightarrow> if utf8_cont e then (4, True) else (3, False)
                                  | [] \<Rightarrow> (3, False))))
           else (1, False)))"

function from_utf8_lossy :: "string \<Rightarrow> string" where
  "from_utf8_lossy s =
     (if s = [] then []
      else let (n, ok) = utf8_step s in
           (if ok then take n s else [CHR 0xEF, CHR 0xBF, CHR 0xBD]) @ from_utf8_lossy (drop n s))"
  by auto

lemma utf8_step_pos: "s \<noteq> [] \<Longrightarrow> 0 < fst (utf8_step s)"
  by (cases s) (auto simp: utf8_step_def Let_def split: list.splits)

termination from_utf8_lossy
proof (relation "measure length")
  fix s x n ok
  assume "s \<noteq> []" "x = utf8_step s" "(n, ok) = x"
  with utf8_step_pos [of s] have "0 < n" by (metis fst_conv)
  with \<open>s \<noteq> []\<close> show "(drop n s, s) \<in> measure length" by simp
qed simp

declare from_utf8_lossy.simps [simp del]

lemma utf8_valid_step:
  assumes "utf8_valid s" and "s \<noteq> []"
  shows "snd (utf8_step s) \<and> utf8_valid (drop (fst (utf8_step s)) s)"
proof (cases s)
  case (Cons c t)
  let ?a = "of_char c :: nat"
  consider "?a < 0x80" | "\<not> ?a < 0x80" "0xC2 \<le> ?a \<and> ?a \<le> 0xDF"
    | "\<not> ?a < 0x80" "\<not> (0xC2 \<le> ?a \<and> ?a \<le> 0xDF)" "0xE0 \<le> ?a \<and> ?a \<le> 0xEF"
    | "\<not> ?a < 0x80" "\<not> (0xC2 \<le> ?a \<and> ?a \<le> 0xDF)" "\<not> (0xE0 \<le> ?a \<and> ?a \<le> 0xEF)" "0xF0 \<le> ?a \<and> ?a \<le> 0xF4"
    | "\<not> ?a < 0x80" "\<not> (0xC2 \<le> ?a \<and> ?a \<le> 0xDF)" "\<not> (0xE0 \<le> ?a \<and> ?a \<le> 0xEF)" "\<not> (0xF0 \<le> ?a \<and> ?a \<le> 0xF4)"
    by blast
  then show ?thesis
  proof cases
    case 1
    then show ?thesis using assms Cons by (simp add: utf8_step_def Let_def)
  next
    case 2
    then show ?thesis using assms Cons by (cases t) (simp_all add: utf8_step_def Let_def)
  next
    case 3
    then obtain b d u where "t = b # d # u" using assms Cons by (auto simp: Let_def split: list.splits)
    with 3 show ?thesis using assms Cons by (simp add: utf8_step_def Let_def)
  next
    case 4
    then obtain b d e u where "t = b # d # e # u" using assms Cons by (auto simp: Let_def split: list.splits)
    with 4 show ?thesis using assms Cons by (simp add: utf8_step_def Let_def)
  next
    case 5
    then show ?thesis using assms Cons by (auto simp: Let_def split: if_splits)
  qed
qed (use assms in simp)

text \<open>Text that is valid UTF-8 is left as it is.\<close>

lemma from_utf8_lossy_valid: "utf8_valid s \<Longrightarrow> from_utf8_lossy s = s"
proof (induction s rule: from_utf8_lossy.induct)
  case (1 s)
  show ?case
  proof (cases "s = []")
    case True
    then show ?thesis by (simp add: from_utf8_lossy.simps)
  next
    case False
    with utf8_valid_step [OF 1(2)]
    have ok: "snd (utf8_step s)" "utf8_valid (drop (fst (utf8_step s)) s)" by auto
    with 1(1) [OF False, of "utf8_step s" "fst (utf8_step s)" True]
    have "from_utf8_lossy (drop (fst (utf8_step s)) s) = drop (fst (utf8_step s)) s"
      by (metis prod.collapse)
    with False ok(1) show ?thesis by (subst from_utf8_lossy.simps) (simp add: split_beta)
  qed
qed

text \<open>
  Valid text is a sequence of characters. A byte that continues a character begins none, so valid text
  can be cut before every other byte.
\<close>

definition utf8_char :: "string \<Rightarrow> bool" where
  "utf8_char ch =
     (case ch of
        [c] \<Rightarrow> of_char c < (0x80::nat)
      | [c, b] \<Rightarrow> 0xC2 \<le> (of_char c :: nat) \<and> of_char c \<le> (0xDF::nat) \<and> utf8_cont b
      | [c, b, d] \<Rightarrow> 0xE0 \<le> (of_char c :: nat) \<and> of_char c \<le> (0xEF::nat) \<and> utf8_second (of_char c) b \<and> utf8_cont d
      | [c, b, d, e] \<Rightarrow> 0xF0 \<le> (of_char c :: nat) \<and> of_char c \<le> (0xF4::nat) \<and> utf8_second (of_char c) b \<and>
          utf8_cont d \<and> utf8_cont e
      | _ \<Rightarrow> False)"

lemma utf8_second_cont: "utf8_second a c \<Longrightarrow> utf8_cont c"
  by (auto simp: utf8_second_def utf8_cont_def Let_def split: if_splits)

lemma utf8_char_tail: "utf8_char (c # cs) \<Longrightarrow> x \<in> set cs \<Longrightarrow> utf8_cont x"
  by (auto simp: utf8_char_def dest: utf8_second_cont split: list.splits)

lemma utf8_valid_char: "utf8_char ch \<Longrightarrow> utf8_valid (ch @ s) = utf8_valid s"
proof -
  assume ch: "utf8_char ch"
  then consider c where "ch = [c]" | c b where "ch = [c, b]" | c b d where "ch = [c, b, d]"
    | c b d e where "ch = [c, b, d, e]"
    unfolding utf8_char_def by (auto split: list.splits)
  then show ?thesis
  proof cases
    case 1
    with ch show ?thesis by (simp add: utf8_char_def Let_def)
  next
    case 2
    with ch show ?thesis by (simp add: utf8_char_def Let_def)
  next
    case 3
    with ch show ?thesis by (simp add: utf8_char_def Let_def)
  next
    case 4
    with ch show ?thesis by (simp add: utf8_char_def Let_def)
  qed
qed

lemma utf8_valid_first:
  assumes "utf8_valid s" and "s \<noteq> []"
  obtains ch t where "s = ch @ t" "utf8_char ch" "utf8_valid t" "ch \<noteq> []"
proof -
  obtain c u where s: "s = c # u" using assms(2) by (cases s) auto
  let ?a = "of_char c :: nat"
  consider "?a < 0x80" | "\<not> ?a < 0x80" "0xC2 \<le> ?a \<and> ?a \<le> 0xDF"
    | "\<not> ?a < 0x80" "\<not> (0xC2 \<le> ?a \<and> ?a \<le> 0xDF)" "0xE0 \<le> ?a \<and> ?a \<le> 0xEF"
    | "\<not> ?a < 0x80" "\<not> (0xC2 \<le> ?a \<and> ?a \<le> 0xDF)" "\<not> (0xE0 \<le> ?a \<and> ?a \<le> 0xEF)" "0xF0 \<le> ?a \<and> ?a \<le> 0xF4"
    using assms(1) s by (auto simp: Let_def split: if_splits)
  then show ?thesis
  proof cases
    case 1
    then show ?thesis using assms s that [of "[c]" u] by (simp add: utf8_char_def Let_def)
  next
    case 2
    then obtain b t where "u = b # t" "utf8_cont b" "utf8_valid t"
      using assms s by (auto simp: Let_def split: list.splits)
    with 2 show ?thesis using s that [of "[c, b]" t] by (simp add: utf8_char_def)
  next
    case 3
    then obtain b d t where "u = b # d # t" "utf8_second ?a b" "utf8_cont d" "utf8_valid t"
      using assms s by (auto simp: Let_def split: list.splits)
    with 3 show ?thesis using s that [of "[c, b, d]" t] by (simp add: utf8_char_def)
  next
    case 4
    then obtain b d e t where "u = b # d # e # t" "utf8_second ?a b" "utf8_cont d" "utf8_cont e" "utf8_valid t"
      using assms s by (auto simp: Let_def split: list.splits)
    with 4 show ?thesis using s that [of "[c, b, d, e]" t] by (simp add: utf8_char_def)
  qed
qed

lemma utf8_valid_head: "utf8_valid s \<Longrightarrow> s \<noteq> [] \<Longrightarrow> \<not> utf8_cont (hd s)"
  by (cases s) (auto simp: utf8_cont_def Let_def split: if_splits)

lemma utf8_valid_append_iff: "utf8_valid s \<Longrightarrow> utf8_valid (s @ t) = utf8_valid t"
proof (induction s rule: measure_induct_rule [of length])
  case (less s)
  show ?case
  proof (cases "s = []")
    case False
    from utf8_valid_first [OF less.prems False] obtain ch u
      where u: "s = ch @ u" "utf8_char ch" "utf8_valid u" "ch \<noteq> []" by metis
    then have "utf8_valid (s @ t) = utf8_valid (u @ t)" by (simp add: utf8_valid_char)
    with less.IH [of u] u show ?thesis by simp
  qed simp
qed

lemma utf8_valid_cut:
  "utf8_valid (s @ t) \<Longrightarrow> t = [] \<or> \<not> utf8_cont (hd t) \<Longrightarrow> utf8_valid s"
proof (induction s rule: measure_induct_rule [of length])
  case (less s)
  show ?case
  proof (cases "s = []")
    case False
    then have "s @ t \<noteq> []" by simp
    from utf8_valid_first [OF less.prems(1) this] obtain ch u
      where u: "s @ t = ch @ u" "utf8_char ch" "utf8_valid u" "ch \<noteq> []" by metis
    then consider r where "s = ch @ r" "r @ t = u" | r where "ch = s @ r" "t = r @ u"
      by (auto simp: append_eq_append_conv2)
    then show ?thesis
    proof cases
      case (1 r)
      with less.IH [of r] u less.prems(2) show ?thesis by (simp add: utf8_valid_char)
    next
      case (2 r)
      have "r = []"
      proof (rule ccontr)
        assume "r \<noteq> []"
        obtain c cs where "s = c # cs" using False by (cases s) auto
        with 2 u(2) \<open>r \<noteq> []\<close> have "utf8_cont (hd r)" by (auto intro!: utf8_char_tail [of c "cs @ r"])
        with 2 \<open>r \<noteq> []\<close> less.prems(2) show False by simp
      qed
      with 2 u(2) show ?thesis using utf8_valid_char [of ch "[]"] by simp
    qed
  qed simp
qed

section \<open>Numbers as text\<close>

definition digit_char :: "nat \<Rightarrow> char" where
  "digit_char d = char_of (48 + d)"

fun nat_to_string :: "nat \<Rightarrow> string" where
  "nat_to_string n = (if n < 10 then [digit_char n]
     else nat_to_string (n div 10) @ [digit_char (n mod 10)])"

declare nat_to_string.simps [simp del]

lemma digit_char_eval [str_simps]:
  "digit_char 0 = CHR ''0''"
  "digit_char 1 = CHR ''1''"
  "digit_char 2 = CHR ''2''"
  "digit_char 3 = CHR ''3''"
  "digit_char 4 = CHR ''4''"
  "digit_char 5 = CHR ''5''"
  "digit_char 6 = CHR ''6''"
  "digit_char 7 = CHR ''7''"
  "digit_char 8 = CHR ''8''"
  "digit_char 9 = CHR ''9''"
  "digit_char (Suc 0) = CHR ''1''"
  by code_simp+

definition digit_val :: "char \<Rightarrow> nat option" where
  "digit_val c = (let n = of_char c :: nat in if 48 \<le> n \<and> n \<le> 57 then Some (n - 48) else None)"

fun digits_val :: "nat \<Rightarrow> string \<Rightarrow> nat option" where
  "digits_val acc [] = Some acc"
| "digits_val acc (c # cs) =
     (case digit_val c of None \<Rightarrow> None | Some d \<Rightarrow> digits_val (10 * acc + d) cs)"

text \<open>
  \<open>str::parse\<close> at an unsigned integer type of \<open>bits\<close> bits: an optional plus sign, then at least
  one digit, and no overflow.
\<close>

definition parse_uint :: "nat \<Rightarrow> string \<Rightarrow> nat option" where
  "parse_uint bits s =
     (let t = (case s of c # cs \<Rightarrow> if c = CHR ''+'' then cs else s | [] \<Rightarrow> []) in
      if t = [] then None
      else case digits_val 0 t of
        None \<Rightarrow> None
      | Some n \<Rightarrow> if n < 2 ^ bits then Some n else None)"

lemma digit_val_digit_char [simp]: "d < 10 \<Longrightarrow> digit_val (digit_char d) = Some d"
  by (simp add: digit_val_def digit_char_def of_char_of)

lemma digit_char_not_plus: "d < 10 \<Longrightarrow> digit_char d \<noteq> CHR ''+''"
proof
  assume d: "d < 10" and "digit_char d = CHR ''+''"
  then have "digit_val (CHR ''+'') = Some d" using digit_val_digit_char by metis
  then show False by (simp add: digit_val_def)
qed

lemma digits_val_append:
  "digits_val acc (a @ b) = (case digits_val acc a of None \<Rightarrow> None | Some n \<Rightarrow> digits_val n b)"
  by (induction a arbitrary: acc) (auto split: option.splits)

lemma digits_val_nat_to_string: "digits_val 0 (nat_to_string n) = Some n"
proof (induction n rule: nat_to_string.induct)
  case (1 n)
  show ?case
  proof (cases "n < 10")
    case True
    then show ?thesis by (simp add: nat_to_string.simps [of n])
  next
    case False
    with 1 show ?thesis
      by (simp add: nat_to_string.simps [of n] digits_val_append)
  qed
qed

lemma nat_to_string_nonempty [simp]: "nat_to_string n \<noteq> []"
  by (subst nat_to_string.simps) simp

lemma nat_to_string_digits: "c \<in> set (nat_to_string n) \<Longrightarrow> \<exists>d<10. c = digit_char d"
proof (induction n rule: nat_to_string.induct)
  case (1 n)
  show ?case
  proof (cases "n < 10")
    case True
    with 1 show ?thesis by (auto simp: nat_to_string.simps [of n])
  next
    case False
    then have "c \<in> set (nat_to_string (n div 10)) \<or> c = digit_char (n mod 10)"
      using "1.prems" by (auto simp: nat_to_string.simps [of n])
    then show ?thesis
      using "1.IH" [OF False] by (metis mod_less_divisor zero_less_numeral)
  qed
qed

lemma nat_to_string_inj: "nat_to_string m = nat_to_string n \<Longrightarrow> m = n"
  by (metis digits_val_nat_to_string option.inject)

lemma parse_uint_nat_to_string:
  assumes "n < 2 ^ bits"
  shows "parse_uint bits (nat_to_string n) = Some n"
proof -
  obtain c cs where s: "nat_to_string n = c # cs"
    by (cases "nat_to_string n") auto
  then have "c \<noteq> CHR ''+''"
    using nat_to_string_digits [of c n] digit_char_not_plus by auto
  with s show ?thesis
    using assms digits_val_nat_to_string [of n] by (simp add: parse_uint_def)
qed

lemma parse_uint_bound: "parse_uint bits s = Some n \<Longrightarrow> n < 2 ^ bits"
  by (auto simp: parse_uint_def Let_def split: if_splits option.splits)

section \<open>Debug formatting of strings\<close>

text \<open>
  \<open>{:?}\<close> of a string: quoted, with the quote, the backslash and the control characters escaped.
  Bytes above the ASCII range are copied; the standard library also escapes the unprintable ones
  among them.
\<close>

definition hex_digit :: "nat \<Rightarrow> char" where
  "hex_digit d = (if d < 10 then char_of (48 + d) else char_of (87 + d))"

definition debug_char :: "char \<Rightarrow> string" where
  "debug_char c =
     (let n = of_char c :: nat; bs = CHR 0x5C in
      if c = CHR 0x22 \<or> c = bs then [bs, c]
      else if n = 0 then [bs, CHR ''0'']
      else if n = 9 then [bs, CHR ''t'']
      else if n = 10 then [bs, CHR ''n'']
      else if n = 13 then [bs, CHR ''r'']
      else if n < 32 \<or> n = 127 then
        [bs, CHR ''u'', CHR ''{''] @ (if n < 16 then [] else [hex_digit (n div 16)])
          @ [hex_digit (n mod 16), CHR ''}'']
      else [c])"

definition debug_str :: "string \<Rightarrow> string" where
  "debug_str s = [CHR 0x22] @ concat (map debug_char s) @ [CHR 0x22]"

fun join_with :: "string \<Rightarrow> string list \<Rightarrow> string" where
  "join_with sep [] = []"
| "join_with sep [x] = x"
| "join_with sep (x # y # ys) = x @ sep @ join_with sep (y # ys)"

definition debug_str_list :: "string list \<Rightarrow> string" where
  "debug_str_list xs = ''['' @ join_with '', '' (map debug_str xs) @ '']''"

section \<open>Replacement\<close>

text \<open>\<open>str::replace\<close>: every non-overlapping occurrence, from the left; the pattern is not empty.\<close>

function str_replace :: "string \<Rightarrow> string \<Rightarrow> string \<Rightarrow> string" where
  "str_replace pat by_s [] = []"
| "str_replace pat by_s (c # cs) =
     (if pat \<noteq> [] \<and> prefix pat (c # cs)
      then by_s @ str_replace pat by_s (drop (length pat) (c # cs))
      else c # str_replace pat by_s cs)"
  by pat_completeness auto
termination
  by (relation "measure (\<lambda>(pat, by_s, s). length s)") (auto simp: neq_Nil_conv)

lemma str_replace_self: "pat \<noteq> [] \<Longrightarrow> str_replace pat v pat = v"
  by (cases pat) auto

section \<open>First matches in a vector\<close>

text \<open>\<open>iter().position\<close>: the index of the first element that satisfies the predicate.\<close>

fun position :: "('a \<Rightarrow> bool) \<Rightarrow> 'a list \<Rightarrow> nat option" where
  "position P [] = None"
| "position P (x # xs) = (if P x then Some 0 else map_option Suc (position P xs))"

lemma position_Some_iff:
  "position P xs = Some i \<longleftrightarrow> i < length xs \<and> P (xs ! i) \<and> (\<forall>j<i. \<not> P (xs ! j))"
proof (induction xs arbitrary: i)
  case Nil
  then show ?case by simp
next
  case (Cons x xs)
  then show ?case by (cases i) (auto simp: less_Suc_eq_0_disj)
qed

lemma position_None_iff: "position P xs = None \<longleftrightarrow> (\<forall>x\<in>set xs. \<not> P x)"
  by (induction xs) auto

lemma position_cong:
  "(\<And>x. x \<in> set xs \<Longrightarrow> P x = Q x) \<Longrightarrow> position P xs = position Q xs"
  by (induction xs) auto

text \<open>\<open>last_mut\<close>: the last element of a vector replaced.\<close>

definition update_last :: "('a \<Rightarrow> 'a) \<Rightarrow> 'a list \<Rightarrow> 'a list" where
  "update_last f xs = (if xs = [] then [] else butlast xs @ [f (last xs)])"

lemma length_filter_update:
  assumes "i < length xs" and "P (xs ! i)" and "\<not> P y"
  shows "Suc (length (filter P (xs[i := y]))) = length (filter P xs)"
  using assms
proof (induction xs arbitrary: i)
  case Nil
  then show ?case by simp
next
  case (Cons x xs)
  then show ?case by (cases i) auto
qed

lemma set_map_filter_iff: "y \<in> set (List.map_filter f xs) \<longleftrightarrow> (\<exists>x\<in>set xs. f x = Some y)"
  by (induction xs) (auto split: option.splits)

section \<open>Ordered maps\<close>

text \<open>\<open>BTreeMap::insert\<close>.\<close>

fun bt_insert :: "string \<Rightarrow> 'a \<Rightarrow> (string \<times> 'a) list \<Rightarrow> (string \<times> 'a) list" where
  "bt_insert k v [] = [(k, v)]"
| "bt_insert k v ((k', v') # m) =
     (if k < k' then (k, v) # (k', v') # m
      else if k = k' then (k, v) # m
      else (k', v') # bt_insert k v m)"

lemma map_of_bt_insert: "map_of (bt_insert k v m) = (map_of m)(k \<mapsto> v)"
  by (induction m) (auto simp: fun_eq_iff)

lemma set_bt_insert: "fst ` set (bt_insert k v m) = insert k (fst ` set m)"
  by (induction k v m rule: bt_insert.induct) auto

lemma bt_insert_sorted: "sorted_wrt (<) (map fst m) \<Longrightarrow> sorted_wrt (<) (map fst (bt_insert k v m))"
proof (induction m)
  case (Cons e m)
  obtain k' v' where e: "e = (k', v')" by (cases e)
  have "set (map fst (bt_insert k v m)) = insert k (fst ` set m)" using set_bt_insert [of k v m] by simp
  with Cons e show ?case by (auto intro: order.strict_trans)
qed simp

section \<open>Paths\<close>

text \<open>A path split at its separators, empty components included.\<close>

fun path_components :: "string \<Rightarrow> string list" where
  "path_components [] = [[]]"
| "path_components (c # cs) =
     (if c = CHR ''/'' then [] # path_components cs
      else case path_components cs of [] \<Rightarrow> [[c]] | l # ls \<Rightarrow> (c # l) # ls)"

section \<open>Runs of a step relation\<close>

inductive reach_by :: "('s \<Rightarrow> 's \<Rightarrow> bool) \<Rightarrow> 's \<Rightarrow> 's \<Rightarrow> bool" for R where
  reach_refl: "reach_by R s s"
| reach_step: "reach_by R s t \<Longrightarrow> R t u \<Longrightarrow> reach_by R s u"

text \<open>
  The contract between a step relation and an invariant: every step keeps it. What the components
  need of their machines follows once, here.
\<close>

locale invariant_system =
  fixes step :: "'s \<Rightarrow> 's \<Rightarrow> bool" and inv :: "'s \<Rightarrow> bool"
  assumes inv_step: "inv s \<Longrightarrow> step s t \<Longrightarrow> inv t"
begin

lemma inv_reachable: "reach_by step s t \<Longrightarrow> inv s \<Longrightarrow> inv t"
  by (induction rule: reach_by.induct) (auto intro: inv_step)

end

section \<open>Logs that only grow\<close>

text \<open>
  \<open>extends_by trace P s s'\<close>: from \<open>s\<close> to \<open>s'\<close> the log read by \<open>trace\<close> grew by entries that all
  satisfy \<open>P\<close>.
\<close>

definition extends_by :: "('s \<Rightarrow> 'a list) \<Rightarrow> ('a \<Rightarrow> bool) \<Rightarrow> 's \<Rightarrow> 's \<Rightarrow> bool" where
  "extends_by trace P s s' = (\<exists>new. trace s' = trace s @ new \<and> list_all P new)"

lemma extends_by_refl [intro, simp]: "extends_by trace P s s"
  by (simp add: extends_by_def)

lemma extends_by_trans: "extends_by trace P s t \<Longrightarrow> extends_by trace P t u \<Longrightarrow> extends_by trace P s u"
  by (fastforce simp: extends_by_def)

lemma extends_by_mono:
  "extends_by trace P s t \<Longrightarrow> (\<And>a. P a \<Longrightarrow> Q a) \<Longrightarrow> extends_by trace Q s t"
  by (fastforce simp: extends_by_def list_all_iff)

lemma extends_by_same: "trace t = trace s \<Longrightarrow> extends_by trace P s t"
  by (simp add: extends_by_def)

end
