(* ===== verification/Silo_Json.thy ===== *)
theory Silo_Json
  imports Silo_Prelude Complex_Main
begin

text \<open>
  The JSON values of \<open>serde_json\<close> as the crates use them, and the subset match of
  \<open>silo-core/src/replay.rs\<close> that decides whether a scripted tool execution answers a call.

  The workspace builds \<open>serde_json\<close> without \<open>preserve_order\<close>, so an object is a \<open>BTreeMap\<close>: its
  entries are listed by strictly increasing key. \<open>json_wf\<close> states this of every object in a value,
  and the operations that build objects keep it.
\<close>

datatype json_number = PosInt u64 | NegInt u64 | JFloat rat

datatype json =
    JNull
  | JBool bool
  | JNumber json_number
  | JString string
  | JArray "json list"
  | JObject "(string \<times> json) list"

section \<open>Objects as ordered maps\<close>

definition obj_get :: "(string \<times> json) list \<Rightarrow> string \<Rightarrow> json option" where
  "obj_get m k = map_of m k"

fun obj_insert :: "string \<Rightarrow> json \<Rightarrow> (string \<times> json) list \<Rightarrow> (string \<times> json) list" where
  "obj_insert k v [] = [(k, v)]"
| "obj_insert k v ((k', v') # m) =
     (if k < k' then (k, v) # (k', v') # m
      else if k = k' then (k, v) # m
      else (k', v') # obj_insert k v m)"

definition obj_wf :: "(string \<times> 'a) list \<Rightarrow> bool" where
  "obj_wf m = sorted_wrt (<) (map fst m)"

fun json_wf :: "json \<Rightarrow> bool" where
  "json_wf (JArray xs) = list_all json_wf xs"
| "json_wf (JObject m) = (obj_wf m \<and> list_all (\<lambda>kv. json_wf (snd kv)) m)"
| "json_wf _ = True"

text \<open>\<open>Value::get(key)\<close> on a value, and \<open>Value::as_str\<close>.\<close>

definition json_get :: "json \<Rightarrow> string \<Rightarrow> json option" where
  "json_get v k = (case v of JObject m \<Rightarrow> obj_get m k | _ \<Rightarrow> None)"

definition json_as_str :: "json \<Rightarrow> string option" where
  "json_as_str v = (case v of JString s \<Rightarrow> Some s | _ \<Rightarrow> None)"

definition json_as_u64 :: "json \<Rightarrow> u64 option" where
  "json_as_u64 v = (case v of JNumber (PosInt n) \<Rightarrow> Some n | _ \<Rightarrow> None)"

definition json_get_str :: "json \<Rightarrow> string \<Rightarrow> string option" where
  "json_get_str v k = Option.bind (json_get v k) json_as_str"

lemma obj_get_insert_same [simp]: "obj_get (obj_insert k v m) k = Some v"
  by (induction m) (auto simp: obj_get_def)

lemma obj_get_insert_other [simp]: "k' \<noteq> k \<Longrightarrow> obj_get (obj_insert k v m) k' = obj_get m k'"
  by (induction m) (auto simp: obj_get_def)

lemma fst_set_obj_insert: "fst ` set (obj_insert k v m) = insert k (fst ` set m)"
proof (induction m)
  case (Cons e m)
  then show ?case by (cases e) (auto simp only: obj_insert.simps list.set image_insert fst_conv split: if_splits)
qed simp

lemma obj_wf_insert: "obj_wf m \<Longrightarrow> obj_wf (obj_insert k v m)"
proof (induction m)
  case Nil
  then show ?case by (simp add: obj_wf_def)
next
  case (Cons e m)
  obtain k' v' where e: "e = (k', v')" by (cases e)
  have tail: "obj_wf m" and heads: "\<forall>x\<in>fst ` set m. k' < x"
    using Cons.prems by (auto simp: obj_wf_def e)
  consider "k < k'" | "k = k'" | "k' < k" by (metis linorder_less_linear)
  then show ?case
  proof cases
    case 3
    then have "\<forall>x\<in>fst ` set (obj_insert k v m). k' < x"
      using heads by (auto simp: fst_set_obj_insert)
    with 3 Cons.IH [OF tail] show ?thesis by (auto simp: obj_wf_def e)
  qed (use tail heads in \<open>auto simp: obj_wf_def e dest: less_trans\<close>)
qed

lemma obj_wf_distinct: "obj_wf m \<Longrightarrow> distinct (map fst m)"
  unfolding obj_wf_def by (metis strict_sorted_iff)

lemma obj_get_eq_Some: "obj_wf m \<Longrightarrow> obj_get m k = Some v \<longleftrightarrow> (k, v) \<in> set m"
  by (simp add: obj_get_def obj_wf_distinct)

section \<open>The subset match\<close>

function json_subset_matches :: "json \<Rightarrow> json \<Rightarrow> bool" where
  "json_subset_matches (JObject ex) (JObject act) =
     list_all (\<lambda>kv. case obj_get act (fst kv) of
                 None \<Rightarrow> False
               | Some actual_value \<Rightarrow> json_subset_matches (snd kv) actual_value) ex"
| "json_subset_matches JNull a = (JNull = a)"
| "json_subset_matches (JBool b) a = (JBool b = a)"
| "json_subset_matches (JNumber n) a = (JNumber n = a)"
| "json_subset_matches (JString s) a = (JString s = a)"
| "json_subset_matches (JArray xs) a = (JArray xs = a)"
| "json_subset_matches (JObject ex) JNull = False"
| "json_subset_matches (JObject ex) (JBool b) = False"
| "json_subset_matches (JObject ex) (JNumber n) = False"
| "json_subset_matches (JObject ex) (JString s) = False"
| "json_subset_matches (JObject ex) (JArray xs) = False"
  by pat_completeness auto
termination
proof (relation "measure (\<lambda>(e, a). size e)")
  fix ex act :: "(string \<times> json) list" and kv :: "string \<times> json" and v
  assume "kv \<in> set ex"
  then show "((snd kv, v), JObject ex, JObject act) \<in> measure (\<lambda>(e, a). size e)"
    by (induction ex) (auto simp: less_Suc_eq_le)
qed simp

lemma json_subset_obj_iff:
  "json_subset_matches (JObject ex) (JObject act) \<longleftrightarrow>
     (\<forall>(k, v)\<in>set ex. \<exists>w. obj_get act k = Some w \<and> json_subset_matches v w)"
  by (force simp: list_all_iff split: option.splits)

declare json_subset_matches.simps(1) [simp del]

lemma json_subset_non_obj:
  "\<not> (\<exists>ex act. e = JObject ex \<and> a = JObject act) \<Longrightarrow> json_subset_matches e a = (e = a)"
  by (cases e; cases a) auto

lemma json_subset_refl: "json_wf v \<Longrightarrow> json_subset_matches v v"
proof (induction v rule: json_wf.induct)
  case (2 m)
  have "\<exists>w. obj_get m k = Some w \<and> json_subset_matches v w" if kv: "(k, v) \<in> set m" for k v
  proof -
    have "obj_get m k = Some v" using 2 kv by (simp add: obj_get_eq_Some)
    moreover have "json_subset_matches v v" using 2 kv by (fastforce simp: list_all_iff)
    ultimately show ?thesis by blast
  qed
  then show ?case by (auto simp: json_subset_obj_iff)
qed auto

lemma json_subset_trans:
  assumes "json_subset_matches a b" and "json_subset_matches b c"
  shows "json_subset_matches a c"
  using assms
proof (induction a b arbitrary: c rule: json_subset_matches.induct)
  case (1 ex act)
  show ?case
  proof (cases c)
    case (JObject cm)
    have "\<exists>w. obj_get cm k = Some w \<and> json_subset_matches v w" if kv: "(k, v) \<in> set ex" for k v
    proof -
      obtain w where w: "obj_get act k = Some w" "json_subset_matches v w"
        using 1 kv by (auto simp: json_subset_obj_iff)
      then have "(k, w) \<in> set act" by (auto simp: obj_get_def dest: map_of_SomeD)
      then obtain u where u: "obj_get cm k = Some u" "json_subset_matches w u"
        using "1.prems"(2) JObject by (auto simp: json_subset_obj_iff)
      have "json_subset_matches v u"
        using "1.IH" [OF kv, of w] w u by simp
      with u show ?thesis by blast
    qed
    with JObject show ?thesis by (auto simp: json_subset_obj_iff)
  qed (use 1 in auto)
qed auto

end
