(* ===== verification/Silo_Core.thy ===== *)
theory Silo_Core
  imports Silo_Json
begin

text \<open>
  The shared contracts of \<open>silo-core\<close>: conversation types (\<open>conversation.rs\<close>), tools and their
  registry (\<open>tool.rs\<close>), error types with their display form (\<open>error.rs\<close>), logical time
  (\<open>clock.rs\<close>), usage metering and quotas (\<open>cost.rs\<close>), the access report (\<open>sandbox.rs\<close>) and the
  frontend commands (\<open>traits.rs\<close>). Structs are records with a prefix per struct, enums are
  datatypes with the source's constructors and a prefix per enum.
\<close>

section \<open>Conversations\<close>

type_synonym agent_id = string

definition top_level_agent_id :: agent_id where
  "top_level_agent_id = ''agent-0''"

datatype agent_kind = TopLevel | Subagent

datatype role = User | Assistant

datatype content_block =
    CB_Text string
  | CB_ToolUse string string json
  | CB_ToolResult string string bool

record message =
  msg_role :: role
  msg_content :: "content_block list"

definition user_text :: "string \<Rightarrow> message" where
  "user_text t = \<lparr>msg_role = User, msg_content = [CB_Text t]\<rparr>"

definition assistant :: "content_block list \<Rightarrow> message" where
  "assistant content = \<lparr>msg_role = Assistant, msg_content = content\<rparr>"

fun text_block :: "content_block \<Rightarrow> string option" where
  "text_block (CB_Text t) = Some t"
| "text_block _ = None"

definition blocks_text :: "content_block list \<Rightarrow> string" where
  "blocks_text bs = join_with [CHR 0x0A] (List.map_filter text_block bs)"

definition message_text :: "message \<Rightarrow> string" where
  "message_text m = blocks_text (msg_content m)"

datatype stop_reason = SR_EndTurn | SR_ToolUse | SR_MaxTokens | SR_Other string

record token_delta =
  td_input_tokens :: u64
  td_output_tokens :: u64

section \<open>Tools\<close>

datatype tool_availability = TopLevelOnly | SubagentOnly | Both

fun available_to :: "tool_availability \<Rightarrow> agent_kind \<Rightarrow> bool" where
  "available_to Both _ = True"
| "available_to TopLevelOnly TopLevel = True"
| "available_to SubagentOnly Subagent = True"
| "available_to _ _ = False"

record tool_def =
  def_name :: string
  def_description :: string
  def_input_schema :: json
  def_availability :: tool_availability

record tool_call =
  tc_id :: string
  tc_name :: string
  tc_input :: json

definition INTERRUPTED_BY_USER :: string where
  "INTERRUPTED_BY_USER = ''[interrupted by the user]''"

record tool_output =
  out_content :: string
  out_is_error :: bool

definition output_ok :: "string \<Rightarrow> tool_output" where
  "output_ok c = \<lparr>out_content = c, out_is_error = False\<rparr>"

definition output_error :: "string \<Rightarrow> tool_output" where
  "output_error c = \<lparr>out_content = c, out_is_error = True\<rparr>"

datatype tool_owner = Owner_Sandbox | Owner_Frontend | Owner_Harness

record registered_tool =
  reg_def :: tool_def
  reg_owner :: tool_owner

type_synonym tool_registry = "registered_tool list"

definition registry_add :: "tool_def \<Rightarrow> tool_owner \<Rightarrow> tool_registry \<Rightarrow> tool_registry" where
  "registry_add d ow r = r @ [\<lparr>reg_def = d, reg_owner = ow\<rparr>]"

fun registry_add_all :: "tool_def list \<Rightarrow> tool_owner \<Rightarrow> tool_registry \<Rightarrow> tool_registry" where
  "registry_add_all [] ow r = r"
| "registry_add_all (d # ds) ow r = registry_add_all ds ow (registry_add d ow r)"

definition defs_for :: "tool_registry \<Rightarrow> agent_kind \<Rightarrow> tool_def list" where
  "defs_for r kind =
     map reg_def (filter (\<lambda>e. available_to (def_availability (reg_def e)) kind) r)"

definition owner_of :: "tool_registry \<Rightarrow> string \<Rightarrow> tool_owner option" where
  "owner_of r nm = map_option reg_owner (find (\<lambda>e. def_name (reg_def e) = nm) r)"

record completion_request =
  req_system :: string
  req_messages :: "message list"
  req_tools :: "tool_def list"
  req_max_tokens :: u32

record completion_response =
  resp_content :: "content_block list"
  resp_stop_reason :: stop_reason
  resp_usage :: token_delta

fun tool_use_block :: "content_block \<Rightarrow> (string \<times> string \<times> json) option" where
  "tool_use_block (CB_ToolUse i n inp) = Some (i, n, inp)"
| "tool_use_block _ = None"

definition tool_uses :: "completion_response \<Rightarrow> (string \<times> string \<times> json) list" where
  "tool_uses r = List.map_filter tool_use_block (resp_content r)"

definition response_text :: "completion_response \<Rightarrow> string" where
  "response_text r = blocks_text (resp_content r)"

section \<open>Errors and their display form\<close>

text \<open>An I/O error is carried as its display text.\<close>

type_synonym io_error = string

datatype llm_error =
    Llm_Api string
  | Llm_Transport string
  | Llm_Config string
  | Llm_QuotaExceeded string
  | Llm_Malformed string
  | Llm_ScriptMismatch string

datatype sandbox_error =
    Sb_Unavailable string
  | Sb_Setup string
  | Sb_Helper string
  | Sb_Rejected string
  | Sb_Io io_error
  | Sb_ScriptMismatch string

datatype proxy_error = Px_Setup string | Px_Tls string | Px_Io io_error

datatype frontend_error =
    Fe_Setup string
  | Fe_Auth string
  | Fe_Closed string
  | Fe_Io io_error
  | Fe_ScriptMismatch string

datatype workspace_error =
    Ws_Locked string
  | Ws_NotLocked string
  | Ws_Setup string
  | Ws_Damaged string
  | Ws_Io io_error

datatype harness_error =
    He_Llm llm_error
  | He_Sandbox sandbox_error
  | He_Proxy proxy_error
  | He_Frontend frontend_error
  | He_Workspace workspace_error
  | He_Config string
  | He_Io io_error
  | He_Other string

fun llm_error_to_string :: "llm_error \<Rightarrow> string" where
  "llm_error_to_string (Llm_Api m) = ''llm api error: '' @ m"
| "llm_error_to_string (Llm_Transport m) = ''llm transport error: '' @ m"
| "llm_error_to_string (Llm_Config m) = ''llm configuration error: '' @ m"
| "llm_error_to_string (Llm_QuotaExceeded m) = ''llm quota exceeded: '' @ m"
| "llm_error_to_string (Llm_Malformed m) = ''llm response malformed: '' @ m"
| "llm_error_to_string (Llm_ScriptMismatch m) = ''llm script mismatch: '' @ m"

fun sandbox_error_to_string :: "sandbox_error \<Rightarrow> string" where
  "sandbox_error_to_string (Sb_Unavailable m) = ''sandbox unavailable: '' @ m"
| "sandbox_error_to_string (Sb_Setup m) = ''sandbox setup failed: '' @ m"
| "sandbox_error_to_string (Sb_Helper m) = ''sandbox helper error: '' @ m"
| "sandbox_error_to_string (Sb_Rejected m) = ''sandbox rejected request: '' @ m"
| "sandbox_error_to_string (Sb_Io m) = ''sandbox io error: '' @ m"
| "sandbox_error_to_string (Sb_ScriptMismatch m) = ''sandbox script mismatch: '' @ m"

fun proxy_error_to_string :: "proxy_error \<Rightarrow> string" where
  "proxy_error_to_string (Px_Setup m) = ''proxy setup failed: '' @ m"
| "proxy_error_to_string (Px_Tls m) = ''proxy tls error: '' @ m"
| "proxy_error_to_string (Px_Io m) = ''proxy io error: '' @ m"

fun frontend_error_to_string :: "frontend_error \<Rightarrow> string" where
  "frontend_error_to_string (Fe_Setup m) = ''frontend setup failed: '' @ m"
| "frontend_error_to_string (Fe_Auth m) = ''frontend authentication error: '' @ m"
| "frontend_error_to_string (Fe_Closed m) = ''frontend closed: '' @ m"
| "frontend_error_to_string (Fe_Io m) = ''frontend io error: '' @ m"
| "frontend_error_to_string (Fe_ScriptMismatch m) = ''frontend script mismatch: '' @ m"

fun workspace_error_to_string :: "workspace_error \<Rightarrow> string" where
  "workspace_error_to_string (Ws_Locked m) = ''workspace is locked: '' @ m"
| "workspace_error_to_string (Ws_NotLocked m) = ''workspace is not locked: '' @ m"
| "workspace_error_to_string (Ws_Setup m) = ''workspace setup failed: '' @ m"
| "workspace_error_to_string (Ws_Damaged m) = ''workspace is damaged: '' @ m"
| "workspace_error_to_string (Ws_Io m) = ''workspace io error: '' @ m"

fun harness_error_to_string :: "harness_error \<Rightarrow> string" where
  "harness_error_to_string (He_Llm e) = llm_error_to_string e"
| "harness_error_to_string (He_Sandbox e) = sandbox_error_to_string e"
| "harness_error_to_string (He_Proxy e) = proxy_error_to_string e"
| "harness_error_to_string (He_Frontend e) = frontend_error_to_string e"
| "harness_error_to_string (He_Workspace e) = workspace_error_to_string e"
| "harness_error_to_string (He_Config m) = ''configuration error: '' @ m"
| "harness_error_to_string (He_Io m) = ''io error: '' @ m"
| "harness_error_to_string (He_Other m) = m"

section \<open>Logical time\<close>

record timestamp =
  logical :: u64
  wall_ms :: "u64 option"

text \<open>
  A clock and its counter. The readings of the system clock come from outside: \<open>RealClock n wall\<close>
  answers its call number \<open>n\<close> with the reading \<open>wall n\<close>.
\<close>

datatype clock = RealClock u64 "u64 \<Rightarrow> u64 option" | FakeClock u64

fun now :: "clock \<Rightarrow> timestamp \<times> clock" where
  "now (RealClock n wall) = (\<lparr>logical = n, wall_ms = wall n\<rparr>, RealClock (n + 1) wall)"
| "now (FakeClock n) = (\<lparr>logical = n, wall_ms = None\<rparr>, FakeClock n)"

definition advance :: "u64 \<Rightarrow> u64 \<Rightarrow> clock" where
  "advance counter k = FakeClock (counter + k)"

definition set_clock :: "u64 \<Rightarrow> clock" where
  "set_clock v = FakeClock v"

section \<open>Usage and quotas\<close>

text \<open>
  A floating-point number is its 64-bit representation. The arithmetic on it is a parameter: no
  property below depends on how it rounds.
\<close>

type_synonym f64 = "64 word"

record f64_ops =
  f64_of_u64 :: "u64 \<Rightarrow> f64"
  f64_mul :: "f64 \<Rightarrow> f64 \<Rightarrow> f64"
  f64_div :: "f64 \<Rightarrow> f64 \<Rightarrow> f64"
  f64_add :: "f64 \<Rightarrow> f64 \<Rightarrow> f64"
  f64_ge :: "f64 \<Rightarrow> f64 \<Rightarrow> bool"
  f64_show :: "nat \<Rightarrow> f64 \<Rightarrow> string"
  f64_million :: f64

record pricing =
  usd_per_million_input_tokens :: f64
  usd_per_million_output_tokens :: f64

record quota_config =
  max_total_tokens :: "u64 option"
  max_usd :: "f64 option"

record usage_snapshot =
  us_input_tokens :: u64
  us_output_tokens :: u64
  us_usd :: f64

definition total_tokens :: "usage_snapshot \<Rightarrow> u64" where
  "total_tokens s = us_input_tokens s + us_output_tokens s"

record usage_meter =
  um_pricing :: pricing
  um_quota :: quota_config
  um_input_tokens :: u64
  um_output_tokens :: u64

definition usage_meter_new :: "pricing \<Rightarrow> quota_config \<Rightarrow> usage_meter" where
  "usage_meter_new p q =
     \<lparr>um_pricing = p, um_quota = q, um_input_tokens = 0, um_output_tokens = 0\<rparr>"

definition record_usage :: "token_delta \<Rightarrow> usage_meter \<Rightarrow> usage_meter" where
  "record_usage d m =
     m\<lparr>um_input_tokens := um_input_tokens m + td_input_tokens d,
       um_output_tokens := um_output_tokens m + td_output_tokens d\<rparr>"

definition snapshot :: "f64_ops \<Rightarrow> usage_meter \<Rightarrow> usage_snapshot" where
  "snapshot fo m =
     (let cost = (\<lambda>n p. f64_div fo (f64_mul fo (f64_of_u64 fo n) p) (f64_million fo)) in
      \<lparr>us_input_tokens = um_input_tokens m, us_output_tokens = um_output_tokens m,
       us_usd = f64_add fo
         (cost (um_input_tokens m) (usd_per_million_input_tokens (um_pricing m)))
         (cost (um_output_tokens m) (usd_per_million_output_tokens (um_pricing m)))\<rparr>)"

definition check_quota :: "f64_ops \<Rightarrow> usage_meter \<Rightarrow> llm_error + unit" where
  "check_quota fo m =
     (let snap = snapshot fo m in
      case max_total_tokens (um_quota m) of
        Some mx \<Rightarrow>
          if total_tokens snap \<ge> mx
          then Inl (Llm_QuotaExceeded (''token quota reached: ''
                 @ nat_to_string (unat (total_tokens snap)) @ '' of ''
                 @ nat_to_string (unat mx) @ '' tokens used''))
          else (case max_usd (um_quota m) of
                  Some mu \<Rightarrow>
                    if f64_ge fo (us_usd snap) mu
                    then Inl (Llm_QuotaExceeded (''dollar quota reached: $''
                           @ f64_show fo 4 (us_usd snap) @ '' of $'' @ f64_show fo 2 mu @ '' used''))
                    else Inr ()
                | None \<Rightarrow> Inr ())
      | None \<Rightarrow>
          (case max_usd (um_quota m) of
             Some mu \<Rightarrow>
               if f64_ge fo (us_usd snap) mu
               then Inl (Llm_QuotaExceeded (''dollar quota reached: $''
                      @ f64_show fo 4 (us_usd snap) @ '' of $'' @ f64_show fo 2 mu @ '' used''))
               else Inr ()
           | None \<Rightarrow> Inr ()))"

section \<open>Access reports and frontend commands\<close>

record access_report =
  ar_sandbox_kind :: string
  ar_workspace_mount :: string
  ar_scratch_dir :: string
  ar_readable_paths :: "string list"
  ar_allowed_domains :: "string list"
  ar_credential_domains :: "string list"
  ar_notes :: "string list"

datatype frontend_command = Cmd_Shutdown "string option" | Cmd_Interrupt

text \<open>
  The JSON form of a command, as the \<open>serde\<close> attributes declare it: the tag \<open>command\<close> holds the
  variant in snake case, and a message that is absent is not written.
\<close>

fun command_to_value :: "frontend_command \<Rightarrow> json" where
  "command_to_value (Cmd_Shutdown None) = JObject [(''command'', JString ''shutdown'')]"
| "command_to_value (Cmd_Shutdown (Some m)) =
     JObject [(''command'', JString ''shutdown''), (''message'', JString m)]"
| "command_to_value Cmd_Interrupt = JObject [(''command'', JString ''interrupt'')]"

definition command_from_value :: "json \<Rightarrow> frontend_command option" where
  "command_from_value v =
     (case json_get_str v ''command'' of
        None \<Rightarrow> None
      | Some tag \<Rightarrow>
          if tag = ''shutdown'' then
            (case json_get v ''message'' of
               None \<Rightarrow> Some (Cmd_Shutdown None)
             | Some JNull \<Rightarrow> Some (Cmd_Shutdown None)
             | Some (JString m) \<Rightarrow> Some (Cmd_Shutdown (Some m))
             | Some _ \<Rightarrow> None)
          else if tag = ''interrupt'' then Some Cmd_Interrupt
          else None)"

section \<open>Lemmas\<close>

lemma command_roundtrip: "command_from_value (command_to_value c) = Some c"
  by (cases c rule: command_to_value.cases)
     (auto simp: command_from_value_def json_get_str_def json_get_def obj_get_def json_as_str_def)

lemma registry_add_all_append:
  "registry_add_all ds ow r = r @ map (\<lambda>d. \<lparr>reg_def = d, reg_owner = ow\<rparr>) ds"
  by (induction ds arbitrary: r) (auto simp: registry_add_def)

lemma find_append: "find P (xs @ ys) = (case find P xs of None \<Rightarrow> find P ys | Some x \<Rightarrow> Some x)"
  by (induction xs) auto

lemma owner_of_append:
  "owner_of (r @ r') nm = (case owner_of r nm of None \<Rightarrow> owner_of r' nm | Some ow \<Rightarrow> Some ow)"
  by (auto simp: owner_of_def find_append split: option.splits)

lemma defs_for_append: "defs_for (r @ r') kind = defs_for r kind @ defs_for r' kind"
  by (simp add: defs_for_def)

lemma snapshot_tokens [simp]:
  "us_input_tokens (snapshot fo m) = um_input_tokens m"
  "us_output_tokens (snapshot fo m) = um_output_tokens m"
  by (simp_all add: snapshot_def Let_def)

lemma tool_uses_Cons_simps:
  "List.map_filter f [] = []"
  "List.map_filter f (x # xs) = (case f x of None \<Rightarrow> List.map_filter f xs
                                           | Some y \<Rightarrow> y # List.map_filter f xs)"
  by (simp_all split: option.splits)

end
