(* ===== verification/Silo_Event.thy ===== *)
theory Silo_Event
  imports Silo_Core
begin

text \<open>
  The event stream (\<open>silo-core/src/event.rs\<close>) and the journal (\<open>silo-core/src/journal.rs\<close>).

  The journal is modelled twice: \<open>jw_append\<close> writes serialized lines into the byte buffer of its
  sink, as the code does, and \<open>journal_append\<close> keeps the list of records; a refinement lemma relates
  the two, and the other theories use the list. The event bus assigns sequence numbers under its
  history lock, journals the event after the lock is released, and then broadcasts it: \<open>emit\<close> is
  the uninterrupted run, \<open>emit_push\<close>, \<open>emit_journal\<close> and \<open>emit_send\<close> are its three atomic parts,
  which runs of several emitters may interleave.
\<close>

section \<open>Events\<close>

record question_option =
  qo_label :: string
  qo_description :: string

record user_question =
  uq_question :: string
  uq_options :: "question_option list"
  uq_multi_select :: bool
  uq_allow_free_text :: bool

datatype file_origin = FO_Client string | FO_Llm agent_id

definition INTERRUPTED_ANSWER :: string where
  "INTERRUPTED_ANSWER = ''[interrupted]''"

datatype event_payload =
    EP_HarnessStarted string string string string
  | EP_UserPrompt "string option" "string option" string
  | EP_AssistantText agent_id string
  | EP_ToolUse agent_id tool_call
  | EP_ToolResult agent_id string string tool_output
  | EP_AgentSpawned agent_id agent_id "string option" string
  | EP_AgentCompleted agent_id string bool
  | EP_QuestionAsked string agent_id user_question
  | EP_QuestionAnswered string "string option" string
  | EP_FileShared string string file_origin
  | EP_CostReport string usage_snapshot quota_config
  | EP_TurnComplete agent_id stop_reason
  | EP_Interrupted agent_id
  | EP_AwaitingInput
  | EP_AccessReportUpdated access_report
  | EP_Error string string
  | EP_Shutdown "string option"

fun payload_kind :: "event_payload \<Rightarrow> string" where
  "payload_kind (EP_HarnessStarted _ _ _ _) = ''harness_started''"
| "payload_kind (EP_UserPrompt _ _ _) = ''user_prompt''"
| "payload_kind (EP_AssistantText _ _) = ''assistant_text''"
| "payload_kind (EP_ToolUse _ _) = ''tool_use''"
| "payload_kind (EP_ToolResult _ _ _ _) = ''tool_result''"
| "payload_kind (EP_AgentSpawned _ _ _ _) = ''agent_spawned''"
| "payload_kind (EP_AgentCompleted _ _ _) = ''agent_completed''"
| "payload_kind (EP_QuestionAsked _ _ _) = ''question_asked''"
| "payload_kind (EP_QuestionAnswered _ _ _) = ''question_answered''"
| "payload_kind (EP_FileShared _ _ _) = ''file_shared''"
| "payload_kind (EP_CostReport _ _ _) = ''cost_report''"
| "payload_kind (EP_TurnComplete _ _) = ''turn_complete''"
| "payload_kind (EP_Interrupted _) = ''interrupted''"
| "payload_kind EP_AwaitingInput = ''awaiting_input''"
| "payload_kind (EP_AccessReportUpdated _) = ''access_report_updated''"
| "payload_kind (EP_Error _ _) = ''error''"
| "payload_kind (EP_Shutdown _) = ''shutdown''"

record event =
  ev_seq :: u64
  ev_time :: timestamp
  ev_payload :: event_payload

section \<open>The journal\<close>

record network_record =
  nr_host :: string
  nr_port :: u16
  nr_method :: "string option"
  nr_path :: "string option"
  nr_status :: "u16 option"
  nr_bytes_sent :: u64
  nr_bytes_received :: u64
  nr_allowed :: bool
  nr_credential_injected :: bool
  nr_note :: "string option"

definition network_record_default :: network_record where
  "network_record_default =
     \<lparr>nr_host = [], nr_port = 0, nr_method = None, nr_path = None, nr_status = None,
      nr_bytes_sent = 0, nr_bytes_received = 0, nr_allowed = False,
      nr_credential_injected = False, nr_note = None\<rparr>"

datatype journal_entry =
    JE_Meta string string string
  | JE_Event event
  | JE_LlmRequest agent_id string completion_request
  | JE_LlmResponse agent_id string completion_response
  | JE_ToolExec agent_id string tool_call tool_output
  | JE_FrontendCommand json
  | JE_Network network_record
  | JE_Lifecycle string

record journal_record =
  jr_seq :: u64
  jr_time :: timestamp
  jr_entry :: journal_entry

text \<open>The writer over bytes; \<open>ser\<close> is the serializer of \<open>serde_json\<close>.\<close>

datatype sink = SinkFile string | SinkMemory string | SinkDisabled

record journal_writer =
  jw_sink :: sink
  jw_clock :: clock
  jw_next_seq :: u64

fun sink_write :: "string \<Rightarrow> sink \<Rightarrow> sink" where
  "sink_write line (SinkFile bytes) = SinkFile (bytes @ line)"
| "sink_write line (SinkMemory bytes) = SinkMemory (bytes @ line)"
| "sink_write line SinkDisabled = SinkDisabled"

definition jw_append ::
  "(journal_record \<Rightarrow> string) \<Rightarrow> journal_entry \<Rightarrow> journal_writer \<Rightarrow> u64 \<times> journal_writer" where
  "jw_append ser entry w =
     (let s = jw_next_seq w; (t, c) = now (jw_clock w);
          r = \<lparr>jr_seq = s, jr_time = t, jr_entry = entry\<rparr>;
          line = ser r @ [CHR 0x0A] in
      (s, w\<lparr>jw_next_seq := s + 1, jw_clock := c, jw_sink := sink_write line (jw_sink w)\<rparr>))"

definition in_memory :: "clock \<Rightarrow> journal_writer" where
  "in_memory c = \<lparr>jw_sink = SinkMemory [], jw_clock = c, jw_next_seq = 0\<rparr>"

definition to_file :: "string \<Rightarrow> clock \<Rightarrow> journal_writer" where
  "to_file existing c = \<lparr>jw_sink = SinkFile existing, jw_clock = c, jw_next_seq = 0\<rparr>"

definition disabled :: "clock \<Rightarrow> journal_writer" where
  "disabled c = \<lparr>jw_sink = SinkDisabled, jw_clock = c, jw_next_seq = 0\<rparr>"

fun sink_bytes :: "sink \<Rightarrow> string" where
  "sink_bytes (SinkFile b) = b"
| "sink_bytes (SinkMemory b) = b"
| "sink_bytes SinkDisabled = []"

text \<open>Reading a journal back: split at newlines, skip blank lines, stop at the first bad record.\<close>

fun split_lines :: "string \<Rightarrow> string list" where
  "split_lines [] = [[]]"
| "split_lines (c # cs) =
     (if c = CHR 0x0A then [] # split_lines cs
      else (case split_lines cs of [] \<Rightarrow> [[c]] | l # ls \<Rightarrow> (c # l) # ls))"

definition is_ascii_whitespace :: "char \<Rightarrow> bool" where
  "is_ascii_whitespace c = (c \<in> {CHR '' '', CHR 0x09, CHR 0x0A, CHR 0x0C, CHR 0x0D})"

fun parse_lines ::
  "(string \<Rightarrow> io_error + journal_record) \<Rightarrow> string list \<Rightarrow> io_error + journal_record list" where
  "parse_lines de [] = Inr []"
| "parse_lines de (l # ls) =
     (if list_all is_ascii_whitespace l then parse_lines de ls
      else case de l of
        Inl e \<Rightarrow> Inl e
      | Inr r \<Rightarrow> (case parse_lines de ls of Inl e \<Rightarrow> Inl e | Inr rs \<Rightarrow> Inr (r # rs)))"

definition parse_journal ::
  "(string \<Rightarrow> io_error + journal_record) \<Rightarrow> string \<Rightarrow> io_error + journal_record list" where
  "parse_journal de bytes = parse_lines de (split_lines bytes)"

text \<open>The journal as the list of its records.\<close>

record journal =
  jn_clock :: clock
  jn_records :: "journal_record list"
  jn_next_seq :: u64

definition journal_append :: "journal_entry \<Rightarrow> journal \<Rightarrow> journal" where
  "journal_append entry j =
     (let (t, c) = now (jn_clock j) in
      j\<lparr>jn_clock := c, jn_next_seq := jn_next_seq j + 1,
        jn_records := jn_records j
          @ [\<lparr>jr_seq = jn_next_seq j, jr_time = t, jr_entry = entry\<rparr>]\<rparr>)"

section \<open>The event bus\<close>

text \<open>
  The bus shares its clock with the journal, so the clock is the journal's. \<open>bus_sent\<close> lists the
  events in the order of the broadcast.
\<close>

record event_bus =
  bus_journal :: journal
  bus_history :: "event list"
  bus_sent :: "event list"

definition bus_new :: "journal \<Rightarrow> event_bus" where
  "bus_new j = \<lparr>bus_journal = j, bus_history = [], bus_sent = []\<rparr>"

definition emit_push :: "event_payload \<Rightarrow> event_bus \<Rightarrow> event \<times> event_bus" where
  "emit_push p b =
     (let (t, c) = now (jn_clock (bus_journal b));
          e = \<lparr>ev_seq = of_nat (length (bus_history b)), ev_time = t, ev_payload = p\<rparr> in
      (e, b\<lparr>bus_journal := (bus_journal b)\<lparr>jn_clock := c\<rparr>,
            bus_history := bus_history b @ [e]\<rparr>))"

definition emit_journal :: "event \<Rightarrow> event_bus \<Rightarrow> event_bus" where
  "emit_journal e b = b\<lparr>bus_journal := journal_append (JE_Event e) (bus_journal b)\<rparr>"

definition emit_send :: "event \<Rightarrow> event_bus \<Rightarrow> event_bus" where
  "emit_send e b = b\<lparr>bus_sent := bus_sent b @ [e]\<rparr>"

definition emit :: "event_payload \<Rightarrow> event_bus \<Rightarrow> event_bus" where
  "emit p b = (let (e, b1) = emit_push p b in emit_send e (emit_journal e b1))"

definition since :: "event_bus \<Rightarrow> u64 \<Rightarrow> event list" where
  "since b from_seq = filter (\<lambda>e. ev_seq e \<ge> from_seq) (bus_history b)"

definition next_seq :: "event_bus \<Rightarrow> u64" where
  "next_seq b = of_nat (length (bus_history b))"

section \<open>Lemmas on the journal\<close>

lemma journal_append_records [simp]:
  "map jr_entry (jn_records (journal_append e j)) = map jr_entry (jn_records j) @ [e]"
  by (simp add: journal_append_def split_beta)

lemma journal_append_next_seq [simp]:
  "jn_next_seq (journal_append e j) = jn_next_seq j + 1"
  by (simp add: journal_append_def split_beta)

lemma journal_append_seqs:
  "map jr_seq (jn_records (journal_append e j)) = map jr_seq (jn_records j) @ [jn_next_seq j]"
  by (simp add: journal_append_def split_beta)

text \<open>Records carry consecutive sequence numbers from zero.\<close>

definition journal_wf :: "journal \<Rightarrow> bool" where
  "journal_wf j = (jn_next_seq j = of_nat (length (jn_records j)) \<and>
     map jr_seq (jn_records j) = map of_nat [0..<length (jn_records j)])"

lemma journal_wf_append: "journal_wf j \<Longrightarrow> journal_wf (journal_append e j)"
  by (auto simp: journal_wf_def journal_append_def split_beta)

lemma journal_wf_clock [simp]: "journal_wf (j\<lparr>jn_clock := c\<rparr>) = journal_wf j"
  by (simp add: journal_wf_def)

text \<open>The byte-level writer refines the list: its bytes are the lines of the records.\<close>

definition journal_bytes :: "(journal_record \<Rightarrow> string) \<Rightarrow> journal_record list \<Rightarrow> string" where
  "journal_bytes ser rs = concat (map (\<lambda>r. ser r @ [CHR 0x0A]) rs)"

definition journal_rel :: "(journal_record \<Rightarrow> string) \<Rightarrow> journal_writer \<Rightarrow> journal \<Rightarrow> bool" where
  "journal_rel ser w j =
     (jw_clock w = jn_clock j \<and> jw_next_seq w = jn_next_seq j \<and>
      jw_sink w = SinkMemory (journal_bytes ser (jn_records j)))"

lemma journal_rel_append:
  assumes "journal_rel ser w j"
  shows "journal_rel ser (snd (jw_append ser e w)) (journal_append e j)"
    and "fst (jw_append ser e w) = jn_next_seq j"
  using assms
  by (auto simp: journal_rel_def jw_append_def journal_append_def journal_bytes_def Let_def split_beta)

lemma split_lines_line:
  "CHR 0x0A \<notin> set l \<Longrightarrow> split_lines (l @ CHR 0x0A # rest) = l # split_lines rest"
  by (induction l) auto

lemma parse_journal_bytes:
  assumes "\<And>r. r \<in> set rs \<Longrightarrow> de (ser r) = Inr r"
    and "\<And>r. r \<in> set rs \<Longrightarrow> CHR 0x0A \<notin> set (ser r)"
    and "\<And>r. r \<in> set rs \<Longrightarrow> \<not> list_all is_ascii_whitespace (ser r)"
  shows "parse_journal de (journal_bytes ser rs) = Inr rs"
  using assms
  by (induction rs) (auto simp: parse_journal_def journal_bytes_def split_lines_line)

definition append_all :: "(journal_record \<Rightarrow> string) \<Rightarrow> journal_entry list \<Rightarrow> journal_writer \<Rightarrow> journal_writer" where
  "append_all ser es w = fold (\<lambda>e w. snd (jw_append ser e w)) es w"

lemma journal_rel_append_all:
  "journal_rel ser w j \<Longrightarrow> journal_rel ser (append_all ser es w) (fold journal_append es j)"
  unfolding append_all_def by (induction es arbitrary: w j) (simp_all add: journal_rel_append)

lemma journal_append_all_entries:
  "map jr_entry (jn_records (fold journal_append es j)) = map jr_entry (jn_records j) @ es"
  by (induction es arbitrary: j) simp_all

lemma journal_wf_append_all: "journal_wf j \<Longrightarrow> journal_wf (fold journal_append es j)"
  by (induction es arbitrary: j) (simp_all add: journal_wf_append)

lemma journal_rel_in_memory:
  "journal_rel ser (in_memory c) \<lparr>jn_clock = c, jn_records = [], jn_next_seq = 0\<rparr>"
  by (simp add: journal_rel_def in_memory_def journal_bytes_def)

text \<open>
  C4: The byte-level journal refines the list of records. Let a writer into memory stand for a
  well-formed journal, and append any entries to both: the writer still stands for the journal, and
  when the serializer's lines decode to their records, hold no newline and are not blank, reading its
  bytes back gives exactly the journal's records, which carry the old entries and then the new ones,
  numbered from zero without a gap.
\<close>

theorem journal_refines:
  fixes es :: "journal_entry list" and j :: journal
  defines "j1 \<equiv> fold journal_append es j"
  assumes "journal_rel ser w j" and "journal_wf j"
    and lines: "\<And>r. r \<in> set (jn_records j1) \<Longrightarrow>
      de (ser r) = Inr r \<and> CHR 0x0A \<notin> set (ser r) \<and> \<not> list_all is_ascii_whitespace (ser r)"
  shows "journal_rel ser (append_all ser es w) j1 \<and>
    parse_journal de (sink_bytes (jw_sink (append_all ser es w))) = Inr (jn_records j1) \<and>
    map jr_entry (jn_records j1) = map jr_entry (jn_records j) @ es \<and>
    map jr_seq (jn_records j1) = map of_nat [0..<length (jn_records j1)]"
proof -
  have rel: "journal_rel ser (append_all ser es w) j1"
    unfolding j1_def by (rule journal_rel_append_all) fact
  then have "sink_bytes (jw_sink (append_all ser es w)) = journal_bytes ser (jn_records j1)"
    by (simp add: journal_rel_def)
  moreover have "parse_journal de (journal_bytes ser (jn_records j1)) = Inr (jn_records j1)"
    by (rule parse_journal_bytes) (use lines in auto)
  moreover have "journal_wf j1" unfolding j1_def by (rule journal_wf_append_all) fact
  ultimately show ?thesis
    using rel by (simp add: journal_wf_def j1_def journal_append_all_entries)
qed

definition note_ser :: "journal_record \<Rightarrow> string" where
  "note_ser r = (case jr_entry r of JE_Lifecycle m \<Rightarrow> m | _ \<Rightarrow> ''?'')"

definition note_de :: "string \<Rightarrow> io_error + journal_record" where
  "note_de l = Inr \<lparr>jr_seq = (if l = ''start'' then 0 else 1), jr_time = \<lparr>logical = 7, wall_ms = None\<rparr>, jr_entry = JE_Lifecycle l\<rparr>"

theorem journal_refines_witness:
  "let w = append_all note_ser [JE_Lifecycle ''start'', JE_Lifecycle ''stop''] (in_memory (FakeClock 7)) in
     sink_bytes (jw_sink w) = ''start'' @ CHR 0x0A # ''stop'' @ [CHR 0x0A] \<and>
     parse_journal note_de (sink_bytes (jw_sink w)) =
       Inr [\<lparr>jr_seq = 0, jr_time = \<lparr>logical = 7, wall_ms = None\<rparr>, jr_entry = JE_Lifecycle ''start''\<rparr>,
            \<lparr>jr_seq = 1, jr_time = \<lparr>logical = 7, wall_ms = None\<rparr>, jr_entry = JE_Lifecycle ''stop''\<rparr>]"
proof -
  let ?es = "[JE_Lifecycle ''start'', JE_Lifecycle ''stop'']"
  let ?j = "\<lparr>jn_clock = FakeClock 7, jn_records = [], jn_next_seq = 0\<rparr>"
  have recs: "jn_records (fold journal_append ?es ?j) =
      [\<lparr>jr_seq = 0, jr_time = \<lparr>logical = 7, wall_ms = None\<rparr>, jr_entry = JE_Lifecycle ''start''\<rparr>,
       \<lparr>jr_seq = 1, jr_time = \<lparr>logical = 7, wall_ms = None\<rparr>, jr_entry = JE_Lifecycle ''stop''\<rparr>]"
    by (simp add: journal_append_def)
  have "journal_wf ?j" by (simp add: journal_wf_def)
  note refined = journal_refines [OF journal_rel_in_memory this, of ?es note_de note_ser, unfolded recs]
  have "parse_journal note_de (sink_bytes (jw_sink (append_all note_ser ?es (in_memory (FakeClock 7))))) =
      Inr [\<lparr>jr_seq = 0, jr_time = \<lparr>logical = 7, wall_ms = None\<rparr>, jr_entry = JE_Lifecycle ''start''\<rparr>,
            \<lparr>jr_seq = 1, jr_time = \<lparr>logical = 7, wall_ms = None\<rparr>, jr_entry = JE_Lifecycle ''stop''\<rparr>]"
    by (rule refined [THEN conjunct2, THEN conjunct1])
       (auto simp: note_ser_def note_de_def is_ascii_whitespace_def)
  then show ?thesis
    by (simp add: append_all_def jw_append_def in_memory_def note_ser_def)
qed

section \<open>Lemmas on the bus\<close>

lemma emit_history:
  "bus_history (emit p b) =
     bus_history b @ [\<lparr>ev_seq = of_nat (length (bus_history b)),
       ev_time = fst (now (jn_clock (bus_journal b))), ev_payload = p\<rparr>]"
  by (simp add: emit_def emit_push_def emit_journal_def emit_send_def Let_def split_beta)

lemma emit_payloads [simp]:
  "map ev_payload (bus_history (emit p b)) = map ev_payload (bus_history b) @ [p]"
  by (simp add: emit_history)

text \<open>
  The bus is well-formed when the event at position \<open>i\<close> of the history has sequence number \<open>i\<close>,
  every broadcast event is in the history, and the journal is well-formed. Sequence numbers are
  \<open>u64\<close>, so they are exact for histories below \<open>2 ^ 64\<close> events.
\<close>

definition bus_wf :: "event_bus \<Rightarrow> bool" where
  "bus_wf b = (map ev_seq (bus_history b) = map of_nat [0..<length (bus_history b)] \<and>
     set (bus_sent b) \<subseteq> set (bus_history b) \<and> journal_wf (bus_journal b))"

lemma bus_wf_new: "journal_wf j \<Longrightarrow> bus_wf (bus_new j)"
  by (simp add: bus_wf_def bus_new_def)

lemma bus_wf_push: "bus_wf b \<Longrightarrow> bus_wf (snd (emit_push p b))"
  by (auto simp: bus_wf_def emit_push_def Let_def split_beta)

lemma bus_wf_journal: "bus_wf b \<Longrightarrow> bus_wf (emit_journal e b)"
  by (auto simp: bus_wf_def emit_journal_def journal_wf_append)

lemma bus_wf_send: "bus_wf b \<Longrightarrow> e \<in> set (bus_history b) \<Longrightarrow> bus_wf (emit_send e b)"
  by (auto simp: bus_wf_def emit_send_def)

lemma emit_push_in_history: "fst (emit_push p b) \<in> set (bus_history (snd (emit_push p b)))"
  by (simp add: emit_push_def Let_def split_beta)

lemma bus_wf_emit: "bus_wf b \<Longrightarrow> bus_wf (emit p b)"
  unfolding emit_def split_beta Let_def
  by (intro bus_wf_send bus_wf_journal bus_wf_push)
     (simp_all add: emit_journal_def emit_push_in_history)

lemma bus_wf_seq_nth:
  "bus_wf b \<Longrightarrow> i < length (bus_history b) \<Longrightarrow> ev_seq (bus_history b ! i) = of_nat i"
  unfolding bus_wf_def by (metis add_0 diff_zero length_map length_upt nth_map nth_upt)

lemma filter_ge_of_nat:
  assumes "length xs \<le> 2 ^ 64"
    and "\<And>i. i < length xs \<Longrightarrow> ev_seq (xs ! i) = of_nat i"
  shows "filter (\<lambda>e. ev_seq e \<ge> n) xs = drop (unat n) xs"
  using assms
proof (induction xs rule: rev_induct)
  case Nil
  then show ?case by simp
next
  case (snoc x xs)
  have len: "length xs < 2 ^ 64" using snoc.prems by simp
  have IH: "filter (\<lambda>e. ev_seq e \<ge> n) xs = drop (unat n) xs"
  proof (rule snoc.IH)
    show "ev_seq (xs ! i) = of_nat i" if "i < length xs" for i
      using snoc.prems(2) [of i] that by (simp add: nth_append)
  qed (use len in simp)
  have "ev_seq x = of_nat (length xs)" using snoc.prems(2) [of "length xs"] by simp
  then have "ev_seq x \<ge> n \<longleftrightarrow> unat n \<le> length xs"
    using len by (simp add: word_le_nat_alt unat_of_nat_u64)
  with IH show ?case by (auto simp: drop_append)
qed

text \<open>Catching up: the events from a sequence number on are the rest of the history.\<close>

lemma since_drop:
  assumes "bus_wf b" and "length (bus_history b) \<le> 2 ^ 64"
  shows "since b n = drop (unat n) (bus_history b)"
  unfolding since_def using assms by (intro filter_ge_of_nat) (auto dest: bus_wf_seq_nth)

end
