(* ===== verification/Silo_Pump.thy ===== *)
theory Silo_Pump
  imports Silo_Event
begin

text \<open>
  The outgoing event pump of one client connection (\<open>pump_events\<close> in
  \<open>silo-frontend/src/interactive/connection.rs\<close>) together with the emitters that feed it.

  The system has the event bus, the emitters that are between their push and their broadcast, the
  position of the client's broadcast receiver, the pump's \<open>next\<close> and the client's outgoing queue.
  \<open>serial_step\<close> runs every emission without interruption; \<open>racing_step\<close> interleaves the three
  atomic parts of concurrent emissions, which the lock of \<open>EventBus::emit\<close> permits.
\<close>

section \<open>The broadcast receiver\<close>

text \<open>
  A broadcast channel keeps its last \<open>cap\<close> values. A receiver that fell behind them is told so
  and is moved to the oldest value kept.
\<close>

datatype recv_result = Recv_Ok event | Recv_Lagged

definition broadcast_recv :: "nat \<Rightarrow> event list \<Rightarrow> nat \<Rightarrow> (recv_result \<times> nat) option" where
  "broadcast_recv cap sent cur =
     (if length sent \<le> cur then None
      else if length sent - cur > cap then Some (Recv_Lagged, length sent - cap)
      else Some (Recv_Ok (sent ! cur), Suc cur))"

definition BUS_CAPACITY :: nat where
  "BUS_CAPACITY = 4096"

section \<open>The pump\<close>

record out_queue =
  oq_open :: bool
  oq_msgs :: "event list"

definition oq_send :: "event \<Rightarrow> out_queue \<Rightarrow> out_queue option" where
  "oq_send e q = (if oq_open q then Some (q\<lparr>oq_msgs := oq_msgs q @ [e]\<rparr>) else None)"

text \<open>The refill from the history: stop as soon as the queue refuses a message.\<close>

fun pump_refill :: "event list \<Rightarrow> u64 \<Rightarrow> out_queue \<Rightarrow> u64 \<times> out_queue \<times> bool" where
  "pump_refill [] nxt q = (nxt, q, True)"
| "pump_refill (e # es) nxt q =
     (case oq_send e q of
        None \<Rightarrow> (ev_seq e + 1, q, False)
      | Some q' \<Rightarrow> pump_refill es (ev_seq e + 1) q')"

text \<open>One turn of the loop: the new \<open>next\<close>, the queue, and whether the pump goes on.\<close>

fun pump_turn :: "event_bus \<Rightarrow> recv_result \<Rightarrow> u64 \<Rightarrow> out_queue \<Rightarrow> u64 \<times> out_queue \<times> bool" where
  "pump_turn b (Recv_Ok e) nxt q =
     (if ev_seq e \<ge> nxt
      then (case oq_send e q of
              None \<Rightarrow> (ev_seq e + 1, q, False)
            | Some q' \<Rightarrow> (ev_seq e + 1, q', True))
      else (nxt, q, True))"
| "pump_turn b Recv_Lagged nxt q = pump_refill (since b nxt) nxt q"

section \<open>The system\<close>

record pump_sys =
  ps_bus :: event_bus
  ps_pushed :: "event list"
  ps_journaled :: "event list"
  ps_cursor :: nat
  ps_next :: u64
  ps_out :: out_queue
  ps_running :: bool

definition pump_recv :: "pump_sys \<Rightarrow> pump_sys option" where
  "pump_recv s =
     (if \<not> ps_running s then None
      else case broadcast_recv BUS_CAPACITY (bus_sent (ps_bus s)) (ps_cursor s) of
        None \<Rightarrow> None
      | Some (r, cur) \<Rightarrow>
          (let (nxt, q, go) = pump_turn (ps_bus s) r (ps_next s) (ps_out s) in
           Some (s\<lparr>ps_cursor := cur, ps_next := nxt, ps_out := q, ps_running := go\<rparr>)))"

text \<open>
  The connection subscribes first and reads \<open>next_seq\<close> afterwards, so the receiver's position is at
  most \<open>next\<close>.
\<close>

definition pump_start :: "event_bus \<Rightarrow> nat \<Rightarrow> pump_sys" where
  "pump_start b cur =
     \<lparr>ps_bus = b, ps_pushed = [], ps_journaled = [], ps_cursor = cur, ps_next = next_seq b,
      ps_out = \<lparr>oq_open = True, oq_msgs = []\<rparr>, ps_running = True\<rparr>"

inductive serial_step :: "pump_sys \<Rightarrow> pump_sys \<Rightarrow> bool" where
  serial_emit: "serial_step s (s\<lparr>ps_bus := emit p (ps_bus s)\<rparr>)"
| serial_recv: "pump_recv s = Some s' \<Longrightarrow> serial_step s s'"

inductive racing_step :: "pump_sys \<Rightarrow> pump_sys \<Rightarrow> bool" where
  racing_push: "emit_push p (ps_bus s) = (e, b) \<Longrightarrow>
     racing_step s (s\<lparr>ps_bus := b, ps_pushed := ps_pushed s @ [e]\<rparr>)"
| racing_journal: "e \<in> set (ps_pushed s) \<Longrightarrow>
     racing_step s (s\<lparr>ps_bus := emit_journal e (ps_bus s), ps_pushed := remove1 e (ps_pushed s),
                      ps_journaled := ps_journaled s @ [e]\<rparr>)"
| racing_send: "e \<in> set (ps_journaled s) \<Longrightarrow>
     racing_step s (s\<lparr>ps_bus := emit_send e (ps_bus s),
                      ps_journaled := remove1 e (ps_journaled s)\<rparr>)"
| racing_recv: "pump_recv s = Some s' \<Longrightarrow> racing_step s s'"

inductive_cases serial_stepE: "serial_step s s'"
inductive_cases racing_stepE: "racing_step s s'"

section \<open>Serial emission\<close>

text \<open>
  In a serial run the broadcast order is the history order, and the queue holds exactly the
  events between the starting point \<open>n0\<close> and \<open>next\<close>.
\<close>

definition serial_inv :: "nat \<Rightarrow> pump_sys \<Rightarrow> bool" where
  "serial_inv n0 s =
     (bus_wf (ps_bus s) \<and> bus_sent (ps_bus s) = bus_history (ps_bus s) \<and>
      oq_open (ps_out s) \<and> ps_running s \<and>
      ps_cursor s \<le> unat (ps_next s) \<and> n0 \<le> unat (ps_next s) \<and>
      unat (ps_next s) \<le> length (bus_history (ps_bus s)) \<and>
      oq_msgs (ps_out s) = drop n0 (take (unat (ps_next s)) (bus_history (ps_bus s))))"

definition small_bus :: "event_bus \<Rightarrow> bool" where
  "small_bus b = (length (bus_history b) < 2 ^ 64)"

lemma pump_refill_all:
  "oq_open q \<Longrightarrow> es \<noteq> [] \<Longrightarrow>
   pump_refill es nxt q = (ev_seq (last es) + 1, q\<lparr>oq_msgs := oq_msgs q @ es\<rparr>, True)"
  by (induction es arbitrary: nxt q) (auto simp: oq_send_def)

lemma emit_sent: "bus_sent b = bus_history b \<Longrightarrow> bus_sent (emit p b) = bus_history (emit p b)"
  by (simp add: emit_def emit_push_def emit_journal_def emit_send_def Let_def split_beta)

lemma serial_inv_emit: "serial_inv n0 s \<Longrightarrow> serial_inv n0 (s\<lparr>ps_bus := emit p (ps_bus s)\<rparr>)"
  by (auto simp: serial_inv_def bus_wf_emit emit_sent) (simp_all add: emit_history)

lemma unat_Suc_of_nat: "Suc n < 2 ^ 64 \<Longrightarrow> unat (of_nat n + 1 :: u64) = Suc n"
  using unat_of_nat_u64 [of "Suc n"] by (simp add: add.commute)

lemma take_Suc_drop:
  "n0 \<le> n \<Longrightarrow> n < length xs \<Longrightarrow> drop n0 (take (Suc n) xs) = drop n0 (take n xs) @ [xs ! n]"
  by (simp add: take_Suc_conv_app_nth)

lemma serial_inv_recv_ok:
  assumes inv: "serial_inv n0 s" and small: "small_bus (ps_bus s)"
    and cur: "ps_cursor s < length (bus_history (ps_bus s))"
    and turn: "pump_turn (ps_bus s) (Recv_Ok (bus_history (ps_bus s) ! ps_cursor s))
                 (ps_next s) (ps_out s) = (nxt, q, go)"
  shows "serial_inv n0 (s\<lparr>ps_cursor := Suc (ps_cursor s), ps_next := nxt, ps_out := q,
                          ps_running := go\<rparr>)"
proof -
  let ?h = "bus_history (ps_bus s)" and ?c = "ps_cursor s"
  have seq: "ev_seq (?h ! ?c) = of_nat ?c"
    using inv cur by (simp add: serial_inv_def bus_wf_seq_nth)
  have c64: "?c < 2 ^ 64" "Suc ?c < 2 ^ 64 \<or> Suc ?c = 2 ^ 64"
    using cur small by (auto simp: small_bus_def)
  have S64: "Suc ?c < 2 ^ 64" using cur small by (auto simp: small_bus_def)
  have ge: "of_nat ?c \<ge> ps_next s \<longleftrightarrow> unat (ps_next s) \<le> ?c"
    using c64 by (simp add: word_le_nat_alt unat_of_nat_u64)
  show ?thesis
  proof (cases "unat (ps_next s) \<le> ?c")
    case True
    then have eq: "unat (ps_next s) = ?c" using inv by (simp add: serial_inv_def)
    have "nxt = of_nat ?c + 1" "q = (ps_out s)\<lparr>oq_msgs := oq_msgs (ps_out s) @ [?h ! ?c]\<rparr>" "go"
      using turn seq ge True inv by (auto simp: serial_inv_def oq_send_def)
    with inv eq cur S64 show ?thesis
      by (auto simp: serial_inv_def unat_Suc_of_nat take_Suc_drop)
  next
    case False
    then have "nxt = ps_next s" "q = ps_out s" "go" using turn seq ge by auto
    with False inv show ?thesis by (auto simp: serial_inv_def)
  qed
qed

lemma serial_inv_recv_lagged:
  assumes inv: "serial_inv n0 s" and small: "small_bus (ps_bus s)"
    and cur: "cur \<le> length (bus_history (ps_bus s))"
    and turn: "pump_turn (ps_bus s) Recv_Lagged (ps_next s) (ps_out s) = (nxt, q, go)"
  shows "serial_inv n0 (s\<lparr>ps_cursor := cur, ps_next := nxt, ps_out := q, ps_running := go\<rparr>)"
proof -
  let ?h = "bus_history (ps_bus s)" and ?n = "unat (ps_next s)"
  have sn: "since (ps_bus s) (ps_next s) = drop ?n ?h"
    using inv small by (simp add: serial_inv_def since_drop small_bus_def)
  show ?thesis
  proof (cases "?n = length ?h")
    case True
    then have "nxt = ps_next s" "q = ps_out s" "go" using turn sn by auto
    with True inv cur show ?thesis by (auto simp: serial_inv_def)
  next
    case False
    then have n: "?n < length ?h" using inv by (simp add: serial_inv_def)
    have lst: "last (drop ?n ?h) = ?h ! (length ?h - 1)" using n by (simp add: last_conv_nth)
    have "ev_seq (?h ! (length ?h - 1)) = of_nat (length ?h - 1)"
      using inv n by (intro bus_wf_seq_nth) (auto simp: serial_inv_def)
    then have "nxt = of_nat (length ?h - 1) + 1 \<and>
               q = (ps_out s)\<lparr>oq_msgs := oq_msgs (ps_out s) @ drop ?n ?h\<rparr> \<and> go"
      using turn sn n inv lst by (simp add: pump_refill_all serial_inv_def)
    moreover have "unat (of_nat (length ?h - 1) + 1 :: u64) = length ?h"
      using n small unat_Suc_of_nat [of "length ?h - 1"] by (simp add: small_bus_def)
    moreover have "drop n0 (take ?n ?h) @ drop ?n ?h = drop n0 ?h"
      using inv n drop_append [of n0 "take ?n ?h" "drop ?n ?h"]
      by (simp add: serial_inv_def)
    ultimately show ?thesis using inv n cur by (auto simp: serial_inv_def)
  qed
qed

lemma serial_inv_recv:
  assumes "serial_inv n0 s" and "small_bus (ps_bus s)" and "pump_recv s = Some s'"
  shows "serial_inv n0 s'"
proof -
  obtain r cur nxt q go where
    recv: "broadcast_recv BUS_CAPACITY (bus_sent (ps_bus s)) (ps_cursor s) = Some (r, cur)"
    and turn: "pump_turn (ps_bus s) r (ps_next s) (ps_out s) = (nxt, q, go)"
    and s': "s' = s\<lparr>ps_cursor := cur, ps_next := nxt, ps_out := q, ps_running := go\<rparr>"
    using assms(3) by (auto simp: pump_recv_def split: if_splits option.splits prod.splits)
  have sent: "bus_sent (ps_bus s) = bus_history (ps_bus s)"
    using assms(1) by (simp add: serial_inv_def)
  show ?thesis
  proof (cases r)
    case (Recv_Ok e)
    with recv sent have "ps_cursor s < length (bus_history (ps_bus s))"
      "e = bus_history (ps_bus s) ! ps_cursor s" "cur = Suc (ps_cursor s)"
      by (auto simp: broadcast_recv_def split: if_splits)
    with assms turn Recv_Ok s' show ?thesis by (auto intro: serial_inv_recv_ok)
  next
    case Recv_Lagged
    with recv sent have "cur \<le> length (bus_history (ps_bus s))"
      by (auto simp: broadcast_recv_def split: if_splits)
    with assms turn Recv_Lagged s' show ?thesis by (auto intro: serial_inv_recv_lagged)
  qed
qed

lemma pump_recv_bus [frame_simps]: "pump_recv s = Some s' \<Longrightarrow> ps_bus s' = ps_bus s"
  by (auto simp: pump_recv_def split: if_splits option.splits prod.splits)

lemma serial_step_inv:
  assumes "small_bus (ps_bus s) \<longrightarrow> serial_inv n0 s" and "serial_step s s'"
  shows "small_bus (ps_bus s') \<longrightarrow> serial_inv n0 s'"
  using assms(2)
proof cases
  case (serial_emit p)
  have "small_bus (ps_bus s') \<Longrightarrow> small_bus (ps_bus s)"
    using serial_emit by (auto simp: small_bus_def emit_history)
  with assms(1) serial_emit show ?thesis by (auto intro: serial_inv_emit)
next
  case serial_recv
  then have "ps_bus s' = ps_bus s" by (rule pump_recv_bus)
  with assms(1) serial_recv show ?thesis by (auto intro: serial_inv_recv)
qed

interpretation serial_pump: invariant_system serial_step
    "\<lambda>s. small_bus (ps_bus s) \<longrightarrow> serial_inv n0 s" for n0
  by unfold_locales (rule serial_step_inv)

lemma serial_inv_start:
  assumes "bus_wf b" and "bus_sent b = bus_history b" and "cur \<le> length (bus_history b)"
    and "small_bus b"
  shows "serial_inv (length (bus_history b)) (pump_start b cur)"
  using assms by (simp add: serial_inv_def pump_start_def next_seq_def small_bus_def unat_of_nat_u64)

lemma serial_reachable_inv:
  assumes "bus_wf b" and "bus_sent b = bus_history b" and "cur \<le> length (bus_history b)"
    and "reach_by serial_step (pump_start b cur) s" and "small_bus (ps_bus s)"
  shows "serial_inv (length (bus_history b)) s"
proof -
  have start: "small_bus (ps_bus (pump_start b cur)) \<longrightarrow>
               serial_inv (length (bus_history b)) (pump_start b cur)"
    using assms(1-3) by (auto simp: pump_start_def intro: serial_inv_start [unfolded pump_start_def])
  have "small_bus (ps_bus s) \<longrightarrow> serial_inv (length (bus_history b)) s"
    by (rule serial_pump.inv_reachable [OF assms(4) start])
  with assms(5) show ?thesis by blast
qed

lemma pump_idle_iff:
  "ps_running s \<Longrightarrow> pump_recv s = None \<longleftrightarrow> length (bus_sent (ps_bus s)) \<le> ps_cursor s"
  by (auto simp: pump_recv_def broadcast_recv_def split: prod.splits)

text \<open>
  C1: when emissions do not overlap, a client whose pump has caught up holds every event from the
  position at which it subscribed, in order, without gaps or repetitions, however often its receiver
  lagged.
\<close>

theorem pump_delivers_all:
  assumes "bus_wf b" and "bus_sent b = bus_history b" and "cur \<le> length (bus_history b)"
    and "reach_by serial_step (pump_start b cur) s" and "small_bus (ps_bus s)"
  shows "oq_msgs (ps_out s) =
           drop (length (bus_history b)) (take (unat (ps_next s)) (bus_history (ps_bus s))) \<and>
         (pump_recv s = None \<longrightarrow>
           oq_msgs (ps_out s) = drop (length (bus_history b)) (bus_history (ps_bus s)))"
proof -
  have inv: "serial_inv (length (bus_history b)) s" using assms by (rule serial_reachable_inv)
  then have "length (bus_history (ps_bus s)) \<le> ps_cursor s" if "pump_recv s = None"
    using that by (simp add: serial_inv_def pump_idle_iff)
  with inv show ?thesis by (auto simp: serial_inv_def)
qed

section \<open>Overlapping emission\<close>

text \<open>Whatever the interleaving, the queue never repeats or reorders events.\<close>

definition racing_inv :: "u64 \<Rightarrow> pump_sys \<Rightarrow> bool" where
  "racing_inv n0 s =
     (bus_wf (ps_bus s) \<and> set (ps_pushed s) \<subseteq> set (bus_history (ps_bus s)) \<and>
      set (ps_journaled s) \<subseteq> set (bus_history (ps_bus s)) \<and>
      sorted_wrt (<) (map ev_seq (oq_msgs (ps_out s))) \<and>
      (\<forall>e\<in>set (oq_msgs (ps_out s)). e \<in> set (bus_history (ps_bus s)) \<and> n0 \<le> ev_seq e \<and>
         ev_seq e < ps_next s) \<and> n0 \<le> ps_next s)"

lemma bus_seqs_sorted:
  assumes "bus_wf b" and "small_bus b"
  shows "sorted_wrt (<) (map ev_seq (bus_history b))"
proof -
  have "sorted_wrt (\<lambda>x y. (of_nat x :: u64) < of_nat y) [0..<length (bus_history b)]"
    using assms(2)
    by (auto simp: sorted_wrt_iff_nth_less word_less_nat_alt unat_of_nat_u64 small_bus_def)
  with assms(1) show ?thesis by (simp add: bus_wf_def sorted_wrt_map)
qed

lemma bus_event_seq:
  assumes "bus_wf b" and "small_bus b" and "e \<in> set (bus_history b)"
  shows "ev_seq e < ev_seq e + 1"
proof -
  obtain i where i: "i < length (bus_history b)" "e = bus_history b ! i"
    using assms(3) by (auto simp: in_set_conv_nth)
  then have "ev_seq e = of_nat i" using assms(1) by (simp add: bus_wf_seq_nth)
  moreover have "Suc i < 2 ^ 64" using i assms(2) by (simp add: small_bus_def)
  ultimately show ?thesis
    by (simp add: word_less_nat_alt unat_of_nat_u64 unat_Suc_of_nat)
qed

lemma racing_inv_refill:
  assumes "oq_open q" and "sorted_wrt (<) (map ev_seq es)"
    and "\<And>e. e \<in> set es \<Longrightarrow> ev_seq e < ev_seq e + 1"
    and "\<And>e. e \<in> set es \<Longrightarrow> nxt \<le> ev_seq e"
    and "sorted_wrt (<) (map ev_seq (oq_msgs q))"
    and "\<And>e. e \<in> set (oq_msgs q) \<Longrightarrow> ev_seq e < nxt"
    and "pump_refill es nxt q = (nxt', q', go)"
  shows "sorted_wrt (<) (map ev_seq (oq_msgs q')) \<and> nxt \<le> nxt' \<and>
         (\<forall>e\<in>set (oq_msgs q'). e \<in> set (oq_msgs q) \<or> e \<in> set es) \<and>
         (\<forall>e\<in>set (oq_msgs q'). ev_seq e < nxt')"
proof (cases "es = []")
  case True
  with assms show ?thesis by auto
next
  case False
  then have eq: "nxt' = ev_seq (last es) + 1" "q' = q\<lparr>oq_msgs := oq_msgs q @ es\<rparr>"
    using assms(1,7) by (auto simp: pump_refill_all)
  have lastmax: "ev_seq e \<le> ev_seq (last es)" if "e \<in> set es" for e
  proof -
    have "es = butlast es @ [last es]" using False by simp
    then have "sorted_wrt (<) (map ev_seq (butlast es) @ [ev_seq (last es)])"
      using assms(2) by (metis list.simps(8) list.simps(9) map_append)
    then show ?thesis
      using that \<open>es = butlast es @ [last es]\<close>
      by (metis (no_types, lifting) Un_iff empty_iff empty_set imageI less_imp_le order_refl list.set_map
            list.set_intros(1) set_ConsD set_append sorted_wrt_append)
  qed
  have bound: "ev_seq e < nxt'" if "e \<in> set es" for e
    using lastmax [OF that] assms(3) [of "last es"] False eq by (auto intro: le_less_trans)
  have "nxt \<le> nxt'" using assms(4) [of "last es"] bound [of "last es"] False by auto
  moreover have "sorted_wrt (<) (map ev_seq (oq_msgs q @ es))"
    using assms(2,4,5,6) by (auto simp: sorted_wrt_append intro: less_le_trans)
  ultimately show ?thesis using eq bound assms(6) by (auto intro: less_le_trans)
qed

lemma racing_inv_recv:
  assumes inv: "racing_inv n0 s" and small: "small_bus (ps_bus s)" and opn: "oq_open (ps_out s)"
    and recv: "pump_recv s = Some s'"
  shows "racing_inv n0 s'"
proof -
  obtain r cur nxt q go where
    r: "broadcast_recv BUS_CAPACITY (bus_sent (ps_bus s)) (ps_cursor s) = Some (r, cur)"
    and turn: "pump_turn (ps_bus s) r (ps_next s) (ps_out s) = (nxt, q, go)"
    and s': "s' = s\<lparr>ps_cursor := cur, ps_next := nxt, ps_out := q, ps_running := go\<rparr>"
    using recv by (auto simp: pump_recv_def split: if_splits option.splits prod.splits)
  have wf: "bus_wf (ps_bus s)" using inv by (simp add: racing_inv_def)
  define es where "es = (case r of Recv_Ok e \<Rightarrow> if ev_seq e \<ge> ps_next s then [e] else []
                                 | Recv_Lagged \<Rightarrow> since (ps_bus s) (ps_next s))"
  have refill: "pump_refill es (ps_next s) (ps_out s) = (nxt, q, go)"
    using turn opn by (auto simp: es_def oq_send_def split: recv_result.splits if_splits)
  have mem: "e \<in> set (bus_history (ps_bus s)) \<and> ps_next s \<le> ev_seq e" if "e \<in> set es" for e
  proof (cases r)
    case (Recv_Ok e')
    then have "e = e'" "ps_next s \<le> ev_seq e" "e' \<in> set (bus_sent (ps_bus s))"
      using that r by (auto simp: es_def broadcast_recv_def split: if_splits)
    then show ?thesis using wf by (auto simp: bus_wf_def)
  next
    case Recv_Lagged
    then show ?thesis using that by (auto simp: es_def since_def)
  qed
  have srt: "sorted_wrt (<) (map ev_seq es)"
    using bus_seqs_sorted [OF wf small]
    by (auto simp: es_def since_def sorted_wrt_map sorted_wrt_filter split: recv_result.splits)
  have "sorted_wrt (<) (map ev_seq (oq_msgs q)) \<and> ps_next s \<le> nxt \<and>
        (\<forall>e\<in>set (oq_msgs q). e \<in> set (oq_msgs (ps_out s)) \<or> e \<in> set es) \<and>
        (\<forall>e\<in>set (oq_msgs q). ev_seq e < nxt)"
  proof (rule racing_inv_refill [OF opn srt _ _ _ _ refill])
    show "ev_seq e < ev_seq e + 1" if "e \<in> set es" for e
      using mem [OF that] wf small by (auto intro: bus_event_seq)
  qed (use mem inv in \<open>auto simp: racing_inv_def\<close>)
  with mem inv s' show ?thesis by (fastforce simp: racing_inv_def intro: order_trans)
qed

lemma pump_refill_open: "pump_refill es n q = (n', q', go) \<Longrightarrow> oq_open q' = oq_open q"
  by (induction es arbitrary: n q) (auto simp: oq_send_def split: if_splits)

lemma pump_turn_open: "pump_turn b r n q = (n', q', go) \<Longrightarrow> oq_open q' = oq_open q"
  by (cases r) (auto simp: oq_send_def split: if_splits dest: pump_refill_open)

lemma pump_recv_open: "pump_recv s = Some s' \<Longrightarrow> oq_open (ps_out s') = oq_open (ps_out s)"
  by (auto simp: pump_recv_def split: if_splits option.splits prod.splits dest: pump_turn_open)

lemma emit_push_history_mono: "set (bus_history b) \<subseteq> set (bus_history (snd (emit_push p b)))"
  by (auto simp: emit_push_def Let_def split_beta)

lemma racing_step_inv:
  assumes "racing_step s s'"
    and "small_bus (ps_bus s) \<longrightarrow> racing_inv n0 s \<and> oq_open (ps_out s)"
  shows "small_bus (ps_bus s') \<longrightarrow> racing_inv n0 s' \<and> oq_open (ps_out s')"
  using assms(1)
proof cases
  case (racing_push p e b)
  have b: "b = snd (emit_push p (ps_bus s))" and e: "e = fst (emit_push p (ps_bus s))"
    using racing_push by simp_all
  have "bus_history b = bus_history (ps_bus s) @ [e]"
    unfolding b e by (simp add: emit_push_def Let_def split_beta)
  moreover from this have "small_bus (ps_bus s') \<Longrightarrow> small_bus (ps_bus s)"
    using racing_push by (simp add: small_bus_def)
  moreover have "bus_wf (ps_bus s) \<Longrightarrow> bus_wf b" unfolding b by (rule bus_wf_push)
  ultimately show ?thesis using assms(2) racing_push by (auto simp: racing_inv_def)
next
  case (racing_journal e)
  then have "bus_history (ps_bus s') = bus_history (ps_bus s)" by (simp add: emit_journal_def)
  moreover have "set (remove1 e (ps_pushed s)) \<subseteq> set (ps_pushed s)" by (rule set_remove1_subset)
  ultimately show ?thesis
    using assms(2) racing_journal
    by (auto simp: racing_inv_def small_bus_def bus_wf_journal)
next
  case (racing_send e)
  then have "bus_history (ps_bus s') = bus_history (ps_bus s)" by (simp add: emit_send_def)
  moreover have "set (remove1 e (ps_journaled s)) \<subseteq> set (ps_journaled s)"
    by (rule set_remove1_subset)
  ultimately show ?thesis
    using assms(2) racing_send by (auto simp: racing_inv_def small_bus_def bus_wf_send)
next
  case racing_recv
  then have "ps_bus s' = ps_bus s" "oq_open (ps_out s') = oq_open (ps_out s)"
    by (auto dest: pump_recv_bus pump_recv_open)
  with racing_recv assms(2) show ?thesis by (auto intro: racing_inv_recv)
qed

interpretation racing_pump: invariant_system racing_step
    "\<lambda>s. small_bus (ps_bus s) \<longrightarrow> racing_inv n0 s \<and> oq_open (ps_out s)" for n0
  by unfold_locales (rule racing_step_inv)


text \<open>
  An empty bus under a clock that stands still; it is the start of the runs below.
\<close>

definition empty_bus :: event_bus where
  "empty_bus = bus_new \<lparr>jn_clock = FakeClock 0, jn_records = [], jn_next_seq = 0\<rparr>"

lemma empty_bus_wf: "bus_wf empty_bus"
  by (simp add: empty_bus_def bus_wf_new journal_wf_def)

definition plain_event :: "u64 \<Rightarrow> event_payload \<Rightarrow> event" where
  "plain_event n p = \<lparr>ev_seq = n, ev_time = \<lparr>logical = 0, wall_ms = None\<rparr>, ev_payload = p\<rparr>"

lemmas pump_eval = pump_start_def empty_bus_def bus_new_def emit_push_def emit_journal_def
  emit_send_def journal_append_def pump_recv_def broadcast_recv_def BUS_CAPACITY_def oq_send_def
  next_seq_def plain_event_def Let_def

text \<open>A run of the racing system given by its labels; an index picks the emitter that moves.\<close>

datatype race_label = R_Push event_payload | R_Journal nat | R_Send nat | R_Recv

fun race_exec :: "race_label \<Rightarrow> pump_sys \<Rightarrow> pump_sys option" where
  "race_exec (R_Push p) s =
     (let (e, b) = emit_push p (ps_bus s) in Some (s\<lparr>ps_bus := b, ps_pushed := ps_pushed s @ [e]\<rparr>))"
| "race_exec (R_Journal i) s =
     (if i < length (ps_pushed s)
      then let e = ps_pushed s ! i in
           Some (s\<lparr>ps_bus := emit_journal e (ps_bus s), ps_pushed := remove1 e (ps_pushed s),
                   ps_journaled := ps_journaled s @ [e]\<rparr>)
      else None)"
| "race_exec (R_Send i) s =
     (if i < length (ps_journaled s)
      then let e = ps_journaled s ! i in
           Some (s\<lparr>ps_bus := emit_send e (ps_bus s), ps_journaled := remove1 e (ps_journaled s)\<rparr>)
      else None)"
| "race_exec R_Recv s = pump_recv s"

fun race_run :: "race_label list \<Rightarrow> pump_sys \<Rightarrow> pump_sys option" where
  "race_run [] s = Some s"
| "race_run (l # ls) s = (case race_exec l s of None \<Rightarrow> None | Some t \<Rightarrow> race_run ls t)"

lemma race_exec_step: "race_exec l s = Some t \<Longrightarrow> racing_step s t"
  by (cases l) (auto simp: Let_def split: if_splits prod.splits intro: racing_step.intros)

lemma race_run_reach: "race_run ls s = Some t \<Longrightarrow> reach_by racing_step s0 s \<Longrightarrow> reach_by racing_step s0 t"
proof (induction ls arbitrary: s)
  case (Cons l ls)
  then show ?case by (auto split: option.splits dest: race_exec_step intro: reach_step)
qed simp

definition lossy_run :: "race_label list" where
  "lossy_run = [R_Push EP_AwaitingInput, R_Push (EP_Interrupted ''agent-1''), R_Journal 1, R_Send 0,
     R_Journal 0, R_Send 0, R_Recv, R_Recv]"

text \<open>
  C3: two overlapping emissions whose broadcasts swap make the pump skip the earlier event for
  good. The pump is caught up, nothing is in flight, and the client never received an event whose
  sequence number is at least the \<open>next_seq\<close> it was told.
\<close>

theorem pump_race_loses_event:
  "\<exists>s e. reach_by racing_step (pump_start empty_bus 0) s \<and>
     pump_recv s = None \<and> ps_running s \<and> ps_pushed s = [] \<and> ps_journaled s = [] \<and>
     e \<in> set (bus_history (ps_bus s)) \<and> ev_seq e \<ge> next_seq empty_bus \<and>
     e \<notin> set (oq_msgs (ps_out s))"
proof -
  let ?e = "plain_event 0 EP_AwaitingInput"
  have "\<exists>s. race_run lossy_run (pump_start empty_bus 0) = Some s \<and>
     pump_recv s = None \<and> ps_running s \<and> ps_pushed s = [] \<and> ps_journaled s = [] \<and>
     ?e \<in> set (bus_history (ps_bus s)) \<and> ?e \<notin> set (oq_msgs (ps_out s))"
    by (simp add: lossy_run_def pump_eval)
  moreover have "ev_seq ?e \<ge> next_seq empty_bus" by (simp add: pump_eval)
  ultimately show ?thesis using race_run_reach [OF _ reach_refl] by blast
qed

text \<open>Witnesses: one serial emission that is then received, from the empty bus.\<close>

definition serial_example :: pump_sys where
  "serial_example = (pump_start empty_bus 0)\<lparr>
     ps_bus := emit EP_AwaitingInput empty_bus, ps_cursor := 1, ps_next := 1,
     ps_out := \<lparr>oq_open = True, oq_msgs = [plain_event 0 EP_AwaitingInput]\<rparr>\<rparr>"

lemma serial_example_reachable: "reach_by serial_step (pump_start empty_bus 0) serial_example"
proof -
  have "serial_step (pump_start empty_bus 0)
          ((pump_start empty_bus 0)\<lparr>ps_bus := emit EP_AwaitingInput empty_bus\<rparr>)"
    using serial_emit [of "pump_start empty_bus 0" EP_AwaitingInput]
    by (simp add: pump_start_def)
  moreover have "serial_step ((pump_start empty_bus 0)\<lparr>ps_bus := emit EP_AwaitingInput empty_bus\<rparr>)
                   serial_example"
    by (rule serial_recv) (simp add: serial_example_def emit_def pump_eval)
  ultimately show ?thesis by (blast intro: reach_refl reach_step)
qed

theorem pump_delivers_all_witness:
  "oq_msgs (ps_out serial_example) = bus_history (ps_bus serial_example)"
proof -
  have "pump_recv serial_example = None"
    by (simp add: serial_example_def emit_def pump_eval)
  then show ?thesis
    using pump_delivers_all [OF empty_bus_wf _ _ serial_example_reachable]
    by (simp add: serial_example_def small_bus_def emit_def pump_eval)
qed


end
