(* ===== verification/Silo_Replay.thy ===== *)
theory Silo_Replay
  imports Silo_Event
begin

text \<open>
  Scripted replay of recorded sessions (\<open>silo-core/src/replay.rs\<close>): the script that drives the
  mock components, its consumption by content (\<open>next_llm\<close>, \<open>next_tool\<close>) and by position
  (\<open>next_frontend\<close>), and the conversion of a journal into a script (\<open>script_from_journal\<close>).

  \<open>show_json\<close> and \<open>payload_json\<close> are the JSON printers of \<open>serde_json\<close>, parameters of the two
  operations that print JSON text.
\<close>

section \<open>Scripts\<close>

record scripted_llm_turn =
  lt_expect_user_contains :: "string option"
  lt_response :: completion_response

record scripted_tool_exec =
  te_expect_name :: string
  te_expect_input :: "json option"
  te_output :: tool_output

datatype frontend_step =
    FS_SendPrompt string
  | FS_ExpectEvent string "string option"
  | FS_AnswerQuestion "string option" string
  | FS_UploadFile string string
  | FS_Interrupt
  | FS_ExpectShutdown "string option"

record test_script =
  ts_name :: string
  ts_llm :: "scripted_llm_turn list"
  ts_tools :: "scripted_tool_exec list"
  ts_frontend :: "frontend_step list"
  ts_network :: "network_record list"

record script_state =
  ss_script :: test_script
  ss_llm_consumed :: "bool list"
  ss_tool_consumed :: "bool list"
  ss_frontend_cursor :: nat
  ss_events_seen :: "event list"

definition shared_new :: "test_script \<Rightarrow> script_state" where
  "shared_new sc =
     \<lparr>ss_script = sc, ss_llm_consumed = replicate (length (ts_llm sc)) False,
      ss_tool_consumed = replicate (length (ts_tools sc)) False,
      ss_frontend_cursor = 0, ss_events_seen = []\<rparr>"

section \<open>Consumption by content\<close>

definition last_user_text :: "completion_request \<Rightarrow> string" where
  "last_user_text req =
     (case find (\<lambda>m. msg_role m = User) (rev (req_messages req)) of
        None \<Rightarrow> [] | Some m \<Rightarrow> message_text m)"

definition llm_entries :: "script_state \<Rightarrow> (scripted_llm_turn \<times> bool) list" where
  "llm_entries st = zip (ts_llm (ss_script st)) (ss_llm_consumed st)"

definition llm_matches :: "string \<Rightarrow> scripted_llm_turn \<times> bool \<Rightarrow> bool" where
  "llm_matches txt e =
     (\<not> snd e \<and> (case lt_expect_user_contains (fst e) of
                   None \<Rightarrow> False | Some needle \<Rightarrow> str_contains needle txt))"

definition llm_chosen :: "string \<Rightarrow> script_state \<Rightarrow> nat option" where
  "llm_chosen txt st =
     (case position (llm_matches txt) (llm_entries st) of
        Some i \<Rightarrow> Some i
      | None \<Rightarrow>
          (case position (\<lambda>e. \<not> snd e) (llm_entries st) of
             None \<Rightarrow> None
           | Some i \<Rightarrow>
               if lt_expect_user_contains (ts_llm (ss_script st) ! i) = None then Some i else None))"

definition llm_expected :: "script_state \<Rightarrow> string list" where
  "llm_expected st =
     List.map_filter (\<lambda>e. lt_expect_user_contains (fst e)) (filter (\<lambda>e. \<not> snd e) (llm_entries st))"

definition next_llm ::
  "completion_request \<Rightarrow> script_state \<Rightarrow> (llm_error + completion_response) \<times> script_state" where
  "next_llm req st =
     (if list_all id (ss_llm_consumed st)
      then (Inl (Llm_ScriptMismatch ''llm script exhausted''), st)
      else let txt = last_user_text req in
        case llm_chosen txt st of
          None \<Rightarrow>
            (Inl (Llm_ScriptMismatch (''no unconsumed llm turn matches the request; expected one of ''
               @ debug_str_list (llm_expected st) @ '', got '' @ debug_str txt)), st)
        | Some i \<Rightarrow>
            (Inr (lt_response (ts_llm (ss_script st) ! i)),
             st\<lparr>ss_llm_consumed := (ss_llm_consumed st)[i := True]\<rparr>))"

definition tool_entries :: "script_state \<Rightarrow> (scripted_tool_exec \<times> bool) list" where
  "tool_entries st = zip (ts_tools (ss_script st)) (ss_tool_consumed st)"

definition tool_matches :: "tool_call \<Rightarrow> scripted_tool_exec \<times> bool \<Rightarrow> bool" where
  "tool_matches call e =
     (\<not> snd e \<and> te_expect_name (fst e) = tc_name call \<and>
      (case te_expect_input (fst e) of
         None \<Rightarrow> True | Some expected \<Rightarrow> json_subset_matches expected (tc_input call)))"

definition next_tool ::
  "(json \<Rightarrow> string) \<Rightarrow> tool_call \<Rightarrow> script_state \<Rightarrow> (sandbox_error + tool_output) \<times> script_state" where
  "next_tool show_json call st =
     (if list_all id (ss_tool_consumed st)
      then (Inl (Sb_ScriptMismatch ''tool script exhausted''), st)
      else case position (tool_matches call) (tool_entries st) of
          None \<Rightarrow>
            (Inl (Sb_ScriptMismatch (''no unconsumed tool exec matches '' @ debug_str (tc_name call)
               @ '' with input '' @ show_json (tc_input call) @ ''; expected one of ''
               @ debug_str_list (map (\<lambda>e. te_expect_name (fst e))
                    (filter (\<lambda>e. \<not> snd e) (tool_entries st))))), st)
        | Some i \<Rightarrow>
            (Inr (te_output (ts_tools (ss_script st) ! i)),
             st\<lparr>ss_tool_consumed := (ss_tool_consumed st)[i := True]\<rparr>))"

section \<open>Consumption by position, and observation\<close>

definition peek_frontend :: "script_state \<Rightarrow> frontend_step option" where
  "peek_frontend st =
     (if ss_frontend_cursor st < length (ts_frontend (ss_script st))
      then Some (ts_frontend (ss_script st) ! ss_frontend_cursor st) else None)"

definition next_frontend :: "script_state \<Rightarrow> frontend_step option \<times> script_state" where
  "next_frontend st =
     (case peek_frontend st of
        None \<Rightarrow> (None, st)
      | Some step \<Rightarrow> (Some step, st\<lparr>ss_frontend_cursor := ss_frontend_cursor st + 1\<rparr>))"

definition tools_consumed :: "script_state \<Rightarrow> nat" where
  "tools_consumed st = length (filter id (ss_tool_consumed st))"

definition observe_event :: "event \<Rightarrow> script_state \<Rightarrow> script_state" where
  "observe_event e st = st\<lparr>ss_events_seen := ss_events_seen st @ [e]\<rparr>"

definition event_was_seen ::
  "(event_payload \<Rightarrow> string) \<Rightarrow> string \<Rightarrow> string option \<Rightarrow> script_state \<Rightarrow> bool" where
  "event_was_seen payload_json kind contains st =
     list_ex (\<lambda>e. payload_kind (ev_payload e) = kind \<and>
        (case contains of None \<Rightarrow> True
         | Some needle \<Rightarrow> str_contains needle (payload_json (ev_payload e)))) (ss_events_seen st)"

definition finished :: "script_state \<Rightarrow> bool" where
  "finished st =
     (list_all id (ss_llm_consumed st) \<and> list_all id (ss_tool_consumed st) \<and>
      length (ts_frontend (ss_script st)) \<le> ss_frontend_cursor st)"

definition remaining_summary :: "script_state \<Rightarrow> string" where
  "remaining_summary st =
     (let done = (\<lambda>flags. nat_to_string (length (filter id flags))) in
      ''llm '' @ done (ss_llm_consumed st) @ ''/'' @ nat_to_string (length (ts_llm (ss_script st)))
      @ '', tools '' @ done (ss_tool_consumed st) @ ''/''
      @ nat_to_string (length (ts_tools (ss_script st)))
      @ '', frontend '' @ nat_to_string (ss_frontend_cursor st) @ ''/''
      @ nat_to_string (length (ts_frontend (ss_script st))))"

section \<open>From a journal to a script\<close>

fun event_steps :: "event_payload \<Rightarrow> frontend_step list" where
  "event_steps (EP_UserPrompt _ _ txt) = [FS_SendPrompt txt]"
| "event_steps (EP_QuestionAnswered _ client_id answer) =
     (if client_id \<noteq> None \<or> answer \<noteq> INTERRUPTED_ANSWER
      then [FS_AnswerQuestion None answer] else [])"
| "event_steps (EP_FileShared nm content_b64 (FO_Client _)) = [FS_UploadFile nm content_b64]"
| "event_steps (EP_Shutdown m) = [FS_ExpectShutdown m]"
| "event_steps _ = []"

fun script_entry :: "journal_entry \<Rightarrow> test_script \<Rightarrow> test_script" where
  "script_entry (JE_LlmResponse _ _ response) sc =
     sc\<lparr>ts_llm := ts_llm sc @ [\<lparr>lt_expect_user_contains = None, lt_response = response\<rparr>]\<rparr>"
| "script_entry (JE_ToolExec _ owner call output) sc =
     (if owner = ''sandbox''
      then sc\<lparr>ts_tools := ts_tools sc @ [\<lparr>te_expect_name = tc_name call,
                te_expect_input = Some (tc_input call), te_output = output\<rparr>]\<rparr>
      else sc)"
| "script_entry (JE_Event e) sc = sc\<lparr>ts_frontend := ts_frontend sc @ event_steps (ev_payload e)\<rparr>"
| "script_entry (JE_FrontendCommand command) sc =
     (case command_from_value command of
        Some Cmd_Interrupt \<Rightarrow> sc\<lparr>ts_frontend := ts_frontend sc @ [FS_Interrupt]\<rparr>
      | _ \<Rightarrow> sc)"
| "script_entry (JE_Network r) sc = sc\<lparr>ts_network := ts_network sc @ [r]\<rparr>"
| "script_entry _ sc = sc"

definition script_from_journal :: "journal_record list \<Rightarrow> string \<Rightarrow> test_script" where
  "script_from_journal records nm =
     fold (\<lambda>r. script_entry (jr_entry r)) records
       \<lparr>ts_name = nm, ts_llm = [], ts_tools = [], ts_frontend = [], ts_network = []\<rparr>"

section \<open>The consumption invariant\<close>

definition script_wf :: "script_state \<Rightarrow> bool" where
  "script_wf st =
     (length (ss_llm_consumed st) = length (ts_llm (ss_script st)) \<and>
      length (ss_tool_consumed st) = length (ts_tools (ss_script st)) \<and>
      ss_frontend_cursor st \<le> length (ts_frontend (ss_script st)))"

definition llm_left :: "script_state \<Rightarrow> nat" where
  "llm_left st = length (filter Not (ss_llm_consumed st))"

definition tools_left :: "script_state \<Rightarrow> nat" where
  "tools_left st = length (filter Not (ss_tool_consumed st))"

lemma script_wf_new: "script_wf (shared_new sc)"
  by (simp add: script_wf_def shared_new_def)

lemma position_zip_flag:
  assumes "position P (zip xs flags) = Some i" and "length xs = length flags"
    and "\<And>e. P e \<Longrightarrow> \<not> snd e"
  shows "i < length flags \<and> \<not> flags ! i \<and> P (xs ! i, flags ! i)"
proof -
  have "i < length flags" "P (xs ! i, flags ! i)" using assms(1,2) by (auto simp: position_Some_iff)
  with assms(3) [of "(xs ! i, flags ! i)"] show ?thesis by simp
qed

lemma llm_chosen_index:
  assumes "script_wf st" and "llm_chosen txt st = Some i"
  shows "i < length (ss_llm_consumed st) \<and> \<not> ss_llm_consumed st ! i"
  using assms
  by (auto simp: llm_chosen_def llm_entries_def script_wf_def llm_matches_def
        split: option.splits if_splits dest!: position_zip_flag)

lemma next_llm_cases:
  assumes "script_wf st"
  obtains (ok) i where "i < length (ss_llm_consumed st)" "\<not> ss_llm_consumed st ! i"
      "llm_chosen (last_user_text req) st = Some i"
      "next_llm req st = (Inr (lt_response (ts_llm (ss_script st) ! i)),
         st\<lparr>ss_llm_consumed := (ss_llm_consumed st)[i := True]\<rparr>)"
  | (err) e where "next_llm req st = (Inl (Llm_ScriptMismatch e), st)"
proof (cases "list_all id (ss_llm_consumed st)")
  case True
  then show thesis by (auto intro: err simp: next_llm_def)
next
  case False
  show thesis
  proof (cases "llm_chosen (last_user_text req) st")
    case None
    with False show thesis by (auto intro: err simp: next_llm_def Let_def)
  next
    case (Some i)
    with False assms show thesis
      using llm_chosen_index [OF assms Some] by (auto intro!: ok [of i] simp: next_llm_def Let_def)
  qed
qed

lemma next_tool_cases:
  assumes "script_wf st"
  obtains (ok) i where "i < length (ss_tool_consumed st)" "\<not> ss_tool_consumed st ! i"
      "position (tool_matches call) (tool_entries st) = Some i"
      "next_tool sj call st = (Inr (te_output (ts_tools (ss_script st) ! i)),
         st\<lparr>ss_tool_consumed := (ss_tool_consumed st)[i := True]\<rparr>)"
  | (err) e where "next_tool sj call st = (Inl (Sb_ScriptMismatch e), st)"
proof (cases "list_all id (ss_tool_consumed st)")
  case True
  then show thesis by (auto intro: err simp: next_tool_def)
next
  case False
  show thesis
  proof (cases "position (tool_matches call) (tool_entries st)")
    case None
    with False show thesis by (auto intro: err simp: next_tool_def Let_def)
  next
    case (Some i)
    then have "i < length (ss_tool_consumed st) \<and> \<not> ss_tool_consumed st ! i"
      using assms position_zip_flag [of "tool_matches call" "ts_tools (ss_script st)"
          "ss_tool_consumed st" i]
      by (auto simp: tool_entries_def script_wf_def tool_matches_def)
    with Some False show thesis by (auto intro!: ok [of i] simp: next_tool_def)
  qed
qed

lemma script_wf_next_llm: "script_wf st \<Longrightarrow> script_wf (snd (next_llm req st))"
  by (rule next_llm_cases [of st req]) (auto simp: script_wf_def)

lemma script_wf_next_tool: "script_wf st \<Longrightarrow> script_wf (snd (next_tool sj call st))"
  by (rule next_tool_cases [of st call sj]) (auto simp: script_wf_def)

lemma script_wf_next_frontend: "script_wf st \<Longrightarrow> script_wf (snd (next_frontend st))"
  by (auto simp: script_wf_def next_frontend_def peek_frontend_def)

lemma length_filter_consume:
  "i < length flags \<Longrightarrow> \<not> flags ! i \<Longrightarrow>
   Suc (length (filter Not (flags[i := True]))) = length (filter Not flags)"
  by (rule length_filter_update) auto

lemma next_llm_left:
  assumes "script_wf st" and "next_llm req st = (Inr r, st')"
  shows "Suc (llm_left st') = llm_left st"
  by (rule next_llm_cases [OF assms(1), of req]) (use assms(2) in \<open>auto simp: llm_left_def length_filter_consume\<close>)

lemma llm_left_zero_iff: "llm_left st = 0 \<longleftrightarrow> list_all id (ss_llm_consumed st)"
  by (auto simp: llm_left_def filter_empty_conv list_all_iff)

section \<open>Replaying a journal\<close>

text \<open>
  A replayed session asks the script in the recorded order: a completion request where the journal
  has a response (whatever the request says), and the recorded tool call where the journal has a
  sandbox execution.
\<close>

datatype replay_call = RC_Llm completion_request | RC_Tool tool_call

datatype replay_answer = RA_Llm completion_response | RA_Tool tool_output | RA_Mismatch

fun replay_step :: "(json \<Rightarrow> string) \<Rightarrow> replay_call \<Rightarrow> script_state \<Rightarrow> replay_answer \<times> script_state" where
  "replay_step sj (RC_Llm req) st =
     (case next_llm req st of (Inl _, st') \<Rightarrow> (RA_Mismatch, st') | (Inr r, st') \<Rightarrow> (RA_Llm r, st'))"
| "replay_step sj (RC_Tool call) st =
     (case next_tool sj call st of (Inl _, st') \<Rightarrow> (RA_Mismatch, st') | (Inr o1, st') \<Rightarrow> (RA_Tool o1, st'))"

fun replay_run ::
  "(json \<Rightarrow> string) \<Rightarrow> replay_call list \<Rightarrow> script_state \<Rightarrow> replay_answer list \<times> script_state" where
  "replay_run sj [] st = ([], st)"
| "replay_run sj (c # cs) st =
     (let (a, st1) = replay_step sj c st; (as, st2) = replay_run sj cs st1 in (a # as, st2))"

fun recorded_answer :: "journal_entry \<Rightarrow> replay_answer option" where
  "recorded_answer (JE_LlmResponse _ _ r) = Some (RA_Llm r)"
| "recorded_answer (JE_ToolExec _ owner _ out) = (if owner = ''sandbox'' then Some (RA_Tool out) else None)"
| "recorded_answer _ = None"

fun recorded_turn :: "journal_entry \<Rightarrow> scripted_llm_turn option" where
  "recorded_turn (JE_LlmResponse _ _ r) = Some \<lparr>lt_expect_user_contains = None, lt_response = r\<rparr>"
| "recorded_turn _ = None"

fun recorded_exec :: "journal_entry \<Rightarrow> scripted_tool_exec option" where
  "recorded_exec (JE_ToolExec _ _ c out) =
     Some \<lparr>te_expect_name = tc_name c, te_expect_input = Some (tc_input c), te_output = out\<rparr>"
| "recorded_exec _ = None"

fun same_call :: "journal_entry \<Rightarrow> replay_call \<Rightarrow> bool" where
  "same_call (JE_LlmResponse _ _ _) (RC_Llm _) = True"
| "same_call (JE_ToolExec _ _ call _) (RC_Tool c) =
     (tc_name c = tc_name call \<and> tc_input c = tc_input call \<and> json_wf (tc_input call))"
| "same_call _ _ = False"

definition recorded :: "journal_record list \<Rightarrow> journal_entry list" where
  "recorded rs = filter (\<lambda>e. recorded_answer e \<noteq> None) (map jr_entry rs)"

text \<open>The state after \<open>i\<close> responses and \<open>j\<close> executions were consumed from the front.\<close>

definition flags :: "nat \<Rightarrow> nat \<Rightarrow> bool list" where
  "flags i n = replicate i True @ replicate (n - i) False"

definition front_state :: "test_script \<Rightarrow> nat \<Rightarrow> nat \<Rightarrow> script_state" where
  "front_state sc i j = (shared_new sc)\<lparr>ss_llm_consumed := flags i (length (ts_llm sc)),
     ss_tool_consumed := flags j (length (ts_tools sc))\<rparr>"

lemma flags_nth: "k < n \<Longrightarrow> i \<le> n \<Longrightarrow> flags i n ! k = (k < i)"
  by (auto simp: flags_def nth_append)

lemma length_flags [simp]: "i \<le> n \<Longrightarrow> length (flags i n) = n"
  by (simp add: flags_def)

lemma flags_update: "i < n \<Longrightarrow> (flags i n)[i := True] = flags (Suc i) n"
  by (rule nth_equalityI) (auto simp: flags_nth nth_list_update)

lemma flags_not_all: "i < n \<Longrightarrow> \<not> list_all id (flags i n)"
  by (auto simp: flags_def list_all_iff)

lemma position_flags:
  assumes "i < length xs" and "P (xs ! i, False)" and "\<And>e. P e \<Longrightarrow> \<not> snd e"
  shows "position P (zip xs (flags i (length xs))) = Some i"
  unfolding position_Some_iff
proof (intro conjI allI impI)
  show "i < length (zip xs (flags i (length xs)))" using assms(1) by simp
  show "P (zip xs (flags i (length xs)) ! i)" using assms(1,2) by (simp add: flags_nth)
  show "\<not> P (zip xs (flags i (length xs)) ! j)" if "j < i" for j
    using that assms(1) assms(3) [of "(xs ! j, True)"] by (auto simp: flags_nth)
qed

lemma next_llm_front:
  assumes i: "i < length (ts_llm sc)" and "\<forall>t\<in>set (ts_llm sc). lt_expect_user_contains t = None"
  shows "next_llm req (front_state sc i j) =
           (Inr (lt_response (ts_llm sc ! i)), front_state sc (Suc i) j)"
proof -
  have none: "position (llm_matches q) (llm_entries (front_state sc i j)) = None" for q
    using assms(2) by (auto simp: position_None_iff llm_matches_def llm_entries_def front_state_def
        shared_new_def dest!: set_zip_leftD)
  have "position (\<lambda>e. \<not> snd e) (llm_entries (front_state sc i j)) = Some i"
    using position_flags [OF i, of "\<lambda>e. \<not> snd e"]
    by (simp add: llm_entries_def front_state_def shared_new_def)
  then have "llm_chosen q (front_state sc i j) = Some i" for q
    using none i assms(2) by (simp add: llm_chosen_def front_state_def shared_new_def)
  then show ?thesis
    using i flags_not_all [OF i] flags_update [OF i]
    by (simp add: next_llm_def Let_def front_state_def shared_new_def)
qed

lemma next_tool_front:
  assumes j: "j < length (ts_tools sc)" and m: "tool_matches call (ts_tools sc ! j, False)"
  shows "next_tool sj call (front_state sc i j) =
           (Inr (te_output (ts_tools sc ! j)), front_state sc i (Suc j))"
proof -
  have "position (tool_matches call) (tool_entries (front_state sc i j)) = Some j"
    using position_flags [OF j, of "tool_matches call"] m
    by (simp add: tool_entries_def front_state_def shared_new_def tool_matches_def)
  then show ?thesis
    using j flags_not_all [OF j] flags_update [OF j]
    by (simp add: next_tool_def front_state_def shared_new_def)
qed

text \<open>The entries contribute their turns and executions in order.\<close>

lemma script_entry_llm:
  "ts_llm (script_entry e sc) = ts_llm sc @ (case recorded_turn e of None \<Rightarrow> [] | Some t \<Rightarrow> [t])"
  by (cases e) (simp_all split: option.split frontend_command.split)

lemma script_entry_tools:
  "ts_tools (script_entry e sc) = ts_tools sc
     @ (if recorded_answer e = None then [] else case recorded_exec e of None \<Rightarrow> [] | Some t \<Rightarrow> [t])"
  by (cases e) (simp_all split: option.split frontend_command.split)

lemma recorded_turn_answer: "recorded_answer e = None \<Longrightarrow> recorded_turn e = None"
  by (cases e) simp_all

lemma script_fold_lists:
  "ts_llm (fold (\<lambda>r. script_entry (jr_entry r)) rs sc) = ts_llm sc
     @ List.map_filter recorded_turn (recorded rs)"
  "ts_tools (fold (\<lambda>r. script_entry (jr_entry r)) rs sc) = ts_tools sc
     @ List.map_filter recorded_exec (recorded rs)"
proof (induction rs arbitrary: sc)
  case (Cons r rs)
  let ?e = "jr_entry r"
  have rec: "recorded (r # rs) = (if recorded_answer ?e \<noteq> None then [?e] else []) @ recorded rs"
    by (simp add: recorded_def)
  { case 1
    show ?case
      using Cons.IH(1) [of "script_entry ?e sc"]
      by (cases "recorded_answer ?e")
         (simp_all add: rec script_entry_llm recorded_turn_answer split: option.split)
  next
    case 2
    show ?case
      using Cons.IH(2) [of "script_entry ?e sc"]
      by (cases "recorded_answer ?e") (simp_all add: rec script_entry_tools split: option.split) }
qed (simp_all add: recorded_def)

lemma replay_suffix:
  assumes "list_all2 same_call es calls"
    and "\<forall>e\<in>set es. recorded_answer e \<noteq> None"
    and "ts_llm sc = lt @ List.map_filter recorded_turn es"
    and "ts_tools sc = tt @ List.map_filter recorded_exec es"
    and "\<forall>t\<in>set (ts_llm sc). lt_expect_user_contains t = None"
  shows "replay_run sj calls (front_state sc (length lt) (length tt)) =
           (List.map_filter recorded_answer es,
            front_state sc (length (ts_llm sc)) (length (ts_tools sc)))"
  using assms
proof (induction es calls arbitrary: lt tt rule: list_all2_induct)
  case Nil
  then show ?case by simp
next
  case (Cons e es c cs)
  show ?case
  proof (cases e)
    case (JE_LlmResponse a b r)
    then obtain req where c: "c = RC_Llm req" using Cons.hyps by (cases c) auto
    have nxt: "next_llm req (front_state sc (length lt) (length tt)) =
               (Inr r, front_state sc (Suc (length lt)) (length tt))"
      using next_llm_front [of "length lt" sc req "length tt"] Cons.prems JE_LlmResponse
      by (simp add: nth_append)
    show ?thesis
      using Cons.IH [of "lt @ [\<lparr>lt_expect_user_contains = None, lt_response = r\<rparr>]" tt]
        Cons.prems nxt c JE_LlmResponse by simp
  next
    case (JE_ToolExec a ow call out)
    then obtain cl where c: "c = RC_Tool cl" and same: "same_call e (RC_Tool cl)"
      using Cons.hyps by (cases c) auto
    let ?t = "\<lparr>te_expect_name = tc_name call, te_expect_input = Some (tc_input call), te_output = out\<rparr>"
    have "tool_matches cl (?t, False)"
      using same JE_ToolExec by (simp add: tool_matches_def json_subset_refl)
    then have nxt: "next_tool sj cl (front_state sc (length lt) (length tt)) =
               (Inr out, front_state sc (length lt) (Suc (length tt)))"
      using next_tool_front [of "length tt" sc cl sj "length lt"] Cons.prems JE_ToolExec
      by (simp add: nth_append)
    have "ow = ''sandbox''" using Cons.prems(1) JE_ToolExec by (auto split: if_splits)
    then show ?thesis
      using Cons.IH [of lt "tt @ [?t]"] Cons.prems nxt c JE_ToolExec by simp
  qed (use Cons.prems in auto)
qed

text \<open>
  C5: replaying a journal reproduces the session. The script built from the journal answers the
  recorded calls, made in the recorded order, with exactly the recorded responses and tool outputs,
  and no turn or execution is left over.
\<close>

theorem replay_reproduces_session:
  assumes "list_all2 same_call (recorded rs) calls"
  shows "\<exists>st. replay_run sj calls (shared_new (script_from_journal rs nm)) =
           (List.map_filter recorded_answer (recorded rs), st) \<and> llm_left st = 0 \<and> tools_left st = 0"
proof -
  let ?sc = "script_from_journal rs nm"
  have start: "front_state ?sc 0 0 = shared_new ?sc"
    by (simp add: front_state_def shared_new_def flags_def)
  have lists: "ts_llm ?sc = [] @ List.map_filter recorded_turn (recorded rs)"
    "ts_tools ?sc = [] @ List.map_filter recorded_exec (recorded rs)"
    unfolding script_from_journal_def script_fold_lists by simp_all
  have none: "\<forall>t\<in>set (ts_llm ?sc). lt_expect_user_contains t = None"
    unfolding lists by (auto simp: set_map_filter_iff elim!: recorded_turn.elims)
  have "replay_run sj calls (front_state ?sc 0 0) = (List.map_filter recorded_answer (recorded rs),
          front_state ?sc (length (ts_llm ?sc)) (length (ts_tools ?sc)))"
    using replay_suffix [OF assms _ lists none, of sj] by (simp add: recorded_def)
  then show ?thesis
    unfolding start
    by (auto simp: llm_left_def tools_left_def front_state_def flags_def)
qed

section \<open>The choice of an entry\<close>

definition tool_usable :: "tool_call \<Rightarrow> script_state \<Rightarrow> nat \<Rightarrow> bool" where
  "tool_usable call st i = tool_matches call (ts_tools (ss_script st) ! i, ss_tool_consumed st ! i)"

text \<open>
  A tool call is answered exactly by the first unconsumed entry that matches it. That entry
  alone becomes consumed, and a call that no unconsumed entry matches is a script mismatch that
  leaves the script as it is.
\<close>

theorem next_tool_first_match:
  assumes "script_wf st"
  shows "(next_tool sj call st = (Inr out, st') \<longleftrightarrow>
            (\<exists>i<length (ts_tools (ss_script st)). tool_usable call st i \<and>
               (\<forall>j<i. \<not> tool_usable call st j) \<and> out = te_output (ts_tools (ss_script st) ! i) \<and>
               st' = st\<lparr>ss_tool_consumed := (ss_tool_consumed st)[i := True]\<rparr>)) \<and>
         ((\<exists>m. next_tool sj call st = (Inl (Sb_ScriptMismatch m), st)) \<longleftrightarrow>
            (\<forall>i<length (ts_tools (ss_script st)). \<not> tool_usable call st i))"
proof -
  let ?n = "length (ts_tools (ss_script st))"
  have entries: "length (tool_entries st) = ?n"
    "\<And>i. i < ?n \<Longrightarrow> tool_matches call (tool_entries st ! i) = tool_usable call st i"
    using assms by (auto simp: tool_entries_def script_wf_def tool_usable_def)
  have unconsumed: "tool_usable call st i \<Longrightarrow> \<not> ss_tool_consumed st ! i" for i
    by (simp add: tool_usable_def tool_matches_def)
  show ?thesis
  proof (rule next_tool_cases [OF assms, of call sj])
    fix i
    assume i: "position (tool_matches call) (tool_entries st) = Some i"
      and eq: "next_tool sj call st = (Inr (te_output (ts_tools (ss_script st) ! i)),
                 st\<lparr>ss_tool_consumed := (ss_tool_consumed st)[i := True]\<rparr>)"
    have first: "i < ?n" "tool_usable call st i" "\<And>j. j < i \<Longrightarrow> \<not> tool_usable call st j"
      using i entries by (auto simp: position_Some_iff)
    then have uniq: "tool_usable call st k \<Longrightarrow> \<forall>j<k. \<not> tool_usable call st j \<Longrightarrow> k = i" for k
      by (metis linorder_neqE_nat)
    show ?thesis unfolding eq
    proof (intro conjI iffI)
      assume "\<exists>k<?n. tool_usable call st k \<and> (\<forall>j<k. \<not> tool_usable call st j) \<and>
          out = te_output (ts_tools (ss_script st) ! k) \<and>
          st' = st\<lparr>ss_tool_consumed := (ss_tool_consumed st)[k := True]\<rparr>"
      then show "(Inr (te_output (ts_tools (ss_script st) ! i)),
          st\<lparr>ss_tool_consumed := (ss_tool_consumed st)[i := True]\<rparr>) = (Inr out, st')"
        using uniq by blast
    qed (use first in blast)+
  next
    fix e
    assume err: "next_tool sj call st = (Inl (Sb_ScriptMismatch e), st)"
    have "\<not> tool_usable call st i" if "i < ?n" for i
    proof
      assume u: "tool_usable call st i"
      then have "\<not> list_all id (ss_tool_consumed st)"
        using unconsumed [of i] that assms by (auto simp: list_all_length script_wf_def)
      moreover have "position (tool_matches call) (tool_entries st) \<noteq> None"
        using u that entries by (metis nth_mem position_None_iff)
      ultimately show False using err by (auto simp: next_tool_def)
    qed
    with err show ?thesis by auto
  qed
qed

definition example_response :: completion_response where
  "example_response = \<lparr>resp_content = [CB_Text ''done''], resp_stop_reason = SR_EndTurn,
     resp_usage = \<lparr>td_input_tokens = 1, td_output_tokens = 1\<rparr>\<rparr>"

definition example_call :: tool_call where
  "example_call = \<lparr>tc_id = ''t1'', tc_name = ''Bash'', tc_input = JObject [(''command'', JString ''ls'')]\<rparr>"

definition example_request :: completion_request where
  "example_request = \<lparr>req_system = [], req_messages = [user_text ''bye''], req_tools = [],
     req_max_tokens = 100\<rparr>"

definition example_journal :: "journal_record list" where
  "example_journal = map (\<lambda>e. \<lparr>jr_seq = 0, jr_time = \<lparr>logical = 0, wall_ms = None\<rparr>, jr_entry = e\<rparr>)
     [JE_ToolExec ''agent-0'' ''sandbox'' example_call (output_ok ''file''),
      JE_LlmResponse ''agent-0'' ''mock'' example_response]"

theorem replay_reproduces_session_witness:
  "\<exists>st. replay_run (\<lambda>_. []) [RC_Tool example_call, RC_Llm example_request]
          (shared_new (script_from_journal example_journal ''s'')) =
        ([RA_Tool (output_ok ''file''), RA_Llm example_response], st) \<and>
        llm_left st = 0 \<and> tools_left st = 0"
proof -
  have "list_all2 same_call (recorded example_journal) [RC_Tool example_call, RC_Llm example_request]"
    by (simp add: example_journal_def recorded_def example_call_def obj_wf_def)
  from replay_reproduces_session [OF this, of "\<lambda>_. []" "''s''"] show ?thesis
    by (simp add: example_journal_def recorded_def)
qed

theorem next_tool_first_match_witness:
  "\<exists>st'. next_tool (\<lambda>_. []) example_call (shared_new (script_from_journal example_journal ''s'')) =
     (Inr (output_ok ''file''), st')"
proof -
  let ?st = "shared_new (script_from_journal example_journal ''s'')"
  have "tool_usable example_call ?st 0 \<and> te_output (ts_tools (ss_script ?st) ! 0) = output_ok ''file'' \<and>
        0 < length (ts_tools (ss_script ?st))"
    by (simp add: tool_usable_def tool_matches_def shared_new_def script_from_journal_def
        example_journal_def json_subset_refl obj_wf_def example_call_def)
  then show ?thesis
    using next_tool_first_match [OF script_wf_new, of "\<lambda>_. []" example_call
        "script_from_journal example_journal ''s''" "output_ok ''file''"
        "?st\<lparr>ss_tool_consumed := (ss_tool_consumed ?st)[0 := True]\<rparr>"]
    by (metis not_less_zero)
qed

text \<open>
  A request can be refused although an unconsumed turn without an expectation is left: the
  fallback considers only the first unconsumed turn. The comments of \<open>next_llm\<close> say that every
  unconsumed turn carries an expectation when it reports this mismatch.
\<close>

theorem next_llm_refuses_free_turn:
  "\<exists>st req m i. script_wf st \<and> i < length (ts_llm (ss_script st)) \<and> \<not> ss_llm_consumed st ! i \<and>
     lt_expect_user_contains (ts_llm (ss_script st) ! i) = None \<and>
     next_llm req st = (Inl (Llm_ScriptMismatch m), st)"
proof -
  define sc where "sc = \<lparr>ts_name = [], ts_llm =
      [\<lparr>lt_expect_user_contains = Some ''hello'', lt_response = example_response\<rparr>,
       \<lparr>lt_expect_user_contains = None, lt_response = example_response\<rparr>],
      ts_tools = [], ts_frontend = [], ts_network = []\<rparr>"
  have len: "length (ts_llm (ss_script (shared_new sc))) = 2" by (simp add: shared_new_def sc_def)
  have "\<exists>m. next_llm example_request (shared_new sc) = (Inl (Llm_ScriptMismatch m), shared_new sc)"
    by (simp add: next_llm_def Let_def llm_chosen_def llm_entries_def llm_matches_def shared_new_def
        sc_def example_request_def last_user_text_def message_text_def blocks_text_def user_text_def)
  moreover have "\<not> ss_llm_consumed (shared_new sc) ! 1"
    "lt_expect_user_contains (ts_llm (ss_script (shared_new sc)) ! 1) = None"
    by (simp_all add: shared_new_def sc_def)
  ultimately show ?thesis using script_wf_new [of sc] len by (metis one_less_numeral_iff semiring_norm(76))
qed

end
