(* ===== verification/Silo_Net.thy ===== *)
theory Silo_Net
  imports Silo_Prelude
begin

text \<open>
  Network policy of the egress proxy: the address guard (\<open>silo-proxy/src/ipguard.rs\<close>) and the
  domain allowlist (\<open>silo-proxy/src/allowlist.rs\<close>), with the address types of the standard library
  and its parser of address literals. The reference side is a table of CIDR blocks; the guard is
  proved to block exactly the addresses of the table.
\<close>

unbundle bit_operations_syntax

section \<open>Addresses\<close>

datatype ipv4 = Ipv4 u8 u8 u8 u8

datatype ipv6 = Ipv6 u16 u16 u16 u16 u16 u16 u16 u16

datatype ip_addr = V4 ipv4 | V6 ipv6

fun v4_is_loopback :: "ipv4 \<Rightarrow> bool" where
  "v4_is_loopback (Ipv4 a b c d) = (a = 127)"

fun v6_is_loopback :: "ipv6 \<Rightarrow> bool" where
  "v6_is_loopback a = (a = Ipv6 0 0 0 0 0 0 0 1)"

section \<open>The guard\<close>

datatype block_reason =
    BR_Loopback | BR_Private | BR_LinkLocal | BR_SharedCgnat | BR_Multicast | BR_Broadcast
  | BR_Unspecified | BR_UniqueLocal

fun block_reason_as_str :: "block_reason \<Rightarrow> string" where
  "block_reason_as_str BR_Loopback = ''loopback address''"
| "block_reason_as_str BR_Private = ''private address''"
| "block_reason_as_str BR_LinkLocal = ''link-local address''"
| "block_reason_as_str BR_SharedCgnat = ''carrier-grade NAT address''"
| "block_reason_as_str BR_Multicast = ''multicast address''"
| "block_reason_as_str BR_Broadcast = ''broadcast address''"
| "block_reason_as_str BR_Unspecified = ''unspecified address''"
| "block_reason_as_str BR_UniqueLocal = ''unique-local address''"

record ip_guard =
  allow_loopback :: bool

fun check_v4 :: "ip_guard \<Rightarrow> ipv4 \<Rightarrow> block_reason option" where
  "check_v4 g (Ipv4 o0 o1 o2 o3) =
     (if v4_is_loopback (Ipv4 o0 o1 o2 o3)
      then (if allow_loopback g then None else Some BR_Loopback)
      else if Ipv4 o0 o1 o2 o3 = Ipv4 0 0 0 0 then Some BR_Unspecified
      else if Ipv4 o0 o1 o2 o3 = Ipv4 255 255 255 255 then Some BR_Broadcast
      else if o0 = 10 \<or> (o0 = 172 \<and> 16 \<le> o1 \<and> o1 \<le> 31) \<or> (o0 = 192 \<and> o1 = 168)
      then Some BR_Private
      else if o0 = 169 \<and> o1 = 254 then Some BR_LinkLocal
      else if o0 = 100 \<and> 64 \<le> o1 \<and> o1 \<le> 127 then Some BR_SharedCgnat
      else if 224 \<le> o0 \<and> o0 \<le> 239 then Some BR_Multicast
      else None)"

definition last_v4 :: "u16 \<Rightarrow> u16 \<Rightarrow> ipv4" where
  "last_v4 high low =
     Ipv4 (ucast (drop_bit 8 high)) (ucast (high AND 0xff))
          (ucast (drop_bit 8 low)) (ucast (low AND 0xff))"

fun embedded_ipv4 :: "ipv6 \<Rightarrow> ipv4 option" where
  "embedded_ipv4 (Ipv6 s0 s1 s2 s3 s4 s5 s6 s7) =
     (if (s0 = 0 \<and> s1 = 0 \<and> s2 = 0 \<and> s3 = 0 \<and> s4 = 0) \<and> s5 = 0xffff then Some (last_v4 s6 s7)
      else if s0 = 0x0064 \<and> s1 = 0xff9b \<and> (s2 = 0 \<and> s3 = 0 \<and> s4 = 0 \<and> s5 = 0)
      then Some (last_v4 s6 s7)
      else if (s0 = 0 \<and> s1 = 0 \<and> s2 = 0 \<and> s3 = 0 \<and> s4 = 0 \<and> s5 = 0) \<and> \<not> (s6 = 0 \<and> s7 \<le> 1)
      then Some (last_v4 s6 s7)
      else None)"

fun check_v6 :: "ip_guard \<Rightarrow> ipv6 \<Rightarrow> block_reason option" where
  "check_v6 g (Ipv6 s0 s1 s2 s3 s4 s5 s6 s7) =
     (case embedded_ipv4 (Ipv6 s0 s1 s2 s3 s4 s5 s6 s7) of
        Some v4 \<Rightarrow> check_v4 g v4
      | None \<Rightarrow>
          if v6_is_loopback (Ipv6 s0 s1 s2 s3 s4 s5 s6 s7)
          then (if allow_loopback g then None else Some BR_Loopback)
          else if Ipv6 s0 s1 s2 s3 s4 s5 s6 s7 = Ipv6 0 0 0 0 0 0 0 0 then Some BR_Unspecified
          else if s0 AND 0xffc0 = 0xfe80 then Some BR_LinkLocal
          else if s0 AND 0xfe00 = 0xfc00 then Some BR_UniqueLocal
          else if s0 AND 0xff00 = 0xff00 then Some BR_Multicast
          else None)"

fun guard_check :: "ip_guard \<Rightarrow> ip_addr \<Rightarrow> block_reason option" where
  "guard_check g (V4 a) = check_v4 g a"
| "guard_check g (V6 a) = check_v6 g a"

definition is_blocked :: "ip_guard \<Rightarrow> ip_addr \<Rightarrow> bool" where
  "is_blocked g a = (guard_check g a \<noteq> None)"

definition ip_guard_new :: ip_guard where
  "ip_guard_new = \<lparr>allow_loopback = False\<rparr>"

definition with_loopback_allowed :: "bool \<Rightarrow> ip_guard" where
  "with_loopback_allowed allow = \<lparr>allow_loopback = allow\<rparr>"

section \<open>Address literals\<close>

text \<open>
  \<open>str::parse::<IpAddr>\<close> of the standard library. A reader takes the input and yields the value
  with the rest of the input.
\<close>

definition hex_val :: "char \<Rightarrow> nat option" where
  "hex_val c = (let n = of_char c :: nat in
     if 48 \<le> n \<and> n \<le> 57 then Some (n - 48)
     else if 97 \<le> n \<and> n \<le> 102 then Some (n - 87)
     else if 65 \<le> n \<and> n \<le> 70 then Some (n - 55) else None)"

fun span_digits :: "(char \<Rightarrow> nat option) \<Rightarrow> string \<Rightarrow> nat list \<times> string" where
  "span_digits dv [] = ([], [])"
| "span_digits dv (c # cs) =
     (case dv c of None \<Rightarrow> ([], c # cs)
      | Some d \<Rightarrow> (let (ds, r) = span_digits dv cs in (d # ds, r)))"

definition read_octet :: "string \<Rightarrow> (nat \<times> string) option" where
  "read_octet s =
     (let (ds, r) = span_digits digit_val s; n = foldl (\<lambda>acc d. 10 * acc + d) 0 ds in
      if ds = [] \<or> length ds > 3 \<or> (hd ds = 0 \<and> length ds > 1) \<or> n > 255 then None else Some (n, r))"

definition read_hex_group :: "string \<Rightarrow> (nat \<times> string) option" where
  "read_hex_group s =
     (let (ds, r) = span_digits hex_val s in
      if ds = [] \<or> length ds > 4 then None
      else Some (foldl (\<lambda>acc d. 16 * acc + d) 0 ds, r))"

fun read_char :: "char \<Rightarrow> string \<Rightarrow> string option" where
  "read_char c [] = None"
| "read_char c (x # xs) = (if x = c then Some xs else None)"

definition read_ipv4 :: "string \<Rightarrow> (ipv4 \<times> string) option" where
  "read_ipv4 s =
     Option.bind (read_octet s) (\<lambda>(a, s).
     Option.bind (Option.bind (read_char CHR ''.'' s) read_octet) (\<lambda>(b, s).
     Option.bind (Option.bind (read_char CHR ''.'' s) read_octet) (\<lambda>(c, s).
     Option.bind (Option.bind (read_char CHR ''.'' s) read_octet) (\<lambda>(d, s).
     Some (Ipv4 (of_nat a) (of_nat b) (of_nat c) (of_nat d), s)))))"

definition read_sep :: "bool \<Rightarrow> (string \<Rightarrow> ('a \<times> string) option) \<Rightarrow> string \<Rightarrow> ('a \<times> string) option" where
  "read_sep first rd s = (if first then rd s else Option.bind (read_char CHR '':'' s) rd)"

text \<open>Up to \<open>limit\<close> groups; a dotted quad may stand for the last two.\<close>

fun read_groups :: "nat \<Rightarrow> bool \<Rightarrow> string \<Rightarrow> u16 list \<times> bool \<times> string" where
  "read_groups 0 first s = ([], False, s)"
| "read_groups (Suc limit) first s =
     (case (if limit > 0 then read_sep first read_ipv4 s else None) of
        Some (Ipv4 a b c d, r) \<Rightarrow>
          ([ucast a * 256 + ucast b, ucast c * 256 + ucast d], True, r)
      | None \<Rightarrow>
          (case read_sep first read_hex_group s of
             None \<Rightarrow> ([], False, s)
           | Some (g, r) \<Rightarrow>
               (let (gs, v4, r') = read_groups limit False r in (of_nat g # gs, v4, r'))))"

fun ipv6_of_list :: "u16 list \<Rightarrow> ipv6 option" where
  "ipv6_of_list [a, b, c, d, e, f, g, h] = Some (Ipv6 a b c d e f g h)"
| "ipv6_of_list _ = None"

definition read_ipv6 :: "string \<Rightarrow> (ipv6 \<times> string) option" where
  "read_ipv6 s =
     (let (head, v4, r) = read_groups 8 True s in
      if length head = 8 then map_option (\<lambda>a. (a, r)) (ipv6_of_list head)
      else if v4 then None
      else Option.bind (Option.bind (read_char CHR '':'' r) (read_char CHR '':'')) (\<lambda>r.
        let (tl6, _, r') = read_groups (8 - (length head + 1)) True r in
        map_option (\<lambda>a. (a, r'))
          (ipv6_of_list (head @ replicate (8 - length head - length tl6) 0 @ tl6))))"

definition parse_ip :: "string \<Rightarrow> ip_addr option" where
  "parse_ip s =
     (case read_ipv4 s of
        Some (a, r) \<Rightarrow> if r = [] then Some (V4 a) else None
      | None \<Rightarrow>
          (case read_ipv6 s of
             Some (a, r) \<Rightarrow> if r = [] then Some (V6 a) else None
           | None \<Rightarrow> None))"

section \<open>The domain allowlist\<close>

definition normalize_host :: "string \<Rightarrow> string" where
  "normalize_host host =
     to_ascii_lowercase (case strip_suffix ''.'' host of None \<Rightarrow> host | Some t \<Rightarrow> t)"

datatype allow_entry = Exact string | Wildcard string

type_synonym domain_allowlist = "allow_entry list"

definition compile_entry :: "string \<Rightarrow> allow_entry" where
  "compile_entry raw =
     (let n = normalize_host raw in
      case strip_prefix ''*.'' n of Some suf \<Rightarrow> Wildcard suf | None \<Rightarrow> Exact n)"

definition allowlist_new :: "string list \<Rightarrow> domain_allowlist" where
  "allowlist_new domains = map compile_entry domains"

fun entry_allows :: "string \<Rightarrow> allow_entry \<Rightarrow> bool" where
  "entry_allows host (Exact nm) = (nm = host)"
| "entry_allows host (Wildcard suf) =
     (host = suf \<or> (case strip_suffix suf host of None \<Rightarrow> False | Some p \<Rightarrow> ends_with ''.'' p))"

definition allows :: "domain_allowlist \<Rightarrow> string \<Rightarrow> bool" where
  "allows al host = (let h = normalize_host host in list_ex (entry_allows h) al)"

definition allowlist_is_empty :: "domain_allowlist \<Rightarrow> bool" where
  "allowlist_is_empty al = (al = [])"

section \<open>The reference table\<close>

fun v4_value :: "ipv4 \<Rightarrow> nat" where
  "v4_value (Ipv4 a b c d) = ((unat a * 256 + unat b) * 256 + unat c) * 256 + unat d"

text \<open>Membership in the block \<open>base/len\<close>: the first \<open>len\<close> of the 32 bits agree.\<close>

definition in_block :: "nat \<Rightarrow> ipv4 \<times> nat \<Rightarrow> bool" where
  "in_block v bl = (v div 2 ^ (32 - snd bl) = v4_value (fst bl) div 2 ^ (32 - snd bl))"

definition loopback_block :: "ipv4 \<times> nat" where
  "loopback_block = (Ipv4 127 0 0 0, 8)"

definition blocked_v4 :: "(ipv4 \<times> nat) list" where
  "blocked_v4 =
     [(Ipv4 0 0 0 0, 32), (Ipv4 255 255 255 255, 32), (Ipv4 10 0 0 0, 8), (Ipv4 172 16 0 0, 12),
      (Ipv4 192 168 0 0, 16), (Ipv4 169 254 0 0, 16), (Ipv4 100 64 0 0, 10), (Ipv4 224 0 0 0, 4)]"

lemma unat_u8_bound: "unat (a :: u8) < 256"
  using unsigned_less [of a, where 'a = nat] by simp

lemma octet_eq_iff: "a = b \<longleftrightarrow> unat (a :: u8) = unat b"
  by (rule word_unat_eq_iff)

text \<open>Arithmetic of four octets: digits in base \<open>m\<close>, and the leading bits of the value.\<close>

lemma digit_inj:
  fixes x y x' y' m :: nat
  assumes "y < m" and "y' < m"
  shows "x * m + y = x' * m + y' \<longleftrightarrow> x = x' \<and> y = y'"
proof
  assume eq: "x * m + y = x' * m + y'"
  have "(x * m + y) div m = x" "(x' * m + y') div m = x'" "(x * m + y) mod m = y" "(x' * m + y') mod m = y'"
    using assms by auto
  then show "x = x' \<and> y = y'" using eq by metis
qed simp

lemma quad_div:
  fixes a b c d :: nat
  assumes "b < 256" and "c < 256" and "d < 256"
  shows "(((a * 256 + b) * 256 + c) * 256 + d) div 65536 = a * 256 + b"
    and "(((a * 256 + b) * 256 + c) * 256 + d) div 16777216 = a"
    and "(((a * 256 + b) * 256 + c) * 256 + d) div 1048576 = a * 16 + b div 16"
    and "(((a * 256 + b) * 256 + c) * 256 + d) div 4194304 = a * 4 + b div 64"
    and "(((a * 256 + b) * 256 + c) * 256 + d) div 268435456 = a div 16"
proof -
  let ?v = "((a * 256 + b) * 256 + c) * 256 + d"
  have "?v div 65536 = ?v div 256 div 256" by (simp only: div_mult2_eq [symmetric]) simp
  then show *: "?v div 65536 = a * 256 + b" using assms by simp
  have "?v div 16777216 = ?v div 65536 div 256" by (simp only: div_mult2_eq [symmetric]) simp
  then show a: "?v div 16777216 = a" unfolding * using assms by simp
  have "?v div 1048576 = ?v div 65536 div 16" by (simp only: div_mult2_eq [symmetric]) simp
  then show "?v div 1048576 = a * 16 + b div 16"
    unfolding * using div_mult_self3 [of 16 "a * 16" b] by (simp add: mult.commute add.commute)
  have "?v div 4194304 = ?v div 65536 div 64" by (simp only: div_mult2_eq [symmetric]) simp
  then show "?v div 4194304 = a * 4 + b div 64"
    unfolding * using div_mult_self3 [of 64 "a * 4" b] by (simp add: mult.commute add.commute)
  have "?v div 268435456 = ?v div 16777216 div 16" by (simp only: div_mult2_eq [symmetric]) simp
  then show "?v div 268435456 = a div 16" unfolding a .
qed

lemma v4_value_div:
  "v4_value (Ipv4 a b c d) div 65536 = unat a * 256 + unat b"
  "v4_value (Ipv4 a b c d) div 16777216 = unat a"
  "v4_value (Ipv4 a b c d) div 1048576 = unat a * 16 + unat b div 16"
  "v4_value (Ipv4 a b c d) div 4194304 = unat a * 4 + unat b div 64"
  "v4_value (Ipv4 a b c d) div 268435456 = unat a div 16"
  unfolding v4_value.simps
  by (rule quad_div [OF unat_u8_bound unat_u8_bound unat_u8_bound])+

lemma v4_value_inj: "v4_value x = v4_value y \<longleftrightarrow> x = y"
  by (cases x; cases y)
     (simp only: v4_value.simps digit_inj [OF unat_u8_bound unat_u8_bound] octet_eq_iff ipv4.inject conj_assoc)

declare v4_value.simps [simp del]

lemma in_block_32: "in_block (v4_value x) (y, 32) \<longleftrightarrow> x = y"
  by (simp add: in_block_def v4_value_inj)

lemma in_block_8: "in_block (v4_value (Ipv4 a b c d)) (Ipv4 p 0 0 0, 8) \<longleftrightarrow> a = p"
  by (simp add: in_block_def octet_eq_iff v4_value_div)

lemma in_block_16: "in_block (v4_value (Ipv4 a b c d)) (Ipv4 p q 0 0, 16) \<longleftrightarrow> a = p \<and> b = q"
  using digit_inj [OF unat_u8_bound unat_u8_bound, of "unat a" b "unat p" q]
  by (simp add: in_block_def octet_eq_iff v4_value_div)

lemma in_block_172: "in_block (v4_value (Ipv4 a b c d)) (Ipv4 172 16 0 0, 12) \<longleftrightarrow>
    a = 172 \<and> 16 \<le> b \<and> b \<le> 31"
proof -
  have "unat b div 16 < 16" using unat_u8_bound [of b] by simp
  then have "unat a * 16 + unat b div 16 = 172 * 16 + 1 \<longleftrightarrow> unat a = 172 \<and> unat b div 16 = 1"
    by (intro digit_inj) auto
  moreover have "unat b div 16 = 1 \<longleftrightarrow> 16 \<le> unat b \<and> unat b \<le> 31" by linarith
  ultimately show ?thesis
    by (simp add: in_block_def octet_eq_iff word_le_nat_alt v4_value_div)
qed

lemma in_block_100: "in_block (v4_value (Ipv4 a b c d)) (Ipv4 100 64 0 0, 10) \<longleftrightarrow>
    a = 100 \<and> 64 \<le> b \<and> b \<le> 127"
proof -
  have "unat b div 64 < 4" using unat_u8_bound [of b] by simp
  then have "unat a * 4 + unat b div 64 = 100 * 4 + 1 \<longleftrightarrow> unat a = 100 \<and> unat b div 64 = 1"
    by (intro digit_inj) auto
  moreover have "unat b div 64 = 1 \<longleftrightarrow> 64 \<le> unat b \<and> unat b \<le> 127" by linarith
  ultimately show ?thesis
    by (simp add: in_block_def octet_eq_iff word_le_nat_alt v4_value_div)
qed

lemma in_block_224: "in_block (v4_value (Ipv4 a b c d)) (Ipv4 224 0 0 0, 4) \<longleftrightarrow>
    224 \<le> a \<and> a \<le> 239"
proof -
  have "unat a div 16 = 14 \<longleftrightarrow> 224 \<le> unat a \<and> unat a \<le> 239" by linarith
  then show ?thesis
    by (simp add: in_block_def octet_eq_iff word_le_nat_alt v4_value_div)
qed

lemmas block_iffs = in_block_32 in_block_8 in_block_16 in_block_172 in_block_100 in_block_224

text \<open>
  C6: the guard blocks an IPv4 address exactly when it lies in one of the blocks of the table, or in
  the loopback block unless loopback is allowed.
\<close>

theorem check_v4_exact:
  "check_v4 g a \<noteq> None \<longleftrightarrow>
     (if in_block (v4_value a) loopback_block then \<not> allow_loopback g
      else list_ex (in_block (v4_value a)) blocked_v4)"
  by (cases a) (simp add: loopback_block_def blocked_v4_def block_iffs)

section \<open>Embedded IPv4 addresses\<close>

definition join_octets :: "u8 \<Rightarrow> u8 \<Rightarrow> u16" where
  "join_octets h l = ucast h * 256 + ucast l"

text \<open>The three embeddings the guard unwraps: mapped, NAT64 and compatible.\<close>

fun mapped :: "ipv4 \<Rightarrow> ipv6" where
  "mapped (Ipv4 a b c d) = Ipv6 0 0 0 0 0 0xffff (join_octets a b) (join_octets c d)"

fun nat64 :: "ipv4 \<Rightarrow> ipv6" where
  "nat64 (Ipv4 a b c d) = Ipv6 0x64 0xff9b 0 0 0 0 (join_octets a b) (join_octets c d)"

fun compatible :: "ipv4 \<Rightarrow> ipv6" where
  "compatible (Ipv4 a b c d) = Ipv6 0 0 0 0 0 0 (join_octets a b) (join_octets c d)"

lemma unat_join_octets: "unat (join_octets h l) = unat h * 256 + unat l"
proof -
  have "take_bit 16 (unat b) = unat b" for b :: u8
    by (rule take_bit_nat_eq_self) (use unat_u8_bound [of b] in simp)
  then have "unat (ucast h :: u16) = unat h" "unat (ucast l :: u16) = unat l"
    by (simp_all add: unsigned_ucast_eq)
  moreover have "unat h * 256 + unat l < 2 ^ 16"
    using unat_u8_bound [of h] unat_u8_bound [of l] by simp
  ultimately show ?thesis
    unfolding join_octets_def by (simp add: unat_word_ariths)
qed

lemma low_octet: "unat (ucast (w AND 0xff) :: u8) = unat (w :: u16) mod 256"
proof -
  have "w AND 0xff = take_bit 8 w"
    by (simp add: take_bit_eq_mask mask_eq_exp_minus_1)
  then have "unat (ucast (w AND 0xff) :: u8) = take_bit 8 (take_bit 8 (unat w))"
    by (simp only: unsigned_ucast_eq unsigned_take_bit_eq) simp
  then show ?thesis by (simp add: take_bit_eq_mod)
qed

lemma take_bit_unat_u16: "take_bit 16 (unat (w :: u16)) = unat w"
  by (rule take_bit_nat_eq_self) (use unsigned_less [of w, where 'a = nat] in simp)

lemma high_octet: "unat (ucast (drop_bit 8 w) :: u8) = unat (w :: u16) div 256"
proof -
  have "unat w < 65536" using unsigned_less [of w, where 'a = nat] by simp
  then have "take_bit 8 (unat w div 256) = unat w div 256"
    by (intro take_bit_nat_eq_self) simp
  moreover have "unat (ucast (drop_bit 8 w) :: u8) = take_bit 8 (drop_bit 8 (unat w))"
    by (simp only: unsigned_ucast_eq unsigned_drop_bit_eq) (simp add: take_bit_unat_u16)
  ultimately show ?thesis by (simp add: drop_bit_eq_div)
qed

lemma last_v4_join: "last_v4 (join_octets a b) (join_octets c d) = Ipv4 a b c d"
  using unat_u8_bound [of b] unat_u8_bound [of d]
  by (simp add: last_v4_def octet_eq_iff low_octet high_octet unat_join_octets)

lemma join_octets_zero_iff: "join_octets h l = 0 \<longleftrightarrow> h = 0 \<and> l = 0"
  by (simp add: word_unat_eq_iff [of "join_octets h l"] unat_join_octets octet_eq_iff)

lemma join_octets_le_one: "join_octets h l \<le> 1 \<longleftrightarrow> h = 0 \<and> l \<le> 1"
  using unat_u8_bound [of l]
  by (auto simp: word_le_nat_alt unat_join_octets octet_eq_iff)



section \<open>Native IPv6 addresses\<close>

text \<open>Membership of the first segment in a block of at most 16 bits.\<close>

definition seg_in_block :: "u16 \<Rightarrow> nat \<Rightarrow> nat \<Rightarrow> bool" where
  "seg_in_block s base len = (unat s div 2 ^ (16 - len) = base div 2 ^ (16 - len))"

lemma and_high_mask:
  "unat (s AND NOT (mask n) :: u16) = unat s div 2 ^ n * 2 ^ n"
proof -
  have "s AND NOT (mask n) = push_bit n (drop_bit n s)" for s :: u16
    by (rule bit_word_eqI) (auto simp: bit_simps)
  moreover have "unat (push_bit n (drop_bit n s)) = unat s div 2 ^ n * 2 ^ n"
  proof -
    have "unat s div 2 ^ n * 2 ^ n \<le> unat s" by simp
    also have "unat s < 2 ^ 16" using unsigned_less [of s, where 'a = nat] by simp
    finally have "take_bit 16 (unat s div 2 ^ n * 2 ^ n) = unat s div 2 ^ n * 2 ^ n"
      by (rule take_bit_nat_eq_self)
    moreover have "unat (push_bit n (drop_bit n s)) = take_bit 16 (push_bit n (drop_bit n (unat s)))"
      by (simp only: unsigned_push_bit_eq unsigned_drop_bit_eq) (simp add: take_bit_unat_u16)
    ultimately show ?thesis by (simp add: push_bit_eq_mult drop_bit_eq_div)
  qed
  ultimately show ?thesis by simp
qed

lemma seg_mask_iff:
  assumes "m = NOT (mask (16 - len))" and "unat v = base div 2 ^ (16 - len) * 2 ^ (16 - len)"
  shows "s AND m = v \<longleftrightarrow> seg_in_block s base len"
  unfolding assms(1) word_unat_eq_iff [of "s AND _"] and_high_mask assms(2) seg_in_block_def by simp

lemma seg_blocks:
  "s AND 0xffc0 = 0xfe80 \<longleftrightarrow> seg_in_block s 0xfe80 10"
  "s AND 0xfe00 = 0xfc00 \<longleftrightarrow> seg_in_block s 0xfc00 7"
  "s AND 0xff00 = 0xff00 \<longleftrightarrow> seg_in_block s 0xff00 8"
  by (rule seg_mask_iff; simp add: mask_eq_exp_minus_1)+

text \<open>
  An IPv6 address without an embedded IPv4 address is blocked exactly when it is the unspecified
  address, link-local \<open>fe80::/10\<close>, unique-local \<open>fc00::/7\<close>, multicast \<open>ff00::/8\<close>, or the loopback
  address while loopback is not allowed.
\<close>

theorem check_v6_exact:
  assumes "embedded_ipv4 (Ipv6 s0 s1 s2 s3 s4 s5 s6 s7) = None"
  shows "is_blocked g (V6 (Ipv6 s0 s1 s2 s3 s4 s5 s6 s7)) \<longleftrightarrow>
     (if Ipv6 s0 s1 s2 s3 s4 s5 s6 s7 = Ipv6 0 0 0 0 0 0 0 1 then \<not> allow_loopback g
      else Ipv6 s0 s1 s2 s3 s4 s5 s6 s7 = Ipv6 0 0 0 0 0 0 0 0 \<or>
           seg_in_block s0 0xfe80 10 \<or> seg_in_block s0 0xfc00 7 \<or> seg_in_block s0 0xff00 8)"
  using assms
  by (simp add: is_blocked_def seg_blocks del: embedded_ipv4.simps)

theorem check_v6_exact_witness:
  "is_blocked ip_guard_new (V6 (Ipv6 0xfe80 0 0 0 0 0 0 1)) \<and>
   \<not> is_blocked ip_guard_new (V6 (Ipv6 0x2001 0xdb8 0 0 0 0 0 1))"
  using check_v6_exact [of "0xfe80" 0 0 0 0 0 0 1 ip_guard_new]
    check_v6_exact [of "0x2001" "0xdb8" 0 0 0 0 0 1 ip_guard_new]
  by (simp add: seg_in_block_def)

section \<open>The allowlist as a set of names\<close>

lemma entry_allows_wildcard:
  "entry_allows h (Wildcard suf) \<longleftrightarrow> h = suf \<or> (\<exists>p. h = p @ ''.'' @ suf)"
  by (auto simp: ends_with_def suffix_def strip_suffix_Some_iff strip_suffix_None_iff
      split: option.splits)

text \<open>
  C8: a host is allowed exactly when an entry names it, or a wildcard entry names it or one of its
  parent domains: a wildcard never matches across a label boundary. Case and one trailing dot do
  not matter on either side.
\<close>

theorem allows_iff:
  "allows (allowlist_new domains) host \<longleftrightarrow>
     (\<exists>raw\<in>set domains.
        if prefix ''*.'' (normalize_host raw)
        then normalize_host host = drop 2 (normalize_host raw) \<or>
             (\<exists>label. normalize_host host = label @ ''.'' @ drop 2 (normalize_host raw))
        else normalize_host host = normalize_host raw)"
proof -
  have "entry_allows h (compile_entry raw) \<longleftrightarrow>
      (if prefix ''*.'' (normalize_host raw)
       then h = drop 2 (normalize_host raw) \<or> (\<exists>label. h = label @ ''.'' @ drop 2 (normalize_host raw))
       else h = normalize_host raw)" for h raw
    by (auto simp: compile_entry_def strip_prefix_def Let_def entry_allows_wildcard numeral_2_eq_2
        simp del: entry_allows.simps(2))
  then show ?thesis by (auto simp: allows_def allowlist_new_def list_ex_iff Let_def)
qed

lemma normalize_host_case:
  "to_ascii_lowercase a = to_ascii_lowercase b \<Longrightarrow> normalize_host a = normalize_host b"
proof -
  assume eq: "to_ascii_lowercase a = to_ascii_lowercase b"
  have strip: "to_ascii_lowercase (case strip_suffix ''.'' x of None \<Rightarrow> x | Some t \<Rightarrow> t) =
      (let l = to_ascii_lowercase x in if suffix ''.'' l then butlast l else l)" for x
  proof (cases x rule: rev_cases)
    case (snoc ys y)
    then show ?thesis
      by (auto simp: strip_suffix_def suffix_snoc_singleton to_ascii_lowercase_def butlast_append Let_def)
  qed (simp add: strip_suffix_def)
  show ?thesis unfolding normalize_host_def strip eq ..
qed

text \<open>Matching ignores the case of ASCII letters.\<close>

theorem allows_ignores_case:
  assumes "eq_ignore_ascii_case a b"
  shows "allows al a = allows al b"
  using assms by (simp add: allows_def eq_ignore_ascii_case_def normalize_host_case [of a b])

theorem allows_ignores_case_witness:
  "allows (allowlist_new [''*.Example.com'']) ''API.example.COM''"
proof -
  have "eq_ignore_ascii_case ''API.example.COM'' ''api.example.com''" by code_simp
  moreover have "allows (allowlist_new [''*.Example.com'']) ''api.example.com''" by code_simp
  ultimately show ?thesis using allows_ignores_case by blast
qed

end
