(* ===== verification/Silo_Proxy.thy ===== *)
theory Silo_Proxy
  imports Silo_Net Silo_Event "HOL-Library.AList"
begin

text \<open>
  The egress proxy: upstream connections (\<open>silo-proxy/src/upstream.rs\<close>), credential injection
  (\<open>silo-proxy/src/credentials.rs\<close>) and the HTTP front (\<open>silo-proxy/src/proxy.rs\<close>).

  The sockets, the host resolver, the TLS library and the HTTP library are outside the repository;
  they are the fields of \<open>net_env\<close> and \<open>header_ops\<close>, functions that may also change a world of an
  arbitrary type. The state threaded through the handlers is the world, the journal, and the list of
  actions the proxy performed, in order: names looked up, addresses dialled, requests sent upstream
  and status codes returned to the sandbox.
\<close>

section \<open>Socket addresses and their text\<close>

datatype sock_addr = SockAddr (sa_ip: ip_addr) (sa_port: u16)

text \<open>The text of an address, as the standard library prints it.\<close>

fun hex_to_string :: "nat \<Rightarrow> string" where
  "hex_to_string n =
     (if n < 16 then [hex_digit n] else hex_to_string (n div 16) @ [hex_digit (n mod 16)])"

declare hex_to_string.simps [simp del]

fun v4_to_string :: "ipv4 \<Rightarrow> string" where
  "v4_to_string (Ipv4 a b c d) =
     join_with ''.'' (map (\<lambda>x. nat_to_string (unat x)) [a, b, c, d])"

fun v6_segments :: "ipv6 \<Rightarrow> u16 list" where
  "v6_segments (Ipv6 a b c d e f g h) = [a, b, c, d, e, f, g, h]"

text \<open>Start and length of the first longest run of zero segments.\<close>

fun longest_zero_run :: "nat \<Rightarrow> nat \<times> nat \<Rightarrow> nat \<times> nat \<Rightarrow> u16 list \<Rightarrow> nat \<times> nat" where
  "longest_zero_run i cur best [] = best"
| "longest_zero_run i cur best (x # xs) =
     (if x = 0 then
        let c = (if snd cur = 0 then i else fst cur, Suc (snd cur)) in
        longest_zero_run (Suc i) c (if snd c > snd best then c else best) xs
      else longest_zero_run (Suc i) (0, 0) best xs)"

definition segs_to_string :: "u16 list \<Rightarrow> string" where
  "segs_to_string xs = join_with '':'' (map (\<lambda>x. hex_to_string (unat x)) xs)"

definition v6_to_string :: "ipv6 \<Rightarrow> string" where
  "v6_to_string a =
     (let segs = v6_segments a in
      if take 6 segs = [0, 0, 0, 0, 0, 0xffff] then
        ''::ffff:'' @ v4_to_string (last_v4 (segs ! 6) (segs ! 7))
      else
        let (start, len) = longest_zero_run 0 (0, 0) (0, 0) segs in
        if len > 1 then
          segs_to_string (take start segs) @ ''::'' @ segs_to_string (drop (start + len) segs)
        else segs_to_string segs)"

fun ip_to_string :: "ip_addr \<Rightarrow> string" where
  "ip_to_string (V4 a) = v4_to_string a"
| "ip_to_string (V6 a) = v6_to_string a"

section \<open>The outside world\<close>

record 'h http_request =
  rq_method :: string
  rq_path :: string
  rq_path_and_query :: "string option"
  rq_headers :: 'h
  rq_body :: "string option"

record 'h out_request =
  or_method :: string
  or_uri :: string
  or_headers :: 'h
  or_body :: string

record 'h http_response =
  rs_status :: u16
  rs_headers :: 'h
  rs_body :: string

text \<open>
  The operations of the \<open>http\<close> crate: names are canonical once parsed, \<open>ho_get_all\<close> gives the values
  under a name in order, and \<open>ho_uri_error\<close> is the builder's complaint about a request target.
\<close>

record 'h header_ops =
  ho_name :: "string \<Rightarrow> string option"
  ho_value :: "string \<Rightarrow> string option"
  ho_to_str :: "string \<Rightarrow> string option"
  ho_empty :: 'h
  ho_remove :: "string \<Rightarrow> 'h \<Rightarrow> 'h"
  ho_insert :: "string \<Rightarrow> string \<Rightarrow> 'h \<Rightarrow> 'h"
  ho_get_all :: "string \<Rightarrow> 'h \<Rightarrow> string list"
  ho_uri_error :: "string \<Rightarrow> string option"

text \<open>What the documentation of \<open>HeaderMap\<close> promises of removal and insertion.\<close>

definition header_laws :: "'h header_ops \<Rightarrow> bool" where
  "header_laws ho =
     ((\<forall>n h. ho_get_all ho n (ho_remove ho n h) = []) \<and>
      (\<forall>n m h. m \<noteq> n \<longrightarrow> ho_get_all ho m (ho_remove ho n h) = ho_get_all ho m h) \<and>
      (\<forall>n v h. ho_get_all ho n (ho_insert ho n v h) = [v]) \<and>
      (\<forall>n m v h. m \<noteq> n \<longrightarrow> ho_get_all ho m (ho_insert ho n v h) = ho_get_all ho m h))"

text \<open>
  Sockets, resolver and TLS. A \<open>None\<close> in place of an error text is success. \<open>ne_requests\<close> gives the
  requests the HTTP server parses from the rest of the client's stream, after the bytes replayed.
\<close>

record ('w, 'h) net_env =
  ne_read :: "'w \<Rightarrow> (io_error + char option) \<times> 'w"
  ne_write :: "string \<Rightarrow> 'w \<Rightarrow> io_error option \<times> 'w"
  ne_lookup :: "string \<Rightarrow> 'w \<Rightarrow> (io_error + sock_addr list) \<times> 'w"
  ne_connect :: "sock_addr \<Rightarrow> 'w \<Rightarrow> io_error option \<times> 'w"
  ne_server_config :: "string option"
  ne_tls_accept :: "'w \<Rightarrow> string option \<times> 'w"
  ne_server_name :: "string \<Rightarrow> string option"
  ne_tls_connect :: "string \<Rightarrow> 'w \<Rightarrow> string option \<times> 'w"
  ne_requests :: "bool \<Rightarrow> string \<Rightarrow> 'w \<Rightarrow> 'h http_request list \<times> 'w"
  ne_handshake :: "'w \<Rightarrow> string option \<times> 'w"
  ne_send_request :: "'h out_request \<Rightarrow> 'w \<Rightarrow> (string + u16 \<times> 'h) \<times> 'w"
  ne_collect :: "'w \<Rightarrow> (string + string) \<times> 'w"

datatype 'h net_action =
    NA_Lookup string u16
  | NA_Dial sock_addr
  | NA_Send string "'h out_request"
  | NA_Status u16

record ('w, 'h) net =
  nt_world :: 'w
  nt_trace :: "'h net_action list"
  nt_journal :: journal

definition act :: "'h net_action \<Rightarrow> ('w, 'h) net \<Rightarrow> ('w, 'h) net" where
  "act a s = s\<lparr>nt_trace := nt_trace s @ [a]\<rparr>"

definition world_op :: "('w \<Rightarrow> 'r \<times> 'w) \<Rightarrow> ('w, 'h) net \<Rightarrow> 'r \<times> ('w, 'h) net" where
  "world_op f s = (let (r, w) = f (nt_world s) in (r, s\<lparr>nt_world := w\<rparr>))"

definition journal_network :: "network_record \<Rightarrow> ('w, 'h) net \<Rightarrow> ('w, 'h) net" where
  "journal_network r s = s\<lparr>nt_journal := journal_append (JE_Network r) (nt_journal s)\<rparr>"

section \<open>Upstream connections\<close>

datatype upstream_error =
    Ue_Blocked string
  | Ue_Resolve string
  | Ue_Connect string
  | Ue_Tls string

fun upstream_error_to_string :: "upstream_error \<Rightarrow> string" where
  "upstream_error_to_string (Ue_Blocked m) = ''blocked address: '' @ m"
| "upstream_error_to_string (Ue_Resolve m) = ''resolve failed: '' @ m"
| "upstream_error_to_string (Ue_Connect m) = ''connect failed: '' @ m"
| "upstream_error_to_string (Ue_Tls m) = ''upstream tls failed: '' @ m"

record upstream_connector =
  uc_guard :: ip_guard
  uc_overrides :: "(string \<times> sock_addr) list"

definition resolve ::
  "('w, 'h) net_env \<Rightarrow> upstream_connector \<Rightarrow> string \<Rightarrow> u16 \<Rightarrow> ('w, 'h) net
     \<Rightarrow> (upstream_error + sock_addr list) \<times> ('w, 'h) net" where
  "resolve env uc host port s =
     (case map_of (uc_overrides uc) (normalize_host host) of
        Some addr \<Rightarrow> (Inr [addr], s)
      | None \<Rightarrow>
          let lookup = host @ '':'' @ nat_to_string (unat port);
              (r, s1) = world_op (ne_lookup env lookup) (act (NA_Lookup host port) s)
          in case r of
               Inr addrs \<Rightarrow>
                 if addrs = [] then (Inl (Ue_Resolve (''no addresses for '' @ host)), s1)
                 else (Inr addrs, s1)
             | Inl e \<Rightarrow> (Inl (Ue_Resolve (host @ '': '' @ e)), s1))"

text \<open>The first blocked address of the candidates, with the guard's reason.\<close>

fun first_blocked :: "ip_guard \<Rightarrow> sock_addr list \<Rightarrow> (sock_addr \<times> block_reason) option" where
  "first_blocked g [] = None"
| "first_blocked g (a # addrs) =
     (case guard_check g (sa_ip a) of Some r \<Rightarrow> Some (a, r) | None \<Rightarrow> first_blocked g addrs)"

fun try_connect ::
  "('w, 'h) net_env \<Rightarrow> sock_addr list \<Rightarrow> io_error option \<Rightarrow> ('w, 'h) net
     \<Rightarrow> (upstream_error + sock_addr) \<times> ('w, 'h) net" where
  "try_connect env [] last_err s =
     (Inl (Ue_Connect (case last_err of Some e \<Rightarrow> e | None \<Rightarrow> ''no addresses'')), s)"
| "try_connect env (a # addrs) last_err s =
     (case world_op (ne_connect env a) (act (NA_Dial a) s) of
        (None, s1) \<Rightarrow> (Inr a, s1)
      | (Some e, s1) \<Rightarrow> try_connect env addrs (Some e) s1)"

definition connect_tcp ::
  "('w, 'h) net_env \<Rightarrow> upstream_connector \<Rightarrow> string \<Rightarrow> u16 \<Rightarrow> ('w, 'h) net
     \<Rightarrow> (upstream_error + sock_addr) \<times> ('w, 'h) net" where
  "connect_tcp env uc host port s =
     (case resolve env uc host port s of
        (Inl e, s1) \<Rightarrow> (Inl e, s1)
      | (Inr addrs, s1) \<Rightarrow>
          (case first_blocked (uc_guard uc) addrs of
             Some (a, reason) \<Rightarrow>
               (Inl (Ue_Blocked (host @ '' resolves to '' @ ip_to_string (sa_ip a)
                                 @ '' ('' @ block_reason_as_str reason @ '')'')), s1)
           | None \<Rightarrow> try_connect env addrs None s1))"

definition connect_tls ::
  "('w, 'h) net_env \<Rightarrow> upstream_connector \<Rightarrow> string \<Rightarrow> u16 \<Rightarrow> ('w, 'h) net
     \<Rightarrow> (upstream_error + sock_addr) \<times> ('w, 'h) net" where
  "connect_tls env uc host port s =
     (case connect_tcp env uc host port s of
        (Inl e, s1) \<Rightarrow> (Inl e, s1)
      | (Inr a, s1) \<Rightarrow>
          (case ne_server_name env host of
             Some e \<Rightarrow> (Inl (Ue_Tls (''invalid server name '' @ host @ '': '' @ e)), s1)
           | None \<Rightarrow>
               (case world_op (ne_tls_connect env host) s1 of
                  (Some e, s2) \<Rightarrow> (Inl (Ue_Tls e), s2)
                | (None, s2) \<Rightarrow> (Inr a, s2))))"

section \<open>Credentials\<close>

record credential_injection =
  ci_host :: string
  ci_header :: string
  ci_value_env :: string
  ci_format :: string

record proxy_settings =
  px_allowed_domains :: "string list"
  px_credentials :: "credential_injection list"

record resolved_credential =
  rc_header :: string
  rc_format :: string
  rc_secret :: string

type_synonym credential_store = "(string \<times> resolved_credential) list"

definition read_secret ::
  "(string \<Rightarrow> string option) \<Rightarrow> credential_injection \<Rightarrow> proxy_error + string" where
  "read_secret getenv ci =
     (case getenv (ci_value_env ci) of
        Some v \<Rightarrow> Inr v
      | None \<Rightarrow> Inl (Px_Setup (''credential for host '' @ ci_host ci
          @ '' requires environment variable '' @ ci_value_env ci @ '' which is not set'')))"

fun load_credentials ::
  "(string \<Rightarrow> string option) \<Rightarrow> credential_injection list \<Rightarrow> credential_store
     \<Rightarrow> proxy_error + credential_store" where
  "load_credentials getenv [] store = Inr store"
| "load_credentials getenv (ci # rest) store =
     (case read_secret getenv ci of
        Inl e \<Rightarrow> Inl e
      | Inr v \<Rightarrow> load_credentials getenv rest
          (AList.update (normalize_host (ci_host ci))
             \<lparr>rc_header = ci_header ci, rc_format = ci_format ci, rc_secret = v\<rparr> store))"

definition from_settings ::
  "(string \<Rightarrow> string option) \<Rightarrow> proxy_settings \<Rightarrow> proxy_error + credential_store" where
  "from_settings getenv ps = load_credentials getenv (px_credentials ps) []"

definition has_host :: "credential_store \<Rightarrow> string \<Rightarrow> bool" where
  "has_host store host = (map_of store (normalize_host host) \<noteq> None)"

definition hosts :: "credential_store \<Rightarrow> string list" where
  "hosts store = sort (map fst store)"

text \<open>The injected value: the template with every \<open>{secret}\<close> replaced.\<close>

definition credential_value :: "resolved_credential \<Rightarrow> string" where
  "credential_value rc = str_replace ''{secret}'' (rc_secret rc) (rc_format rc)"

definition apply_credentials ::
  "'h header_ops \<Rightarrow> credential_store \<Rightarrow> string \<Rightarrow> 'h \<Rightarrow> bool \<times> 'h" where
  "apply_credentials ho store host headers =
     (case map_of store (normalize_host host) of
        None \<Rightarrow> (False, headers)
      | Some rc \<Rightarrow>
          (case ho_name ho (rc_header rc) of
             None \<Rightarrow> (False, headers)
           | Some name \<Rightarrow>
               (case ho_value ho (credential_value rc) of
                  Some v \<Rightarrow> (True, ho_insert ho name v (ho_remove ho name headers))
                | None \<Rightarrow> (False, ho_remove ho name headers))))"


section \<open>The HTTP front\<close>

record proxy_state =
  ps_allowlist :: domain_allowlist
  ps_credentials :: credential_store
  ps_upstream :: upstream_connector

definition journal_block :: "string \<Rightarrow> u16 \<Rightarrow> string \<Rightarrow> ('w, 'h) net \<Rightarrow> ('w, 'h) net" where
  "journal_block host port note =
     journal_network (network_record_default
       \<lparr>nr_host := host, nr_port := port, nr_allowed := False, nr_note := Some note\<rparr>)"

definition CRLFCRLF :: string where
  "CRLFCRLF = [CHR 0x0D, CHR 0x0A, CHR 0x0D, CHR 0x0A]"

definition max_head :: nat where
  "max_head = 64 * 1024"

text \<open>One byte at a time until the end of the header block, the end of input or the size limit.\<close>

function read_head_loop ::
  "('w, 'h) net_env \<Rightarrow> string \<Rightarrow> ('w, 'h) net \<Rightarrow> (proxy_error + string) \<times> ('w, 'h) net" where
  "read_head_loop env buf s =
     (case world_op (ne_read env) s of
        (Inl e, s1) \<Rightarrow> (Inl (Px_Io e), s1)
      | (Inr None, s1) \<Rightarrow> (Inr buf, s1)
      | (Inr (Some c), s1) \<Rightarrow>
          let buf1 = buf @ [c] in
          if suffix CRLFCRLF buf1 then (Inr buf1, s1)
          else if length buf1 > max_head then (Inl (Px_Setup ''request head too large''), s1)
          else read_head_loop env buf1 s1)"
  by pat_completeness auto
termination
  by (relation "measure (\<lambda>(env, buf, s). Suc max_head - length buf)") auto

declare read_head_loop.simps [simp del]

definition read_request_head ::
  "('w, 'h) net_env \<Rightarrow> ('w, 'h) net \<Rightarrow> (proxy_error + string) \<times> ('w, 'h) net" where
  "read_request_head env s = read_head_loop env [] s"

definition parse_request_line :: "string \<Rightarrow> (string \<times> string) option" where
  "parse_request_line head =
     (case from_utf8 head of
        None \<Rightarrow> None
      | Some body \<Rightarrow>
          (case first_line body of
             None \<Rightarrow> None
           | Some line \<Rightarrow>
               (case split_whitespace line of
                  method # target # _ \<Rightarrow> Some (method, target)
                | _ \<Rightarrow> None)))"

definition parse_port :: "u16 \<Rightarrow> string \<Rightarrow> u16" where
  "parse_port default_port p =
     (case parse_uint 16 p of Some n \<Rightarrow> of_nat n | None \<Rightarrow> default_port)"

definition split_host_port_plain :: "string \<Rightarrow> u16 \<Rightarrow> string \<times> u16" where
  "split_host_port_plain target default_port =
     (case rsplit_once CHR '':'' target of
        Some (host, port) \<Rightarrow> (host, parse_port default_port port)
      | None \<Rightarrow> (target, default_port))"

definition split_host_port :: "string \<Rightarrow> u16 \<Rightarrow> string \<times> u16" where
  "split_host_port target default_port =
     (case strip_prefix ''['' target of
        Some stripped \<Rightarrow>
          (case split_once CHR '']'' stripped of
             Some (host, rest) \<Rightarrow>
               (host, (case strip_prefix '':'' rest of
                         Some p \<Rightarrow> parse_port default_port p
                       | None \<Rightarrow> default_port))
           | None \<Rightarrow> split_host_port_plain target default_port)
      | None \<Rightarrow> split_host_port_plain target default_port)"

definition host_policy :: "proxy_state \<Rightarrow> string \<Rightarrow> string option" where
  "host_policy ps host =
     (if \<not> allows (ps_allowlist ps) host then Some ''domain not allowlisted''
      else case parse_ip host of
        Some ip \<Rightarrow> if is_blocked (uc_guard (ps_upstream ps)) ip then Some ''blocked address'' else None
      | None \<Rightarrow> None)"

definition is_upgrade :: "'h header_ops \<Rightarrow> 'h \<Rightarrow> bool" where
  "is_upgrade ho headers =
     (ho_get_all ho ''upgrade'' headers \<noteq> [] \<or>
      (case ho_get_all ho ''connection'' headers of
         [] \<Rightarrow> False
       | v # _ \<Rightarrow> (case ho_to_str ho v of
                     None \<Rightarrow> False
                   | Some t \<Rightarrow> str_contains ''upgrade'' (to_ascii_lowercase t))))"

definition status_response :: "'h header_ops \<Rightarrow> u16 \<Rightarrow> string \<Rightarrow> 'h http_response" where
  "status_response ho code message =
     \<lparr>rs_status = code, rs_headers = ho_empty ho, rs_body = message\<rparr>"

definition status_line :: "u16 \<Rightarrow> string \<Rightarrow> string" where
  "status_line code reason =
     ''HTTP/1.1 '' @ nat_to_string (unat code) @ '' '' @ reason @ [CHR 0x0D, CHR 0x0A]
     @ ''Content-Length: 0'' @ CRLFCRLF"

definition write_status ::
  "('w, 'h) net_env \<Rightarrow> u16 \<Rightarrow> string \<Rightarrow> ('w, 'h) net \<Rightarrow> proxy_error option \<times> ('w, 'h) net" where
  "write_status env code reason s =
     (case world_op (ne_write env (status_line code reason)) (act (NA_Status code) s) of
        (Some e, s1) \<Rightarrow> (Some (Px_Io e), s1)
      | (None, s1) \<Rightarrow> (None, s1))"

text \<open>One exchange over an established connection to \<open>host\<close>.\<close>

definition send_over ::
  "('w, 'h) net_env \<Rightarrow> string \<Rightarrow> 'h out_request \<Rightarrow> ('w, 'h) net
     \<Rightarrow> (upstream_error + u16 \<times> 'h \<times> string) \<times> ('w, 'h) net" where
  "send_over env host req s =
     (case world_op (ne_handshake env) s of
        (Some e, s1) \<Rightarrow> (Inl (Ue_Connect e), s1)
      | (None, s1) \<Rightarrow>
          (case world_op (ne_send_request env req) (act (NA_Send host req) s1) of
             (Inl e, s2) \<Rightarrow> (Inl (Ue_Connect e), s2)
           | (Inr (status, headers), s2) \<Rightarrow>
               (case world_op (ne_collect env) s2 of
                  (Inl e, s3) \<Rightarrow> (Inl (Ue_Connect e), s3)
                | (Inr body, s3) \<Rightarrow> (Inr (status, headers, body), s3))))"

text \<open>The request sent upstream: credentials applied, then the host header set.\<close>

definition out_headers :: "'h header_ops \<Rightarrow> string \<Rightarrow> 'h \<Rightarrow> 'h" where
  "out_headers ho host headers =
     ho_insert ho ''host'' (case ho_value ho host of Some v \<Rightarrow> v | None \<Rightarrow> []) headers"

definition forward_request ::
  "'h header_ops \<Rightarrow> ('w, 'h) net_env \<Rightarrow> proxy_state \<Rightarrow> string \<Rightarrow> u16 \<Rightarrow> bool \<Rightarrow> 'h http_request
     \<Rightarrow> ('w, 'h) net
     \<Rightarrow> (upstream_error + 'h http_response \<times> u64 \<times> u64 \<times> u16 \<times> bool) \<times> ('w, 'h) net" where
  "forward_request ho env ps host port secure req s =
     (let body = (case rq_body req of Some b \<Rightarrow> b | None \<Rightarrow> []);
          (injected, headers) = apply_credentials ho (ps_credentials ps) host (rq_headers req);
          uri = (case rq_path_and_query req of Some pq \<Rightarrow> pq | None \<Rightarrow> ''/'') in
      case ho_uri_error ho uri of
        Some e \<Rightarrow> (Inl (Ue_Connect e), s)
      | None \<Rightarrow>
          let out_req = \<lparr>or_method = rq_method req, or_uri = uri,
                         or_headers = out_headers ho host headers, or_body = body\<rparr> in
          case (if secure then connect_tls env (ps_upstream ps) host port s
                else connect_tcp env (ps_upstream ps) host port s) of
            (Inl e, s1) \<Rightarrow> (Inl e, s1)
          | (Inr _, s1) \<Rightarrow>
              (case send_over env host out_req s1 of
                 (Inl e, s2) \<Rightarrow> (Inl e, s2)
               | (Inr (status, rheaders, rbody), s2) \<Rightarrow>
                   (Inr (\<lparr>rs_status = status, rs_headers = rheaders, rs_body = rbody\<rparr>,
                         of_nat (length body), of_nat (length rbody), status, injected), s2)))"

fun upstream_note :: "upstream_error \<Rightarrow> string" where
  "upstream_note (Ue_Blocked _) = ''blocked address''"
| "upstream_note (Ue_Resolve _) = ''resolve failed''"
| "upstream_note (Ue_Connect _) = ''connect failed''"
| "upstream_note (Ue_Tls _) = ''upstream tls failed''"

definition request_record :: "string \<Rightarrow> u16 \<Rightarrow> 'h http_request \<Rightarrow> network_record" where
  "request_record host port req =
     network_record_default\<lparr>nr_host := host, nr_port := port, nr_method := Some (rq_method req),
       nr_path := Some (rq_path req)\<rparr>"

definition handle_inner ::
  "'h header_ops \<Rightarrow> ('w, 'h) net_env \<Rightarrow> proxy_state \<Rightarrow> string \<Rightarrow> u16 \<Rightarrow> bool \<Rightarrow> 'h http_request
     \<Rightarrow> ('w, 'h) net \<Rightarrow> 'h http_response \<times> ('w, 'h) net" where
  "handle_inner ho env ps host port secure req s =
     (let r = request_record host port req in
      if is_upgrade ho (rq_headers req) then
        (status_response ho 403 ''upgrade blocked'',
         journal_network (r\<lparr>nr_allowed := False, nr_note := Some ''upgrade blocked''\<rparr>) s)
      else case forward_request ho env ps host port secure req s of
        (Inr (response, sent, received, status, injected), s1) \<Rightarrow>
          (response,
           journal_network (r\<lparr>nr_status := Some status, nr_bytes_sent := sent,
             nr_bytes_received := received, nr_allowed := True,
             nr_credential_injected := injected, nr_note := None\<rparr>) s1)
      | (Inl err, s1) \<Rightarrow>
          (status_response ho 502 (''upstream error: '' @ upstream_error_to_string err),
           journal_network (r\<lparr>nr_allowed := (case err of Ue_Blocked _ \<Rightarrow> False | _ \<Rightarrow> True),
             nr_note := Some (upstream_note err)\<rparr>) s1))"

fun serve_requests ::
  "'h header_ops \<Rightarrow> ('w, 'h) net_env \<Rightarrow> proxy_state \<Rightarrow> string \<Rightarrow> u16 \<Rightarrow> bool \<Rightarrow> 'h http_request list
     \<Rightarrow> ('w, 'h) net \<Rightarrow> 'h http_response list \<times> ('w, 'h) net" where
  "serve_requests ho env ps host port secure [] s = ([], s)"
| "serve_requests ho env ps host port secure (req # reqs) s =
     (let (r, s1) = handle_inner ho env ps host port secure req s;
          (rs, s2) = serve_requests ho env ps host port secure reqs s1
      in (r # rs, s2))"

definition serve_inner_http ::
  "'h header_ops \<Rightarrow> ('w, 'h) net_env \<Rightarrow> proxy_state \<Rightarrow> string \<Rightarrow> string \<Rightarrow> u16 \<Rightarrow> bool
     \<Rightarrow> ('w, 'h) net \<Rightarrow> proxy_error option \<times> ('w, 'h) net" where
  "serve_inner_http ho env ps replayed host port secure s =
     (let (reqs, s1) = world_op (ne_requests env secure replayed) s in
      (None, snd (serve_requests ho env ps host port secure reqs s1)))"

definition serve_connect ::
  "'h header_ops \<Rightarrow> ('w, 'h) net_env \<Rightarrow> proxy_state \<Rightarrow> string \<Rightarrow> ('w, 'h) net
     \<Rightarrow> proxy_error option \<times> ('w, 'h) net" where
  "serve_connect ho env ps target s =
     (let (host, port) = split_host_port target 443 in
      case host_policy ps host of
        Some note \<Rightarrow> write_status env 403 ''Forbidden'' (journal_block host port note s)
      | None \<Rightarrow>
          (case write_status env 200 ''Connection Established'' s of
             (Some e, s1) \<Rightarrow> (Some e, s1)
           | (None, s1) \<Rightarrow>
               (case ne_server_config env of
                  Some e \<Rightarrow> (Some (Px_Tls e), s1)
                | None \<Rightarrow>
                    (case world_op (ne_tls_accept env) s1 of
                       (Some e, s2) \<Rightarrow> (None, journal_block host port ''tls handshake failed'' s2)
                     | (None, s2) \<Rightarrow> serve_inner_http ho env ps [] host port True s2))))"

definition serve_plain ::
  "'h header_ops \<Rightarrow> ('w, 'h) net_env \<Rightarrow> proxy_state \<Rightarrow> string \<Rightarrow> ('w, 'h) net
     \<Rightarrow> proxy_error option \<times> ('w, 'h) net" where
  "serve_plain ho env ps head s =
     (case parse_request_line head of
        None \<Rightarrow> (None, s)
      | Some (_, target) \<Rightarrow>
          (case strip_prefix ''http://'' target of
             None \<Rightarrow> write_status env 400 ''Bad Request'' s
           | Some rest \<Rightarrow>
               let authority = split_first CHR ''/'' rest;
                   (host, port) = split_host_port authority 80 in
               case host_policy ps host of
                 Some note \<Rightarrow> write_status env 403 ''Forbidden'' (journal_block host port note s)
               | None \<Rightarrow> serve_inner_http ho env ps head host port False s))"

definition serve_connection ::
  "'h header_ops \<Rightarrow> ('w, 'h) net_env \<Rightarrow> proxy_state \<Rightarrow> ('w, 'h) net
     \<Rightarrow> proxy_error option \<times> ('w, 'h) net" where
  "serve_connection ho env ps s =
     (case read_request_head env s of
        (Inl e, s1) \<Rightarrow> (Some e, s1)
      | (Inr head, s1) \<Rightarrow>
          (case parse_request_line head of
             None \<Rightarrow> (None, s1)
           | Some (method, target) \<Rightarrow>
               if eq_ignore_ascii_case method ''CONNECT'' then serve_connect ho env ps target s1
               else serve_plain ho env ps head s1))"

section \<open>Starting and stopping\<close>

record proxy_handle =
  ph_http_addr :: sock_addr
  ph_ca_cert_pem :: string
  ph_dns_addr :: "sock_addr option"

text \<open>The running parts: the accept loop and the DNS server.\<close>

datatype proxy_task = AcceptLoop | DnsServer

record http_proxy =
  hp_settings :: proxy_settings
  hp_port :: u16
  hp_dns_enabled :: bool
  hp_dns_port :: u16
  hp_overrides :: "(string \<times> sock_addr) list"
  hp_extra_roots :: "string list"
  hp_allow_loopback :: bool
  hp_handle :: "proxy_handle option"
  hp_shutdown :: bool
  hp_tasks :: "proxy_task list"

text \<open>
  What starting needs from outside: the environment variables, the generated certificate authority,
  the TLS client configuration over the extra roots, and the two sockets.
\<close>

record start_env =
  se_getenv :: "string \<Rightarrow> string option"
  se_generate_ca :: "proxy_error + string"
  se_client_config :: "string list \<Rightarrow> string option"
  se_bind_tcp :: "u16 \<Rightarrow> io_error + sock_addr"
  se_bind_udp :: "u16 \<Rightarrow> proxy_error + sock_addr"

record proxy_builder =
  pb_settings :: proxy_settings
  pb_port :: u16
  pb_dns_enabled :: bool
  pb_dns_port :: u16
  pb_overrides :: "(string \<times> sock_addr) list"
  pb_extra_roots :: "string list"
  pb_allow_loopback :: bool

definition builder_new :: "proxy_settings \<Rightarrow> proxy_builder" where
  "builder_new settings =
     \<lparr>pb_settings = settings, pb_port = 0, pb_dns_enabled = True, pb_dns_port = 0, pb_overrides = [],
      pb_extra_roots = [], pb_allow_loopback = False\<rparr>"

definition with_resolver_override :: "string \<Rightarrow> sock_addr \<Rightarrow> proxy_builder \<Rightarrow> proxy_builder" where
  "with_resolver_override host addr b =
     b\<lparr>pb_overrides := AList.update (normalize_host host) addr (pb_overrides b)\<rparr>"

definition with_extra_upstream_root_ca :: "string \<Rightarrow> proxy_builder \<Rightarrow> proxy_builder" where
  "with_extra_upstream_root_ca pem b = b\<lparr>pb_extra_roots := pb_extra_roots b @ [pem]\<rparr>"

definition http_proxy_new :: "proxy_builder \<Rightarrow> http_proxy" where
  "http_proxy_new b =
     \<lparr>hp_settings = pb_settings b, hp_port = pb_port b, hp_dns_enabled = pb_dns_enabled b,
      hp_dns_port = pb_dns_port b, hp_overrides = pb_overrides b, hp_extra_roots = pb_extra_roots b,
      hp_allow_loopback = pb_allow_loopback b, hp_handle = None, hp_shutdown = False, hp_tasks = []\<rparr>"

definition create_proxy :: "proxy_settings \<Rightarrow> http_proxy" where
  "create_proxy settings = http_proxy_new (builder_new settings)"

fun sock_addr_to_string :: "sock_addr \<Rightarrow> string" where
  "sock_addr_to_string (SockAddr (V4 a) p) = v4_to_string a @ '':'' @ nat_to_string (unat p)"
| "sock_addr_to_string (SockAddr (V6 a) p) =
     ''['' @ v6_to_string a @ '']:'' @ nat_to_string (unat p)"

text \<open>The state every connection of a started proxy shares, and the handle given to the sandbox.\<close>

definition shared_state :: "http_proxy \<Rightarrow> credential_store \<Rightarrow> proxy_state" where
  "shared_state hp creds =
     \<lparr>ps_allowlist = allowlist_new (px_allowed_domains (hp_settings hp)), ps_credentials = creds,
      ps_upstream = \<lparr>uc_guard = with_loopback_allowed (hp_allow_loopback hp),
                     uc_overrides = hp_overrides hp\<rparr>\<rparr>"

definition proxy_start ::
  "start_env \<Rightarrow> http_proxy \<Rightarrow> journal
     \<Rightarrow> (proxy_error + proxy_handle \<times> proxy_state) \<times> http_proxy \<times> journal" where
  "proxy_start se hp j =
     (case from_settings (se_getenv se) (hp_settings hp) of
        Inl e \<Rightarrow> (Inl e, hp, j)
      | Inr creds \<Rightarrow>
     (case se_generate_ca se of
        Inl e \<Rightarrow> (Inl e, hp, j)
      | Inr pem \<Rightarrow>
     (case se_client_config se (hp_extra_roots hp) of
        Some e \<Rightarrow> (Inl (Px_Tls e), hp, j)
      | None \<Rightarrow>
     (case se_bind_tcp se (hp_port hp) of
        Inl e \<Rightarrow> (Inl (Px_Io e), hp, j)
      | Inr http_addr \<Rightarrow>
          let hp1 = hp\<lparr>hp_tasks := hp_tasks hp @ [AcceptLoop], hp_shutdown := True\<rparr>;
              finish = (\<lambda>dns hp2.
                let h = \<lparr>ph_http_addr = http_addr, ph_ca_cert_pem = pem, ph_dns_addr = dns\<rparr> in
                (Inr (h, shared_state hp creds), hp2\<lparr>hp_handle := Some h\<rparr>,
                 journal_append
                   (JE_Lifecycle (''egress proxy listening on '' @ sock_addr_to_string http_addr)) j))
          in if hp_dns_enabled hp then
               (case se_bind_udp se (hp_dns_port hp) of
                  Inl e \<Rightarrow> (Inl e, hp1, j)
                | Inr addr \<Rightarrow> finish (Some addr) (hp1\<lparr>hp_tasks := hp_tasks hp1 @ [DnsServer]\<rparr>))
             else finish None hp1))))"

definition proxy_shutdown :: "http_proxy \<Rightarrow> http_proxy" where
  "proxy_shutdown hp = hp\<lparr>hp_shutdown := False, hp_tasks := []\<rparr>"

end
