(* ===== verification/Silo_Egress.thy ===== *)
theory Silo_Egress
  imports Silo_Proxy
begin

text \<open>
  Properties of the egress proxy. Every handler extends the list of actions, and every action it adds
  is permitted by the policy; this is shown once for each handler in the order the handlers call one
  another, and the whole connection follows.
\<close>

section \<open>Handlers extend the trace with permitted actions\<close>

abbreviation extends :: "('h net_action \<Rightarrow> bool) \<Rightarrow> ('w, 'h) net \<Rightarrow> ('w, 'h) net \<Rightarrow> bool" where
  "extends \<equiv> extends_by nt_trace"

lemmas extends_def = extends_by_def [of nt_trace]
lemmas extends_refl = extends_by_refl [of nt_trace]
lemmas extends_trans = extends_by_trans [of nt_trace]

lemma extends_act [simp]: "extends P s (act a t) \<longleftrightarrow> extends P s t \<and> P a" if "nt_trace s = nt_trace t"
  using that by (auto simp: extends_def act_def)

lemma trace_world_op [simp]: "world_op f s = (r, s1) \<Longrightarrow> nt_trace s1 = nt_trace s"
  by (auto simp: world_op_def split: prod.splits)

lemma trace_journal [simp]:
  "nt_trace (journal_network r s) = nt_trace s"
  "nt_trace (journal_block h p n s) = nt_trace s"
  by (simp_all add: journal_network_def journal_block_def)

lemma extends_same [intro]: "nt_trace t = nt_trace s \<Longrightarrow> extends P s t"
  by (simp add: extends_def)

lemma extends_step:
  "world_op f (act a s) = (r, s1) \<Longrightarrow> P a \<Longrightarrow> extends P s s1"
  by (drule trace_world_op) (simp add: extends_def act_def)

lemma extends_world: "world_op f s = (r, s1) \<Longrightarrow> extends P s s1"
  by (drule trace_world_op) (simp add: extends_def)

lemma extends_journal [simp]:
  "extends P s (journal_block h p n t) = extends P s t"
  by (simp add: extends_def)

lemmas extends_rules = extends_refl extends_step extends_world

text \<open>
  The policy of one connection: names other than \<open>host\<close> are never looked up or sent to, and only
  addresses the guard permits are dialled.
\<close>

fun permitted :: "ip_guard \<Rightarrow> string \<Rightarrow> 'h net_action \<Rightarrow> bool" where
  "permitted g host (NA_Lookup h p) = (h = host)"
| "permitted g host (NA_Dial a) = (\<not> is_blocked g (sa_ip a))"
| "permitted g host (NA_Send h req) = (h = host)"
| "permitted g host (NA_Status c) = True"

lemma first_blocked_None_iff:
  "first_blocked g addrs = None \<longleftrightarrow> (\<forall>a\<in>set addrs. \<not> is_blocked g (sa_ip a))"
  by (induction addrs) (auto simp: is_blocked_def split: option.splits)

lemma resolve_extends:
  "resolve env uc host port s = (r, s1) \<Longrightarrow> extends (permitted g host) s s1"
  by (auto simp: resolve_def Let_def split: option.splits prod.splits sum.splits if_splits
      intro: extends_rules)

lemma try_connect_extends:
  assumes "\<forall>a\<in>set addrs. \<not> is_blocked g (sa_ip a)"
  shows "try_connect env addrs e s = (r, s1) \<Longrightarrow> extends (permitted g host) s s1"
  using assms
proof (induction addrs arbitrary: e s)
  case Nil
  then show ?case by auto
next
  case (Cons a addrs)
  obtain r1 s2 where w: "world_op (ne_connect env a) (act (NA_Dial a) s) = (r1, s2)"
    by fastforce
  have step: "extends (permitted g host) s s2"
    using w by (rule extends_step) (use Cons.prems in simp)
  show ?case
  proof (cases r1)
    case None
    with Cons.prems(1) w step show ?thesis by simp
  next
    case (Some e1)
    with Cons.prems(1) w have "try_connect env addrs (Some e1) s2 = (r, s1)" by simp
    with Cons.IH Cons.prems(2) have "extends (permitted g host) s2 s1" by simp
    with step show ?thesis by (rule extends_trans)
  qed
qed

lemma connect_tcp_extends:
  assumes "connect_tcp env uc host port s = (r, s1)"
  shows "extends (permitted (uc_guard uc) host) s s1"
  using assms
  by (auto simp: connect_tcp_def first_blocked_None_iff split: prod.splits sum.splits option.splits
      intro: resolve_extends extends_trans [OF resolve_extends try_connect_extends])

lemma connect_tls_extends:
  assumes "connect_tls env uc host port s = (r, s1)"
  shows "extends (permitted (uc_guard uc) host) s s1"
  using assms
  by (auto simp: connect_tls_def split: prod.splits sum.splits option.splits
      intro: connect_tcp_extends extends_trans [OF connect_tcp_extends extends_world])

lemma send_over_extends:
  assumes "send_over env host req s = (r, s1)"
  shows "extends (permitted g host) s s1"
  using assms
  by (auto simp: send_over_def extends_def act_def dest!: trace_world_op
      split: prod.splits sum.splits option.splits)

lemma forward_request_extends:
  assumes "forward_request ho env ps host port secure req s = (r, s1)"
  shows "extends (permitted (uc_guard (ps_upstream ps)) host) s s1"
  using assms
  by (auto simp: forward_request_def Let_def
      split: prod.splits sum.splits option.splits if_splits
      intro: connect_tcp_extends connect_tls_extends
        extends_trans [OF connect_tcp_extends send_over_extends]
        extends_trans [OF connect_tls_extends send_over_extends])

lemma handle_inner_extends:
  assumes "handle_inner ho env ps host port secure req s = (r, s1)"
  shows "extends (permitted (uc_guard (ps_upstream ps)) host) s s1"
proof (cases "is_upgrade ho (rq_headers req)")
  case True
  with assms show ?thesis by (auto simp: handle_inner_def Let_def)
next
  case False
  obtain fr s2 where f: "forward_request ho env ps host port secure req s = (fr, s2)" by fastforce
  from f have "extends (permitted (uc_guard (ps_upstream ps)) host) s s2"
    by (rule forward_request_extends)
  moreover have "nt_trace s1 = nt_trace s2"
    using assms f False by (auto simp: handle_inner_def Let_def split: sum.splits prod.splits)
  ultimately show ?thesis by (simp add: extends_def)
qed

lemma serve_requests_extends:
  "serve_requests ho env ps host port secure reqs s = (rs, s1)
     \<Longrightarrow> extends (permitted (uc_guard (ps_upstream ps)) host) s s1"
proof (induction reqs arbitrary: s rs)
  case Nil
  then show ?case by simp
next
  case (Cons req reqs)
  obtain r s2 where h: "handle_inner ho env ps host port secure req s = (r, s2)" by fastforce
  obtain rs2 s3 where t: "serve_requests ho env ps host port secure reqs s2 = (rs2, s3)" by fastforce
  from Cons.prems h t have "s3 = s1" by simp
  with handle_inner_extends [OF h] Cons.IH [of s2 rs2] t show ?case by (auto intro: extends_trans)
qed

lemma serve_inner_http_extends:
  assumes "serve_inner_http ho env ps rep host port secure s = (r, s1)"
  shows "extends (permitted (uc_guard (ps_upstream ps)) host) s s1"
proof -
  obtain reqs s2 where w: "world_op (ne_requests env secure rep) s = (reqs, s2)" by fastforce
  with assms have "s1 = snd (serve_requests ho env ps host port secure reqs s2)"
    by (simp add: serve_inner_http_def)
  then have "extends (permitted (uc_guard (ps_upstream ps)) host) s2 s1"
    using serve_requests_extends by (metis prod.collapse)
  with extends_world [OF w] show ?thesis by (rule extends_trans)
qed

text \<open>
  The actions of a whole connection: either nothing but replies to the client, or everything is
  for one host that passed the policy.
\<close>

definition policed :: "proxy_state \<Rightarrow> 'h net_action list \<Rightarrow> bool" where
  "policed ps acts =
     (list_all (\<lambda>a. case a of NA_Status _ \<Rightarrow> True | _ \<Rightarrow> False) acts \<or>
      (\<exists>host. host_policy ps host = None \<and> list_all (permitted (uc_guard (ps_upstream ps)) host) acts))"

definition policed_run :: "proxy_state \<Rightarrow> ('w, 'h) net \<Rightarrow> ('w, 'h) net \<Rightarrow> bool" where
  "policed_run ps s s' = (\<exists>acts. nt_trace s' = nt_trace s @ acts \<and> policed ps acts)"

lemma policed_run_host:
  "host_policy ps host = None \<Longrightarrow> extends (permitted (uc_guard (ps_upstream ps)) host) s t
     \<Longrightarrow> policed_run ps s t"
  by (auto simp: extends_def policed_run_def policed_def)

lemma policed_run_same: "nt_trace t = nt_trace s \<Longrightarrow> policed_run ps s t"
  by (simp add: policed_run_def policed_def)

lemma write_status_trace:
  "write_status env c reason s = (r, s1) \<Longrightarrow> nt_trace s1 = nt_trace s @ [NA_Status c]"
  by (auto simp: write_status_def act_def dest!: trace_world_op split: prod.splits option.splits)

lemma policed_run_status:
  "write_status env c reason t = (r, s1) \<Longrightarrow> nt_trace t = nt_trace s \<Longrightarrow> policed_run ps s s1"
  by (drule write_status_trace) (simp add: policed_run_def policed_def)

lemma serve_connect_policed:
  assumes "serve_connect ho env ps target s = (r, s1)"
  shows "policed_run ps s s1"
proof -
  obtain host port where hp: "split_host_port target 443 = (host, port)" by fastforce
  show ?thesis
  proof (cases "host_policy ps host")
    case (Some why)
    with assms hp show ?thesis
      by (auto simp: serve_connect_def intro: policed_run_status)
  next
    case None
    obtain e s2 where w: "write_status env 200 ''Connection Established'' s = (e, s2)" by fastforce
    have first: "extends (permitted g host) s s2" for g
      using write_status_trace [OF w] by (simp add: extends_def)
    have "extends (permitted (uc_guard (ps_upstream ps)) host) s2 s1"
      using assms hp None w
      by (auto simp: serve_connect_def split: option.splits prod.splits
          intro: extends_world extends_trans [OF extends_world serve_inner_http_extends])
    with None first show ?thesis by (blast intro: policed_run_host extends_trans)
  qed
qed

lemma serve_plain_policed:
  assumes "serve_plain ho env ps head s = (r, s1)"
  shows "policed_run ps s s1"
  using assms
  by (auto simp: serve_plain_def Let_def split: option.splits prod.splits
      intro: policed_run_status policed_run_same policed_run_host serve_inner_http_extends)

text \<open>One turn of the reading loop, by what the read returned.\<close>

lemma read_head_loop_more:
  assumes "world_op (ne_read env) s = (Inr (Some c), s1)" "\<not> suffix CRLFCRLF (buf @ [c])"
    "length buf < max_head"
  shows "read_head_loop env buf s = read_head_loop env (buf @ [c]) s1"
  using assms by (subst read_head_loop.simps) (simp add: Let_def del: suffix_snoc)

lemma read_head_loop_stop:
  assumes "world_op (ne_read env) s = (x, s1)"
    "\<forall>c. x = Inr (Some c) \<longrightarrow> suffix CRLFCRLF (buf @ [c]) \<or> \<not> length buf < max_head"
  shows "read_head_loop env buf s =
    ((case x of Inl e \<Rightarrow> Inl (Px_Io e)
      | Inr None \<Rightarrow> Inr buf
      | Inr (Some c) \<Rightarrow> if suffix CRLFCRLF (buf @ [c]) then Inr (buf @ [c])
                      else Inl (Px_Setup ''request head too large'')), s1)"
  using assms
  by (subst read_head_loop.simps)
    (auto simp: Let_def simp del: suffix_snoc split: sum.splits option.splits)

lemma read_head_loop_trace: "nt_trace (snd (read_head_loop env buf s)) = nt_trace s"
proof (induction "max_head - length buf" arbitrary: buf s rule: less_induct)
  case less
  obtain x s1 where w: "world_op (ne_read env) s = (x, s1)" by fastforce
  then have same: "nt_trace s1 = nt_trace s" by (rule trace_world_op)
  show ?case
  proof (cases "\<exists>c. x = Inr (Some c) \<and> \<not> suffix CRLFCRLF (buf @ [c]) \<and> length buf < max_head")
    case True
    then obtain c where "x = Inr (Some c)" "\<not> suffix CRLFCRLF (buf @ [c])" and len: "length buf < max_head"
      by blast
    then have "read_head_loop env buf s = read_head_loop env (buf @ [c]) s1"
      using w read_head_loop_more by blast
    with less [of "buf @ [c]" s1] len same show ?thesis by simp
  next
    case False
    then have "snd (read_head_loop env buf s) = s1"
      using read_head_loop_stop [OF w, of buf] by auto
    with same show ?thesis by simp
  qed
qed

text \<open>
  C9: whatever the client sends and however the network answers, one connection either does nothing
  but reply to the client, or all it looks up and sends is for one host that is allowlisted and, if
  it is an address literal, not blocked; and it dials only addresses the guard permits.
\<close>

theorem serve_connection_policed:
  "\<exists>acts. nt_trace (snd (serve_connection ho env ps s)) = nt_trace s @ acts \<and> policed ps acts"
proof -
  obtain x s1 where rd: "read_request_head env s = (x, s1)" by fastforce
  then have same: "nt_trace s1 = nt_trace s"
    using read_head_loop_trace [of env "[]" s] by (simp add: read_request_head_def)
  have "policed_run ps s1 (snd (serve_connect ho env ps target s1))"
    "policed_run ps s1 (snd (serve_plain ho env ps head s1))" for target head
    by (rule serve_connect_policed serve_plain_policed, rule prod.collapse [symmetric])+
  then have "policed_run ps s1 (snd (serve_connection ho env ps s))"
    using rd by (auto simp: serve_connection_def policed_run_same split: sum.splits option.splits)
  with same show ?thesis by (simp add: policed_run_def)
qed

section \<open>A concrete network\<close>

text \<open>
  A header map as an association list and a network whose world is the client's unread bytes: the
  instances at which the theorems with hypotheses are applied.
\<close>

definition alist_headers :: "(string \<times> string) list header_ops" where
  "alist_headers =
     \<lparr>ho_name = (\<lambda>n. Some (to_ascii_lowercase n)), ho_value = Some, ho_to_str = Some, ho_empty = [],
      ho_remove = (\<lambda>n. filter (\<lambda>p. fst p \<noteq> n)),
      ho_insert = (\<lambda>n v h. filter (\<lambda>p. fst p \<noteq> n) h @ [(n, v)]),
      ho_get_all = (\<lambda>n h. map snd (filter (\<lambda>p. fst p = n) h)), ho_uri_error = (\<lambda>_. None)\<rparr>"

fun pop_byte :: "string \<Rightarrow> (io_error + char option) \<times> string" where
  "pop_byte [] = (Inr None, [])"
| "pop_byte (c # cs) = (Inr (Some c), cs)"

definition byte_env :: "sock_addr list \<Rightarrow> (string, (string \<times> string) list) net_env" where
  "byte_env addrs =
     \<lparr>ne_read = pop_byte, ne_write = (\<lambda>_. Pair None), ne_lookup = (\<lambda>_. Pair (Inr addrs)),
      ne_connect = (\<lambda>_. Pair None), ne_server_config = None, ne_tls_accept = Pair None,
      ne_server_name = (\<lambda>_. None), ne_tls_connect = (\<lambda>_. Pair None), ne_requests = (\<lambda>_ _. Pair []),
      ne_handshake = Pair None, ne_send_request = (\<lambda>_. Pair (Inr (200, []))),
      ne_collect = Pair (Inr ''ok'')\<rparr>"

definition net_start :: "'w \<Rightarrow> ('w, 'h) net" where
  "net_start w = \<lparr>nt_world = w, nt_trace = [],
     nt_journal = \<lparr>jn_clock = FakeClock 0, jn_records = [], jn_next_seq = 0\<rparr>\<rparr>"

lemma alist_headers_laws: "header_laws alist_headers"
proof -
  have ff: "filter (\<lambda>p. fst p = m) (filter (\<lambda>p. fst p \<noteq> n) h) =
      (if m = n then [] else filter (\<lambda>p. fst p = m) h)" for m n and h :: "(string \<times> string) list"
    by (induction h) auto
  show ?thesis by (simp add: header_laws_def alist_headers_def ff del: filter_filter)
qed

section \<open>Dialling\<close>

lemma try_connect_dials:
  "\<exists>k\<le>length addrs. \<exists>r s1. try_connect env addrs e s = (r, s1) \<and>
     nt_trace s1 = nt_trace s @ map NA_Dial (take k addrs) \<and>
     (case r of Inr a \<Rightarrow> 0 < k \<and> a = addrs ! (k - 1) | Inl err \<Rightarrow> k = length addrs \<and> (\<exists>m. err = Ue_Connect m))"
proof (induction addrs arbitrary: e s)
  case Nil
  then show ?case by simp
next
  case (Cons a addrs)
  obtain r1 s2 where w: "world_op (ne_connect env a) (act (NA_Dial a) s) = (r1, s2)" by fastforce
  then have t: "nt_trace s2 = nt_trace s @ [NA_Dial a]" by (auto simp: act_def dest!: trace_world_op)
  show ?case
  proof (cases r1)
    case None
    with w t show ?thesis by (intro exI [of _ 1]) simp
  next
    case (Some e1)
    obtain k r s1 where k: "k \<le> length addrs" "try_connect env addrs (Some e1) s2 = (r, s1)"
      "nt_trace s1 = nt_trace s2 @ map NA_Dial (take k addrs)"
      "case r of Inr a \<Rightarrow> 0 < k \<and> a = addrs ! (k - 1) | Inl err \<Rightarrow> k = length addrs \<and> (\<exists>m. err = Ue_Connect m)"
      using Cons.IH by blast
    with w t Some show ?thesis
      by (intro exI [of _ "Suc k"]) (auto simp: nth_Cons' split: sum.splits)
  qed
qed

text \<open>
  Once a name is resolved, a single blocked address among the results refuses the connection
  before anything is dialled; otherwise the addresses are dialled in order up to the first that
  answers, and the connection fails only after all of them failed.
\<close>

theorem connect_tcp_dials:
  assumes "resolve env uc host port s = (Inr addrs, s1)"
  shows "\<exists>k\<le>length addrs. \<exists>r s2. connect_tcp env uc host port s = (r, s2) \<and>
     nt_trace s2 = nt_trace s1 @ map NA_Dial (take k addrs) \<and>
     (if \<exists>a\<in>set addrs. is_blocked (uc_guard uc) (sa_ip a)
      then k = 0 \<and> (\<exists>m. r = Inl (Ue_Blocked m))
      else case r of Inr a \<Rightarrow> 0 < k \<and> a = addrs ! (k - 1)
             | Inl err \<Rightarrow> k = length addrs \<and> (\<exists>m. err = Ue_Connect m))"
proof (cases "first_blocked (uc_guard uc) addrs")
  case None
  then have "connect_tcp env uc host port s = try_connect env addrs None s1"
    using assms by (simp add: connect_tcp_def)
  with None try_connect_dials [of addrs env None s1] show ?thesis
    by (simp add: first_blocked_None_iff)
next
  case (Some p)
  then have "\<exists>a\<in>set addrs. is_blocked (uc_guard uc) (sa_ip a)"
    using first_blocked_None_iff [of "uc_guard uc" addrs] by auto
  with Some assms show ?thesis
    by (cases p) (simp add: connect_tcp_def)
qed

theorem connect_tcp_dials_witness:
  "\<exists>m s2. connect_tcp (byte_env [SockAddr (V4 (Ipv4 93 184 216 34)) 443, SockAddr (V4 (Ipv4 10 0 0 1)) 443])
       \<lparr>uc_guard = ip_guard_new, uc_overrides = []\<rparr> ''rebind.example'' 443 (net_start [])
     = (Inl (Ue_Blocked m), s2) \<and> nt_trace s2 = [NA_Lookup ''rebind.example'' 443]"
proof -
  let ?addrs = "[SockAddr (V4 (Ipv4 93 184 216 34)) 443, SockAddr (V4 (Ipv4 10 0 0 1)) 443]"
  let ?uc = "\<lparr>uc_guard = ip_guard_new, uc_overrides = []\<rparr>"
  let ?s = "net_start [] :: (string, (string \<times> string) list) net"
  have res: "resolve (byte_env ?addrs) ?uc ''rebind.example'' 443 ?s =
      (Inr ?addrs, act (NA_Lookup ''rebind.example'' 443) ?s)"
    by (simp add: resolve_def byte_env_def world_op_def act_def net_start_def)
  have blk: "\<exists>a\<in>set ?addrs. is_blocked (uc_guard ?uc) (sa_ip a)" by code_simp
  have "nt_trace (act (NA_Lookup ''rebind.example'' 443) ?s) = [NA_Lookup ''rebind.example'' 443]"
    by (simp add: act_def net_start_def)
  then show ?thesis using connect_tcp_dials [OF res] unfolding if_P [OF blk] by force
qed

section \<open>Credentials\<close>

text \<open>
  C10: the injected header. For a host with a configured credential every value the client supplied
  under the configured name is gone and the only value is the configured one; all other headers,
  and the headers for every other host, are untouched.
\<close>

theorem apply_credentials_exact:
  assumes "header_laws ho"
  shows "ho_get_all ho m (snd (apply_credentials ho store host h)) =
    (case map_of store (normalize_host host) of
       None \<Rightarrow> ho_get_all ho m h
     | Some rc \<Rightarrow>
         if ho_name ho (rc_header rc) = Some m
         then (case ho_value ho (credential_value rc) of Some v \<Rightarrow> [v] | None \<Rightarrow> [])
         else ho_get_all ho m h)"
  using assms by (auto simp: apply_credentials_def header_laws_def split: option.splits)

theorem apply_credentials_exact_witness:
  "ho_get_all alist_headers ''authorization''
     (snd (apply_credentials alist_headers
       [(''api.github.com'', \<lparr>rc_header = ''Authorization'', rc_format = ''Bearer {secret}'', rc_secret = ''s3''\<rparr>)]
       ''API.github.com.'' [(''authorization'', ''forged''), (''accept'', ''x'')])) = [''Bearer s3'']"
proof -
  have "normalize_host ''API.github.com.'' = ''api.github.com''"
    "ho_name alist_headers ''Authorization'' = Some ''authorization''"
    "ho_value alist_headers (credential_value
       \<lparr>rc_header = ''Authorization'', rc_format = ''Bearer {secret}'', rc_secret = ''s3''\<rparr>)
     = Some ''Bearer s3''"
    by code_simp+
  then show ?thesis
    by (simp add: apply_credentials_exact [OF alist_headers_laws])
qed

section \<open>One record per request\<close>

definition network_records :: "('w, 'h) net \<Rightarrow> journal_entry list" where
  "network_records s = map jr_entry (jn_records (nt_journal s))"

lemma records_world_op: "world_op f s = (r, s1) \<Longrightarrow> nt_journal s1 = nt_journal s"
  by (auto simp: world_op_def split: prod.splits)

lemma records_act [simp]: "nt_journal (act a s) = nt_journal s"
  by (simp add: act_def)

lemma network_records_append [simp]:
  "network_records (journal_network r s) = network_records s @ [JE_Network r]"
  by (simp add: network_records_def journal_network_def journal_append_def split: prod.splits)

lemma try_connect_journal: "try_connect env addrs e s = (r, s1) \<Longrightarrow> nt_journal s1 = nt_journal s"
  by (induction addrs arbitrary: e s)
    (auto split: prod.splits option.splits dest!: records_world_op)

lemma connect_tcp_journal:
  "connect_tcp env uc host port s = (r, s1) \<Longrightarrow> nt_journal s1 = nt_journal s"
  by (auto simp: connect_tcp_def resolve_def Let_def
      split: prod.splits sum.splits option.splits if_splits
      dest!: records_world_op try_connect_journal)

lemma connect_tls_journal:
  "connect_tls env uc host port s = (r, s1) \<Longrightarrow> nt_journal s1 = nt_journal s"
  by (auto simp: connect_tls_def split: prod.splits sum.splits option.splits
      dest!: records_world_op connect_tcp_journal)

lemma send_over_journal: "send_over env host req s = (r, s1) \<Longrightarrow> nt_journal s1 = nt_journal s"
  by (auto simp: send_over_def split: prod.splits sum.splits option.splits dest!: records_world_op)

lemma forward_request_journal:
  "forward_request ho env ps host port secure req s = (r, s1) \<Longrightarrow> nt_journal s1 = nt_journal s"
  by (auto simp: forward_request_def Let_def split: prod.splits sum.splits option.splits if_splits
      dest!: connect_tcp_journal connect_tls_journal send_over_journal)

text \<open>What the record of one request says about the response and the error.\<close>

definition record_of ::
  "'h header_ops \<Rightarrow> ('w, 'h) net_env \<Rightarrow> proxy_state \<Rightarrow> string \<Rightarrow> u16 \<Rightarrow> bool \<Rightarrow> 'h http_request
     \<Rightarrow> ('w, 'h) net \<Rightarrow> network_record \<Rightarrow> 'h http_response \<Rightarrow> bool" where
  "record_of ho env ps host port secure req s r resp =
     (nr_host r = host \<and> nr_port r = port \<and> nr_method r = Some (rq_method req) \<and>
      nr_path r = Some (rq_path req) \<and>
      (if is_upgrade ho (rq_headers req)
       then \<not> nr_allowed r \<and> nr_note r = Some ''upgrade blocked'' \<and> rs_status resp = 403
       else case fst (forward_request ho env ps host port secure req s) of
         Inr (resp', sent, received, status, injected) \<Rightarrow>
           resp = resp' \<and> nr_allowed r \<and> nr_status r = Some (rs_status resp) \<and> nr_note r = None \<and>
           nr_bytes_sent r = sent \<and> nr_bytes_received r = of_nat (length (rs_body resp)) \<and>
           nr_credential_injected r = injected
       | Inl err \<Rightarrow>
           nr_allowed r = (\<forall>m. err \<noteq> Ue_Blocked m) \<and> nr_note r = Some (upstream_note err) \<and>
           rs_status resp = 502))"

lemma handle_inner_record:
  "\<exists>r. network_records (snd (handle_inner ho env ps host port secure req s)) =
         network_records s @ [JE_Network r] \<and>
       record_of ho env ps host port secure req s r (fst (handle_inner ho env ps host port secure req s))"
proof -
  obtain fr s1 where f: "forward_request ho env ps host port secure req s = (fr, s1)" by fastforce
  have j: "network_records s1 = network_records s"
    using forward_request_journal [OF f] by (simp add: network_records_def)
  have st: "\<And>rp a b c d. fr = Inr (rp, a, b, c, d) \<Longrightarrow> c = rs_status rp \<and> b = of_nat (length (rs_body rp))"
    using f by (auto simp: forward_request_def Let_def split: prod.splits sum.splits option.splits if_splits)
  show ?thesis
  proof (cases "is_upgrade ho (rq_headers req)")
    case True
    then show ?thesis
      by (simp add: handle_inner_def record_of_def request_record_def Let_def status_response_def)
  next
    case False
    show ?thesis
    proof (cases fr)
      case (Inl err)
      with False f j show ?thesis
        by (cases err) (simp_all add: handle_inner_def record_of_def request_record_def Let_def
            status_response_def)
    next
      case (Inr q)
      obtain rp a b c d where q: "q = (rp, a, b, c, d)" by (cases q)
      with False f j st Inr show ?thesis
        by (simp add: handle_inner_def record_of_def request_record_def Let_def)
    qed
  qed
qed

text \<open>
  C11: every request on a connection produces exactly one response and one network record, in order;
  each record names the host the connection was admitted for, and says whether the request was let
  through, what came back and how many bytes, or why it failed.
\<close>

theorem serve_requests_records:
  "serve_requests ho env ps host port secure reqs s = (resps, s1) \<Longrightarrow>
   \<exists>rs before. network_records s1 = network_records s @ map JE_Network rs \<and>
     length rs = length reqs \<and> length resps = length reqs \<and> length before = length reqs \<and>
     (\<forall>i<length reqs. record_of ho env ps host port secure (reqs ! i) (before ! i) (rs ! i) (resps ! i))"
proof (induction reqs arbitrary: s resps)
  case Nil
  then show ?case by simp
next
  case (Cons req reqs)
  obtain r s2 where h: "handle_inner ho env ps host port secure req s = (r, s2)" by fastforce
  obtain resps2 s3 where t: "serve_requests ho env ps host port secure reqs s2 = (resps2, s3)" by fastforce
  have eqs: "resps = r # resps2" "s3 = s1" using Cons.prems h t by simp_all
  obtain q where q: "network_records s2 = network_records s @ [JE_Network q]"
    "record_of ho env ps host port secure req s q r"
    using handle_inner_record [of ho env ps host port secure req s] h by auto
  obtain rs before where rest: "network_records s1 = network_records s2 @ map JE_Network rs"
    "length rs = length reqs" "length resps2 = length reqs" "length before = length reqs"
    "\<forall>i<length reqs. record_of ho env ps host port secure (reqs ! i) (before ! i) (rs ! i) (resps2 ! i)"
    using Cons.IH [of s2 resps2] t eqs(2) by blast
  show ?case
    using q rest eqs
    by (intro exI [of _ "q # rs"] exI [of _ "s # before"]) (auto simp: less_Suc_eq_0_disj)
qed

theorem serve_requests_records_witness:
  "\<exists>q resp s1. serve_requests alist_headers (byte_env [SockAddr (V4 (Ipv4 10 0 0 1)) 80])
       \<lparr>ps_allowlist = [], ps_credentials = [], ps_upstream = \<lparr>uc_guard = ip_guard_new, uc_overrides = []\<rparr>\<rparr>
       ''intra'' 80 False [\<lparr>rq_method = ''GET'', rq_path = ''/'', rq_path_and_query = Some ''/'',
         rq_headers = [(''upgrade'', ''websocket'')], rq_body = None\<rparr>] (net_start [])
     = ([resp], s1) \<and> network_records s1 = [JE_Network q] \<and> \<not> nr_allowed q \<and> rs_status resp = 403"
proof -
  let ?req = "\<lparr>rq_method = ''GET'', rq_path = ''/'', rq_path_and_query = Some ''/'',
         rq_headers = [(''upgrade'', ''websocket'')], rq_body = None\<rparr>"
  let ?ps = "\<lparr>ps_allowlist = [], ps_credentials = [],
    ps_upstream = \<lparr>uc_guard = ip_guard_new, uc_overrides = []\<rparr>\<rparr>"
  let ?env = "byte_env [SockAddr (V4 (Ipv4 10 0 0 1)) 80]"
  obtain resps s1 where run: "serve_requests alist_headers ?env ?ps ''intra'' 80 False [?req] (net_start [])
      = (resps, s1)" by fastforce
  have up: "is_upgrade alist_headers (rq_headers ?req)" by code_simp
  have empty: "network_records (net_start [] :: (string, (string \<times> string) list) net) = []"
    by (simp add: network_records_def net_start_def)
  from serve_requests_records [OF run] obtain rs before where
    recs: "network_records s1 = map JE_Network rs" "length rs = 1" "length resps = 1"
    "record_of alist_headers ?env ?ps ''intra'' 80 False ?req (before ! 0) (rs ! 0) (resps ! 0)"
    using empty by (auto simp del: serve_requests.simps)
  then obtain q resp where "rs = [q]" "resps = [resp]" by (metis length_0_conv length_Suc_conv One_nat_def)
  with recs up run show ?thesis by (auto simp: record_of_def simp del: serve_requests.simps)
qed

section \<open>The request head\<close>

text \<open>The length of the shortest prefix that ends a header block.\<close>

definition head_length :: "string \<Rightarrow> nat option" where
  "head_length xs = find (\<lambda>n. suffix CRLFCRLF (take n xs)) [0..<Suc (length xs)]"

lemma head_length_Some_iff:
  "head_length xs = Some n \<longleftrightarrow>
     n \<le> length xs \<and> suffix CRLFCRLF (take n xs) \<and> (\<forall>m<n. \<not> suffix CRLFCRLF (take m xs))"
  unfolding head_length_def find_Some_iff
  by (auto simp del: upt_Suc intro: exI [of _ n])

lemma head_length_None_iff:
  "head_length xs = None \<longleftrightarrow> (\<forall>n\<le>length xs. \<not> suffix CRLFCRLF (take n xs))"
  unfolding head_length_def find_None_iff by (auto simp del: upt_Suc)

definition head_result :: "string \<Rightarrow> proxy_error + string" where
  "head_result xs =
     (case head_length xs of
        Some n \<Rightarrow> if n \<le> Suc max_head then Inr (take n xs) else Inl (Px_Setup ''request head too large'')
      | None \<Rightarrow> if length xs \<le> max_head then Inr xs else Inl (Px_Setup ''request head too large''))"

text \<open>The bytes consumed by reading the head.\<close>

definition head_taken :: "string \<Rightarrow> nat" where
  "head_taken xs = min (Suc max_head) (case head_length xs of Some n \<Rightarrow> n | None \<Rightarrow> length xs)"

lemma head_later:
  assumes "\<forall>m\<le>k. \<not> suffix CRLFCRLF (take m xs)"
  shows "head_length xs = Some n \<Longrightarrow> k < n"
  using assms by (meson head_length_Some_iff not_le)

lemma read_head_loop_exact:
  assumes "ne_read env = pop_byte" and "k \<le> length xs" and "k \<le> max_head"
    and "\<forall>m\<le>k. \<not> suffix CRLFCRLF (take m xs)" and "nt_world s = drop k xs"
  shows "read_head_loop env (take k xs) s = (head_result xs, s\<lparr>nt_world := drop (head_taken xs) xs\<rparr>)"
  using assms(2-5)
proof (induction "max_head - k" arbitrary: k s rule: less_induct)
  case less
  show ?case
  proof (cases "k = length xs")
    case True
    with less.prems(3) have none: "head_length xs = None" by (simp add: head_length_None_iff)
    have "world_op (ne_read env) s = (Inr None, s\<lparr>nt_world := []\<rparr>)"
      using True less.prems(4) assms(1) by (simp add: world_op_def)
    with True none less.prems(2) show ?thesis
      by (simp add: read_head_loop_stop head_result_def head_taken_def)
  next
    case False
    with less.prems(1) have k: "k < length xs" by simp
    let ?s = "s\<lparr>nt_world := drop (Suc k) xs\<rparr>"
    have w: "world_op (ne_read env) s = (Inr (Some (xs ! k)), ?s)"
      using k less.prems(4) assms(1) by (simp add: world_op_def Cons_nth_drop_Suc [symmetric])
    have tk: "take k xs @ [xs ! k] = take (Suc k) xs" using k by (simp add: take_Suc_conv_app_nth)
    show ?thesis
    proof (cases "suffix CRLFCRLF (take (Suc k) xs)")
      case True
      then have "head_length xs = Some (Suc k)"
        using k less.prems(3) by (auto simp: head_length_Some_iff less_Suc_eq_le)
      with True tk less.prems(2) show ?thesis
        using read_head_loop_stop [OF w, of "take k xs"]
        by (simp add: head_result_def head_taken_def del: suffix_snoc)
    next
      case nosuf: False
      with less.prems(3) have upto: "\<forall>m\<le>Suc k. \<not> suffix CRLFCRLF (take m xs)"
        by (auto simp: le_Suc_eq)
      show ?thesis
      proof (cases "k < max_head")
        case True
        have "read_head_loop env (take k xs) s = read_head_loop env (take (Suc k) xs) ?s"
          using read_head_loop_more [OF w, of "take k xs"] nosuf tk True k by simp
        also have "\<dots> = (head_result xs, ?s\<lparr>nt_world := drop (head_taken xs) xs\<rparr>)"
          using True k upto by (intro less.hyps) simp_all
        finally show ?thesis by simp
      next
        case False
        with less.prems(2) have kmax: "k = max_head" by simp
        have "head_result xs = Inl (Px_Setup ''request head too large'')" "head_taken xs = Suc max_head"
          using head_later [OF upto] kmax k
          by (auto simp: head_result_def head_taken_def split: option.splits)
        with kmax k nosuf tk show ?thesis
          using read_head_loop_stop [OF w, of "take k xs"] by simp
      qed
    qed
  qed
qed

text \<open>
  C12: reading the head of a request takes exactly the bytes of the header block from the
  connection, never one beyond it, and refuses a block longer than 65537 bytes after reading at most
  that many.
\<close>

theorem read_request_head_exact:
  assumes "ne_read env = pop_byte"
  shows "read_request_head env s =
    (head_result (nt_world s), s\<lparr>nt_world := drop (head_taken (nt_world s)) (nt_world s)\<rparr>)"
  using read_head_loop_exact [OF assms, of 0 "nt_world s" s]
  by (simp add: read_request_head_def CRLFCRLF_def)

theorem read_request_head_exact_witness:
  "fst (read_request_head (byte_env []) (net_start (''GET x'' @ CRLFCRLF @ ''rest'')))
     = Inr (''GET x'' @ CRLFCRLF)"
proof -
  have "ne_read (byte_env []) = pop_byte" by (simp add: byte_env_def)
  moreover have "head_result (''GET x'' @ CRLFCRLF @ ''rest'') = Inr (''GET x'' @ CRLFCRLF)"
    by code_simp
  ultimately show ?thesis
    using read_request_head_exact [of "byte_env []" "net_start (''GET x'' @ CRLFCRLF @ ''rest'')"]
    by (simp add: net_start_def)
qed

section \<open>Host and port\<close>

lemma parse_port_to_string: "parse_port d (nat_to_string (unat p)) = p"
proof -
  have "unat p < 2 ^ 16" using unsigned_less [of p, where 'a = nat] by simp
  then show ?thesis by (simp add: parse_port_def parse_uint_nat_to_string)
qed

lemma digits_no_colon: "CHR '':'' \<notin> set (nat_to_string n)"
proof (induction n rule: nat_to_string.induct)
  case (1 n)
  have "CHR '':'' \<noteq> digit_char d" if "d < 10" for d
  proof
    assume "CHR '':'' = digit_char d"
    then have "digit_val CHR '':'' = Some d" using that by simp
    then show False by (simp add: digit_val_def)
  qed
  with 1 show ?case by (subst nat_to_string.simps) auto
qed

text \<open>
  A target that spells out host and port splits back into exactly these; an IPv6 host keeps its
  colons when it is bracketed, and without a port the default applies.
\<close>

theorem split_host_port_roundtrip:
  "(CHR '']'' \<notin> set host \<longrightarrow>
      split_host_port (''['' @ host @ '']:'' @ nat_to_string (unat p)) d = (host, p) \<and>
      split_host_port (''['' @ host @ '']'') d = (host, d)) \<and>
   (\<not> prefix ''['' host \<longrightarrow>
      split_host_port (host @ '':'' @ nat_to_string (unat p)) d = (host, p) \<and>
      (CHR '':'' \<notin> set host \<longrightarrow> split_host_port host d = (host, d)))"
proof -
  have once: "CHR '']'' \<notin> set host \<Longrightarrow> split_once CHR '']'' (host @ CHR '']'' # t) = Some (host, t)" for t
    by (simp add: split_once_Some_iff)
  have last: "rsplit_once CHR '':'' (host @ CHR '':'' # nat_to_string (unat p)) =
      Some (host, nat_to_string (unat p))"
    by (simp add: rsplit_once_Some_iff digits_no_colon)
  have noport: "CHR '':'' \<notin> set host \<Longrightarrow> rsplit_once CHR '':'' host = None"
    by (simp add: rsplit_once_None_iff)
  have pre: "\<not> prefix ''['' host \<Longrightarrow> strip_prefix ''['' host = None"
    "\<not> prefix ''['' host \<Longrightarrow> strip_prefix ''['' (host @ '':'' @ t) = None" for t
    by (cases host; simp add: strip_prefix_None_iff)+
  have br: "strip_prefix ''['' (CHR ''['' # t) = Some t" "strip_prefix '':'' (CHR '':'' # t) = Some t"
    "strip_prefix '':'' [] = None" for t
    by (simp_all add: strip_prefix_def)
  have "CHR '']'' \<notin> set host \<Longrightarrow>
      split_host_port (CHR ''['' # host @ CHR '']'' # CHR '':'' # nat_to_string (unat p)) d = (host, p)"
    by (simp add: split_host_port_def once br parse_port_to_string)
  moreover have "CHR '']'' \<notin> set host \<Longrightarrow> split_host_port (CHR ''['' # host @ [CHR '']'']) d = (host, d)"
    by (simp add: split_host_port_def once br)
  moreover have "\<not> prefix ''['' host \<Longrightarrow>
      split_host_port (host @ '':'' @ nat_to_string (unat p)) d = (host, p)"
    unfolding split_host_port_def pre(2) split_host_port_plain_def
    by (simp add: last parse_port_to_string)
  moreover have "\<not> prefix ''['' host \<Longrightarrow> CHR '':'' \<notin> set host \<Longrightarrow> split_host_port host d = (host, d)"
    unfolding split_host_port_def pre(1) split_host_port_plain_def by (simp add: noport)
  ultimately show ?thesis by simp
qed

theorem split_host_port_roundtrip_witness:
  "split_host_port ''[::1]:443'' 80 = (''::1'', 443) \<and> split_host_port ''a.b:8080'' 80 = (''a.b'', 8080)"
proof -
  have e: "''['' @ ''::1'' @ '']:'' @ nat_to_string (unat (443 :: u16)) = ''[::1]:443''"
    "''a.b'' @ '':'' @ nat_to_string (unat (8080 :: u16)) = ''a.b:8080''"
    by (simp_all add: nat_to_string.simps digit_char_eval)
  have h: "CHR '']'' \<notin> set ''::1''" "\<not> prefix ''['' ''a.b''"
    by simp_all
  have "split_host_port (''['' @ ''::1'' @ '']:'' @ nat_to_string (unat (443 :: u16))) 80 = (''::1'', 443)"
    using split_host_port_roundtrip [of "''::1''" 443 80] h(1) by blast
  moreover have "split_host_port (''a.b'' @ '':'' @ nat_to_string (unat (8080 :: u16))) 80 = (''a.b'', 8080)"
    using split_host_port_roundtrip [of "''a.b''" 8080 80] h(2) by blast
  ultimately show ?thesis unfolding e by blast
qed

end
