(* ===== verification/Silo_Dns.thy ===== *)
theory Silo_Dns
  imports Silo_Proxy
begin

text \<open>
  The DNS filter of the proxy (\<open>silo-proxy/src/dns.rs\<close>). The packet codec belongs to the
  \<open>hickory\<close> library: \<open>dc_decode\<close> and \<open>dc_encode\<close> are parameters, and the model works on decoded
  messages. The resolver is a function of the name and the world.
\<close>

section \<open>Messages\<close>

datatype record_type = RT_A | RT_AAAA | RT_Other u16

datatype response_code = RC_NoError | RC_FormErr | RC_NXDomain

record dns_query =
  dq_name :: string
  dq_type :: record_type

record dns_answer =
  da_name :: string
  da_ttl :: u32
  da_addr :: ip_addr

record dns_request =
  dr_id :: u16
  dr_recursion_desired :: bool
  dr_queries :: "dns_query list"

record dns_response =
  dp_id :: u16
  dp_recursion_desired :: bool
  dp_recursion_available :: bool
  dp_authoritative :: bool
  dp_queries :: "dns_query list"
  dp_code :: response_code
  dp_answers :: "dns_answer list"

record dns_codec =
  dc_decode :: "string \<Rightarrow> string + dns_request"
  dc_encode :: "dns_response \<Rightarrow> string + string"

definition ANSWER_TTL_SECS :: u32 where
  "ANSWER_TTL_SECS = 30"

section \<open>The filter\<close>

record dns_filter =
  df_allowlist :: domain_allowlist
  df_guard :: ip_guard

definition base_response :: "dns_request \<Rightarrow> dns_response" where
  "base_response req =
     \<lparr>dp_id = dr_id req, dp_recursion_desired = dr_recursion_desired req,
      dp_recursion_available = True, dp_authoritative = True, dp_queries = dr_queries req,
      dp_code = RC_NoError, dp_answers = []\<rparr>"

definition dns_host :: "dns_query \<Rightarrow> string" where
  "dns_host q = to_ascii_lowercase (trim_end_matches CHR ''.'' (dq_name q))"

text \<open>The answer loop: blocked addresses and those of the other family are passed over.\<close>

fun dns_answers :: "ip_guard \<Rightarrow> bool \<Rightarrow> string \<Rightarrow> ip_addr list \<Rightarrow> dns_answer list" where
  "dns_answers g want_v4 name [] = []"
| "dns_answers g want_v4 name (addr # addrs) =
     (if is_blocked g addr then dns_answers g want_v4 name addrs
      else case (want_v4, addr) of
        (True, V4 _) \<Rightarrow>
          \<lparr>da_name = name, da_ttl = ANSWER_TTL_SECS, da_addr = addr\<rparr> # dns_answers g want_v4 name addrs
      | (False, V6 _) \<Rightarrow>
          \<lparr>da_name = name, da_ttl = ANSWER_TTL_SECS, da_addr = addr\<rparr> # dns_answers g want_v4 name addrs
      | _ \<Rightarrow> dns_answers g want_v4 name addrs)"

definition dns_record :: "string \<Rightarrow> bool \<Rightarrow> u64 \<Rightarrow> string \<Rightarrow> network_record" where
  "dns_record host ok n why =
     network_record_default\<lparr>nr_host := host, nr_port := 53, nr_method := Some ''DNS'',
       nr_allowed := ok, nr_bytes_received := n, nr_note := Some why\<rparr>"

definition dns_journal_block :: "string \<Rightarrow> string \<Rightarrow> ('w, 'h) net \<Rightarrow> ('w, 'h) net" where
  "dns_journal_block host why = journal_network (dns_record host False 0 why)"

text \<open>The answer to a decoded request.\<close>

definition answer_query ::
  "(string \<Rightarrow> 'w \<Rightarrow> ip_addr list \<times> 'w) \<Rightarrow> dns_filter \<Rightarrow> dns_request \<Rightarrow> ('w, 'h) net
     \<Rightarrow> dns_response \<times> ('w, 'h) net" where
  "answer_query resolver df req s =
     (let response = base_response req in
      case dr_queries req of
        [] \<Rightarrow> (response\<lparr>dp_code := RC_FormErr\<rparr>, s)
      | q # _ \<Rightarrow>
          let host = dns_host q in
          if \<not> allows (df_allowlist df) host then
            (response\<lparr>dp_code := RC_NXDomain\<rparr>, dns_journal_block host ''domain not allowlisted'' s)
          else if dq_type q \<noteq> RT_A \<and> dq_type q \<noteq> RT_AAAA then
            (response\<lparr>dp_code := RC_NoError\<rparr>, s)
          else
            let (addrs, s1) = world_op (resolver host) (act (NA_Lookup host 0) s);
                answers = dns_answers (df_guard df) (dq_type q = RT_A) (dq_name q) addrs;
                answered = of_nat (length answers)
            in (response\<lparr>dp_code := RC_NoError, dp_answers := answers\<rparr>,
                journal_network (dns_record host True answered
                  (nat_to_string (unat answered) @ '' answers'')) s1))"

definition handle_query ::
  "dns_codec \<Rightarrow> (string \<Rightarrow> 'w \<Rightarrow> ip_addr list \<times> 'w) \<Rightarrow> dns_filter \<Rightarrow> string \<Rightarrow> ('w, 'h) net
     \<Rightarrow> (proxy_error + string) \<times> ('w, 'h) net" where
  "handle_query dc resolver df packet s =
     (case dc_decode dc packet of
        Inl e \<Rightarrow> (Inl (Px_Setup (''dns parse: '' @ e)), s)
      | Inr req \<Rightarrow>
          let (response, s1) = answer_query resolver df req s in
          (case dc_encode dc response of
             Inl e \<Rightarrow> Inl (Px_Setup (''dns encode: '' @ e))
           | Inr bytes \<Rightarrow> Inr bytes, s1))"

text \<open>The resolver of the running proxy: the host resolver, with failures as no addresses.\<close>

definition system_resolver :: "('w, 'h) net_env \<Rightarrow> string \<Rightarrow> 'w \<Rightarrow> ip_addr list \<times> 'w" where
  "system_resolver env host w =
     (case ne_lookup env (host @ '':0'') w of
        (Inr addrs, w1) \<Rightarrow> (map sa_ip addrs, w1)
      | (Inl e, w1) \<Rightarrow> ([], w1))"

section \<open>What the filter answers\<close>

fun is_v4 :: "ip_addr \<Rightarrow> bool" where
  "is_v4 (V4 _) = True"
| "is_v4 (V6 _) = False"

lemma dns_answers_eq:
  "dns_answers g want name addrs =
     map (\<lambda>a. \<lparr>da_name = name, da_ttl = ANSWER_TTL_SECS, da_addr = a\<rparr>)
       (filter (\<lambda>a. \<not> is_blocked g a \<and> is_v4 a = want) addrs)"
proof (induction addrs)
  case (Cons a addrs)
  then show ?case by (cases a; cases want) simp_all
qed simp

text \<open>
  C13: the filter resolves a name only when it is allowlisted, and then answers with exactly the
  addresses of the family asked for that the guard permits, in the resolver's order. Any other name
  gets no answer and NXDOMAIN, an allowlisted name asked for another type gets an empty success,
  and a request without a question a format error.
\<close>

theorem answer_query_exact:
  "answer_query resolver df req s = (resp, s1) \<Longrightarrow>
     dp_id resp = dr_id req \<and> dp_queries resp = dr_queries req \<and>
     (case dr_queries req of
        [] \<Rightarrow> dp_code resp = RC_FormErr \<and> dp_answers resp = [] \<and> s1 = s
      | q # _ \<Rightarrow>
          if \<not> allows (df_allowlist df) (dns_host q)
          then dp_code resp = RC_NXDomain \<and> dp_answers resp = [] \<and> nt_trace s1 = nt_trace s \<and>
               nt_world s1 = nt_world s
          else dp_code resp = RC_NoError \<and>
               (if dq_type q = RT_A \<or> dq_type q = RT_AAAA
                then nt_trace s1 = nt_trace s @ [NA_Lookup (dns_host q) 0] \<and>
                     map da_addr (dp_answers resp) =
                       filter (\<lambda>a. \<not> is_blocked (df_guard df) a \<and> is_v4 a = (dq_type q = RT_A))
                         (fst (resolver (dns_host q) (nt_world s)))
                else dp_answers resp = [] \<and> s1 = s))"
  by (auto simp: answer_query_def base_response_def Let_def dns_journal_block_def journal_network_def
      dns_answers_eq world_op_def act_def comp_def split: list.splits prod.splits if_splits)

theorem answer_query_exact_witness:
  "map da_addr (dp_answers (fst (answer_query (\<lambda>_. Pair [V4 (Ipv4 10 0 0 1), V4 (Ipv4 1 2 3 4)])
      \<lparr>df_allowlist = allowlist_new [''*.example.com''], df_guard = ip_guard_new\<rparr>
      \<lparr>dr_id = 7, dr_recursion_desired = True, dr_queries = [\<lparr>dq_name = ''A.example.com.'', dq_type = RT_A\<rparr>]\<rparr>
      \<lparr>nt_world = (), nt_trace = ([] :: unit net_action list),
        nt_journal = \<lparr>jn_clock = FakeClock 0, jn_records = [], jn_next_seq = 0\<rparr>\<rparr>)))
    = [V4 (Ipv4 1 2 3 4)]"
proof -
  let ?df = "\<lparr>df_allowlist = allowlist_new [''*.example.com''], df_guard = ip_guard_new\<rparr>"
  let ?s = "\<lparr>nt_world = (), nt_trace = ([] :: unit net_action list),
        nt_journal = \<lparr>jn_clock = FakeClock 0, jn_records = [], jn_next_seq = 0\<rparr>\<rparr>"
  let ?q = "\<lparr>dq_name = ''A.example.com.'', dq_type = RT_A\<rparr>"
  have "allows (df_allowlist ?df) (dns_host ?q)"
    "filter (\<lambda>a. \<not> is_blocked ip_guard_new a \<and> is_v4 a) [V4 (Ipv4 10 0 0 1), V4 (Ipv4 1 2 3 4)] = [V4 (Ipv4 1 2 3 4)]"
    by code_simp+
  then show ?thesis
    using answer_query_exact [OF prod.collapse [symmetric], of "\<lambda>_. Pair [V4 (Ipv4 10 0 0 1), V4 (Ipv4 1 2 3 4)]" ?df
      "\<lparr>dr_id = 7, dr_recursion_desired = True, dr_queries = [?q]\<rparr>" ?s]
    by (simp del: filter.simps)
qed

end
