(* ===== verification/Silo_Shutdown.thy ===== *)
theory Silo_Shutdown
  imports Silo_Event
begin

text \<open>
  Shutdown and interrupt coordination (\<open>silo-harness/src/shutdown.rs\<close>). The two watch channels are
  the fields \<open>sd_state\<close> and \<open>sd_interrupts\<close>; the command channel is its queue, whether a sender is
  left, and whether the receiver is still held. A wait is the sequence of the commands that arrive
  while it waits: it returns at the first arrival that makes it return, or is still pending after
  all of them.
\<close>

section \<open>The signal\<close>

datatype abort_reason = AR_Shutdown "string option" | AR_Interrupted

record shutdown_signal =
  sd_state :: "string option option"
  sd_interrupts :: u64
  sd_queue :: "frontend_command list"
  sd_senders :: bool
  sd_receiver :: bool
  sd_journal :: journal

definition signal_new :: "frontend_command list \<Rightarrow> journal \<Rightarrow> shutdown_signal" where
  "signal_new q j =
     \<lparr>sd_state = None, sd_interrupts = 0, sd_queue = q, sd_senders = True, sd_receiver = True,
      sd_journal = j\<rparr>"

definition request :: "string option \<Rightarrow> shutdown_signal \<Rightarrow> shutdown_signal" where
  "request m s = (if sd_state s = None then s\<lparr>sd_state := Some m\<rparr> else s)"

fun apply_effect :: "frontend_command \<Rightarrow> shutdown_signal \<Rightarrow> shutdown_signal" where
  "apply_effect (Cmd_Shutdown m) s = request m s"
| "apply_effect Cmd_Interrupt s = s\<lparr>sd_interrupts := sd_interrupts s + 1\<rparr>"

definition apply_command :: "frontend_command \<Rightarrow> shutdown_signal \<Rightarrow> shutdown_signal" where
  "apply_command c s =
     apply_effect c
       (s\<lparr>sd_journal := journal_append (JE_FrontendCommand (command_to_value c)) (sd_journal s)\<rparr>)"

text \<open>\<open>drain\<close>: every queued command in order; without a sender the receiver is given up.\<close>

definition drain :: "shutdown_signal \<Rightarrow> shutdown_signal" where
  "drain s =
     (if sd_receiver s then
        (let t = fold apply_command (sd_queue s) (s\<lparr>sd_queue := []\<rparr>) in
         if sd_senders t then t else t\<lparr>sd_receiver := False\<rparr>)
      else s)"

definition check :: "shutdown_signal \<Rightarrow> string option option \<times> shutdown_signal" where
  "check s = (let t = drain s in (sd_state t, t))"

definition interrupt_generation :: "shutdown_signal \<Rightarrow> u64" where
  "interrupt_generation s = sd_interrupts s"

definition interrupted_since :: "u64 \<Rightarrow> shutdown_signal \<Rightarrow> bool" where
  "interrupted_since g s = (sd_interrupts s > g)"

text \<open>What a waiter sees after draining: the reason to stop, if there is one.\<close>

definition abort_now :: "u64 \<Rightarrow> shutdown_signal \<Rightarrow> abort_reason option" where
  "abort_now g s =
     (case sd_state s of
        Some m \<Rightarrow> Some (AR_Shutdown m)
      | None \<Rightarrow> if sd_interrupts s > g then Some AR_Interrupted else None)"

text \<open>The loop of \<open>wait_abort\<close>: each further turn follows the arrival of one command.\<close>

fun wait_abort ::
  "u64 \<Rightarrow> frontend_command list \<Rightarrow> shutdown_signal \<Rightarrow> abort_reason option \<times> shutdown_signal" where
  "wait_abort g [] s = (let t = drain s in (abort_now g t, t))"
| "wait_abort g (c # cs) s =
     (let t = drain s in
      case abort_now g t of
        Some r \<Rightarrow> (Some r, t)
      | None \<Rightarrow> wait_abort g cs (if sd_receiver t then apply_command c t else t))"

text \<open>
  \<open>wait\<close> looks only for a shutdown and takes one command at a time; what it does not take stays
  queued. The result \<open>None\<close> means that it is still waiting.
\<close>

fun wait_loop ::
  "frontend_command list \<Rightarrow> shutdown_signal \<Rightarrow> string option option \<times> shutdown_signal" where
  "wait_loop [] s = (sd_state s, s)"
| "wait_loop (c # cs) s =
     (case sd_state s of
        Some m \<Rightarrow> (Some m, s\<lparr>sd_queue := c # cs\<rparr>)
      | None \<Rightarrow> wait_loop cs (apply_command c s))"

definition wait ::
  "frontend_command list \<Rightarrow> shutdown_signal \<Rightarrow> string option option \<times> shutdown_signal" where
  "wait arrivals s =
     (if sd_receiver s then wait_loop (sd_queue s @ arrivals) (s\<lparr>sd_queue := []\<rparr>)
      else (sd_state s, s))"

section \<open>Applying commands\<close>

definition shutdowns :: "frontend_command list \<Rightarrow> string option list" where
  "shutdowns cs = List.map_filter (\<lambda>c. case c of Cmd_Shutdown m \<Rightarrow> Some m | Cmd_Interrupt \<Rightarrow> None) cs"

definition interrupts :: "frontend_command list \<Rightarrow> nat" where
  "interrupts cs = length (filter (\<lambda>c. c = Cmd_Interrupt) cs)"

lemma apply_command_fields [frame_simps]:
  "sd_queue (apply_command c s) = sd_queue s"
  "sd_senders (apply_command c s) = sd_senders s"
  "sd_receiver (apply_command c s) = sd_receiver s"
  by (cases c; simp add: apply_command_def request_def)+

lemma fold_apply_fields [frame_simps]:
  "sd_queue (fold apply_command cs s) = sd_queue s"
  "sd_senders (fold apply_command cs s) = sd_senders s"
  "sd_receiver (fold apply_command cs s) = sd_receiver s"
  by (induction cs arbitrary: s) (simp_all add: frame_simps)

lemma apply_command_state:
  "sd_state (apply_command c s) =
     (case sd_state s of Some m \<Rightarrow> Some m
      | None \<Rightarrow> case c of Cmd_Shutdown m \<Rightarrow> Some m | Cmd_Interrupt \<Rightarrow> None)"
  by (cases c) (auto simp: apply_command_def request_def split: option.splits)

lemma fold_apply_state:
  "sd_state (fold apply_command cs s) =
     (case sd_state s of Some m \<Rightarrow> Some m
      | None \<Rightarrow> (case shutdowns cs of [] \<Rightarrow> None | m # _ \<Rightarrow> Some m))"
  by (induction cs arbitrary: s)
    (auto simp: apply_command_state shutdowns_def split: option.splits frontend_command.splits)

lemma fold_apply_interrupts:
  "sd_interrupts (fold apply_command cs s) = sd_interrupts s + of_nat (interrupts cs)"
proof (induction cs arbitrary: s)
  case (Cons c cs)
  have "sd_interrupts (apply_command c s) = sd_interrupts s + of_nat (interrupts [c])"
    by (cases c) (simp_all add: apply_command_def request_def interrupts_def)
  with Cons show ?case by (simp add: interrupts_def)
qed (simp add: interrupts_def)

lemma fold_apply_journal:
  "map jr_entry (jn_records (sd_journal (fold apply_command cs s))) =
     map jr_entry (jn_records (sd_journal s)) @ map (JE_FrontendCommand \<circ> command_to_value) cs"
proof (induction cs arbitrary: s)
  case (Cons c cs)
  have "map jr_entry (jn_records (sd_journal (apply_command c s))) =
      map jr_entry (jn_records (sd_journal s)) @ [JE_FrontendCommand (command_to_value c)]"
    by (cases c) (simp_all add: apply_command_def request_def)
  with Cons show ?case by simp
qed simp

lemmas fold_apply = fold_apply_state fold_apply_interrupts fold_apply_journal fold_apply_fields

lemma drain_held:
  assumes "sd_receiver s"
  shows "sd_state (drain s) = sd_state (fold apply_command (sd_queue s) s)"
    and "sd_interrupts (drain s) = sd_interrupts s + of_nat (interrupts (sd_queue s))"
    and "sd_queue (drain s) = []"
  using assms by (simp_all add: drain_def Let_def fold_apply)

lemma drain_idle:
  "sd_queue s = [] \<Longrightarrow> sd_state (drain s) = sd_state s \<and> sd_interrupts (drain s) = sd_interrupts s"
  by (simp add: drain_def Let_def)

section \<open>Waiting\<close>

lemma wait_loop_exact:
  "fst (wait_loop cs s) =
     (case sd_state s of Some m \<Rightarrow> Some m
      | None \<Rightarrow> (case shutdowns cs of [] \<Rightarrow> None | m # _ \<Rightarrow> Some m))"
proof (induction cs arbitrary: s)
  case Nil
  then show ?case by (simp add: shutdowns_def split: option.splits)
next
  case (Cons c cs)
  then show ?case
    by (auto simp: apply_command_state shutdowns_def split: option.splits frontend_command.splits)
qed

text \<open>
  Waiting for a shutdown returns the message of the first request among the queued and the
  arriving commands, passes over interrupts, and keeps waiting when there is none; a request made
  before is never replaced.
\<close>

theorem wait_returns_first_shutdown:
  "sd_receiver s \<Longrightarrow>
     fst (wait arrivals s) =
       (case sd_state s of Some m \<Rightarrow> Some m
        | None \<Rightarrow> (case shutdowns (sd_queue s @ arrivals) of [] \<Rightarrow> None | m # _ \<Rightarrow> Some m)) \<and>
     (\<forall>m. sd_state s = Some m \<longrightarrow>
        sd_state (snd (wait_abort g arrivals s)) = Some m \<and> sd_state (snd (check s)) = Some m \<and>
        sd_state (request m' s) = Some m)"
  by (cases arrivals)
    (auto simp: wait_def wait_loop_exact check_def drain_held fold_apply_state request_def Let_def
      abort_now_def split: option.splits)

theorem wait_returns_first_shutdown_witness:
  "fst (wait [Cmd_Shutdown (Some ''late'')]
     (signal_new [Cmd_Interrupt, Cmd_Shutdown (Some ''bye'')] \<lparr>jn_clock = FakeClock 0, jn_records = [], jn_next_seq = 0\<rparr>))
   = Some (Some ''bye'')"
  using wait_returns_first_shutdown [of "signal_new [Cmd_Interrupt, Cmd_Shutdown (Some ''bye'')]
      \<lparr>jn_clock = FakeClock 0, jn_records = [], jn_next_seq = 0\<rparr>"
      "[Cmd_Shutdown (Some ''late'')]" 0 None]
  by (simp add: signal_new_def shutdowns_def)

lemma no_wrap_less:
  assumes "unat (x :: u64) < 2 ^ 64 - 1"
  shows "x < x + 1"
  using assms by (simp add: word_less_nat_alt unat_word_ariths)

text \<open>
  An interrupt that arrived while the harness was idle is consumed when the turn takes its
  snapshot; after the snapshot the next interrupt stops the turn, and a shutdown takes precedence
  over an interrupt queued with it.
\<close>

theorem interrupts_are_per_turn:
  assumes "check s = (None, t)" and "sd_receiver s" "sd_senders s" and "unat (sd_interrupts t) < 2 ^ 64 - 1"
  shows "\<not> interrupted_since (interrupt_generation t) t \<and>
    fst (wait_abort (interrupt_generation t) [] t) = None \<and>
    fst (wait_abort (interrupt_generation t) (Cmd_Interrupt # cs) t) = Some AR_Interrupted \<and>
    fst (wait_abort (interrupt_generation t) [] (t\<lparr>sd_queue := [Cmd_Interrupt, Cmd_Shutdown m]\<rparr>))
      = Some (AR_Shutdown m)"
proof -
  have t: "t = drain s" "sd_state t = None" using assms(1) by (auto simp: check_def Let_def)
  have q: "sd_queue t = []" "sd_receiver t" "sd_senders t"
    using assms(2,3) t(1) by (simp_all add: drain_def Let_def frame_simps)
  have idle: "drain t = t" using q by (simp add: drain_def)
  let ?u = "apply_command Cmd_Interrupt t"
  have u: "sd_state ?u = None" "sd_interrupts ?u = sd_interrupts t + 1" "sd_queue ?u = []"
    "sd_receiver ?u" "sd_senders ?u"
    using t(2) q by (simp_all add: apply_command_def request_def)
  then have "drain ?u = ?u" by (simp add: drain_def)
  moreover have "sd_interrupts t < sd_interrupts t + 1" by (rule no_wrap_less) (rule assms(4))
  ultimately have "fst (wait_abort (interrupt_generation t) (Cmd_Interrupt # cs) t) = Some AR_Interrupted"
    using t(2) u q by (cases cs) (simp_all add: idle abort_now_def interrupt_generation_def)
  moreover have "fst (wait_abort (interrupt_generation t) [] (t\<lparr>sd_queue := [Cmd_Interrupt, Cmd_Shutdown m]\<rparr>))
      = Some (AR_Shutdown m)"
    using q t(2) by (simp add: Let_def abort_now_def drain_held apply_command_state)
  ultimately show ?thesis
    using t(2) by (simp add: idle abort_now_def interrupt_generation_def interrupted_since_def)
qed

theorem interrupts_are_per_turn_witness:
  "fst (wait_abort 1 [Cmd_Interrupt] (snd (check (signal_new [Cmd_Interrupt]
     \<lparr>jn_clock = FakeClock 0, jn_records = [], jn_next_seq = 0\<rparr>)))) = Some AR_Interrupted"
proof -
  let ?s = "signal_new [Cmd_Interrupt] \<lparr>jn_clock = FakeClock 0, jn_records = [], jn_next_seq = 0\<rparr>"
  have "fst (check ?s) = None" and i: "sd_interrupts (snd (check ?s)) = 1"
    by (simp_all add: check_def drain_held signal_new_def apply_command_state interrupts_def Let_def)
  then have "check ?s = (None, snd (check ?s))" by (metis prod.collapse)
  moreover have "sd_receiver ?s" "sd_senders ?s" by (simp_all add: signal_new_def)
  moreover have "unat (sd_interrupts (snd (check ?s))) < 2 ^ 64 - 1" unfolding i by simp
  ultimately show ?thesis
    using interrupts_are_per_turn [of ?s "snd (check ?s)" "[]" None] i
    unfolding interrupt_generation_def by metis
qed

end
