(* ===== verification/Silo_Agent.thy ===== *)
theory Silo_Agent
  imports Silo_Shutdown "HOL-Library.AList"
begin

text \<open>
  The agent loop (\<open>silo-harness/src/agent.rs\<close>): one conversation driven against the LLM backend,
  with its tool calls routed to their owners, and the top-level loop around it.

  The backend, the sandbox, the frontend, the shutdown signal and the other tasks of the session are
  fields of \<open>agent_env\<close>, functions on a world of an arbitrary type. A \<open>select!\<close> against the abort
  signal is one operation whose result is either the abort reason (\<open>Inl\<close>) or the result of the other
  branch. What the loop emits and journals is kept in order in \<open>ag_log\<close>, and the subagents this
  agent has spawned and not collected in \<open>ag_children\<close>: no other task touches that pool while the
  loop runs. The loops take fuel; running out of it is \<open>None\<close>.
\<close>

section \<open>Types\<close>

definition MAX_SUBAGENT_DEPTH :: u32 where
  "MAX_SUBAGENT_DEPTH = 3"

definition MAX_CONCURRENT_SUBAGENTS :: nat where
  "MAX_CONCURRENT_SUBAGENTS = 8"

definition MAX_CONSECUTIVE_LLM_FAILURES :: nat where
  "MAX_CONSECUTIVE_LLM_FAILURES = 8"

record child_result =
  ch_output :: string
  ch_is_error :: bool
  ch_shutdown :: bool
  ch_script_failure :: "string option"

datatype turn_outcome =
    TO_Completed string
  | TO_ShutdownRequested
  | TO_Interrupted
  | TO_LlmFailed string
  | TO_ScriptFailed string

datatype tool_disposition =
    TD_Output string tool_output
  | TD_Shutdown
  | TD_Interrupted
  | TD_ScriptFailed string

datatype await_any = AW_Child agent_id | AW_Shutdown | AW_Interrupted

record session_end =
  se_message :: "string option"
  se_llm_failure :: "string option"
  se_script_mismatch :: "string option"

definition session_normal :: "string option \<Rightarrow> session_end" where
  "session_normal m = \<lparr>se_message = m, se_llm_failure = None, se_script_mismatch = None\<rparr>"

record session_ctx =
  cx_registry :: tool_registry
  cx_system :: string
  cx_max_tokens :: u32

record 'w agent_env =
  en_check :: "'w \<Rightarrow> string option option \<times> 'w"
  en_interrupts :: "'w \<Rightarrow> u64"
  en_backend_id :: string
  en_complete :: "u64 \<Rightarrow> completion_request \<Rightarrow> 'w \<Rightarrow> (abort_reason + (llm_error + completion_response)) \<times> 'w"
  en_usage :: "'w \<Rightarrow> usage_snapshot"
  en_quota :: "'w \<Rightarrow> quota_config"
  en_sandbox_run :: "agent_id \<Rightarrow> tool_call \<Rightarrow> 'w \<Rightarrow> (sandbox_error + tool_output) \<times> 'w"
  en_sandbox_select :: "u64 \<Rightarrow> agent_id \<Rightarrow> tool_call \<Rightarrow> 'w \<Rightarrow> (abort_reason + (sandbox_error + tool_output)) \<times> 'w"
  en_sandbox_interrupt :: "'w \<Rightarrow> sandbox_error option \<times> 'w"
  en_sandbox_await :: "'w \<Rightarrow> (sandbox_error + tool_output) \<times> 'w"
  en_frontend_kind :: string
  en_frontend_select :: "u64 \<Rightarrow> agent_id \<Rightarrow> tool_call \<Rightarrow> 'w \<Rightarrow> (abort_reason + (frontend_error + tool_output)) \<times> 'w"
  en_frontend_interrupt :: "'w \<Rightarrow> frontend_error option \<times> 'w"
  en_frontend_await :: "'w \<Rightarrow> (frontend_error + tool_output) \<times> 'w"
  en_next_input :: "'w \<Rightarrow> (string option + (frontend_error + string)) \<times> 'w"
  en_b64 :: "string \<Rightarrow> string"
  en_try_acquire :: "'w \<Rightarrow> bool \<times> 'w"
  en_release :: "'w \<Rightarrow> 'w"
  en_fetch_number :: "'w \<Rightarrow> u64 \<times> 'w"
  en_spawn :: "agent_id \<Rightarrow> string \<Rightarrow> u32 \<Rightarrow> u64 \<Rightarrow> 'w \<Rightarrow> 'w"
  en_finished :: "'w \<Rightarrow> agent_id \<Rightarrow> bool"
  en_done_select :: "u64 \<Rightarrow> 'w \<Rightarrow> (abort_reason + agent_id option) \<times> 'w"
  en_join_select :: "u64 \<Rightarrow> agent_id \<Rightarrow> 'w \<Rightarrow> (abort_reason + (string + child_result)) \<times> 'w"
  en_cancel :: "agent_id \<Rightarrow> 'w \<Rightarrow> bool \<times> 'w"

datatype agent_action = AA_Journal journal_entry | AA_Emit event_payload

record 'w agent_state =
  ag_world :: 'w
  ag_log :: "agent_action list"
  ag_children :: "(agent_id \<times> string option) list"

definition say :: "agent_action list \<Rightarrow> 'w agent_state \<Rightarrow> 'w agent_state" where
  "say as s = s\<lparr>ag_log := ag_log s @ as\<rparr>"

definition lifecycle :: "string \<Rightarrow> 'w agent_state \<Rightarrow> 'w agent_state" where
  "lifecycle m = say [AA_Journal (JE_Lifecycle m)]"

definition on_world :: "('w \<Rightarrow> 'r \<times> 'w) \<Rightarrow> 'w agent_state \<Rightarrow> 'r \<times> 'w agent_state" where
  "on_world f s = (let (r, w) = f (ag_world s) in (r, s\<lparr>ag_world := w\<rparr>))"

text \<open>The log played into the session's event bus and journal.\<close>

fun play :: "agent_action \<Rightarrow> event_bus \<Rightarrow> event_bus" where
  "play (AA_Journal e) b = b\<lparr>bus_journal := journal_append e (bus_journal b)\<rparr>"
| "play (AA_Emit p) b = emit p b"

section \<open>Tools\<close>

definition harness_ok :: "string \<Rightarrow> tool_disposition" where
  "harness_ok m = TD_Output ''harness'' (output_ok m)"

definition harness_error_output :: "string \<Rightarrow> tool_disposition" where
  "harness_error_output m = TD_Output ''harness'' (output_error m)"

definition run_sandbox_tool ::
  "'w agent_env \<Rightarrow> agent_id \<Rightarrow> tool_call \<Rightarrow> u64 \<Rightarrow> 'w agent_state
     \<Rightarrow> (harness_error + tool_disposition) \<times> 'w agent_state" where
  "run_sandbox_tool env agent call gen s =
     (let finish = (\<lambda>r s1. case r of
            Inr out \<Rightarrow> (Inr (TD_Output ''sandbox'' out), s1)
          | Inl (Sb_ScriptMismatch m) \<Rightarrow>
              let msg = sandbox_error_to_string (Sb_ScriptMismatch m) in
              (Inr (TD_ScriptFailed msg),
               lifecycle (''sandbox script mismatch for '' @ agent @ '': '' @ msg) s1)
          | Inl e \<Rightarrow>
              (Inl (He_Sandbox e),
               say [AA_Emit (EP_Error (''sandbox tool '' @ tc_name call) (sandbox_error_to_string e))] s1))
      in case on_world (en_sandbox_select env gen agent call) s of
           (Inr r, s1) \<Rightarrow> finish r s1
         | (Inl (AR_Shutdown _), s1) \<Rightarrow> (Inr TD_Shutdown, s1)
         | (Inl AR_Interrupted, s1) \<Rightarrow>
             (let (ie, s2) = on_world (en_sandbox_interrupt env) s1;
                  s3 = (case ie of None \<Rightarrow> s2
                        | Some e \<Rightarrow> say [AA_Emit (EP_Error ''sandbox interrupt'' (sandbox_error_to_string e))] s2);
                  (r, s4) = on_world (en_sandbox_await env) s3
              in finish r s4))"

text \<open>\<open>SendUserFile\<close>: the file is read through the sandbox and its content joins the input.\<close>

definition send_user_file ::
  "'w agent_env \<Rightarrow> agent_id \<Rightarrow> tool_call \<Rightarrow> string \<Rightarrow> 'w agent_state
     \<Rightarrow> ((harness_error + tool_disposition) + tool_call) \<times> 'w agent_state" where
  "send_user_file env agent call path s =
     (let read_call = \<lparr>tc_id = tc_id call @ ''-read'', tc_name = ''Read'',
                       tc_input = JObject [(''path'', JString path)]\<rparr> in
      case on_world (en_sandbox_run env agent read_call) s of
        (Inl (Sb_ScriptMismatch m), s1) \<Rightarrow>
          let msg = sandbox_error_to_string (Sb_ScriptMismatch m) in
          (Inl (Inr (TD_ScriptFailed msg)),
           lifecycle (''sandbox script mismatch for '' @ agent @ '': '' @ msg) s1)
      | (Inl e, s1) \<Rightarrow>
          (Inl (Inl (He_Sandbox e)),
           say [AA_Emit (EP_Error ''sandbox tool Read (SendUserFile)'' (sandbox_error_to_string e))] s1)
      | (Inr out, s1) \<Rightarrow>
          let s2 = say [AA_Journal (JE_ToolExec agent ''sandbox'' read_call out)] s1 in
          if out_is_error out then
            (Inl (Inr (TD_Output ''frontend''
               (output_error (''SendUserFile: cannot read '' @ path @ '': '' @ out_content out)))), s2)
          else
            (Inr (case tc_input call of
                    JObject m \<Rightarrow> call\<lparr>tc_input := JObject (obj_insert ''content_b64''
                                    (JString (en_b64 env (out_content out))) m)\<rparr>
                  | _ \<Rightarrow> call), s2))"

definition call_frontend ::
  "'w agent_env \<Rightarrow> agent_id \<Rightarrow> tool_call \<Rightarrow> tool_call \<Rightarrow> u64 \<Rightarrow> 'w agent_state
     \<Rightarrow> (harness_error + tool_disposition) \<times> 'w agent_state" where
  "call_frontend env agent call forwarded gen s =
     (let finish = (\<lambda>r s1. case r of
            Inr out \<Rightarrow> (Inr (TD_Output ''frontend'' out), s1)
          | Inl e \<Rightarrow>
              (let (sd, s2) = on_world (en_check env) s1 in
               if sd \<noteq> None then (Inr TD_Shutdown, s2)
               else (Inl (He_Frontend e),
                     say [AA_Emit (EP_Error (''frontend tool '' @ tc_name call)
                                    (frontend_error_to_string e))] s2)))
      in case on_world (en_frontend_select env gen agent forwarded) s of
           (Inr r, s1) \<Rightarrow> finish r s1
         | (Inl (AR_Shutdown _), s1) \<Rightarrow> (Inr TD_Shutdown, s1)
         | (Inl AR_Interrupted, s1) \<Rightarrow>
             (let (ie, s2) = on_world (en_frontend_interrupt env) s1;
                  s3 = (case ie of None \<Rightarrow> s2
                        | Some e \<Rightarrow> say [AA_Emit (EP_Error ''frontend interrupt'' (frontend_error_to_string e))] s2);
                  (r, s4) = on_world (en_frontend_await env) s3
              in finish r s4))"

definition run_frontend_tool ::
  "'w agent_env \<Rightarrow> agent_id \<Rightarrow> tool_call \<Rightarrow> u64 \<Rightarrow> 'w agent_state
     \<Rightarrow> (harness_error + tool_disposition) \<times> 'w agent_state" where
  "run_frontend_tool env agent call gen s =
     (case (if tc_name call = ''SendUserFile'' then json_get_str (tc_input call) ''path'' else None) of
        None \<Rightarrow> call_frontend env agent call call gen s
      | Some path \<Rightarrow>
          (case send_user_file env agent call path s of
             (Inl r, s1) \<Rightarrow> (r, s1)
           | (Inr forwarded, s1) \<Rightarrow> call_frontend env agent call forwarded gen s1))"

text \<open>A string field of the input, absent when it is empty.\<close>

definition nonempty_field :: "tool_call \<Rightarrow> string \<Rightarrow> string option" where
  "nonempty_field call key =
     (case json_get_str (tc_input call) key of
        Some v \<Rightarrow> if v = [] then None else Some v
      | None \<Rightarrow> None)"

definition run_agent_tool ::
  "'w agent_env \<Rightarrow> agent_id \<Rightarrow> tool_call \<Rightarrow> u32 \<Rightarrow> 'w agent_state
     \<Rightarrow> tool_disposition \<times> 'w agent_state" where
  "run_agent_tool env agent call depth s =
     (case nonempty_field call ''prompt'' of
        None \<Rightarrow> (harness_error_output ''Agent requires a non-empty 'prompt' string'', s)
      | Some prompt \<Rightarrow>
          if depth \<ge> MAX_SUBAGENT_DEPTH then
            (harness_error_output (''subagent depth limit ('' @ nat_to_string (unat MAX_SUBAGENT_DEPTH)
                            @ '') reached''), s)
          else
            (case on_world (en_try_acquire env) s of
               (False, s1) \<Rightarrow>
                 (harness_error_output (''subagent concurrency limit (''
                    @ nat_to_string MAX_CONCURRENT_SUBAGENTS @ '') reached''), s1)
             | (True, s1) \<Rightarrow>
                 let nm = nonempty_field call ''name'';
                     (n, s2) = on_world (en_fetch_number env) s1;
                     sub_id = ''agent-'' @ nat_to_string (unat n);
                     s3 = say [AA_Emit (EP_AgentSpawned agent sub_id nm prompt)] s2;
                     gen = en_interrupts env (ag_world s3);
                     s4 = s3\<lparr>ag_world := en_spawn env sub_id prompt (depth + 1) gen (ag_world s3)\<rparr>;
                     s5 = s4\<lparr>ag_children := AList.update sub_id nm (ag_children s4)\<rparr>;
                     label = (case nm of Some l \<Rightarrow> l | None \<Rightarrow> sub_id)
                 in (harness_ok (''Started subagent '' @ [CHR 0x27] @ label @ [CHR 0x27] @ '' ('' @ sub_id
                       @ ''). It runs in the background; collect it with AwaitAgent. Pass agent ''
                       @ debug_str sub_id @ '' to wait for this one.''), s5)))"

fun child_result_of :: "harness_error + turn_outcome \<Rightarrow> child_result" where
  "child_result_of (Inr (TO_Completed final_text)) =
     \<lparr>ch_output = final_text, ch_is_error = False, ch_shutdown = False, ch_script_failure = None\<rparr>"
| "child_result_of (Inr (TO_LlmFailed m)) =
     \<lparr>ch_output = m, ch_is_error = True, ch_shutdown = False, ch_script_failure = None\<rparr>"
| "child_result_of (Inr (TO_ScriptFailed m)) =
     \<lparr>ch_output = m, ch_is_error = True, ch_shutdown = False, ch_script_failure = Some m\<rparr>"
| "child_result_of (Inr TO_Interrupted) =
     \<lparr>ch_output = ''interrupted by the user'', ch_is_error = True, ch_shutdown = False,
      ch_script_failure = None\<rparr>"
| "child_result_of (Inr TO_ShutdownRequested) =
     \<lparr>ch_output = ''session shutdown requested'', ch_is_error = True, ch_shutdown = True,
      ch_script_failure = None\<rparr>"
| "child_result_of (Inl e) =
     \<lparr>ch_output = harness_error_to_string e, ch_is_error = True, ch_shutdown = False,
      ch_script_failure = None\<rparr>"

definition outstanding :: "agent_id \<Rightarrow> 'w agent_state \<Rightarrow> bool" where
  "outstanding i s = (i \<in> fst ` set (ag_children s))"

text \<open>The iteration order of the pool is not specified in the code; here it is the order of the list.\<close>

definition take_finished_child :: "'w agent_env \<Rightarrow> 'w agent_state \<Rightarrow> agent_id option" where
  "take_finished_child env s =
     find (en_finished env (ag_world s)) (map fst (ag_children s))"

fun await_any_child ::
  "nat \<Rightarrow> 'w agent_env \<Rightarrow> u64 \<Rightarrow> 'w agent_state \<Rightarrow> (await_any \<times> 'w agent_state) option" where
  "await_any_child 0 env gen s = None"
| "await_any_child (Suc n) env gen s =
     (case take_finished_child env s of
        Some i \<Rightarrow> Some (AW_Child i, s)
      | None \<Rightarrow>
          (case on_world (en_done_select env gen) s of
             (Inl (AR_Shutdown _), s1) \<Rightarrow> Some (AW_Shutdown, s1)
           | (Inl AR_Interrupted, s1) \<Rightarrow> Some (AW_Interrupted, s1)
           | (Inr (Some i), s1) \<Rightarrow>
               if outstanding i s1 then Some (AW_Child i, s1) else await_any_child n env gen s1
           | (Inr None, s1) \<Rightarrow> Some (AW_Interrupted, s1)))"

definition collect_child ::
  "'w agent_env \<Rightarrow> agent_id \<Rightarrow> u64 \<Rightarrow> 'w agent_state \<Rightarrow> tool_disposition \<times> 'w agent_state" where
  "collect_child env child gen s =
     (case map_of (ag_children s) child of
        None \<Rightarrow> (harness_error_output (''AwaitAgent: '' @ debug_str child @ '' was already collected''), s)
      | Some nm \<Rightarrow>
          (case on_world (en_join_select env gen child)
                  (s\<lparr>ag_children := AList.delete child (ag_children s)\<rparr>) of
             (Inl r, s1) \<Rightarrow>
               (case r of AR_Shutdown _ \<Rightarrow> TD_Shutdown | AR_Interrupted \<Rightarrow> TD_Interrupted,
                s1\<lparr>ag_children := AList.update child nm (ag_children s1)\<rparr>)
           | (Inr joined, s1) \<Rightarrow>
               let s2 = s1\<lparr>ag_world := en_release env (ag_world s1)\<rparr> in
               (case joined of
                  Inl e \<Rightarrow> (harness_error_output (''AwaitAgent: subagent '' @ child @ '' task failed: '' @ e), s2)
                | Inr r \<Rightarrow>
                    if ch_shutdown r then (TD_Shutdown, s2)
                    else (case ch_script_failure r of
                            Some d \<Rightarrow> (TD_ScriptFailed d, s2)
                          | None \<Rightarrow>
                              let label = (case nm of Some l \<Rightarrow> l | None \<Rightarrow> child) in
                              (TD_Output ''harness''
                                 \<lparr>out_content = ''Subagent '' @ [CHR 0x27] @ label @ [CHR 0x27] @ '' ('' @ child
                                    @ '') finished.'' @ [CHR 0x0A] @ ch_output r,
                                  out_is_error = ch_is_error r\<rparr>, s2)))))"

definition run_await_agent_tool ::
  "nat \<Rightarrow> 'w agent_env \<Rightarrow> tool_call \<Rightarrow> u64 \<Rightarrow> 'w agent_state
     \<Rightarrow> (tool_disposition \<times> 'w agent_state) option" where
  "run_await_agent_tool fuel env call gen s =
     (case nonempty_field call ''agent'' of
        Some i \<Rightarrow>
          if \<not> outstanding i s then
            Some (harness_error_output (''AwaitAgent: '' @ debug_str i
              @ '' is not an outstanding subagent of this agent''), s)
          else Some (collect_child env i gen s)
      | None \<Rightarrow>
          if ag_children s = [] then Some (harness_error_output ''AwaitAgent: no subagents are running'', s)
          else (case await_any_child fuel env gen s of
                  None \<Rightarrow> None
                | Some (AW_Child i, s1) \<Rightarrow> Some (collect_child env i gen s1)
                | Some (AW_Shutdown, s1) \<Rightarrow> Some (TD_Shutdown, s1)
                | Some (AW_Interrupted, s1) \<Rightarrow> Some (TD_Interrupted, s1)))"

text \<open>
  The children still in the pool when the turn ends: each is aborted and joined, and its completion
  reported here unless its own task reported it first (\<open>en_cancel\<close> tells).
\<close>

fun cancel_each ::
  "'w agent_env \<Rightarrow> (agent_id \<times> string option) list \<Rightarrow> nat \<Rightarrow> 'w agent_state \<Rightarrow> nat \<times> 'w agent_state" where
  "cancel_each env [] n s = (n, s)"
| "cancel_each env ((i, nm) # cs) n s =
     (let (emitted, s1) = on_world (en_cancel env i) s;
          s2 = (if emitted then s1
                else say [AA_Emit (EP_AgentCompleted i
                       ''cancelled (parent ended turn without collecting)'' True)] s1)
      in cancel_each env cs (if emitted then n else Suc n)
           (s2\<lparr>ag_world := en_release env (ag_world s2)\<rparr>))"

definition cancel_uncollected_children ::
  "'w agent_env \<Rightarrow> agent_id \<Rightarrow> 'w agent_state \<Rightarrow> 'w agent_state" where
  "cancel_uncollected_children env agent s =
     (let (n, s1) = cancel_each env (ag_children s) 0 (s\<lparr>ag_children := []\<rparr>) in
      if n > 0
      then lifecycle (agent @ '': cancelled '' @ nat_to_string n @ '' uncollected subagent(s)'') s1
      else s1)"

definition execute_tool ::
  "nat \<Rightarrow> session_ctx \<Rightarrow> 'w agent_env \<Rightarrow> agent_id \<Rightarrow> tool_call \<Rightarrow> u32 \<Rightarrow> u64 \<Rightarrow> 'w agent_state
     \<Rightarrow> ((harness_error + tool_disposition) \<times> 'w agent_state) option" where
  "execute_tool fuel cx env agent call depth gen s =
     (case owner_of (cx_registry cx) (tc_name call) of
        Some Owner_Sandbox \<Rightarrow> Some (run_sandbox_tool env agent call gen s)
      | Some Owner_Frontend \<Rightarrow> Some (run_frontend_tool env agent call gen s)
      | Some Owner_Harness \<Rightarrow>
          if tc_name call = ''AwaitAgent'' then
            map_option (\<lambda>(d, s1). (Inr d, s1)) (run_await_agent_tool fuel env call gen s)
          else (let (d, s1) = run_agent_tool env agent call depth s in Some (Inr d, s1))
      | None \<Rightarrow> Some (Inr (TD_Output ''harness'' (output_error (''unknown tool: '' @ tc_name call))), s))"

section \<open>The conversation loop\<close>

definition end_of_turn ::
  "agent_id \<Rightarrow> agent_kind \<Rightarrow> completion_response \<Rightarrow> 'w agent_state \<Rightarrow> turn_outcome \<times> 'w agent_state" where
  "end_of_turn agent kind resp s =
     (let s1 = (if resp_stop_reason resp = SR_MaxTokens
                then lifecycle (agent @ '': response hit max_tokens; treated as end of turn'') s else s);
          s2 = (if kind = TopLevel
                then say [AA_Emit (EP_TurnComplete agent (resp_stop_reason resp))] s1 else s1)
      in (TO_Completed (response_text resp), s2))"

fun block_call :: "content_block \<Rightarrow> tool_call option" where
  "block_call (CB_ToolUse i n inp) = Some \<lparr>tc_id = i, tc_name = n, tc_input = inp\<rparr>"
| "block_call _ = None"

definition response_calls :: "completion_response \<Rightarrow> tool_call list" where
  "response_calls resp = List.map_filter block_call (resp_content resp)"

text \<open>How the loop over the tool calls of one response ended.\<close>

datatype calls_end = CE_Done | CE_Interrupted | CE_Return turn_outcome | CE_Error harness_error

definition result_block :: "tool_call \<Rightarrow> tool_output \<Rightarrow> content_block" where
  "result_block call out = CB_ToolResult (tc_id call) (out_content out) (out_is_error out)"

fun run_calls ::
  "nat \<Rightarrow> session_ctx \<Rightarrow> 'w agent_env \<Rightarrow> agent_id \<Rightarrow> u32 \<Rightarrow> u64 \<Rightarrow> tool_call list
     \<Rightarrow> content_block list \<Rightarrow> 'w agent_state
     \<Rightarrow> (calls_end \<times> content_block list \<times> 'w agent_state) option" where
  "run_calls fuel cx env agent depth gen [] blocks s = Some (CE_Done, blocks, s)"
| "run_calls fuel cx env agent depth gen (call # calls) blocks s =
     (case on_world (en_check env) s of
        (Some _, s1) \<Rightarrow> Some (CE_Return TO_ShutdownRequested, blocks, s1)
      | (None, s1) \<Rightarrow>
          if en_interrupts env (ag_world s1) > gen then Some (CE_Interrupted, blocks, s1)
          else
            (case execute_tool fuel cx env agent call depth gen
                    (say [AA_Emit (EP_ToolUse agent call)] s1) of
               None \<Rightarrow> None
             | Some (Inl e, s2) \<Rightarrow> Some (CE_Error e, blocks, s2)
             | Some (Inr (TD_Output owner out), s2) \<Rightarrow>
                 run_calls fuel cx env agent depth gen calls (blocks @ [result_block call out])
                   (say [AA_Journal (JE_ToolExec agent owner call out),
                         AA_Emit (EP_ToolResult agent (tc_id call) (tc_name call) out)] s2)
             | Some (Inr TD_Shutdown, s2) \<Rightarrow> Some (CE_Return TO_ShutdownRequested, blocks, s2)
             | Some (Inr TD_Interrupted, s2) \<Rightarrow> Some (CE_Interrupted, blocks, s2)
             | Some (Inr (TD_ScriptFailed m), s2) \<Rightarrow> Some (CE_Return (TO_ScriptFailed m), blocks, s2)))"

definition interrupted_block :: "tool_call \<Rightarrow> content_block" where
  "interrupted_block call = CB_ToolResult (tc_id call) INTERRUPTED_BY_USER True"

definition user_blocks :: "content_block list \<Rightarrow> message" where
  "user_blocks blocks = \<lparr>msg_role = User, msg_content = blocks\<rparr>"

datatype turn_step = Again | Done "harness_error + turn_outcome"

text \<open>What follows a response: the tool calls and the message with their results.\<close>

definition after_response ::
  "nat \<Rightarrow> session_ctx \<Rightarrow> 'w agent_env \<Rightarrow> agent_id \<Rightarrow> agent_kind \<Rightarrow> u32 \<Rightarrow> u64 \<Rightarrow> completion_response
     \<Rightarrow> message list \<Rightarrow> 'w agent_state \<Rightarrow> (turn_step \<times> message list \<times> 'w agent_state) option" where
  "after_response fuel cx env agent kind depth gen resp msgs s =
     (let calls = response_calls resp in
      if calls = [] then
        let (oc, s1) = end_of_turn agent kind resp s in Some (Done (Inr oc), msgs, s1)
      else
        (case run_calls fuel cx env agent depth gen calls [] s of
           None \<Rightarrow> None
         | Some (CE_Return oc, blocks, s1) \<Rightarrow> Some (Done (Inr oc), msgs, s1)
         | Some (CE_Error e, blocks, s1) \<Rightarrow> Some (Done (Inl e), msgs, s1)
         | Some (CE_Interrupted, blocks, s1) \<Rightarrow>
             Some (Done (Inr TO_Interrupted),
               msgs @ [user_blocks (blocks @ map interrupted_block (drop (length blocks) calls))],
               lifecycle (agent @ '': interrupt cancelled ''
                 @ nat_to_string (length calls - length blocks) @ '' tool call(s)'') s1)
         | Some (CE_Done, blocks, s1) \<Rightarrow>
             let msgs1 = msgs @ [user_blocks blocks] in
             if resp_stop_reason resp \<noteq> SR_ToolUse then
               let (oc, s2) = end_of_turn agent kind resp s1 in Some (Done (Inr oc), msgs1, s2)
             else Some (Again, msgs1, s1)))"

definition response_log ::
  "'w agent_env \<Rightarrow> agent_id \<Rightarrow> completion_response \<Rightarrow> 'w \<Rightarrow> agent_action list" where
  "response_log env agent resp w =
     [AA_Journal (JE_LlmResponse agent (en_backend_id env) resp)]
     @ map (\<lambda>t. AA_Emit (EP_AssistantText agent t)) (List.map_filter text_block (resp_content resp))
     @ [AA_Emit (EP_CostReport (en_backend_id env) (en_usage env w) (en_quota env w))]"

definition turn_request :: "session_ctx \<Rightarrow> agent_kind \<Rightarrow> message list \<Rightarrow> completion_request" where
  "turn_request cx kind msgs =
     \<lparr>req_system = cx_system cx, req_messages = msgs, req_tools = defs_for (cx_registry cx) kind,
      req_max_tokens = cx_max_tokens cx\<rparr>"

definition loop_step ::
  "nat \<Rightarrow> session_ctx \<Rightarrow> 'w agent_env \<Rightarrow> agent_id \<Rightarrow> agent_kind \<Rightarrow> u32 \<Rightarrow> u64
     \<Rightarrow> message list \<Rightarrow> 'w agent_state \<Rightarrow> (turn_step \<times> message list \<times> 'w agent_state) option" where
  "loop_step fuel cx env agent kind depth gen msgs s =
     (case on_world (en_check env) s of
        (Some _, s1) \<Rightarrow> Some (Done (Inr TO_ShutdownRequested), msgs, s1)
      | (None, s1) \<Rightarrow>
          if en_interrupts env (ag_world s1) > gen then Some (Done (Inr TO_Interrupted), msgs, s1)
          else
            let req = turn_request cx kind msgs;
                s2 = say [AA_Journal (JE_LlmRequest agent (en_backend_id env) req)] s1
            in (case on_world (en_complete env gen req) s2 of
                  (Inl (AR_Shutdown _), s3) \<Rightarrow> Some (Done (Inr TO_ShutdownRequested), msgs, s3)
                | (Inl AR_Interrupted, s3) \<Rightarrow>
                    Some (Done (Inr TO_Interrupted), msgs,
                          lifecycle (agent @ '': llm call aborted by interrupt'') s3)
                | (Inr (Inl (Llm_ScriptMismatch m)), s3) \<Rightarrow>
                    let msg = llm_error_to_string (Llm_ScriptMismatch m) in
                    Some (Done (Inr (TO_ScriptFailed msg)), msgs,
                          lifecycle (''llm script mismatch for '' @ agent @ '': '' @ msg) s3)
                | (Inr (Inl e), s3) \<Rightarrow>
                    let msg = llm_error_to_string e in
                    Some (Done (Inr (TO_LlmFailed msg)), msgs,
                          say [AA_Emit (EP_Error (''llm:'' @ agent) msg)]
                            (lifecycle (''llm request failed for '' @ agent @ '': '' @ msg) s3))
                | (Inr (Inr resp), s3) \<Rightarrow>
                    after_response fuel cx env agent kind depth gen resp
                      (msgs @ [assistant (resp_content resp)])
                      (say (response_log env agent resp (ag_world s3)) s3)))"

fun drive_inner ::
  "nat \<Rightarrow> session_ctx \<Rightarrow> 'w agent_env \<Rightarrow> agent_id \<Rightarrow> agent_kind \<Rightarrow> u32 \<Rightarrow> u64
     \<Rightarrow> message list \<Rightarrow> 'w agent_state
     \<Rightarrow> ((harness_error + turn_outcome) \<times> message list \<times> 'w agent_state) option" where
  "drive_inner 0 cx env agent kind depth gen msgs s = None"
| "drive_inner (Suc n) cx env agent kind depth gen msgs s =
     (case loop_step n cx env agent kind depth gen msgs s of
        None \<Rightarrow> None
      | Some (Again, msgs1, s1) \<Rightarrow> drive_inner n cx env agent kind depth gen msgs1 s1
      | Some (Done r, msgs1, s1) \<Rightarrow> Some (r, msgs1, s1))"

definition drive ::
  "nat \<Rightarrow> session_ctx \<Rightarrow> 'w agent_env \<Rightarrow> agent_id \<Rightarrow> agent_kind \<Rightarrow> u32 \<Rightarrow> u64
     \<Rightarrow> message list \<Rightarrow> 'w agent_state
     \<Rightarrow> ((harness_error + turn_outcome) \<times> message list \<times> 'w agent_state) option" where
  "drive fuel cx env agent kind depth gen msgs s =
     map_option (\<lambda>(r, msgs1, s1). (r, msgs1, cancel_uncollected_children env agent s1))
       (drive_inner fuel cx env agent kind depth gen msgs s)"

section \<open>The top-level loop\<close>

definition push_user_prompt :: "message list \<Rightarrow> string \<Rightarrow> message list" where
  "push_user_prompt msgs t =
     (if msgs \<noteq> [] \<and> msg_role (last msgs) = User
      then update_last (\<lambda>m. m\<lparr>msg_content := msg_content m @ [CB_Text t]\<rparr>) msgs
      else msgs @ [user_text t])"

datatype top_step = Next "message list" nat | Ended "harness_error + session_end"

text \<open>One turn of the top-level loop; \<open>failures\<close> counts the consecutive LLM failures.\<close>

definition after_turn ::
  "'w agent_env \<Rightarrow> harness_error + turn_outcome \<Rightarrow> message list \<Rightarrow> nat \<Rightarrow> 'w agent_state
     \<Rightarrow> top_step \<times> 'w agent_state" where
  "after_turn env r msgs failures s =
     (case r of
        Inl e \<Rightarrow> (Ended (Inl e), s)
      | Inr (TO_Completed _) \<Rightarrow> (Next msgs 0, s)
      | Inr TO_Interrupted \<Rightarrow>
          (let (ie, s1) = on_world (en_frontend_interrupt env) s;
               s2 = (case ie of None \<Rightarrow> s1
                     | Some e \<Rightarrow> say [AA_Emit (EP_Error ''frontend interrupt'' (frontend_error_to_string e))] s1)
           in (Next msgs 0, say [AA_Emit (EP_Interrupted top_level_agent_id)] s2))
      | Inr (TO_LlmFailed m) \<Rightarrow>
          let n = Suc failures in
          if en_frontend_kind env = ''headless'' \<or> n \<ge> MAX_CONSECUTIVE_LLM_FAILURES then
            (Ended (Inr \<lparr>se_message = Some m, se_llm_failure = Some m, se_script_mismatch = None\<rparr>),
             lifecycle (''session ended after '' @ nat_to_string n @ '' consecutive LLM failure(s): '' @ m) s)
          else (Next msgs n, s)
      | Inr (TO_ScriptFailed m) \<Rightarrow>
          (Ended (Inr \<lparr>se_message = None, se_llm_failure = None, se_script_mismatch = Some m\<rparr>),
           lifecycle (''session ended by a script mismatch: '' @ m) s)
      | Inr TO_ShutdownRequested \<Rightarrow>
          (let (sd, s1) = on_world (en_check env) s in
           (Ended (Inr (session_normal (case sd of Some m \<Rightarrow> m | None \<Rightarrow> None))), s1)))"

definition top_iteration ::
  "nat \<Rightarrow> session_ctx \<Rightarrow> 'w agent_env \<Rightarrow> message list \<Rightarrow> nat \<Rightarrow> 'w agent_state
     \<Rightarrow> (top_step \<times> 'w agent_state) option" where
  "top_iteration fuel cx env msgs failures s =
     (case on_world (en_check env) s of
        (Some m, s1) \<Rightarrow> Some (Ended (Inr (session_normal m)), s1)
      | (None, s1) \<Rightarrow>
          (case on_world (en_next_input env) (say [AA_Emit EP_AwaitingInput] s1) of
             (Inl m, s2) \<Rightarrow> Some (Ended (Inr (session_normal m)), s2)
           | (Inr (Inl (Fe_ScriptMismatch d)), s2) \<Rightarrow>
               Some (Ended (Inr (session_normal (Some ''frontend script exhausted''))),
                     lifecycle (''frontend script exhausted: '' @ d) s2)
           | (Inr (Inl e), s2) \<Rightarrow>
               Some (Ended (Inl (He_Frontend e)),
                     say [AA_Emit (EP_Error ''frontend input'' (frontend_error_to_string e))] s2)
           | (Inr (Inr t), s2) \<Rightarrow>
               (case on_world (en_check env) s2 of
                  (Some m, s3) \<Rightarrow> Some (Ended (Inr (session_normal m)), s3)
                | (None, s3) \<Rightarrow>
                    let gen = en_interrupts env (ag_world s3);
                        s4 = (if en_frontend_kind env = ''interactive'' then s3
                              else say [AA_Emit (EP_UserPrompt None None t)] s3)
                    in map_option (\<lambda>(r, msgs1, s5). after_turn env r msgs1 failures s5)
                         (drive fuel cx env top_level_agent_id TopLevel 0 gen
                           (push_user_prompt msgs t) s4))))"

fun top_loop ::
  "nat \<Rightarrow> session_ctx \<Rightarrow> 'w agent_env \<Rightarrow> message list \<Rightarrow> nat \<Rightarrow> 'w agent_state
     \<Rightarrow> ((harness_error + session_end) \<times> 'w agent_state) option" where
  "top_loop 0 cx env msgs failures s = None"
| "top_loop (Suc n) cx env msgs failures s =
     (case top_iteration n cx env msgs failures s of
        None \<Rightarrow> None
      | Some (Next msgs1 k, s1) \<Rightarrow> top_loop n cx env msgs1 k s1
      | Some (Ended r, s1) \<Rightarrow> Some (r, s1))"

definition top_level_loop ::
  "nat \<Rightarrow> session_ctx \<Rightarrow> 'w agent_env \<Rightarrow> 'w agent_state
     \<Rightarrow> ((harness_error + session_end) \<times> 'w agent_state) option" where
  "top_level_loop fuel cx env s = top_loop fuel cx env [] 0 s"

end
