(* ===== verification/Silo_Turn.thy ===== *)
theory Silo_Turn
  imports Silo_Agent
begin

text \<open>
  Properties of the agent loop: the conversation is well-formed at every LLM request, tool calls are
  executed in order and each is answered exactly once, and the top-level loop ends when it must.
\<close>

section \<open>Well-formed conversations\<close>

fun use_id :: "content_block \<Rightarrow> string option" where
  "use_id (CB_ToolUse i _ _) = Some i"
| "use_id _ = None"

definition use_ids :: "content_block list \<Rightarrow> string list" where
  "use_ids bs = List.map_filter use_id bs"

fun is_text :: "content_block \<Rightarrow> bool" where
  "is_text (CB_Text _) = True"
| "is_text _ = False"

fun result_id :: "content_block \<Rightarrow> string option" where
  "result_id (CB_ToolResult i _ _) = Some i"
| "result_id _ = None"

text \<open>A user message answers the tool uses \<open>ids\<close>: their results in order, then only text.\<close>

fun answers :: "string list \<Rightarrow> content_block list \<Rightarrow> bool" where
  "answers [] bs = list_all is_text bs"
| "answers (i # ids) [] = False"
| "answers (i # ids) (b # bs) = (result_id b = Some i \<and> answers ids bs)"

text \<open>
  From a user message on, the roles alternate, every tool use is answered by the next message, and
  the last message is the user's. \<open>ids\<close> are the tool uses still to be answered.
\<close>

fun conv_from :: "string list \<Rightarrow> message list \<Rightarrow> bool" where
  "conv_from ids [] = False"
| "conv_from ids [u] = (msg_role u = User \<and> answers ids (msg_content u))"
| "conv_from ids (u # a # ms) =
     (msg_role u = User \<and> answers ids (msg_content u) \<and> msg_role a = Assistant \<and>
      conv_from (use_ids (msg_content a)) ms)"

definition ready :: "message list \<Rightarrow> bool" where
  "ready ms = conv_from [] ms"

text \<open>Between turns: nothing said yet, ready for a request, or a reply without open tool uses.\<close>

definition idle :: "message list \<Rightarrow> bool" where
  "idle ms = (ms = [] \<or> ready ms \<or>
     (ready (butlast ms) \<and> msg_role (last ms) = Assistant \<and> use_ids (msg_content (last ms)) = []))"

lemma answers_text: "answers ids bs \<Longrightarrow> answers ids (bs @ [CB_Text t])"
  by (induction ids bs rule: answers.induct) auto

lemma answers_results:
  "map result_id bs = map Some ids \<Longrightarrow> answers ids bs"
  by (induction ids bs rule: answers.induct) auto

lemma conv_from_nonempty: "conv_from ids ms \<Longrightarrow> ms \<noteq> []"
  by auto

lemma conv_from_append:
  "conv_from ids ms \<Longrightarrow> msg_role a = Assistant \<Longrightarrow>
     conv_from (use_ids (msg_content a)) rest \<Longrightarrow> conv_from ids (ms @ a # rest)"
  by (induction ids ms rule: conv_from.induct) auto

lemma conv_from_last_user: "conv_from ids ms \<Longrightarrow> msg_role (last ms) = User"
  by (induction ids ms rule: conv_from.induct) auto

lemma conv_from_text:
  "conv_from ids ms \<Longrightarrow>
     conv_from ids (update_last (\<lambda>m. m\<lparr>msg_content := msg_content m @ [CB_Text t]\<rparr>) ms)"
proof (induction ids ms rule: conv_from.induct)
  case (3 ids u a ms)
  then have "ms \<noteq> []" by auto
  with 3 show ?case by (auto simp: update_last_def)
qed (auto simp: update_last_def intro: answers_text)

lemma ready_turn:
  assumes "ready ms" and "map result_id bs = map Some (use_ids content)"
  shows "ready (ms @ [assistant content, user_blocks bs])"
  using assms conv_from_append [of "[]" ms "assistant content" "[user_blocks bs]"]
  by (simp add: ready_def assistant_def user_blocks_def answers_results)

lemma ready_push:
  assumes "idle ms"
  shows "ready (push_user_prompt ms t)"
proof (cases "ms = []")
  case True
  then show ?thesis by (simp add: push_user_prompt_def ready_def user_text_def)
next
  case False
  show ?thesis
  proof (cases "ready ms")
    case True
    then show ?thesis
      using False by (simp add: push_user_prompt_def ready_def conv_from_last_user conv_from_text)
  next
    case no: False
    with assms False have b: "ready (butlast ms)" "msg_role (last ms) = Assistant"
      "use_ids (msg_content (last ms)) = []" by (auto simp: idle_def)
    have "conv_from (use_ids (msg_content (last ms))) [user_text t]"
      using b(3) by (simp add: user_text_def)
    with b False have "ready (butlast ms @ [last ms, user_text t])"
      by (simp add: ready_def conv_from_append)
    moreover have "butlast ms @ [last ms, user_text t] = ms @ [user_text t]"
      using append_butlast_last_id [OF False] by (metis append_Cons append_Nil append_assoc)
    ultimately show ?thesis using b(2) by (simp add: push_user_prompt_def)
  qed
qed

section \<open>What the tools add to the log\<close>

abbreviation grows :: "(agent_action \<Rightarrow> bool) \<Rightarrow> 'w agent_state \<Rightarrow> 'w agent_state \<Rightarrow> bool" where
  "grows \<equiv> extends_by ag_log"

lemmas grows_def = extends_by_def [of ag_log]
lemmas grows_trans = extends_by_trans [of ag_log]

lemma log_on_world: "on_world f s = (r, s1) \<Longrightarrow> ag_log s1 = ag_log s"
  by (auto simp: on_world_def split: prod.splits)

lemma log_say [simp]:
  "ag_log (say as s) = ag_log s @ as" "ag_log (lifecycle m s) = ag_log s @ [AA_Journal (JE_Lifecycle m)]"
  by (simp_all add: say_def lifecycle_def)

lemma world_say [simp]:
  "ag_world (say as s) = ag_world s" "ag_world (lifecycle m s) = ag_world s"
  "ag_children (say as s) = ag_children s" "ag_children (lifecycle m s) = ag_children s"
  by (simp_all add: say_def lifecycle_def)

text \<open>
  A tool never journals a request or a response, reports no turn end, asks for no input, and leaves
  the events about its call to the loop.
\<close>

fun tool_action :: "agent_action \<Rightarrow> bool" where
  "tool_action (AA_Journal (JE_LlmRequest _ _ _)) = False"
| "tool_action (AA_Journal (JE_LlmResponse _ _ _)) = False"
| "tool_action (AA_Emit (EP_TurnComplete _ _)) = False"
| "tool_action (AA_Emit EP_AwaitingInput) = False"
| "tool_action (AA_Emit (EP_ToolUse _ _)) = False"
| "tool_action (AA_Emit (EP_ToolResult _ _ _ _)) = False"
| "tool_action _ = True"

lemma run_sandbox_tool_grows:
  "run_sandbox_tool env agent call gen s = (r, s1) \<Longrightarrow> grows tool_action s s1"
  by (auto simp: run_sandbox_tool_def Let_def grows_def dest!: log_on_world
      split: prod.splits sum.splits sandbox_error.splits abort_reason.splits option.splits)

lemma send_user_file_grows:
  "send_user_file env agent call path s = (r, s1) \<Longrightarrow> grows tool_action s s1"
  by (auto simp: send_user_file_def Let_def grows_def dest!: log_on_world
      split: prod.splits sum.splits sandbox_error.splits if_splits)

lemma call_frontend_grows:
  "call_frontend env agent call fw gen s = (r, s1) \<Longrightarrow> grows tool_action s s1"
  by (auto simp: call_frontend_def Let_def grows_def dest!: log_on_world
      split: prod.splits sum.splits abort_reason.splits option.splits if_splits)

lemma run_frontend_tool_grows:
  "run_frontend_tool env agent call gen s = (r, s1) \<Longrightarrow> grows tool_action s s1"
  by (auto simp: run_frontend_tool_def split: prod.splits sum.splits option.splits
      intro: call_frontend_grows send_user_file_grows grows_trans [OF send_user_file_grows call_frontend_grows])

lemma run_agent_tool_grows:
  "run_agent_tool env agent call depth s = (d, s1) \<Longrightarrow> grows tool_action s s1"
  by (auto simp: run_agent_tool_def Let_def grows_def dest!: log_on_world
      split: prod.splits option.splits if_splits bool.splits)

lemma await_any_log:
  "await_any_child n env gen s = Some (r, s1) \<Longrightarrow> ag_log s1 = ag_log s"
proof (induction n arbitrary: s)
  case (Suc n)
  show ?case
  proof (cases "take_finished_child env s")
    case (Some i)
    with Suc.prems show ?thesis by simp
  next
    case None
    obtain x s2 where w: "on_world (en_done_select env gen) s = (x, s2)" by fastforce
    have same: "ag_log s2 = ag_log s" using w by (rule log_on_world)
    from Suc.prems None w have "s1 = s2 \<or> await_any_child n env gen s2 = Some (r, s1)"
      by (auto split: sum.splits abort_reason.splits option.splits if_splits)
    with Suc.IH same show ?thesis by auto
  qed
qed simp

lemma collect_child_log: "collect_child env child gen s = (d, s1) \<Longrightarrow> ag_log s1 = ag_log s"
  by (auto simp: collect_child_def Let_def dest!: log_on_world
      split: option.splits prod.splits sum.splits if_splits)

lemma run_await_log:
  "run_await_agent_tool n env call gen s = Some (d, s1) \<Longrightarrow> ag_log s1 = ag_log s"
  by (auto simp: run_await_agent_tool_def dest!: await_any_log
      split: option.splits if_splits prod.splits await_any.splits)
    (metis collect_child_log prod.collapse)+

lemma execute_tool_grows:
  "execute_tool n cx env agent call depth gen s = Some (r, s1) \<Longrightarrow> grows tool_action s s1"
  by (auto simp: execute_tool_def split: option.splits tool_owner.splits if_splits prod.splits
      intro: run_sandbox_tool_grows run_frontend_tool_grows run_agent_tool_grows extends_by_same
      dest!: run_await_log) 

text \<open>The events about tool calls: which were started, and the outputs reported.\<close>

fun started :: "agent_action \<Rightarrow> tool_call option" where
  "started (AA_Emit (EP_ToolUse _ call)) = Some call"
| "started _ = None"

fun reported :: "agent_action \<Rightarrow> (string \<times> string \<times> tool_output) option" where
  "reported (AA_Emit (EP_ToolResult _ i nm out)) = Some (i, nm, out)"
| "reported _ = None"

lemma tool_action_silent: "tool_action a \<Longrightarrow> started a = None \<and> reported a = None"
  by (cases a rule: tool_action.cases) auto

lemma silent_map_filter:
  "list_all tool_action new \<Longrightarrow> List.map_filter started new = [] \<and> List.map_filter reported new = []"
  by (induction new) (auto simp: tool_action_silent)

lemma map_filter_append: "List.map_filter f (xs @ ys) = List.map_filter f xs @ List.map_filter f ys"
  by (induction xs) (auto split: option.splits)

definition call_report :: "tool_call \<Rightarrow> tool_output \<Rightarrow> string \<times> string \<times> tool_output" where
  "call_report call out = (tc_id call, tc_name call, out)"

text \<open>
  What the loop over the calls adds to the log: no request, the calls started in order, and the
  outputs \<open>outs\<close> of those that ended with one.
\<close>

definition calls_log ::
  "tool_call list \<Rightarrow> tool_output list \<Rightarrow> agent_action list \<Rightarrow> bool" where
  "calls_log calls outs new =
     ((\<forall>a\<in>set new. tool_action a \<or> started a \<noteq> None \<or> reported a \<noteq> None) \<and>
      (\<exists>k\<le>1. List.map_filter started new = take (length outs + k) calls) \<and>
      List.map_filter reported new = map2 call_report calls outs)"

lemma calls_log_nothing: "calls_log calls [] []"
  by (auto simp: calls_log_def intro: exI [of _ 0])

lemma calls_log_stop:
  "list_all tool_action new \<Longrightarrow> calls_log (call # calls) [] (AA_Emit (EP_ToolUse agent call) # new)"
  by (auto simp: calls_log_def silent_map_filter list_all_iff intro: exI [of _ 1])

lemma calls_log_more:
  assumes "list_all tool_action new" and "calls_log calls outs rest"
  shows "calls_log (call # calls) (out # outs)
    (AA_Emit (EP_ToolUse agent call) # new
     @ [AA_Journal (JE_ToolExec agent owner call out),
        AA_Emit (EP_ToolResult agent (tc_id call) (tc_name call) out)] @ rest)"
  using assms by (auto simp: calls_log_def silent_map_filter map_filter_append list_all_iff call_report_def)

text \<open>One result block per call executed, from the first call on, and the log tells the same.\<close>

lemma run_calls_results:
  "run_calls n cx env agent depth gen calls blocks s = Some (ce, blocks1, s1) \<Longrightarrow>
     \<exists>outs new. length outs \<le> length calls \<and> blocks1 = blocks @ map2 result_block calls outs \<and>
       (ce = CE_Done \<longrightarrow> length outs = length calls) \<and>
       ag_log s1 = ag_log s @ new \<and> calls_log calls outs new"
proof (induction calls arbitrary: blocks s)
  case Nil
  then show ?case by (simp add: calls_log_nothing)
next
  case (Cons call calls)
  obtain x s2 where w: "on_world (en_check env) s = (x, s2)" by fastforce
  have l2: "ag_log s2 = ag_log s" using w by (rule log_on_world)
  show ?case
  proof (cases "x \<noteq> None \<or> en_interrupts env (ag_world s2) > gen")
    case True
    with Cons.prems w l2 show ?thesis
      by (intro exI [of _ "[]"] exI [of _ "[]"])
        (auto simp: calls_log_nothing split: option.splits if_splits)
  next
    case go: False
    let ?s3 = "say [AA_Emit (EP_ToolUse agent call)] s2"
    obtain r s4 where q: "execute_tool n cx env agent call depth gen ?s3 = Some (r, s4)"
      using Cons.prems w go by (cases "execute_tool n cx env agent call depth gen ?s3") auto
    obtain new where new: "ag_log s4 = ag_log s @ AA_Emit (EP_ToolUse agent call) # new"
      "list_all tool_action new"
      using execute_tool_grows [OF q] l2 by (auto simp: grows_def)
    show ?thesis
    proof (cases "\<exists>owner out. r = Inr (TD_Output owner out)")
      case True
      then obtain owner out where r: "r = Inr (TD_Output owner out)" by blast
      let ?fin = "[AA_Journal (JE_ToolExec agent owner call out),
                   AA_Emit (EP_ToolResult agent (tc_id call) (tc_name call) out)]"
      have "run_calls n cx env agent depth gen calls (blocks @ [result_block call out]) (say ?fin s4)
          = Some (ce, blocks1, s1)"
        using Cons.prems w go q r by simp
      from Cons.IH [OF this] obtain outs rest where rest: "length outs \<le> length calls"
        "blocks1 = (blocks @ [result_block call out]) @ map2 result_block calls outs"
        "ce = CE_Done \<longrightarrow> length outs = length calls"
        "ag_log s1 = ag_log (say ?fin s4) @ rest" "calls_log calls outs rest" by blast
      show ?thesis
        using rest new calls_log_more [OF new(2) rest(5), of call out agent owner]
        by (intro exI [of _ "out # outs"]
            exI [of _ "AA_Emit (EP_ToolUse agent call) # new @ ?fin @ rest"]) simp
    next
      case False
      with Cons.prems w go q have "blocks1 = blocks" "ce \<noteq> CE_Done" "s1 = s4"
        by (auto split: sum.splits tool_disposition.splits)
      with new calls_log_stop [OF new(2), of call calls agent] show ?thesis
        by (intro exI [of _ "[]"] exI [of _ "AA_Emit (EP_ToolUse agent call) # new"]) simp
    qed
  qed
qed

lemma map_result_id_blocks:
  "length outs \<le> length calls \<Longrightarrow>
   map result_id (map2 result_block calls outs) = map (Some \<circ> tc_id) (take (length outs) calls)"
proof (induction calls arbitrary: outs)
  case (Cons c calls)
  then show ?case by (cases outs) (auto simp: result_block_def)
qed simp

lemma map_result_id_interrupted:
  "map result_id (map interrupted_block calls) = map (Some \<circ> tc_id) calls"
  by (simp add: interrupted_block_def)

lemma use_ids_calls: "use_ids (resp_content resp) = map tc_id (response_calls resp)"
proof -
  have "List.map_filter use_id bs = map tc_id (List.map_filter block_call bs)" for bs
  proof (induction bs)
    case (Cons b bs)
    then show ?case by (cases b) simp_all
  qed simp
  then show ?thesis by (simp add: use_ids_def response_calls_def)
qed

section \<open>One turn of the loop\<close>

text \<open>The requests journaled carry well-formed conversations.\<close>

fun sound_request :: "agent_action \<Rightarrow> bool" where
  "sound_request (AA_Journal (JE_LlmRequest _ _ r)) = ready (req_messages r)"
| "sound_request _ = True"

lemma tool_action_sound: "tool_action a \<Longrightarrow> sound_request a"
  by (cases a rule: tool_action.cases) auto

lemma call_action_sound: "started a \<noteq> None \<or> reported a \<noteq> None \<Longrightarrow> sound_request a"
  by (cases a rule: sound_request.cases) auto

lemma calls_grows_sound:
  assumes "\<exists>outs new. length outs \<le> length calls \<and> bs = blocks @ map2 result_block calls outs \<and>
       (ce = CE_Done \<longrightarrow> length outs = length calls) \<and>
       ag_log s1 = ag_log s @ new \<and> calls_log calls outs new"
  shows "\<exists>outs. length outs \<le> length calls \<and> bs = blocks @ map2 result_block calls outs \<and>
       (ce = CE_Done \<longrightarrow> length outs = length calls) \<and> grows sound_request s s1"
proof -
  obtain outs new where o: "length outs \<le> length calls" "bs = blocks @ map2 result_block calls outs"
    "ce = CE_Done \<longrightarrow> length outs = length calls" "ag_log s1 = ag_log s @ new" "calls_log calls outs new"
    using assms by blast
  then have "list_all sound_request new"
    unfolding calls_log_def list_all_iff using tool_action_sound call_action_sound by blast
  with o show ?thesis unfolding grows_def by blast
qed

definition resumable :: "harness_error + turn_outcome \<Rightarrow> bool" where
  "resumable r = (case r of
     Inr (TO_Completed _) \<Rightarrow> True | Inr TO_Interrupted \<Rightarrow> True | Inr (TO_LlmFailed _) \<Rightarrow> True | _ \<Rightarrow> False)"

lemma run_calls_return:
  "run_calls n cx env agent depth gen calls blocks s = Some (CE_Return oc, blocks1, s1) \<Longrightarrow>
     \<not> resumable (Inr oc)"
proof (induction calls arbitrary: blocks s)
  case (Cons call calls)
  from Cons.prems show ?case
    by (auto simp: resumable_def [of "Inr oc"] split: option.splits if_splits sum.splits prod.splits
        tool_disposition.splits dest!: Cons.IH)
qed simp

lemma end_of_turn_grows: "end_of_turn agent kind resp s = (oc, s1) \<Longrightarrow> grows sound_request s s1"
  by (auto simp: end_of_turn_def Let_def grows_def split: if_splits)

lemma end_of_turn_completed: "fst (end_of_turn agent kind resp s) = TO_Completed (response_text resp)"
  by (simp add: end_of_turn_def Let_def)

lemma idle_reply: "ready ms \<Longrightarrow> use_ids content = [] \<Longrightarrow> idle (ms @ [assistant content])"
  by (simp add: idle_def assistant_def)

lemma after_response_keeps:
  assumes "after_response n cx env agent kind depth gen resp (ms @ [assistant (resp_content resp)]) s
      = Some (ts, ms1, s1)" and "ready ms"
  shows "grows sound_request s s1 \<and>
    (case ts of Again \<Rightarrow> ready ms1 | Done r \<Rightarrow> resumable r \<longrightarrow> idle ms1)"
proof (cases "response_calls resp = []")
  case True
  with assms show ?thesis
    using end_of_turn_grows [of agent kind resp s] idle_reply [OF assms(2), of "resp_content resp"]
    by (auto simp: after_response_def use_ids_calls split: prod.splits)
next
  case False
  let ?calls = "response_calls resp" and ?ms = "ms @ [assistant (resp_content resp)]"
  obtain ce bs s2 where rc: "run_calls n cx env agent depth gen ?calls [] s = Some (ce, bs, s2)"
    using assms(1) False
    by (cases "run_calls n cx env agent depth gen ?calls [] s") (auto simp: after_response_def Let_def)
  obtain outs where outs: "length outs \<le> length ?calls" "bs = map2 result_block ?calls outs"
    "ce = CE_Done \<longrightarrow> length outs = length ?calls" and gs: "grows sound_request s s2"
    using calls_grows_sound [OF run_calls_results [OF rc]] by auto
  have ids: "map result_id (bs @ map interrupted_block (drop (length bs) ?calls)) = map Some (use_ids (resp_content resp))"
    using outs map_result_id_blocks [OF outs(1)]
    by (simp add: map_result_id_interrupted use_ids_calls del: map_map)
      (metis append_take_drop_id length_map length_zip map_append min.absorb2 map_map)
  have full: "ready (?ms @ [user_blocks (bs @ map interrupted_block (drop (length bs) ?calls))])"
    using ready_turn [OF assms(2) ids] by simp
  have ret: "\<And>oc. ce = CE_Return oc \<Longrightarrow> \<not> resumable (Inr oc)"
    using run_calls_return rc by blast
  have all: "ce = CE_Done \<Longrightarrow> ready (?ms @ [user_blocks bs])" using full outs by simp
  show ?thesis
    using assms(1) False rc gs full all ret
    by (cases ce)
      (auto simp: after_response_def Let_def resumable_def idle_def grows_def end_of_turn_def
        split: if_splits prod.splits)
qed

lemma loop_step_keeps:
  assumes "loop_step n cx env agent kind depth gen ms s = Some (ts, ms1, s1)" and "ready ms"
  shows "grows sound_request s s1 \<and>
    (case ts of Again \<Rightarrow> ready ms1 | Done r \<Rightarrow> resumable r \<longrightarrow> idle ms1)"
proof -
  have idle: "idle ms" using assms(2) by (simp add: idle_def)
  obtain x s2 where w: "on_world (en_check env) s = (x, s2)" by fastforce
  have l2: "ag_log s2 = ag_log s" using w by (rule log_on_world)
  show ?thesis
  proof (cases "x \<noteq> None \<or> en_interrupts env (ag_world s2) > gen")
    case True
    with assms(1) w l2 idle show ?thesis
      by (auto simp: loop_step_def grows_def split: option.splits if_splits)
  next
    case False
    let ?req = "turn_request cx kind ms"
    let ?s3 = "say [AA_Journal (JE_LlmRequest agent (en_backend_id env) ?req)] s2"
    obtain c s4 where c: "on_world (en_complete env gen ?req) ?s3 = (c, s4)" by fastforce
    have l4: "ag_log s4 = ag_log s @ [AA_Journal (JE_LlmRequest agent (en_backend_id env) ?req)]"
      using log_on_world [OF c] l2 by simp
    have sr: "ready (req_messages ?req)" using assms(2) by (simp add: turn_request_def)
    show ?thesis
    proof (cases "\<exists>resp. c = Inr (Inr resp)")
      case True
      then obtain resp where resp: "c = Inr (Inr resp)" by blast
      let ?s5 = "say (response_log env agent resp (ag_world s4)) s4"
      have "after_response n cx env agent kind depth gen resp (ms @ [assistant (resp_content resp)]) ?s5
          = Some (ts, ms1, s1)"
        using assms(1) w False c resp by (simp add: loop_step_def Let_def)
      from after_response_keeps [OF this assms(2)]
      have rest: "grows sound_request ?s5 s1"
        "case ts of Again \<Rightarrow> ready ms1 | Done r \<Rightarrow> resumable r \<longrightarrow> idle ms1" by auto
      have "grows sound_request s ?s5"
        using l4 sr by (auto simp: grows_def response_log_def list_all_iff)
      with rest show ?thesis by (blast intro: grows_trans)
    next
      case no: False
      with assms(1) w False c l4 sr idle show ?thesis
        by (auto simp: loop_step_def Let_def grows_def
            split: sum.splits abort_reason.splits llm_error.splits)
    qed
  qed
qed

lemma drive_inner_keeps:
  "drive_inner n cx env agent kind depth gen ms s = Some (r, ms1, s1) \<Longrightarrow> ready ms \<Longrightarrow>
     grows sound_request s s1 \<and> (resumable r \<longrightarrow> idle ms1)"
proof (induction n arbitrary: ms s)
  case (Suc n)
  obtain ts ms2 s2 where st: "loop_step n cx env agent kind depth gen ms s = Some (ts, ms2, s2)"
    using Suc.prems(1) by (cases "loop_step n cx env agent kind depth gen ms s") auto
  note k = loop_step_keeps [OF st Suc.prems(2)]
  show ?case
  proof (cases ts)
    case Again
    with Suc.prems(1) st have "drive_inner n cx env agent kind depth gen ms2 s2 = Some (r, ms1, s1)"
      by simp
    with Suc.IH k Again show ?thesis by (auto intro: grows_trans)
  next
    case (Done r')
    with Suc.prems(1) st k show ?thesis by simp
  qed
qed simp

lemma cancel_each_grows: "cancel_each env cs n s = (k, s1) \<Longrightarrow> grows tool_action s s1"
proof (induction cs arbitrary: n s)
  case (Cons c cs)
  obtain i nm where c: "c = (i, nm)" by (cases c)
  obtain e s2 where w: "on_world (en_cancel env i) s = (e, s2)" by fastforce
  let ?s3 = "if e then s2 else say [AA_Emit (EP_AgentCompleted i
               ''cancelled (parent ended turn without collecting)'' True)] s2"
  have "cancel_each env cs (if e then n else Suc n) (?s3\<lparr>ag_world := en_release env (ag_world ?s3)\<rparr>) = (k, s1)"
    using Cons.prems c w by (simp add: Let_def)
  from Cons.IH [OF this] have "grows tool_action ?s3 s1" by (simp add: grows_def)
  moreover have "grows tool_action s ?s3" using log_on_world [OF w] by (simp add: grows_def)
  ultimately show ?case by (rule grows_trans [rotated])
qed simp

lemma cancel_uncollected_grows: "grows tool_action s (cancel_uncollected_children env agent s)"
proof -
  obtain n s1 where c: "cancel_each env (ag_children s) 0 (s\<lparr>ag_children := []\<rparr>) = (n, s1)" by fastforce
  from cancel_each_grows [OF c] have "grows tool_action s s1" by (simp add: grows_def)
  with c show ?thesis by (auto simp: cancel_uncollected_children_def grows_def)
qed

lemma drive_keeps:
  assumes "drive n cx env agent kind depth gen ms s = Some (r, ms1, s1)" and "ready ms"
  shows "grows sound_request s s1 \<and> (resumable r \<longrightarrow> idle ms1)"
proof -
  obtain s2 where d: "drive_inner n cx env agent kind depth gen ms s = Some (r, ms1, s2)"
    "s1 = cancel_uncollected_children env agent s2"
    using assms(1) by (auto simp: drive_def)
  have "grows sound_request s2 s1"
    unfolding d(2) using cancel_uncollected_grows by (rule extends_by_mono) (rule tool_action_sound)
  with drive_inner_keeps [OF d(1) assms(2)] show ?thesis by (blast intro: grows_trans)
qed

lemma after_turn_keeps:
  assumes "after_turn env r ms k s = (ts, s1)" and "resumable r \<longrightarrow> idle ms"
  shows "grows sound_request s s1 \<and> (case ts of Next ms1 k1 \<Rightarrow> idle ms1 | Ended _ \<Rightarrow> True)"
  using assms
  by (auto simp: after_turn_def resumable_def grows_def Let_def dest!: log_on_world
      split: sum.splits turn_outcome.splits prod.splits option.splits if_splits)

lemma top_iteration_keeps:
  assumes "top_iteration n cx env ms k s = Some (ts, s1)" and "idle ms"
  shows "grows sound_request s s1 \<and> (case ts of Next ms1 k1 \<Rightarrow> idle ms1 | Ended _ \<Rightarrow> True)"
proof -
  obtain x s2 where w: "on_world (en_check env) s = (x, s2)" by fastforce
  obtain y s3 where i: "on_world (en_next_input env) (say [AA_Emit EP_AwaitingInput] s2) = (y, s3)"
    by fastforce
  obtain z s4 where w2: "on_world (en_check env) s3 = (z, s4)" by fastforce
  let ?s5 = "\<lambda>t. if en_frontend_kind env = ''interactive'' then s4
                 else say [AA_Emit (EP_UserPrompt None None t)] s4"
  have g5: "grows sound_request s (?s5 t)" for t
    using log_on_world [OF w] log_on_world [OF i] log_on_world [OF w2] by (auto simp: grows_def)
  show ?thesis
  proof (cases "\<exists>t. x = None \<and> y = Inr (Inr t) \<and> z = None")
    case True
    then obtain t where t: "x = None" "y = Inr (Inr t)" "z = None" by blast
    obtain r ms1 s6 where d: "drive n cx env top_level_agent_id TopLevel 0
        (en_interrupts env (ag_world s4)) (push_user_prompt ms t) (?s5 t) = Some (r, ms1, s6)"
      and a: "after_turn env r ms1 k s6 = (ts, s1)"
      using assms(1) w i w2 t by (auto simp: top_iteration_def Let_def)
    from drive_keeps [OF d ready_push [OF assms(2)]] after_turn_keeps [OF a] g5
    show ?thesis by (blast intro: grows_trans)
  next
    case False
    with assms(1) w i w2 log_on_world [OF w] log_on_world [OF i] log_on_world [OF w2] show ?thesis
      by (auto simp: top_iteration_def Let_def grows_def
          split: option.splits sum.splits frontend_error.splits)
  qed
qed

section \<open>Sessions\<close>

text \<open>The top-level loop as a machine: its conversation, its failure count and the state.\<close>

type_synonym 'w session = "message list \<times> nat \<times> 'w agent_state"

inductive session_step :: "session_ctx \<Rightarrow> 'w agent_env \<Rightarrow> 'w session \<Rightarrow> 'w session \<Rightarrow> bool"
  for cx env where
  session_turn: "top_iteration n cx env ms k s = Some (Next ms1 k1, s1) \<Longrightarrow>
     session_step cx env (ms, k, s) (ms1, k1, s1)"

inductive_cases session_stepE: "session_step cx env st st'"

definition session_sound :: "'w agent_env \<Rightarrow> 'w session \<Rightarrow> bool" where
  "session_sound env st =
     (case st of (ms, k, s) \<Rightarrow> idle ms \<and> list_all sound_request (ag_log s) \<and>
        k < MAX_CONSECUTIVE_LLM_FAILURES \<and> (en_frontend_kind env = ''headless'' \<longrightarrow> k = 0))"

lemma after_turn_count:
  assumes "after_turn env r ms k s = (Next ms1 k1, s1)"
  shows "k1 < MAX_CONSECUTIVE_LLM_FAILURES \<and> (en_frontend_kind env = ''headless'' \<longrightarrow> k1 = 0)"
  using assms
  by (auto simp: after_turn_def Let_def MAX_CONSECUTIVE_LLM_FAILURES_def
      split: sum.splits turn_outcome.splits prod.splits option.splits if_splits)

lemma top_iteration_count:
  assumes "top_iteration n cx env ms k s = Some (Next ms1 k1, s1)"
  shows "k1 < MAX_CONSECUTIVE_LLM_FAILURES \<and> (en_frontend_kind env = ''headless'' \<longrightarrow> k1 = 0)"
proof -
  from assms obtain r ms2 s2 where "after_turn env r ms2 k s2 = (Next ms1 k1, s1)"
    by (auto simp: top_iteration_def Let_def
        split: option.splits sum.splits prod.splits frontend_error.splits)
  then show ?thesis by (rule after_turn_count)
qed

lemma session_step_sound:
  "session_sound env st \<Longrightarrow> session_step cx env st st' \<Longrightarrow> session_sound env st'"
  by (erule session_stepE)
    (use top_iteration_keeps top_iteration_count in
      \<open>fastforce simp: session_sound_def grows_def\<close>)

interpretation session: invariant_system "session_step cx env" "session_sound env" for cx env
  by unfold_locales (rule session_step_sound)

text \<open>
  C14: at every LLM request of a session, however long it runs and whatever the model, the tools, the
  user and the signals do, the conversation alternates between user and assistant, starts and ends
  with the user, and answers every tool use of an assistant message in order in the very next
  message. In particular an interrupt or a failed call never leaves a tool use unanswered.
\<close>

theorem requests_wellformed:
  assumes "reach_by (session_step cx env) ([], 0, s0) (ms, k, s)" and "ag_log s0 = []"
    and "top_iteration n cx env ms k s = Some (ts, s1)"
  shows "\<forall>a\<in>set (ag_log s1). \<forall>i b r. a = AA_Journal (JE_LlmRequest i b r) \<longrightarrow> ready (req_messages r)"
proof -
  have "session_sound env ([], 0, s0)"
    using assms(2) by (simp add: session_sound_def idle_def MAX_CONSECUTIVE_LLM_FAILURES_def)
  with assms(1) have "session_sound env (ms, k, s)" by (rule session.inv_reachable)
  then have "idle ms" "list_all sound_request (ag_log s)" by (simp_all add: session_sound_def)
  with top_iteration_keeps [OF assms(3)] have "list_all sound_request (ag_log s1)"
    by (auto simp: grows_def)
  then show ?thesis by (auto simp: list_all_iff)
qed

text \<open>
  C15: the tool calls of a response are executed in order, each at most once. The blocks of the next
  user message are exactly the outputs reported as events, call by call, and unless the turn is
  stopped every call has one.
\<close>

theorem tool_results_match_events:
  assumes "run_calls n cx env agent depth gen calls [] s = Some (ce, blocks, s1)"
  shows "\<exists>outs new. ag_log s1 = ag_log s @ new \<and> length outs \<le> length calls \<and>
     blocks = map2 result_block calls outs \<and>
     List.map_filter reported new = map2 call_report calls outs \<and>
     (\<exists>k\<le>1. List.map_filter started new = take (length outs + k) calls) \<and>
     (ce = CE_Done \<longrightarrow> length outs = length calls)"
  using run_calls_results [OF assms] unfolding calls_log_def by auto

section \<open>A backend that keeps failing\<close>

text \<open>No signal, always another prompt, and every completion fails other than by a script mismatch.\<close>

definition failing_backend :: "'w agent_env \<Rightarrow> bool" where
  "failing_backend env =
     ((\<forall>w. fst (en_check env w) = None) \<and> (\<forall>w. en_interrupts env w = 0) \<and>
      (\<forall>w. \<exists>t. fst (en_next_input env w) = Inr (Inr t)) \<and>
      (\<forall>g req w. \<exists>e. fst (en_complete env g req w) = Inr (Inl e) \<and> (\<forall>m. e \<noteq> Llm_ScriptMismatch m)))"

fun is_request :: "agent_action \<Rightarrow> bool" where
  "is_request (AA_Journal (JE_LlmRequest _ _ _)) = True"
| "is_request _ = False"

definition requests_made :: "'w agent_state \<Rightarrow> nat" where
  "requests_made s = length (filter is_request (ag_log s))"

lemma requests_say [simp]:
  "requests_made (say as s) = requests_made s + length (filter is_request as)"
  "requests_made (lifecycle m s) = requests_made s"
  by (simp_all add: requests_made_def)

lemma requests_grows: "grows tool_action s s1 \<Longrightarrow> requests_made s1 = requests_made s"
proof -
  assume "grows tool_action s s1"
  then obtain new where new: "ag_log s1 = ag_log s @ new" "list_all tool_action new"
    by (auto simp: grows_def)
  have "tool_action a \<Longrightarrow> \<not> is_request a" for a by (cases a rule: is_request.cases) auto
  with new have "filter is_request new = []" by (auto simp: filter_empty_conv list_all_iff)
  with new(1) show ?thesis by (simp add: requests_made_def)
qed

lemma requests_cancel [simp]: "requests_made (cancel_uncollected_children env agent s) = requests_made s"
  by (rule requests_grows) (rule cancel_uncollected_grows)

lemma requests_on_world: "on_world f s = (r, s1) \<Longrightarrow> requests_made s1 = requests_made s"
  by (drule log_on_world) (simp add: requests_made_def)

lemma on_world_fst: "fst (on_world f s) = fst (f (ag_world s))"
  by (simp add: on_world_def split_beta)

lemma failing_drive:
  assumes "failing_backend env"
  shows "\<exists>m s1. drive (Suc n) cx env agent kind depth 0 ms s = Some (Inr (TO_LlmFailed m), ms, s1) \<and>
    requests_made s1 = Suc (requests_made s)"
proof -
  obtain s2 where w: "on_world (en_check env) s = (None, s2)"
    using assms on_world_fst [of "en_check env" s] by (metis failing_backend_def prod.collapse)
  let ?req = "turn_request cx kind ms"
  let ?s3 = "say [AA_Journal (JE_LlmRequest agent (en_backend_id env) ?req)] s2"
  obtain e s4 where c: "on_world (en_complete env 0 ?req) ?s3 = (Inr (Inl e), s4)"
    and e: "\<forall>m. e \<noteq> Llm_ScriptMismatch m"
    using assms on_world_fst [of "en_complete env 0 ?req" ?s3] by (metis failing_backend_def prod.collapse)
  let ?m = "llm_error_to_string e"
  let ?s5 = "say [AA_Emit (EP_Error (''llm:'' @ agent) ?m)]
               (lifecycle (''llm request failed for '' @ agent @ '': '' @ ?m) s4)"
  have "loop_step n cx env agent kind depth 0 ms s = Some (Done (Inr (TO_LlmFailed ?m)), ms, ?s5)"
    using assms w c e by (cases e) (simp_all add: loop_step_def failing_backend_def Let_def)
  then have "drive (Suc n) cx env agent kind depth 0 ms s =
      Some (Inr (TO_LlmFailed ?m), ms, cancel_uncollected_children env agent ?s5)"
    by (simp add: drive_def)
  moreover have "requests_made (cancel_uncollected_children env agent ?s5) = Suc (requests_made s)"
    using requests_on_world [OF w] requests_on_world [OF c] by simp
  ultimately show ?thesis by blast
qed

lemma failing_iteration:
  assumes "failing_backend env" and "k < MAX_CONSECUTIVE_LLM_FAILURES"
  shows "\<exists>m ms1 s1. top_iteration (Suc n) cx env ms k s =
      Some (if en_frontend_kind env = ''headless'' \<or> Suc k \<ge> MAX_CONSECUTIVE_LLM_FAILURES
            then Ended (Inr \<lparr>se_message = Some m, se_llm_failure = Some m, se_script_mismatch = None\<rparr>)
            else Next ms1 (Suc k), s1) \<and>
    requests_made s1 = Suc (requests_made s)"
proof -
  have chk: "\<exists>t. on_world (en_check env) u = (None, t)" for u
    using assms(1) on_world_fst [of "en_check env" u] by (metis failing_backend_def prod.collapse)
  obtain s2 where w: "on_world (en_check env) s = (None, s2)" using chk by blast
  obtain t s3 where i: "on_world (en_next_input env) (say [AA_Emit EP_AwaitingInput] s2) = (Inr (Inr t), s3)"
    using assms(1) on_world_fst [of "en_next_input env"] by (metis failing_backend_def prod.collapse)
  obtain s4 where w2: "on_world (en_check env) s3 = (None, s4)" using chk by blast
  let ?s5 = "if en_frontend_kind env = ''interactive'' then s4
             else say [AA_Emit (EP_UserPrompt None None t)] s4"
  obtain m s6 where d: "drive (Suc n) cx env top_level_agent_id TopLevel 0 0 (push_user_prompt ms t) ?s5
      = Some (Inr (TO_LlmFailed m), push_user_prompt ms t, s6)" "requests_made s6 = Suc (requests_made ?s5)"
    using failing_drive [OF assms(1)] by blast
  have "top_iteration (Suc n) cx env ms k s =
      Some (after_turn env (Inr (TO_LlmFailed m)) (push_user_prompt ms t) k s6)"
    using w i w2 d(1) assms(1) by (simp add: top_iteration_def failing_backend_def)
  moreover have "requests_made s6 = Suc (requests_made s)"
    using d(2) requests_on_world [OF w] requests_on_world [OF i] requests_on_world [OF w2] by simp
  ultimately show ?thesis by (auto simp: after_turn_def Let_def)
qed

text \<open>
  C16: a backend that keeps failing does not make the session spin. With enough fuel the loop
  returns, reporting the failure: after one request in a headless session, after eight in any other.
\<close>

theorem failing_backend_ends_session:
  assumes "failing_backend env" and "fuel \<ge> 9"
  shows "\<exists>m s1. top_level_loop fuel cx env s =
      Some (Inr \<lparr>se_message = Some m, se_llm_failure = Some m, se_script_mismatch = None\<rparr>, s1) \<and>
    requests_made s1 = requests_made s + (if en_frontend_kind env = ''headless'' then 1 else 8)"
proof -
  have loop: "\<exists>m s1. top_loop (Suc (Suc (n + j))) cx env ms k s =
      Some (Inr \<lparr>se_message = Some m, se_llm_failure = Some m, se_script_mismatch = None\<rparr>, s1) \<and>
    requests_made s1 = requests_made s + (if en_frontend_kind env = ''headless'' then 1 else j + 1)"
    if "Suc j = MAX_CONSECUTIVE_LLM_FAILURES - k" for j k n ms s
    using that
  proof (induction j arbitrary: k ms s)
    case 0
    then have "k < MAX_CONSECUTIVE_LLM_FAILURES" "Suc k \<ge> MAX_CONSECUTIVE_LLM_FAILURES" by auto
    with failing_iteration [OF assms(1), of k n cx ms s] show ?case by auto
  next
    case (Suc j)
    then have k: "k < MAX_CONSECUTIVE_LLM_FAILURES" "\<not> Suc k \<ge> MAX_CONSECUTIVE_LLM_FAILURES"
      "Suc j = MAX_CONSECUTIVE_LLM_FAILURES - Suc k" by auto
    from failing_iteration [OF assms(1) k(1), of "n + Suc j" cx ms s] k(2) Suc.IH [OF k(3)]
    show ?case by (fastforce split: if_splits)
  qed
  obtain n where n: "fuel = Suc (Suc (n + 7))"
    using le_Suc_ex [OF assms(2)] by auto
  show ?thesis
    unfolding top_level_loop_def n
    using loop [of 7 0 n "[]" s]
    by (cases "en_frontend_kind env = ''headless''") (simp_all add: MAX_CONSECUTIVE_LLM_FAILURES_def)
qed

end
