(* ===== verification/Silo_Mock.thy ===== *)
theory Silo_Mock
  imports Silo_Turn Silo_Replay
begin

text \<open>
  Sessions on the mock components: the scripted backend (\<open>silo-llm/src/mock.rs\<close>), the scripted
  sandbox (\<open>silo-sandbox/src/mock.rs\<close>) and the scripted frontend (\<open>silo-frontend/src/mock.rs\<close>).
  A contract states when a turn must return: every completion uses up a potential that no other
  operation raises except spawning a subagent, which a tool call pays for. The mock session is shown
  to satisfy it, so its turns return.
\<close>

section \<open>When a turn returns\<close>

locale bounded_session =
  fixes env :: "'w agent_env" and pot :: "'w \<Rightarrow> nat"
  assumes pot_complete: "en_complete env g req w = (Inr (Inr resp), w') \<Longrightarrow>
      pot w' + length (response_calls resp) < pot w"
    and pot_check: "en_check env w = (x1, w') \<Longrightarrow> pot w' \<le> pot w"
    and pot_sandbox_run: "en_sandbox_run env a c w = (x2, w') \<Longrightarrow> pot w' \<le> pot w"
    and pot_sandbox_select: "en_sandbox_select env g a c w = (x3, w') \<Longrightarrow> pot w' \<le> pot w"
    and pot_sandbox_interrupt: "en_sandbox_interrupt env w = (x4, w') \<Longrightarrow> pot w' \<le> pot w"
    and pot_sandbox_await: "en_sandbox_await env w = (x5, w') \<Longrightarrow> pot w' \<le> pot w"
    and pot_frontend_select: "en_frontend_select env g a c w = (x6, w') \<Longrightarrow> pot w' \<le> pot w"
    and pot_frontend_interrupt: "en_frontend_interrupt env w = (x7, w') \<Longrightarrow> pot w' \<le> pot w"
    and pot_frontend_await: "en_frontend_await env w = (x8, w') \<Longrightarrow> pot w' \<le> pot w"
    and pot_try_acquire: "en_try_acquire env w = (x9, w') \<Longrightarrow> pot w' \<le> pot w"
    and pot_release: "pot (en_release env w) \<le> pot w"
    and pot_fetch_number: "en_fetch_number env w = (x10, w') \<Longrightarrow> pot w' \<le> pot w"
    and pot_spawn: "pot (en_spawn env i p d g w) \<le> Suc (pot w)"
    and pot_done: "en_done_select env g w = (x11, w') \<Longrightarrow>
      pot w' \<le> pot w \<and> (\<forall>i. x11 = Inr (Some i) \<longrightarrow> pot w' < pot w)"
    and pot_join: "en_join_select env g i w = (x12, w') \<Longrightarrow> pot w' \<le> pot w"
begin

lemma on_world_pots:
  "on_world (en_check env) s = (y0, s1) \<Longrightarrow> pot (ag_world s1) \<le> pot (ag_world s)"
  "on_world (en_sandbox_run env a c) s = (y1, s1) \<Longrightarrow> pot (ag_world s1) \<le> pot (ag_world s)"
  "on_world (en_sandbox_select env g a c) s = (y2, s1) \<Longrightarrow> pot (ag_world s1) \<le> pot (ag_world s)"
  "on_world (en_sandbox_interrupt env) s = (y3, s1) \<Longrightarrow> pot (ag_world s1) \<le> pot (ag_world s)"
  "on_world (en_sandbox_await env) s = (y4, s1) \<Longrightarrow> pot (ag_world s1) \<le> pot (ag_world s)"
  "on_world (en_frontend_select env g a c) s = (y5, s1) \<Longrightarrow> pot (ag_world s1) \<le> pot (ag_world s)"
  "on_world (en_frontend_interrupt env) s = (y6, s1) \<Longrightarrow> pot (ag_world s1) \<le> pot (ag_world s)"
  "on_world (en_frontend_await env) s = (y7, s1) \<Longrightarrow> pot (ag_world s1) \<le> pot (ag_world s)"
  "on_world (en_try_acquire env) s = (y8, s1) \<Longrightarrow> pot (ag_world s1) \<le> pot (ag_world s)"
  "on_world (en_fetch_number env) s = (y9, s1) \<Longrightarrow> pot (ag_world s1) \<le> pot (ag_world s)"
  "on_world (en_join_select env g i) s = (y10, s1) \<Longrightarrow> pot (ag_world s1) \<le> pot (ag_world s)"
  using pot_check pot_sandbox_run pot_sandbox_select pot_sandbox_interrupt pot_sandbox_await
    pot_frontend_select pot_frontend_interrupt pot_frontend_await pot_try_acquire pot_fetch_number
    pot_join
  by (auto simp: on_world_def split: prod.splits)

lemma sandbox_pot:
  "run_sandbox_tool env agent call gen s = (r, s1) \<Longrightarrow> pot (ag_world s1) \<le> pot (ag_world s)"
  by (auto simp: run_sandbox_tool_def Let_def
      split: prod.splits sum.splits sandbox_error.splits abort_reason.splits option.splits
      dest!: on_world_pots)

lemma send_user_file_pot:
  "send_user_file env agent call path s = (r, s1) \<Longrightarrow> pot (ag_world s1) \<le> pot (ag_world s)"
  by (auto simp: send_user_file_def Let_def
      split: prod.splits sum.splits sandbox_error.splits if_splits dest!: on_world_pots)

lemma call_frontend_pot:
  "call_frontend env agent call fw gen s = (r, s1) \<Longrightarrow> pot (ag_world s1) \<le> pot (ag_world s)"
  by (auto simp: call_frontend_def Let_def
      split: prod.splits sum.splits abort_reason.splits option.splits if_splits dest!: on_world_pots)

lemma frontend_pot:
  "run_frontend_tool env agent call gen s = (r, s1) \<Longrightarrow> pot (ag_world s1) \<le> pot (ag_world s)"
  by (auto simp: run_frontend_tool_def split: prod.splits sum.splits option.splits
      dest!: call_frontend_pot send_user_file_pot)

lemma agent_pot:
  "run_agent_tool env agent call depth s = (d, s1) \<Longrightarrow> pot (ag_world s1) \<le> Suc (pot (ag_world s))"
proof -
  have sp: "pot (en_spawn env i p d g w) \<le> Suc n" if "pot w \<le> n" for i p d g w n
    using pot_spawn [of i p d g w] that by simp
  assume "run_agent_tool env agent call depth s = (d, s1)"
  then show ?thesis
    by (auto simp: run_agent_tool_def Let_def split: prod.splits option.splits if_splits bool.splits
        dest!: on_world_pots intro!: sp)
qed

lemma collect_pot:
  "collect_child env child gen s = (d, s1) \<Longrightarrow> pot (ag_world s1) \<le> pot (ag_world s)"
proof -
  have rel: "pot (en_release env w) \<le> n" if "pot w \<le> n" for w n
    using pot_release [of w] that by simp
  assume "collect_child env child gen s = (d, s1)"
  then show ?thesis
    by (auto simp: collect_child_def Let_def split: prod.splits sum.splits option.splits if_splits
        dest!: on_world_pots intro!: rel)
qed

lemma await_any_returns:
  "pot (ag_world s) < n \<Longrightarrow>
     \<exists>r s1. await_any_child n env gen s = Some (r, s1) \<and> pot (ag_world s1) \<le> pot (ag_world s)"
proof (induction n arbitrary: s)
  case (Suc n)
  obtain x s2 where w: "on_world (en_done_select env gen) s = (x, s2)" by fastforce
  then have p: "pot (ag_world s2) \<le> pot (ag_world s)"
    "\<And>i. x = Inr (Some i) \<Longrightarrow> pot (ag_world s2) < pot (ag_world s)"
    using pot_done by (auto simp: on_world_def split: prod.splits)
  show ?case
  proof (cases "\<exists>i. take_finished_child env s = None \<and> x = Inr (Some i) \<and> \<not> outstanding i s2")
    case True
    then obtain i where i: "take_finished_child env s = None" "x = Inr (Some i)" "\<not> outstanding i s2" by blast
    with p(2) Suc.prems have "pot (ag_world s2) < n" by fastforce
    from Suc.IH [OF this] i w p(1) show ?thesis by auto
  next
    case False
    with w p(1) show ?thesis
      by (auto split: option.splits sum.splits abort_reason.splits)
  qed
qed simp

lemma await_returns:
  assumes "pot (ag_world s) < n"
  shows "\<exists>d s1. run_await_agent_tool n env call gen s = Some (d, s1) \<and> pot (ag_world s1) \<le> pot (ag_world s)"
proof -
  obtain r s1 where a: "await_any_child n env gen s = Some (r, s1)" "pot (ag_world s1) \<le> pot (ag_world s)"
    using await_any_returns [OF assms] by blast
  have c: "\<exists>d t. collect_child env i gen u = (d, t) \<and> pot (ag_world t) \<le> pot (ag_world u)" for i u
    using collect_pot by (metis prod.collapse)
  show ?thesis
    using a c [of _ s] c [of _ s1]
    by (cases r) (fastforce simp: run_await_agent_tool_def split: option.splits)+
qed

lemma execute_returns:
  assumes "pot (ag_world s) < n"
  shows "\<exists>r s1. execute_tool n cx env agent call depth gen s = Some (r, s1) \<and>
    pot (ag_world s1) \<le> Suc (pot (ag_world s))"
proof -
  have "\<exists>r s1. f s = (r, s1) \<and> pot (ag_world s1) \<le> Suc (pot (ag_world s))"
    if "\<And>r s1. f s = (r, s1) \<Longrightarrow> pot (ag_world s1) \<le> pot (ag_world s)" for f :: "'w agent_state \<Rightarrow> 'b \<times> 'w agent_state"
    using that by (metis le_SucI prod.collapse)
  note tools = this [of "run_sandbox_tool env agent call gen", OF sandbox_pot]
    this [of "run_frontend_tool env agent call gen", OF frontend_pot]
  obtain d s1 where "run_agent_tool env agent call depth s = (d, s1)" by fastforce
  with agent_pot await_returns [OF assms, of call gen] tools show ?thesis
    by (fastforce simp: execute_tool_def split: option.splits tool_owner.splits)
qed

lemma run_calls_returns:
  "pot (ag_world s) + length calls \<le> n \<Longrightarrow>
     \<exists>ce bs s1. run_calls n cx env agent depth gen calls blocks s = Some (ce, bs, s1) \<and>
       pot (ag_world s1) \<le> pot (ag_world s) + length calls"
proof (induction calls arbitrary: blocks s)
  case (Cons call calls)
  obtain x s2 where w: "on_world (en_check env) s = (x, s2)" by fastforce
  then have p2: "pot (ag_world s2) \<le> pot (ag_world s)" by (rule on_world_pots)
  let ?s3 = "say [AA_Emit (EP_ToolUse agent call)] s2"
  have "pot (ag_world ?s3) < n" using p2 Cons.prems by simp
  then obtain r s4 where q: "execute_tool n cx env agent call depth gen ?s3 = Some (r, s4)"
    and p4: "pot (ag_world s4) \<le> Suc (pot (ag_world s))"
    using execute_returns p2 by (metis Suc_le_mono dual_order.trans world_say(1))
  show ?case
  proof (cases "x = None \<and> \<not> en_interrupts env (ag_world s2) > gen \<and> (\<exists>owner out. r = Inr (TD_Output owner out))")
    case True
    then obtain owner out where t: "x = None" "\<not> en_interrupts env (ag_world s2) > gen"
      "r = Inr (TD_Output owner out)" by blast
    let ?s5 = "say [AA_Journal (JE_ToolExec agent owner call out),
                    AA_Emit (EP_ToolResult agent (tc_id call) (tc_name call) out)] s4"
    have "pot (ag_world ?s5) + length calls \<le> n" using p4 Cons.prems by simp
    from Cons.IH [OF this, of "blocks @ [result_block call out]"] w t q p4
    show ?thesis by fastforce
  next
    case False
    with w q p2 p4 show ?thesis
      by (auto split: option.splits sum.splits tool_disposition.splits if_splits)
  qed
qed simp

lemma after_response_returns:
  assumes "pot (ag_world s) + length (response_calls resp) \<le> n"
  shows "\<exists>ts ms1 s1. after_response n cx env agent kind depth gen resp ms s = Some (ts, ms1, s1) \<and>
    pot (ag_world s1) \<le> pot (ag_world s) + length (response_calls resp)"
proof -
  obtain ce bs s1 where rc: "run_calls n cx env agent depth gen (response_calls resp) [] s = Some (ce, bs, s1)"
    "pot (ag_world s1) \<le> pot (ag_world s) + length (response_calls resp)"
    using run_calls_returns [OF assms] by blast
  have e: "ag_world (snd (end_of_turn agent kind resp u)) = ag_world u" for u
    by (simp add: end_of_turn_def Let_def)
  show ?thesis
    using rc e [of s] e [of s1]
    by (cases ce) (auto simp: after_response_def Let_def split: prod.splits)
qed

lemma loop_step_returns:
  assumes "pot (ag_world s) \<le> n"
  shows "\<exists>ts ms1 s1. loop_step n cx env agent kind depth gen ms s = Some (ts, ms1, s1) \<and>
    (ts = Again \<longrightarrow> pot (ag_world s1) < pot (ag_world s))"
proof -
  obtain x s2 where w: "on_world (en_check env) s = (x, s2)" by fastforce
  then have p2: "pot (ag_world s2) \<le> pot (ag_world s)" by (rule on_world_pots)
  let ?req = "turn_request cx kind ms"
  let ?s3 = "say [AA_Journal (JE_LlmRequest agent (en_backend_id env) ?req)] s2"
  obtain c s4 where c: "on_world (en_complete env gen ?req) ?s3 = (c, s4)" by fastforce
  show ?thesis
  proof (cases "x = None \<and> \<not> en_interrupts env (ag_world s2) > gen \<and> (\<exists>resp. c = Inr (Inr resp))")
    case True
    then obtain resp where t: "x = None" "\<not> en_interrupts env (ag_world s2) > gen" "c = Inr (Inr resp)"
      by blast
    have p4: "pot (ag_world s4) + length (response_calls resp) < pot (ag_world s2)"
      using c t(3) pot_complete by (auto simp: on_world_def split: prod.splits)
    let ?s5 = "say (response_log env agent resp (ag_world s4)) s4"
    have "pot (ag_world ?s5) + length (response_calls resp) \<le> n" using p4 p2 assms by simp
    from after_response_returns [OF this] w t c p4 p2 show ?thesis
      by (fastforce simp: loop_step_def Let_def)
  next
    case False
    with w c show ?thesis
      by (auto simp: loop_step_def Let_def
          split: option.splits sum.splits abort_reason.splits llm_error.splits)
  qed
qed

lemma drive_inner_returns:
  "pot (ag_world s) < n \<Longrightarrow> \<exists>r. drive_inner n cx env agent kind depth gen ms s = Some r"
proof (induction n arbitrary: ms s)
  case (Suc n)
  then have "pot (ag_world s) \<le> n" by simp
  then obtain ts ms1 s1 where st: "loop_step n cx env agent kind depth gen ms s = Some (ts, ms1, s1)"
    and p: "ts = Again \<longrightarrow> pot (ag_world s1) < pot (ag_world s)"
    using loop_step_returns by blast
  show ?case
  proof (cases ts)
    case Again
    with p Suc.prems have "pot (ag_world s1) < n" by simp
    from Suc.IH [OF this] st Again show ?thesis by auto
  next
    case (Done r)
    with st show ?thesis by simp
  qed
qed simp

lemma drive_returns:
  "pot (ag_world s) < n \<Longrightarrow> \<exists>r ms1 s1. drive n cx env agent kind depth gen ms s = Some (r, ms1, s1)"
  using drive_inner_returns [of s n cx agent kind depth gen ms] by (auto simp: drive_def)

end

section \<open>The scripted backend and sandbox\<close>

fun mirror_block :: "content_block \<Rightarrow> content_block" where
  "mirror_block (CB_ToolResult _ content _) = CB_Text content"
| "mirror_block b = b"

definition matchable :: "completion_request \<Rightarrow> completion_request" where
  "matchable req =
     req\<lparr>req_messages :=
       map (\<lambda>m. m\<lparr>msg_content := map mirror_block (msg_content m)\<rparr>) (req_messages req)\<rparr>"

record mock_backend =
  mb_script :: script_state
  mb_meter :: usage_meter

definition mock_backend_new :: "pricing \<Rightarrow> quota_config \<Rightarrow> script_state \<Rightarrow> mock_backend" where
  "mock_backend_new p q st = \<lparr>mb_script = st, mb_meter = usage_meter_new p q\<rparr>"

definition mock_complete ::
  "f64_ops \<Rightarrow> completion_request \<Rightarrow> mock_backend \<Rightarrow> (llm_error + completion_response) \<times> mock_backend" where
  "mock_complete fo req mb =
     (case check_quota fo (mb_meter mb) of
        Inl e \<Rightarrow> (Inl e, mb)
      | Inr _ \<Rightarrow>
          (case next_llm (matchable req) (mb_script mb) of
             (Inl e, st) \<Rightarrow> (Inl e, mb\<lparr>mb_script := st\<rparr>)
           | (Inr resp, st) \<Rightarrow>
               (Inr resp, mb\<lparr>mb_script := st, mb_meter := record_usage (resp_usage resp) (mb_meter mb)\<rparr>)))"

text \<open>
  The potential of a script: every turn left counts one and one more for each of its tool uses. The
  order in which turns are consumed does not matter.
\<close>

definition script_pot :: "script_state \<Rightarrow> nat" where
  "script_pot st = (\<Sum>e\<leftarrow>llm_entries st.
     if snd e then 0 else Suc (length (response_calls (lt_response (fst e)))))"

lemma sum_list_consume:
  assumes "i < length xs" "i < length bs" "\<not> bs ! i"
  shows "(\<Sum>e\<leftarrow>zip xs (bs[i := True]). if snd e then 0 else f (fst e)) + f (xs ! i) =
         (\<Sum>e\<leftarrow>zip xs bs. if snd e then 0 else (f (fst e) :: nat))"
  using assms
proof (induction xs arbitrary: i bs)
  case (Cons x xs)
  then obtain b cs where bs: "bs = b # cs" by (cases bs) auto
  with Cons show ?case by (cases i) auto
qed simp

lemma llm_chosen_entry:
  assumes "llm_chosen t st = Some i"
  shows "i < length (ts_llm (ss_script st)) \<and> i < length (ss_llm_consumed st) \<and> \<not> ss_llm_consumed st ! i"
proof -
  have "\<exists>P. position P (llm_entries st) = Some i \<and> (\<forall>e. P e \<longrightarrow> \<not> snd e)"
    using assms unfolding llm_chosen_def llm_matches_def
    by (fastforce split: option.splits if_splits)
  then show ?thesis by (fastforce simp: position_Some_iff llm_entries_def)
qed

lemma next_llm_pot:
  assumes "next_llm req st = (Inr resp, st')"
  shows "script_pot st' + length (response_calls resp) < script_pot st"
proof -
  obtain i where i: "llm_chosen (last_user_text req) st = Some i"
    "resp = lt_response (ts_llm (ss_script st) ! i)" "st' = st\<lparr>ss_llm_consumed := (ss_llm_consumed st)[i := True]\<rparr>"
    using assms by (auto simp: next_llm_def Let_def split: if_splits option.splits)
  from llm_chosen_entry [OF i(1)] i(2,3)
    sum_list_consume [of i "ts_llm (ss_script st)" "ss_llm_consumed st"
      "\<lambda>t. Suc (length (response_calls (lt_response t)))"]
  show ?thesis by (simp add: script_pot_def llm_entries_def)
qed

section \<open>A session on the mock backend\<close>

text \<open>
  The components that are not under test (sandbox and frontend) are functions on a world of their
  own. A subagent spawned here is done at once, with the report \<open>mw_reports\<close> gives for it, and
  signals that it is done.
\<close>

record 'f mock_world =
  mw_backend :: mock_backend
  mw_signal :: shutdown_signal
  mw_slots :: nat
  mw_counter :: u64
  mw_done :: "agent_id list"
  mw_rest :: 'f

record 'f mock_parts =
  mp_fo :: f64_ops
  mp_reports :: "agent_id \<Rightarrow> child_result"
  mp_sandbox :: "agent_id \<Rightarrow> tool_call \<Rightarrow> 'f \<Rightarrow> (sandbox_error + tool_output) \<times> 'f"
  mp_frontend :: "agent_id \<Rightarrow> tool_call \<Rightarrow> 'f \<Rightarrow> (frontend_error + tool_output) \<times> 'f"
  mp_input :: "'f \<Rightarrow> (frontend_error + string) \<times> 'f"
  mp_kind :: string
  mp_b64 :: "string \<Rightarrow> string"

definition on_rest :: "('f \<Rightarrow> 'r \<times> 'f) \<Rightarrow> 'f mock_world \<Rightarrow> 'r \<times> 'f mock_world" where
  "on_rest f w = (let (r, x) = f (mw_rest w) in (r, w\<lparr>mw_rest := x\<rparr>))"

definition on_signal :: "(shutdown_signal \<Rightarrow> 'r \<times> shutdown_signal) \<Rightarrow> 'f mock_world \<Rightarrow> 'r \<times> 'f mock_world" where
  "on_signal f w = (let (r, x) = f (mw_signal w) in (r, w\<lparr>mw_signal := x\<rparr>))"

text \<open>A select with the abort branch first: nothing arrives while it waits.\<close>

definition abort_or :: "u64 \<Rightarrow> ('f mock_world \<Rightarrow> 'r \<times> 'f mock_world) \<Rightarrow> 'f mock_world
    \<Rightarrow> (abort_reason + 'r) \<times> 'f mock_world" where
  "abort_or g f w =
     (case on_signal (wait_abort g []) w of
        (Some r, w1) \<Rightarrow> (Inl r, w1)
      | (None, w1) \<Rightarrow> (let (x, w2) = f w1 in (Inr x, w2)))"

definition mock_env :: "'f mock_parts \<Rightarrow> 'f mock_world agent_env" where
  "mock_env mp =
     \<lparr>en_check = on_signal check,
      en_interrupts = (\<lambda>w. interrupt_generation (mw_signal w)),
      en_backend_id = ''mock'',
      en_complete = (\<lambda>g req. abort_or g (\<lambda>w.
        let (r, b) = mock_complete (mp_fo mp) req (mw_backend w) in (r, w\<lparr>mw_backend := b\<rparr>))),
      en_usage = (\<lambda>w. snapshot (mp_fo mp) (mb_meter (mw_backend w))),
      en_quota = (\<lambda>w. um_quota (mb_meter (mw_backend w))),
      en_sandbox_run = (\<lambda>a c. on_rest (mp_sandbox mp a c)),
      en_sandbox_select = (\<lambda>g a c w. let (r, w1) = on_rest (mp_sandbox mp a c) w in (Inr r, w1)),
      en_sandbox_interrupt = Pair None,
      en_sandbox_await = Pair (Inl (Sb_Helper ''interrupted'')),
      en_frontend_kind = mp_kind mp,
      en_frontend_select = (\<lambda>g a c w. let (r, w1) = on_rest (mp_frontend mp a c) w in (Inr r, w1)),
      en_frontend_interrupt = Pair None,
      en_frontend_await = Pair (Inl (Fe_Closed ''interrupted'')),
      en_next_input = (\<lambda>w. case on_signal (wait []) w of
         (Some m, w1) \<Rightarrow> (Inl m, w1)
       | (None, w1) \<Rightarrow> (let (r, w2) = on_rest (mp_input mp) w1 in (Inr r, w2))),
      en_b64 = mp_b64 mp,
      en_try_acquire = (\<lambda>w. if mw_slots w = 0 then (False, w) else (True, w\<lparr>mw_slots := mw_slots w - 1\<rparr>)),
      en_release = (\<lambda>w. w\<lparr>mw_slots := Suc (mw_slots w)\<rparr>),
      en_fetch_number = (\<lambda>w. (mw_counter w, w\<lparr>mw_counter := mw_counter w + 1\<rparr>)),
      en_spawn = (\<lambda>i p d g w. w\<lparr>mw_done := mw_done w @ [i]\<rparr>),
      en_finished = (\<lambda>w i. False),
      en_done_select = (\<lambda>g. abort_or g (\<lambda>w.
        case mw_done w of [] \<Rightarrow> (None, w) | i # is \<Rightarrow> (Some i, w\<lparr>mw_done := is\<rparr>))),
      en_join_select = (\<lambda>g i. abort_or g (Pair (Inr (mp_reports mp i)))),
      en_cancel = (\<lambda>i. Pair True)\<rparr>"

definition world_pot :: "'f mock_world \<Rightarrow> nat" where
  "world_pot w = script_pot (mb_script (mw_backend w)) + length (mw_done w)"

lemma on_rest_pot: "on_rest f w = (r, w') \<Longrightarrow> world_pot w' = world_pot w"
  by (auto simp: on_rest_def world_pot_def split: prod.splits)

lemma on_signal_pot: "on_signal f w = (r, w') \<Longrightarrow> world_pot w' = world_pot w"
  by (auto simp: on_signal_def world_pot_def split: prod.splits)

lemma world_pot_other:
  "world_pot (w\<lparr>mw_slots := n\<rparr>) = world_pot w" "world_pot (w\<lparr>mw_counter := c\<rparr>) = world_pot w"
  "world_pot (w\<lparr>mw_done := mw_done w @ [i]\<rparr>) = Suc (world_pot w)"
  by (simp_all add: world_pot_def)

lemma abort_or_cases:
  assumes "abort_or g f w = (x, w')"
  obtains (abort) r where "x = Inl r" "world_pot w' = world_pot w"
  | (ran) y w1 where "x = Inr y" "world_pot w1 = world_pot w" "f w1 = (y, w')"
  using assms on_signal_pot
  by (fastforce simp: abort_or_def split: prod.splits option.splits)

lemma mock_complete_pot:
  assumes "mock_complete fo req mb = (r, mb')"
  shows "script_pot (mb_script mb') \<le> script_pot (mb_script mb) \<and>
    (\<forall>resp. r = Inr resp \<longrightarrow>
       script_pot (mb_script mb') + length (response_calls resp) < script_pot (mb_script mb))"
proof -
  have bad: "next_llm q st = (Inl e, st') \<Longrightarrow> st' = st" for q st e st'
    by (auto simp: next_llm_def Let_def split: if_splits option.splits)
  show ?thesis
    using assms next_llm_pot
    by (fastforce simp: mock_complete_def split: sum.splits prod.splits dest!: bad)
qed

interpretation mock: bounded_session "mock_env mp" world_pot for mp :: "'f mock_parts"
proof (unfold_locales, goal_cases)
  case (1 g req w resp w')
  then show ?case
    by (auto simp: mock_env_def world_pot_def elim!: abort_or_cases split: prod.splits dest!: mock_complete_pot)
next
  case (14 g w x w')
  then show ?case
    by (auto simp: mock_env_def world_pot_def elim!: abort_or_cases split: list.splits)
next
  case (15 g i w x w')
  then show ?case by (auto simp: mock_env_def elim!: abort_or_cases)
qed (auto simp: mock_env_def split: prod.splits if_splits dest: on_rest_pot on_signal_pot
    intro: eq_refl world_pot_other)


section \<open>A small session\<close>

text \<open>A script with one tool call and a final answer, over a sandbox that answers every call.\<close>

definition demo_tool :: tool_def where
  "demo_tool = \<lparr>def_name = ''Read'', def_description = [], def_input_schema = JNull, def_availability = Both\<rparr>"

definition demo_ctx :: session_ctx where
  "demo_ctx = \<lparr>cx_registry = registry_add demo_tool Owner_Sandbox [], cx_system = [], cx_max_tokens = 100\<rparr>"

definition demo_turn :: "content_block list \<Rightarrow> stop_reason \<Rightarrow> scripted_llm_turn" where
  "demo_turn content sr = \<lparr>lt_expect_user_contains = None,
     lt_response = \<lparr>resp_content = content, resp_stop_reason = sr,
       resp_usage = \<lparr>td_input_tokens = 1, td_output_tokens = 1\<rparr>\<rparr>\<rparr>"

definition demo_script :: test_script where
  "demo_script = \<lparr>ts_name = ''demo'',
     ts_llm = [demo_turn [CB_ToolUse ''t1'' ''Read'' JNull] SR_ToolUse, demo_turn [CB_Text ''done''] SR_EndTurn],
     ts_tools = [], ts_frontend = [], ts_network = []\<rparr>"

definition demo_fo :: f64_ops where
  "demo_fo = \<lparr>f64_of_u64 = (\<lambda>n. n), f64_mul = (\<lambda>a b. 0), f64_div = (\<lambda>a b. 0), f64_add = (\<lambda>a b. 0),
     f64_ge = (\<lambda>a b. False), f64_show = (\<lambda>_ _. []), f64_million = 0\<rparr>"

definition demo_parts :: "unit mock_parts" where
  "demo_parts = \<lparr>mp_fo = demo_fo,
     mp_reports = (\<lambda>_. \<lparr>ch_output = [], ch_is_error = False, ch_shutdown = False, ch_script_failure = None\<rparr>),
     mp_sandbox = (\<lambda>_ _. Pair (Inr (output_ok ''data''))), mp_frontend = (\<lambda>_ _. Pair (Inl (Fe_Closed []))),
     mp_input = Pair (Inr ''hello''), mp_kind = ''mock'', mp_b64 = (\<lambda>x. x)\<rparr>"

definition demo_state :: "unit mock_world agent_state" where
  "demo_state =
     \<lparr>ag_world = \<lparr>mw_backend = mock_backend_new \<lparr>usd_per_million_input_tokens = 0, usd_per_million_output_tokens = 0\<rparr>
         \<lparr>max_total_tokens = None, max_usd = None\<rparr> (shared_new demo_script),
        mw_signal = signal_new [] \<lparr>jn_clock = FakeClock 0, jn_records = [], jn_next_seq = 0\<rparr>,
        mw_slots = 8, mw_counter = 1, mw_done = [], mw_rest = ()\<rparr>,
      ag_log = [], ag_children = []\<rparr>"

lemma demo_pot: "script_pot (mb_script (mw_backend (ag_world demo_state))) + length (mw_done (ag_world demo_state)) = 3"
  by code_simp


text \<open>The first turn of the session, run to its end.\<close>

lemma demo_run:
  "map_option (\<lambda>(ts, s1). (ts, requests_made s1)) (top_iteration 4 demo_ctx (mock_env demo_parts) [] 0 demo_state) =
     Some (Next [user_text ''hello'', assistant [CB_ToolUse ''t1'' ''Read'' JNull],
                 user_blocks [CB_ToolResult ''t1'' ''data'' False], assistant [CB_Text ''done'']] 0, 2)"
  by code_simp

theorem requests_wellformed_witness:
  "\<exists>ts s1. top_iteration 4 demo_ctx (mock_env demo_parts) [] 0 demo_state = Some (ts, s1) \<and>
     requests_made s1 = 2 \<and>
     (\<forall>a\<in>set (ag_log s1). \<forall>i b r. a = AA_Journal (JE_LlmRequest i b r) \<longrightarrow> ready (req_messages r))"
proof -
  obtain ts s1 where it: "top_iteration 4 demo_ctx (mock_env demo_parts) [] 0 demo_state = Some (ts, s1)"
    "requests_made s1 = 2"
    using demo_run by auto
  have "ag_log demo_state = []" by (simp add: demo_state_def)
  from requests_wellformed [OF reach_refl this it(1)] it show ?thesis by blast
qed

lemma demo_calls:
  "map_option (\<lambda>(ce, bs, s1). (ce, bs)) (run_calls 4 demo_ctx (mock_env demo_parts) top_level_agent_id 0 0
      [\<lparr>tc_id = ''t1'', tc_name = ''Read'', tc_input = JNull\<rparr>] [] demo_state) =
    Some (CE_Done, [CB_ToolResult ''t1'' ''data'' False])"
  by code_simp

theorem tool_results_match_events_witness:
  "\<exists>s1 new. run_calls 4 demo_ctx (mock_env demo_parts) top_level_agent_id 0 0
      [\<lparr>tc_id = ''t1'', tc_name = ''Read'', tc_input = JNull\<rparr>] [] demo_state
      = Some (CE_Done, [CB_ToolResult ''t1'' ''data'' False], s1) \<and>
    ag_log s1 = ag_log demo_state @ new \<and> length (List.map_filter reported new) = 1"
proof -
  let ?calls = "[\<lparr>tc_id = ''t1'', tc_name = ''Read'', tc_input = JNull\<rparr>]"
  obtain s1 where r: "run_calls 4 demo_ctx (mock_env demo_parts) top_level_agent_id 0 0 ?calls [] demo_state
      = Some (CE_Done, [CB_ToolResult ''t1'' ''data'' False], s1)"
    using demo_calls by auto
  from tool_results_match_events [OF r] obtain outs new where
    o: "ag_log s1 = ag_log demo_state @ new" "List.map_filter reported new = map2 call_report ?calls outs"
    "length outs = length ?calls" by blast
  then have "length (List.map_filter reported new) = 1" by simp
  with r o(1) show ?thesis by blast
qed

text \<open>A backend whose every completion fails.\<close>

definition broken_env :: "string \<Rightarrow> unit agent_env" where
  "broken_env kind =
     \<lparr>en_check = Pair None, en_interrupts = (\<lambda>_. 0), en_backend_id = [],
      en_complete = (\<lambda>_ _. Pair (Inr (Inl (Llm_Api ''down'')))),
      en_usage = (\<lambda>_. \<lparr>us_input_tokens = 0, us_output_tokens = 0, us_usd = 0\<rparr>),
      en_quota = (\<lambda>_. \<lparr>max_total_tokens = None, max_usd = None\<rparr>),
      en_sandbox_run = (\<lambda>_ _. Pair (Inl (Sb_Helper []))),
      en_sandbox_select = (\<lambda>_ _ _. Pair (Inr (Inl (Sb_Helper [])))),
      en_sandbox_interrupt = Pair None, en_sandbox_await = Pair (Inl (Sb_Helper [])),
      en_frontend_kind = kind, en_frontend_select = (\<lambda>_ _ _. Pair (Inr (Inl (Fe_Closed [])))),
      en_frontend_interrupt = Pair None, en_frontend_await = Pair (Inl (Fe_Closed [])),
      en_next_input = Pair (Inr (Inr ''again'')), en_b64 = (\<lambda>x. x), en_try_acquire = Pair False,
      en_release = (\<lambda>w. w), en_fetch_number = Pair 0, en_spawn = (\<lambda>_ _ _ _ w. w),
      en_finished = (\<lambda>_ _. False), en_done_select = (\<lambda>_. Pair (Inr None)),
      en_join_select = (\<lambda>_ _. Pair (Inr (Inl []))), en_cancel = (\<lambda>_. Pair True)\<rparr>"

theorem failing_backend_ends_session_witness:
  "\<exists>m s1. top_level_loop 9 demo_ctx (broken_env ''interactive'') \<lparr>ag_world = (), ag_log = [], ag_children = []\<rparr> =
      Some (Inr \<lparr>se_message = Some m, se_llm_failure = Some m, se_script_mismatch = None\<rparr>, s1) \<and>
    requests_made s1 = 8"
proof -
  have "failing_backend (broken_env ''interactive'')" "en_frontend_kind (broken_env ''interactive'') = ''interactive''"
    by (simp_all add: failing_backend_def broken_env_def)
  then show ?thesis
    using failing_backend_ends_session [of "broken_env ''interactive''" 9 demo_ctx
        "\<lparr>ag_world = (), ag_log = [], ag_children = []\<rparr>"]
    by (simp add: requests_made_def)
qed

end
