(* ===== verification/Silo_Pool.thy ===== *)
theory Silo_Pool
  imports Silo_Agent
begin

text \<open>
  The subagents of a session as concurrent tasks (\<open>silo-harness/src/agent.rs\<close>: \<open>run_agent_tool\<close>,
  \<open>run_await_agent_tool\<close>, \<open>drive\<close>, \<open>cancel_uncollected_children\<close>). A task is its number; the
  top-level agent is number 0. What one task does between two points where another can intervene is
  one action. The cancellation at the end of a turn is the list of what is left to do of it: take
  the pool of an agent out of the registry, abort a child, join it. A task that was aborted may
  still run to its next await point, and is dropped there together with all it holds: the handle an
  \<open>AwaitAgent\<close> call took out of the pool while it waits, its list of things to do, and the handles
  and permits in it.
\<close>

section \<open>Tasks\<close>

datatype cancel_item = CTake nat | CAbort nat | CJoin nat

datatype phase = Working | Closing | Ended

record task =
  t_parent :: nat
  t_depth :: nat
  t_phase :: phase
  t_aborted :: bool
  t_pool :: "nat list"
  t_wait :: "nat option"
  t_cont :: "cancel_item list"
  t_emitted :: bool

record pool_sys =
  pl_slots :: nat
  pl_tasks :: "task list"
  pl_completed :: "nat list"

definition task_new :: "nat \<Rightarrow> nat \<Rightarrow> task" where
  "task_new parent depth =
     \<lparr>t_parent = parent, t_depth = depth, t_phase = Working, t_aborted = False, t_pool = [],
      t_wait = None, t_cont = [], t_emitted = False\<rparr>"

definition pool_start :: pool_sys where
  "pool_start = \<lparr>pl_slots = MAX_CONCURRENT_SUBAGENTS, pl_tasks = [task_new 0 0], pl_completed = []\<rparr>"

definition update_task :: "nat \<Rightarrow> (task \<Rightarrow> task) \<Rightarrow> pool_sys \<Rightarrow> pool_sys" where
  "update_task i f s = s\<lparr>pl_tasks := (pl_tasks s)[i := f (pl_tasks s ! i)]\<rparr>"

text \<open>Whoever sets the flag of a child first reports its completion.\<close>

definition report :: "nat \<Rightarrow> pool_sys \<Rightarrow> pool_sys" where
  "report i s =
     (if t_emitted (pl_tasks s ! i) then s
      else (update_task i (\<lambda>t. t\<lparr>t_emitted := True\<rparr>) s)\<lparr>pl_completed := pl_completed s @ [i]\<rparr>)"

fun join_ids :: "cancel_item list \<Rightarrow> nat list" where
  "join_ids [] = []"
| "join_ids (CJoin c # is) = c # join_ids is"
| "join_ids (_ # is) = join_ids is"

definition cancel_items :: "nat list \<Rightarrow> cancel_item list" where
  "cancel_items cs = concat (map (\<lambda>c. [CAbort c, CTake c, CJoin c]) cs)"

section \<open>Actions\<close>

datatype pool_action =
    PA_Spawn nat
  | PA_Await nat nat
  | PA_Collect nat
  | PA_Repark nat
  | PA_Close nat
  | PA_Cancel nat
  | PA_Finish nat
  | PA_Drop nat

text \<open>The next thing to do of the cancellation that task \<open>t\<close> runs.\<close>

fun cancel_one :: "nat \<Rightarrow> cancel_item \<Rightarrow> cancel_item list \<Rightarrow> pool_sys \<Rightarrow> pool_sys option" where
  "cancel_one t (CTake a) rest s =
     Some (update_task t (\<lambda>x. x\<lparr>t_cont := cancel_items (t_pool (pl_tasks s ! a)) @ rest\<rparr>)
            (update_task a (\<lambda>x. x\<lparr>t_pool := []\<rparr>) s))"
| "cancel_one t (CAbort c) rest s =
     Some (update_task t (\<lambda>x. x\<lparr>t_cont := rest\<rparr>) (update_task c (\<lambda>x. x\<lparr>t_aborted := True\<rparr>) s))"
| "cancel_one t (CJoin c) rest s =
     (if t_phase (pl_tasks s ! c) = Ended
      then Some ((report c (update_task t (\<lambda>x. x\<lparr>t_cont := rest\<rparr>) s))\<lparr>pl_slots := Suc (pl_slots s)\<rparr>)
      else None)"

definition at_await :: "task \<Rightarrow> bool" where
  "at_await x = (t_phase x = Working \<or>
     t_phase x = Closing \<and> (case t_cont x of CJoin _ # _ \<Rightarrow> True | _ \<Rightarrow> False))"

definition waiting :: "task \<Rightarrow> nat" where
  "waiting x = (if t_wait x = None then 0 else 1)"

text \<open>
  \<open>PA_Await\<close> is the start of an \<open>AwaitAgent\<close> call, which takes the handle out of the pool and waits;
  the call ends when it joins the child or, interrupted, parks the handle again.
\<close>

fun pool_exec :: "pool_action \<Rightarrow> pool_sys \<Rightarrow> pool_sys option" where
  "pool_exec (PA_Spawn p) s =
     (if p < length (pl_tasks s) \<and> t_phase (pl_tasks s ! p) = Working \<and>
         t_wait (pl_tasks s ! p) = None \<and> t_depth (pl_tasks s ! p) < unat MAX_SUBAGENT_DEPTH \<and> pl_slots s > 0
      then let c = length (pl_tasks s); s1 = update_task p (\<lambda>x. x\<lparr>t_pool := t_pool x @ [c]\<rparr>) s in
           Some (s1\<lparr>pl_slots := pl_slots s - 1,
                    pl_tasks := pl_tasks s1 @ [task_new p (Suc (t_depth (pl_tasks s ! p)))]\<rparr>)
      else None)"
| "pool_exec (PA_Await p c) s =
     (if p < length (pl_tasks s) \<and> t_phase (pl_tasks s ! p) = Working \<and> t_wait (pl_tasks s ! p) = None \<and>
         c \<in> set (t_pool (pl_tasks s ! p))
      then Some (update_task p (\<lambda>x. x\<lparr>t_pool := remove1 c (t_pool x), t_wait := Some c\<rparr>) s)
      else None)"
| "pool_exec (PA_Collect p) s =
     (if p < length (pl_tasks s) \<and> t_phase (pl_tasks s ! p) = Working
      then (case t_wait (pl_tasks s ! p) of None \<Rightarrow> None
            | Some c \<Rightarrow>
                if t_phase (pl_tasks s ! c) = Ended
                then Some ((update_task p (\<lambda>x. x\<lparr>t_wait := None\<rparr>) s)\<lparr>pl_slots := Suc (pl_slots s)\<rparr>)
                else None)
      else None)"
| "pool_exec (PA_Repark p) s =
     (if p < length (pl_tasks s) \<and> t_phase (pl_tasks s ! p) = Working
      then (case t_wait (pl_tasks s ! p) of None \<Rightarrow> None
            | Some c \<Rightarrow> Some (update_task p (\<lambda>x. x\<lparr>t_pool := t_pool x @ [c], t_wait := None\<rparr>) s))
      else None)"
| "pool_exec (PA_Close p) s =
     (if p < length (pl_tasks s) \<and> t_phase (pl_tasks s ! p) = Working \<and> t_wait (pl_tasks s ! p) = None
      then Some (update_task p (\<lambda>x. x\<lparr>t_phase := Closing, t_cont := [CTake p]\<rparr>) s)
      else None)"
| "pool_exec (PA_Cancel t) s =
     (if t < length (pl_tasks s) \<and> t_phase (pl_tasks s ! t) = Closing
      then (case t_cont (pl_tasks s ! t) of [] \<Rightarrow> None | i # rest \<Rightarrow> cancel_one t i rest s)
      else None)"
| "pool_exec (PA_Finish t) s =
     (if t < length (pl_tasks s) \<and> t_phase (pl_tasks s ! t) = Closing \<and> t_cont (pl_tasks s ! t) = []
      then let s1 = update_task t (\<lambda>x. x\<lparr>t_phase := Ended\<rparr>) s in
           Some (if t = 0 then s1 else report t s1)
      else None)"
| "pool_exec (PA_Drop t) s =
     (if t < length (pl_tasks s) \<and> t_aborted (pl_tasks s ! t) \<and> at_await (pl_tasks s ! t)
      then Some ((update_task t (\<lambda>x. x\<lparr>t_phase := Ended, t_wait := None, t_cont := []\<rparr>) s)
             \<lparr>pl_slots := pl_slots s + waiting (pl_tasks s ! t) + length (join_ids (t_cont (pl_tasks s ! t)))\<rparr>)
      else None)"

inductive pool_step :: "pool_sys \<Rightarrow> pool_sys \<Rightarrow> bool" where
  pool_act: "pool_exec a s = Some s' \<Longrightarrow> pool_step s s'"

inductive_cases pool_stepE: "pool_step s s'"

fun pool_run :: "pool_action list \<Rightarrow> pool_sys \<Rightarrow> pool_sys option" where
  "pool_run [] s = Some s"
| "pool_run (a # as) s = (case pool_exec a s of None \<Rightarrow> None | Some s1 \<Rightarrow> pool_run as s1)"

lemma pool_run_reach: "pool_run as s = Some t \<Longrightarrow> reach_by pool_step s0 s \<Longrightarrow> reach_by pool_step s0 t"
proof (induction as arbitrary: s)
  case (Cons a as)
  then obtain s1 where s1: "pool_exec a s = Some s1" "pool_run as s1 = Some t"
    by (auto split: option.splits)
  with Cons.prems(2) have "reach_by pool_step s0 s1" by (blast intro: reach_step pool_act)
  with Cons.IH s1(2) show ?case by blast
qed simp

section \<open>A subagent that outlives its ancestors\<close>

definition orphan_run :: "pool_action list" where
  "orphan_run = [PA_Spawn 0, PA_Spawn 1, PA_Await 1 2, PA_Close 0, PA_Cancel 0, PA_Cancel 0, PA_Cancel 0,
     PA_Drop 1, PA_Cancel 0, PA_Finish 0]"

text \<open>
  C25: a subagent can be left running after every agent above it has ended. When an agent is
  cancelled while it waits in \<open>AwaitAgent\<close> for a subagent of its own, the handle it had taken out of
  the registry is lost with it: the grandchild is never aborted, keeps running after the turn of the
  top-level agent, and no longer counts against the limit, all its permits being free.
\<close>

theorem cancel_orphans_grandchild:
  "\<exists>s. reach_by pool_step pool_start s \<and>
     t_phase (pl_tasks s ! 0) = Ended \<and> t_phase (pl_tasks s ! 1) = Ended \<and>
     t_parent (pl_tasks s ! 1) = 0 \<and> t_parent (pl_tasks s ! 2) = 1 \<and>
     t_phase (pl_tasks s ! 2) = Working \<and> \<not> t_aborted (pl_tasks s ! 2) \<and>
     pl_slots s = MAX_CONCURRENT_SUBAGENTS"
proof -
  have "case pool_run orphan_run pool_start of None \<Rightarrow> False
     | Some s \<Rightarrow> t_phase (pl_tasks s ! 0) = Ended \<and> t_phase (pl_tasks s ! 1) = Ended \<and>
         t_parent (pl_tasks s ! 1) = 0 \<and> t_parent (pl_tasks s ! 2) = 1 \<and>
         t_phase (pl_tasks s ! 2) = Working \<and> \<not> t_aborted (pl_tasks s ! 2) \<and>
         pl_slots s = MAX_CONCURRENT_SUBAGENTS"
    by code_simp
  then show ?thesis
    using pool_run_reach [OF _ reach_refl] by (auto split: option.splits)
qed

definition unreported_run :: "pool_action list" where
  "unreported_run = [PA_Spawn 0, PA_Spawn 1, PA_Spawn 1, PA_Close 1, PA_Cancel 1, PA_Cancel 1, PA_Cancel 1,
     PA_Close 0, PA_Cancel 0, PA_Cancel 0, PA_Drop 1, PA_Cancel 0, PA_Cancel 0, PA_Finish 0, PA_Drop 2]"

text \<open>
  The same loss hits an agent that is cancelled while it cancels its own children: of two
  grandchildren one keeps running, and the other is aborted without its completion being reported.
\<close>

lemma unreported_exec:
  "case pool_run unreported_run pool_start of None \<Rightarrow> False
   | Some s \<Rightarrow> map t_phase (pl_tasks s) = [Ended, Ended, Ended, Working] \<and>
       map t_aborted (pl_tasks s) = [False, True, True, False] \<and> pl_completed s = [1] \<and> pl_slots s = 8"
  by code_simp

section \<open>Permits, reports and depth\<close>

definition held :: "task \<Rightarrow> nat" where
  "held x = length (t_pool x) + waiting x + length (join_ids (t_cont x))"

lemma sum_list_update:
  "i < length xs \<Longrightarrow> sum_list (map f (xs[i := y])) + f (xs ! i) = sum_list (map f xs) + (f y :: nat)"
proof (induction xs arbitrary: i)
  case (Cons x xs)
  then show ?case by (cases i) auto
qed simp

lemma update_task_fields [simp]:
  "pl_slots (update_task i f s) = pl_slots s" "pl_completed (update_task i f s) = pl_completed s"
  "length (pl_tasks (update_task i f s)) = length (pl_tasks s)"
  by (simp_all add: update_task_def)

lemma update_task_nth:
  "j < length (pl_tasks s) \<Longrightarrow>
     pl_tasks (update_task i f s) ! j = (if j = i then f (pl_tasks s ! i) else pl_tasks s ! j)"
  by (simp add: update_task_def nth_list_update)

lemma report_fields [simp]:
  "pl_slots (report i s) = pl_slots s" "length (pl_tasks (report i s)) = length (pl_tasks s)"
  by (simp_all add: report_def)

lemma report_nth:
  "j < length (pl_tasks s) \<Longrightarrow> pl_tasks (report i s) ! j =
     (if j = i then (pl_tasks s ! j)\<lparr>t_emitted := True\<rparr> else pl_tasks s ! j)"
  by (auto simp: report_def update_task_nth)

lemma join_ids_append [simp]: "join_ids (xs @ ys) = join_ids xs @ join_ids ys"
  by (induction xs rule: join_ids.induct) auto

lemma join_ids_cancel [simp]: "join_ids (cancel_items cs) = cs"
  by (induction cs) (auto simp: cancel_items_def)

text \<open>The total held, through an update and a report.\<close>

definition total_held :: "pool_sys \<Rightarrow> nat" where
  "total_held s = sum_list (map held (pl_tasks s))"

lemma total_held_update:
  "i < length (pl_tasks s) \<Longrightarrow>
     total_held (update_task i f s) + held (pl_tasks s ! i) = total_held s + held (f (pl_tasks s ! i))"
  by (simp add: total_held_def update_task_def sum_list_update)

lemma total_held_report [simp]: "total_held (report i s) = total_held s"
proof (cases "i < length (pl_tasks s)")
  case True
  have "held (t\<lparr>t_emitted := True\<rparr>) = held t" for t by (simp add: held_def waiting_def)
  with True show ?thesis
    using total_held_update [OF True, of "\<lambda>t. t\<lparr>t_emitted := True\<rparr>"] by (simp add: report_def total_held_def)
next
  case False
  then show ?thesis by (simp add: report_def update_task_def total_held_def list_update_beyond)
qed

text \<open>Every task a pool or a cancellation names exists.\<close>

fun item_id :: "cancel_item \<Rightarrow> nat" where
  "item_id (CTake a) = a"
| "item_id (CAbort c) = c"
| "item_id (CJoin c) = c"

definition task_ok :: "nat \<Rightarrow> nat list \<Rightarrow> nat \<Rightarrow> task \<Rightarrow> bool" where
  "task_ok n completed j x =
     ((\<forall>c\<in>set (t_pool x). c < n) \<and> (\<forall>i\<in>set (t_cont x). item_id i < n) \<and>
      (\<forall>c\<in>set_option (t_wait x). c < n) \<and> (t_phase x \<noteq> Working \<longrightarrow> t_wait x = None) \<and>
      t_depth x \<le> 3 \<and> t_emitted x = (j \<in> set completed) \<and>
      (t_phase x \<noteq> Closing \<longrightarrow> t_cont x = []))"

definition pool_ok :: "pool_sys \<Rightarrow> bool" where
  "pool_ok s =
     (pl_slots s + total_held s = MAX_CONCURRENT_SUBAGENTS \<and> 0 < length (pl_tasks s) \<and>
      distinct (pl_completed s) \<and> (\<forall>i\<in>set (pl_completed s). i < length (pl_tasks s)) \<and>
      (\<forall>j<length (pl_tasks s). task_ok (length (pl_tasks s)) (pl_completed s) j (pl_tasks s ! j)))"

lemma pool_ok_start: "pool_ok pool_start"
  by (simp add: pool_ok_def pool_start_def task_ok_def task_new_def total_held_def held_def waiting_def)

lemma task_ok_pool: "task_ok n cs j x \<Longrightarrow> c \<in> set (t_pool x) \<Longrightarrow> c < n"
  by (simp add: task_ok_def)

lemma pool_ok_task:
  "pool_ok s \<Longrightarrow> j < length (pl_tasks s) \<Longrightarrow>
     task_ok (length (pl_tasks s)) (pl_completed s) j (pl_tasks s ! j)"
  by (simp add: pool_ok_def)

lemma task_ok_depth: "task_ok n cs j x \<Longrightarrow> t_depth x \<le> 3"
  by (simp add: task_ok_def)

lemma task_ok_item: "task_ok n cs j x \<Longrightarrow> i \<in> set (t_cont x) \<Longrightarrow> item_id i < n"
  by (simp add: task_ok_def)

lemma task_ok_cont: "task_ok n cs j x \<Longrightarrow> t_phase x = Working \<Longrightarrow> t_cont x = []"
  by (simp add: task_ok_def)

lemma task_ok_grow: "task_ok n cs j x \<Longrightarrow> task_ok (Suc n) cs j x"
  unfolding task_ok_def using less_SucI by blast

lemma task_ok_adopt: "task_ok n cs j x \<Longrightarrow> task_ok (Suc n) cs j (x\<lparr>t_pool := t_pool x @ [n]\<rparr>)"
  using task_ok_grow [of n cs j x] by (simp add: task_ok_def)

lemma cancel_items_ids: "i \<in> set (cancel_items cs) \<Longrightarrow> item_id i \<in> set cs"
  by (auto simp: cancel_items_def)

text \<open>A change of one task that keeps it sound, and the change of the permits it causes.\<close>

lemma pool_ok_update:
  assumes "pool_ok s" and "i < length (pl_tasks s)"
    and "task_ok (length (pl_tasks s)) (pl_completed s) i (f (pl_tasks s ! i))"
    and "k + held (f (pl_tasks s ! i)) = pl_slots s + held (pl_tasks s ! i)"
  shows "pool_ok ((update_task i f s)\<lparr>pl_slots := k\<rparr>)"
proof -
  have "total_held ((update_task i f s)\<lparr>pl_slots := k\<rparr>) = total_held (update_task i f s)"
    by (simp add: total_held_def)
  with assms total_held_update [OF assms(2), of f] show ?thesis
    by (simp add: pool_ok_def update_task_nth)
qed

lemma pool_ok_update_same:
  assumes "pool_ok s" and "i < length (pl_tasks s)"
    and "task_ok (length (pl_tasks s)) (pl_completed s) i (f (pl_tasks s ! i))"
    and "held (f (pl_tasks s ! i)) = held (pl_tasks s ! i)"
  shows "pool_ok (update_task i f s)"
proof -
  have "(update_task i f s)\<lparr>pl_slots := pl_slots s\<rparr> = update_task i f s"
    by (simp add: update_task_def)
  with pool_ok_update [of s i f "pl_slots s"] assms show ?thesis by simp
qed

lemma pool_ok_report:
  assumes "pool_ok s" and "i < length (pl_tasks s)"
  shows "pool_ok (report i s)"
proof (cases "t_emitted (pl_tasks s ! i)")
  case True
  with assms show ?thesis by (simp add: report_def)
next
  case False
  with pool_ok_task [OF assms] have new: "i \<notin> set (pl_completed s)" by (simp add: task_ok_def)
  have total: "total_held (report i s) = total_held s" by simp
  have "task_ok (length (pl_tasks s)) (pl_completed s @ [i]) j (pl_tasks (report i s) ! j)"
    if "j < length (pl_tasks s)" for j
  proof -
    have "task_ok (length (pl_tasks s)) (pl_completed s) j (pl_tasks s ! j)"
      using that assms by (simp add: pool_ok_def)
    then show ?thesis unfolding report_nth [OF that] by (cases "j = i") (simp_all add: task_ok_def)
  qed
  moreover have "pl_completed (report i s) = pl_completed s @ [i]" using False by (simp add: report_def)
  ultimately show ?thesis using assms new total by (simp add: pool_ok_def)
qed

lemma held_simps [simp]:
  "held (x\<lparr>t_phase := p\<rparr>) = held x" "held (x\<lparr>t_aborted := b\<rparr>) = held x"
  "held (x\<lparr>t_emitted := b\<rparr>) = held x"
  "held (x\<lparr>t_pool := cs\<rparr>) = length cs + waiting x + length (join_ids (t_cont x))"
  "held (x\<lparr>t_cont := is\<rparr>) = length (t_pool x) + waiting x + length (join_ids is)"
  by (simp_all add: held_def waiting_def)

lemma pool_ok_spawn:
  assumes "pool_ok s" and "pool_exec (PA_Spawn p) s = Some s'"
  shows "pool_ok s'"
proof -
  let ?n = "length (pl_tasks s)" and ?x = "pl_tasks s ! p"
  let ?s1 = "update_task p (\<lambda>x. x\<lparr>t_pool := t_pool x @ [?n]\<rparr>) s"
  have p: "p < ?n" "t_depth ?x < 3" "pl_slots s > 0"
    and s': "s' = ?s1\<lparr>pl_slots := pl_slots s - 1, pl_tasks := pl_tasks ?s1 @ [task_new p (Suc (t_depth ?x))]\<rparr>"
    using assms(2) by (auto simp: Let_def MAX_SUBAGENT_DEPTH_def split: if_splits)
  have "total_held s' = total_held ?s1" by (simp add: s' total_held_def held_def waiting_def task_new_def)
  moreover have "total_held ?s1 + held ?x = total_held s + Suc (held ?x)"
    using total_held_update [OF p(1), of "\<lambda>x. x\<lparr>t_pool := t_pool x @ [?n]\<rparr>"] by (simp add: held_def waiting_def)
  ultimately have "pl_slots s' + total_held s' = pl_slots s + total_held s" using p(3) s' by simp
  moreover have "?n \<notin> set (pl_completed s)" using assms(1) by (auto simp: pool_ok_def)
  moreover have "task_ok (Suc ?n) (pl_completed s) j (pl_tasks s' ! j)" if "j < Suc ?n" for j
  proof (cases "j = ?n")
    case True
    then show ?thesis using calculation(2) p by (simp add: s' task_ok_def task_new_def nth_append)
  next
    case False
    then have "task_ok ?n (pl_completed s) j (pl_tasks s ! j)" using that assms(1) by (simp add: pool_ok_def)
    with False that show ?thesis
      by (auto simp: s' nth_append update_task_nth intro: task_ok_grow task_ok_adopt)
  qed
  ultimately show ?thesis using assms(1) by (auto simp: pool_ok_def s' less_Suc_eq)
qed

lemma pool_ok_cancel_one:
  assumes "pool_ok s" and "t < length (pl_tasks s)" and "t_cont (pl_tasks s ! t) = i # rest"
    and "cancel_one t i rest s = Some s'" and closing: "t_phase (pl_tasks s ! t) = Closing"
  shows "pool_ok s'"
proof -
  let ?n = "length (pl_tasks s)"
  have ok: "task_ok ?n (pl_completed s) j (pl_tasks s ! j)" if "j < ?n" for j
    using assms(1) that by (simp add: pool_ok_def)
  have i: "item_id i < ?n" "\<forall>k\<in>set rest. item_id k < ?n"
    using ok [OF assms(2)] assms(3) by (auto simp: task_ok_def)
  show ?thesis
  proof (cases i)
    case (CTake a)
    let ?s1 = "update_task a (\<lambda>x. x\<lparr>t_pool := []\<rparr>) s"
    let ?f = "\<lambda>x. x\<lparr>t_cont := cancel_items (t_pool (pl_tasks s ! a)) @ rest\<rparr>"
    have a: "a < ?n" and s': "s' = update_task t ?f ?s1" using i CTake assms(4) by auto
    have "total_held ?s1 + length (t_pool (pl_tasks s ! a)) = total_held s"
      using total_held_update [OF a, of "\<lambda>x. x\<lparr>t_pool := []\<rparr>"] by (simp add: held_def waiting_def)
    moreover have "total_held s' = total_held ?s1 + length (t_pool (pl_tasks s ! a))"
      using total_held_update [of t ?s1 ?f] assms(2,3) CTake
      by (simp add: s' update_task_nth held_def waiting_def split: if_splits)
    moreover have "task_ok ?n (pl_completed s) j (pl_tasks s' ! j)" if "j < ?n" for j
      using ok [OF that] ok [OF a] i that assms(2) closing
      by (auto simp: s' update_task_nth task_ok_def dest!: cancel_items_ids)
    ultimately show ?thesis using assms(1) by (simp add: pool_ok_def s')
  next
    case (CAbort c)
    let ?s1 = "update_task c (\<lambda>x. x\<lparr>t_aborted := True\<rparr>) s"
    have c: "c < ?n" and s': "s' = update_task t (\<lambda>x. x\<lparr>t_cont := rest\<rparr>) ?s1" using i CAbort assms(4) by auto
    have ok1: "pool_ok ?s1"
      by (rule pool_ok_update_same [OF assms(1) c]) (use ok [OF c] in \<open>auto simp: task_ok_def\<close>)
    show ?thesis
      unfolding s'
      by (rule pool_ok_update_same [OF ok1])
        (use assms(2,3) closing CAbort ok [OF assms(2)] in \<open>auto simp: task_ok_def held_def waiting_def update_task_nth\<close>)
  next
    case (CJoin c)
    let ?f = "\<lambda>x. x\<lparr>t_cont := rest\<rparr>"
    have c: "c < ?n" and s': "s' = (report c (update_task t ?f s))\<lparr>pl_slots := Suc (pl_slots s)\<rparr>"
      using i CJoin assms(4) by (auto split: if_splits)
    have "pool_ok ((update_task t ?f s)\<lparr>pl_slots := Suc (pl_slots s)\<rparr>)"
      using assms(1,2,3) CJoin closing ok [OF assms(2)]
      by (intro pool_ok_update) (auto simp: task_ok_def held_def waiting_def)
    then have "pool_ok (report c ((update_task t ?f s)\<lparr>pl_slots := Suc (pl_slots s)\<rparr>))"
      using c by (intro pool_ok_report) simp_all
    moreover have "report c ((update_task t ?f s)\<lparr>pl_slots := Suc (pl_slots s)\<rparr>) = s'"
      by (simp add: s' report_def update_task_def)
    ultimately show ?thesis by simp
  qed
qed

lemma pool_step_ok:
  assumes "pool_ok s" and "pool_step s s'"
  shows "pool_ok s'"
proof -
  obtain a where a: "pool_exec a s = Some s'" using assms(2) by (rule pool_stepE)
  have ok: "task_ok (length (pl_tasks s)) (pl_completed s) j (pl_tasks s ! j)"
    if "j < length (pl_tasks s)" for j
    using assms(1) that by (simp add: pool_ok_def)
  show ?thesis
  proof (cases a)
    case (PA_Spawn p)
    with assms(1) a show ?thesis using pool_ok_spawn by blast
  next
    case (PA_Await p c)
    let ?f = "\<lambda>x. x\<lparr>t_pool := remove1 c (t_pool x), t_wait := Some c\<rparr>"
    have p: "p < length (pl_tasks s)" "c \<in> set (t_pool (pl_tasks s ! p))"
      "t_phase (pl_tasks s ! p) = Working" "t_wait (pl_tasks s ! p) = None"
      and s': "s' = update_task p ?f s"
      using a PA_Await by (auto split: if_splits)
    have "length (t_pool (pl_tasks s ! p)) > 0" using p(2) by auto
    then show ?thesis
      unfolding s' using ok [OF p(1)] p
      by (intro pool_ok_update_same [OF assms(1) p(1)])
        (auto simp: task_ok_def held_def waiting_def length_remove1 dest: set_mp [OF set_remove1_subset])
  next
    case (PA_Collect p)
    let ?f = "\<lambda>x. x\<lparr>t_wait := None\<rparr>"
    have p: "p < length (pl_tasks s)" "t_wait (pl_tasks s ! p) \<noteq> None"
      and s': "s' = (update_task p ?f s)\<lparr>pl_slots := Suc (pl_slots s)\<rparr>"
      using a PA_Collect by (auto split: if_splits option.splits)
    show ?thesis
      unfolding s' by (rule pool_ok_update [OF assms(1) p(1)])
        (use ok [OF p(1)] p in \<open>auto simp: task_ok_def held_def waiting_def\<close>)
  next
    case (PA_Repark p)
    then obtain c where p: "p < length (pl_tasks s)" "t_wait (pl_tasks s ! p) = Some c"
      and s': "s' = update_task p (\<lambda>x. x\<lparr>t_pool := t_pool x @ [c], t_wait := None\<rparr>) s"
      using a by (auto split: if_splits option.splits)
    show ?thesis
      unfolding s' by (rule pool_ok_update_same [OF assms(1) p(1)])
        (use ok [OF p(1)] p in \<open>auto simp: task_ok_def held_def waiting_def\<close>)
  next
    case (PA_Close p)
    let ?f = "\<lambda>x. x\<lparr>t_phase := Closing, t_cont := [CTake p]\<rparr>"
    have p: "p < length (pl_tasks s)" "t_phase (pl_tasks s ! p) = Working" "t_wait (pl_tasks s ! p) = None"
      and s': "s' = update_task p ?f s"
      using a PA_Close by (auto split: if_splits)
    show ?thesis
      unfolding s' by (rule pool_ok_update_same [OF assms(1) p(1)])
        (use ok [OF p(1)] p in \<open>auto simp: task_ok_def held_def waiting_def\<close>)
  next
    case (PA_Cancel t)
    with a assms(1) show ?thesis by (auto split: if_splits list.splits intro: pool_ok_cancel_one)
  next
    case (PA_Finish t)
    then have t: "t < length (pl_tasks s)" "t_cont (pl_tasks s ! t) = []" "t_phase (pl_tasks s ! t) = Closing"
      using a by (auto split: if_splits)
    have "pool_ok (update_task t (\<lambda>x. x\<lparr>t_phase := Ended\<rparr>) s)"
      by (rule pool_ok_update_same [OF assms(1) t(1)]) (use ok [OF t(1)] t in \<open>auto simp: task_ok_def\<close>)
    with a PA_Finish t show ?thesis by (auto simp: Let_def pool_ok_report split: if_splits)
  next
    case (PA_Drop t)
    let ?f = "\<lambda>x. x\<lparr>t_phase := Ended, t_wait := None, t_cont := []\<rparr>"
    have t: "t < length (pl_tasks s)"
      and s': "s' = (update_task t ?f s)\<lparr>pl_slots := pl_slots s + waiting (pl_tasks s ! t) + length (join_ids (t_cont (pl_tasks s ! t)))\<rparr>"
      using a PA_Drop by (auto split: if_splits)
    show ?thesis
      unfolding s' by (rule pool_ok_update [OF assms(1) t])
        (use ok [OF t] in \<open>auto simp: task_ok_def held_def waiting_def\<close>)
  qed
qed

interpretation pool: invariant_system pool_step pool_ok
  by unfold_locales (rule pool_step_ok)


section \<open>Children of agents that were not cancelled\<close>

text \<open>A cancellation takes the pool of another agent only after it aborted that agent.\<close>

fun ok_cont :: "(nat \<Rightarrow> bool) \<Rightarrow> nat \<Rightarrow> cancel_item list \<Rightarrow> bool" where
  "ok_cont ab q [] = True"
| "ok_cont ab q (CAbort c # is) = ok_cont (ab(c := True)) q is"
| "ok_cont ab q (CTake a # is) = ((a = q \<or> ab a) \<and> ok_cont ab q is)"
| "ok_cont ab q (CJoin c # is) = ok_cont ab q is"

lemma ok_cont_mono: "ok_cont ab q is \<Longrightarrow> (\<And>i. ab i \<Longrightarrow> ab' i) \<Longrightarrow> ok_cont ab' q is"
proof (induction ab q "is" arbitrary: ab' rule: ok_cont.induct)
  case (2 ab q c "is")
  then show ?case by (metis fun_upd_apply ok_cont.simps(2))
qed auto

lemma ok_cont_cancel: "ok_cont ab q rest \<Longrightarrow> ok_cont ab q (cancel_items cs @ rest)"
proof (induction cs arbitrary: ab)
  case (Cons c cs)
  have "ok_cont (ab(c := True)) q rest" using Cons.prems by (rule ok_cont_mono) simp
  from Cons.IH [OF this] show ?case by (simp add: cancel_items_def fun_upd_def)
qed (simp add: cancel_items_def)

definition aborted :: "pool_sys \<Rightarrow> nat \<Rightarrow> bool" where
  "aborted s i = (i < length (pl_tasks s) \<and> t_aborted (pl_tasks s ! i))"

text \<open>The children of \<open>p\<close> that have not ended are in its pool, awaited, or about to be joined by it.\<close>

definition scoped :: "pool_sys \<Rightarrow> nat \<Rightarrow> bool" where
  "scoped s p =
     ((t_phase (pl_tasks s ! p) \<noteq> Working \<longrightarrow>
         t_pool (pl_tasks s ! p) = [] \<or> CTake p \<in> set (t_cont (pl_tasks s ! p))) \<and>
      (\<forall>c<length (pl_tasks s). 0 < c \<and> t_parent (pl_tasks s ! c) = p \<and> t_phase (pl_tasks s ! c) \<noteq> Ended \<longrightarrow>
         c \<in> set (t_pool (pl_tasks s ! p)) \<or> c \<in> set_option (t_wait (pl_tasks s ! p)) \<or>
         c \<in> set (join_ids (t_cont (pl_tasks s ! p)))))"

definition scope_ok :: "pool_sys \<Rightarrow> bool" where
  "scope_ok s =
     (pool_ok s \<and> (\<forall>c<length (pl_tasks s). t_parent (pl_tasks s ! c) < length (pl_tasks s)) \<and>
      (\<forall>p<length (pl_tasks s). ok_cont (aborted s) p (t_cont (pl_tasks s ! p)) \<and>
         (\<not> aborted s p \<longrightarrow> scoped s p)))"

lemma scope_ok_start: "scope_ok pool_start"
  using pool_ok_start by (simp add: scope_ok_def pool_start_def task_new_def scoped_def)

lemma scope_okI:
  assumes "pool_ok s'" and "length (pl_tasks s') = length (pl_tasks s)" and "scope_ok s"
    and "\<And>p. p < length (pl_tasks s) \<Longrightarrow> t_parent (pl_tasks s' ! p) = t_parent (pl_tasks s ! p)"
    and "\<And>p. p < length (pl_tasks s) \<Longrightarrow> ok_cont (aborted s') p (t_cont (pl_tasks s' ! p))"
    and "\<And>p. p < length (pl_tasks s) \<Longrightarrow> \<not> aborted s' p \<Longrightarrow> scoped s' p"
  shows "scope_ok s'"
  using assms by (simp add: scope_ok_def)

text \<open>A step that leaves the pool and the cancellation of \<open>p\<close> alone and wakes no task keeps its scope.\<close>

lemma scoped_frame:
  assumes "scoped s p" and "p < length (pl_tasks s)" and "length (pl_tasks s') = length (pl_tasks s)"
    and "t_pool (pl_tasks s' ! p) = t_pool (pl_tasks s ! p)"
    and "t_wait (pl_tasks s' ! p) = t_wait (pl_tasks s ! p)"
    and "t_cont (pl_tasks s' ! p) = t_cont (pl_tasks s ! p)"
    and "t_phase (pl_tasks s' ! p) = t_phase (pl_tasks s ! p)"
    and "\<And>c. c < length (pl_tasks s) \<Longrightarrow> t_parent (pl_tasks s' ! c) = t_parent (pl_tasks s ! c)"
    and "\<And>c. c < length (pl_tasks s) \<Longrightarrow> t_phase (pl_tasks s ! c) = Ended \<Longrightarrow> t_phase (pl_tasks s' ! c) = Ended"
  shows "scoped s' p"
  using assms unfolding scoped_def by metis

lemma scope_spawn:
  assumes "scope_ok s" and "pool_ok s'" and "pool_exec (PA_Spawn p) s = Some s'"
  shows "scope_ok s'"
proof -
  let ?n = "length (pl_tasks s)" and ?x = "pl_tasks s ! p"
  let ?s1 = "update_task p (\<lambda>x. x\<lparr>t_pool := t_pool x @ [?n]\<rparr>) s"
  have p: "p < ?n" "t_phase ?x = Working"
    and s': "s' = ?s1\<lparr>pl_slots := pl_slots s - 1, pl_tasks := pl_tasks ?s1 @ [task_new p (Suc (t_depth ?x))]\<rparr>"
    using assms(3) by (auto simp: Let_def split: if_splits)
  have nth: "pl_tasks s' ! j = (if j = ?n then task_new p (Suc (t_depth ?x))
      else if j = p then ?x\<lparr>t_pool := t_pool ?x @ [?n]\<rparr> else pl_tasks s ! j)" if "j \<le> ?n" for j
    using that p(1) by (auto simp: s' nth_append update_task_nth)
  have len: "length (pl_tasks s') = Suc ?n" by (simp add: s')
  have ab: "aborted s' = aborted s"
    by (rule ext) (auto simp: aborted_def len nth task_new_def less_Suc_eq p(1) split: if_splits)
  have par: "t_parent (pl_tasks s ! c) < ?n" if "c < ?n" for c using assms(1) that by (simp add: scope_ok_def)
  have old: "ok_cont (aborted s) j (t_cont (pl_tasks s ! j))" "\<not> aborted s j \<Longrightarrow> scoped s j" if "j < ?n" for j
    using assms(1) that by (auto simp: scope_ok_def)
  have "ok_cont (aborted s) j (t_cont (pl_tasks s' ! j))" if "j < Suc ?n" for j
    using that old p(1) by (auto simp: nth less_Suc_eq task_new_def)
  moreover have "scoped s' j" if j: "j < Suc ?n" "\<not> aborted s j" for j
  proof (cases "j = ?n")
    case True
    have "t_parent (pl_tasks s ! c) \<noteq> ?n" if "c < ?n" for c using par [OF that] by simp
    with True show ?thesis using p(1) by (auto simp: scoped_def nth len task_new_def less_Suc_eq)
  next
    case False
    with j have "scoped s j" "j < ?n" using old by auto
    then show ?thesis
      using p par by (auto simp: scoped_def nth len task_new_def less_Suc_eq)
  qed
  moreover have "t_parent (pl_tasks s' ! c) < Suc ?n" if "c < Suc ?n" for c
    using that par p(1) by (auto simp: nth less_Suc_eq task_new_def intro: less_SucI)
  ultimately show ?thesis using assms(2) by (simp add: scope_ok_def len ab)
qed

lemma scope_cancel_one:
  assumes "scope_ok s" and "pool_ok s'" and t: "t < length (pl_tasks s)"
    and cont: "t_cont (pl_tasks s ! t) = i # rest" and "cancel_one t i rest s = Some s'"
    and closing: "t_phase (pl_tasks s ! t) = Closing"
  shows "scope_ok s'"
proof -
  let ?n = "length (pl_tasks s)"
  have old: "ok_cont (aborted s) j (t_cont (pl_tasks s ! j))" "\<not> aborted s j \<Longrightarrow> scoped s j" if "j < ?n" for j
    using assms(1) that by (auto simp: scope_ok_def)
  have id: "item_id i < ?n"
    using pool_ok_task [OF _ t] task_ok_item assms(1) cont by (metis list.set_intros(1) scope_ok_def)
  show ?thesis
  proof (cases i)
    case (CTake a)
    have a: "a < ?n" and s': "s' = update_task t (\<lambda>x. x\<lparr>t_cont := cancel_items (t_pool (pl_tasks s ! a)) @ rest\<rparr>)
        (update_task a (\<lambda>x. x\<lparr>t_pool := []\<rparr>) s)"
      using id CTake assms(5) by auto
    have ab: "aborted s' = aborted s" using t a by (auto simp: aborted_def s' update_task_nth fun_eq_iff split: if_splits)
    have head: "a = t \<or> aborted s a" "ok_cont (aborted s) t rest" using old(1) [OF t] cont CTake by auto
    show ?thesis
    proof (rule scope_okI [OF assms(2) _ assms(1)])
      fix j assume j: "j < ?n"
      show "t_parent (pl_tasks s' ! j) = t_parent (pl_tasks s ! j)" using j t a by (simp add: s' update_task_nth)
      show "ok_cont (aborted s') j (t_cont (pl_tasks s' ! j))"
        unfolding ab using old(1) [OF j] head ok_cont_cancel j t a by (auto simp: s' update_task_nth)
      assume "\<not> aborted s' j"
      then have "\<not> aborted s j" unfolding ab .
      then show "scoped s' j"
        using old(2) [OF j] head j t a cont CTake closing
        by (auto simp: s' scoped_def update_task_nth)
    qed (simp add: s')
  next
    case (CAbort c)
    have c: "c < ?n" and s': "s' = update_task t (\<lambda>x. x\<lparr>t_cont := rest\<rparr>) (update_task c (\<lambda>x. x\<lparr>t_aborted := True\<rparr>) s)"
      using id CAbort assms(5) by auto
    have ab: "aborted s' = (aborted s)(c := True)" using t c by (auto simp: aborted_def s' update_task_nth fun_eq_iff split: if_splits)
    show ?thesis
    proof (rule scope_okI [OF assms(2) _ assms(1)])
      fix j assume j: "j < ?n"
      show "t_parent (pl_tasks s' ! j) = t_parent (pl_tasks s ! j)" using j t c by (simp add: s' update_task_nth)
      show "ok_cont (aborted s') j (t_cont (pl_tasks s' ! j))"
      proof (cases "j = t")
        case True
        then show ?thesis unfolding ab using old(1) [OF t] cont CAbort t c by (simp add: s' update_task_nth)
      next
        case False
        have "ok_cont ((aborted s)(c := True)) j (t_cont (pl_tasks s ! j))"
          using old(1) [OF j] by (rule ok_cont_mono) simp
        then show ?thesis unfolding ab using False j t c by (auto simp: s' update_task_nth)
      qed
      assume "\<not> aborted s' j"
      then have "\<not> aborted s j" unfolding ab by (simp split: if_splits)
      then show "scoped s' j"
        using old(2) [OF j] j t c cont CAbort by (auto simp: s' scoped_def update_task_nth split: if_splits)
    qed (simp add: s')
  next
    case (CJoin c)
    have c: "c < ?n" "t_phase (pl_tasks s ! c) = Ended"
      and s': "s' = (report c (update_task t (\<lambda>x. x\<lparr>t_cont := rest\<rparr>) s))\<lparr>pl_slots := Suc (pl_slots s)\<rparr>"
      using id CJoin assms(5) by (auto split: if_splits)
    have ab: "aborted s' = aborted s" using t c by (auto simp: aborted_def s' report_nth update_task_nth fun_eq_iff split: if_splits)
    show ?thesis
    proof (rule scope_okI [OF assms(2) _ assms(1)])
      fix j assume j: "j < ?n"
      show "t_parent (pl_tasks s' ! j) = t_parent (pl_tasks s ! j)"
        using j t c by (simp add: s' report_nth update_task_nth)
      show "ok_cont (aborted s') j (t_cont (pl_tasks s' ! j))"
        unfolding ab using old(1) [OF j] old(1) [OF t] cont CJoin j t c by (auto simp: s' report_nth update_task_nth)
      assume "\<not> aborted s' j"
      then have "\<not> aborted s j" unfolding ab .
      then show "scoped s' j"
        using old(2) [OF j] j t c cont CJoin by (auto simp: s' scoped_def report_nth update_task_nth)
    qed (simp add: s')
  qed
qed

lemma scope_one_task:
  assumes "scope_ok s" and "pool_ok s'" and "t < length (pl_tasks s)"
    and "length (pl_tasks s') = length (pl_tasks s)"
    and other: "\<And>j. j < length (pl_tasks s) \<Longrightarrow> j \<noteq> t \<Longrightarrow> pl_tasks s' ! j = pl_tasks s ! j"
    and "t_parent (pl_tasks s' ! t) = t_parent (pl_tasks s ! t)"
    and "t_aborted (pl_tasks s' ! t) = t_aborted (pl_tasks s ! t)"
    and "t_phase (pl_tasks s ! t) = Ended \<Longrightarrow> t_phase (pl_tasks s' ! t) = Ended"
    and "ok_cont (aborted s) t (t_cont (pl_tasks s' ! t))"
    and scoped: "\<not> aborted s t \<Longrightarrow> scoped s t \<Longrightarrow> scoped s' t"
  shows "scope_ok s'"
proof -
  have ab: "aborted s' = aborted s"
    using assms(4,7) other by (auto simp: aborted_def fun_eq_iff) metis+
  have same: "t_parent (pl_tasks s' ! j) = t_parent (pl_tasks s ! j)" if "j < length (pl_tasks s)" for j
    using that other assms(6) by (cases "j = t") auto
  show ?thesis
  proof (rule scope_okI [OF assms(2,4,1)])
    fix j assume j: "j < length (pl_tasks s)"
    show "t_parent (pl_tasks s' ! j) = t_parent (pl_tasks s ! j)" by (rule same) (rule j)
    have old: "ok_cont (aborted s) j (t_cont (pl_tasks s ! j))" "\<not> aborted s j \<Longrightarrow> scoped s j"
      using assms(1) j by (auto simp: scope_ok_def)
    show "ok_cont (aborted s') j (t_cont (pl_tasks s' ! j))"
      using old other [OF j] assms(9) ab by (cases "j = t") auto
    assume "\<not> aborted s' j"
    then show "scoped s' j"
      using old scoped scoped_frame [of s j s'] other assms(4,8) same j ab
      by (cases "j = t") (auto, metis)
  qed
qed

lemma scope_step:
  assumes "scope_ok s" and "pool_step s s'"
  shows "scope_ok s'"
proof -
  have ok': "pool_ok s'" using assms pool_step_ok by (auto simp: scope_ok_def)
  obtain a where a: "pool_exec a s = Some s'" using assms(2) by (rule pool_stepE)
  have ok: "task_ok (length (pl_tasks s)) (pl_completed s) j (pl_tasks s ! j)"
    "ok_cont (aborted s) j (t_cont (pl_tasks s ! j))"
    if "j < length (pl_tasks s)" for j
    using assms(1) that by (auto simp: scope_ok_def pool_ok_def)
  show ?thesis
  proof (cases a)
    case (PA_Spawn p)
    with a show ?thesis using scope_spawn [OF assms(1) ok'] by blast
  next
    case (PA_Cancel t)
    with a show ?thesis
      by (auto split: if_splits list.splits intro: scope_cancel_one [OF assms(1) ok'])
  next
    case (PA_Await p c)
    then have p: "p < length (pl_tasks s)" "t_phase (pl_tasks s ! p) = Working" "t_wait (pl_tasks s ! p) = None"
      and s': "s' = update_task p (\<lambda>x. x\<lparr>t_pool := remove1 c (t_pool x), t_wait := Some c\<rparr>) s"
      using a by (auto split: if_splits)
    have "scoped s' p" if "scoped s p"
      unfolding scoped_def
    proof (intro conjI allI impI)
      fix j assume j: "j < length (pl_tasks s')"
        "0 < j \<and> t_parent (pl_tasks s' ! j) = p \<and> t_phase (pl_tasks s' ! j) \<noteq> Ended"
      then have "j \<in> set (t_pool (pl_tasks s ! p)) \<or> j \<in> set (join_ids (t_cont (pl_tasks s ! p)))"
        using that p by (auto simp: scoped_def s' update_task_nth split: if_splits)
      then show "j \<in> set (t_pool (pl_tasks s' ! p)) \<or> j \<in> set_option (t_wait (pl_tasks s' ! p)) \<or>
        j \<in> set (join_ids (t_cont (pl_tasks s' ! p)))"
        using p(1) by (cases "j = c") (auto simp: s' update_task_nth)
    qed (use p in \<open>simp add: s' update_task_nth\<close>)
    then show ?thesis
      by (intro scope_one_task [OF assms(1) ok', of p])
        (use p ok [of p] in \<open>simp_all add: s' update_task_nth\<close>)
  next
    case (PA_Collect p)
    show ?thesis
      by (rule scope_one_task [OF assms(1) ok', of p])
        (use a PA_Collect ok [of p] in
          \<open>auto simp: update_task_nth scoped_def split: if_splits option.splits\<close>)
  next
    case (PA_Repark p)
    show ?thesis
      by (rule scope_one_task [OF assms(1) ok', of p])
        (use a PA_Repark ok [of p] in
          \<open>auto simp: update_task_nth scoped_def split: if_splits option.splits\<close>)
  next
    case (PA_Close p)
    show ?thesis
      by (rule scope_one_task [OF assms(1) ok', of p])
        (use a PA_Close task_ok_cont [OF ok(1) [of p]] in
          \<open>auto simp: update_task_nth scoped_def split: if_splits\<close>)
  next
    case (PA_Finish t)
    show ?thesis
      by (rule scope_one_task [OF assms(1) ok', of t])
        (use a PA_Finish ok [of t] in
          \<open>auto simp: Let_def update_task_nth report_nth scoped_def split: if_splits\<close>)
  next
    case (PA_Drop t)
    show ?thesis
      by (rule scope_one_task [OF assms(1) ok', of t])
        (use a PA_Drop in \<open>auto simp: update_task_nth aborted_def split: if_splits\<close>)
  qed
qed

interpretation pool_scope: invariant_system pool_step scope_ok
  by unfold_locales (rule scope_step)

text \<open>
  C24: no direct child outlives the turn of an agent that was not itself cancelled: once such an
  agent has ended, every subagent it spawned has ended. For the top-level agent this always holds.
\<close>

theorem children_end_with_parent:
  assumes "reach_by pool_step pool_start s" and "p < length (pl_tasks s)"
    and "t_phase (pl_tasks s ! p) = Ended" and "\<not> t_aborted (pl_tasks s ! p)"
    and "c < length (pl_tasks s)" "0 < c" and "t_parent (pl_tasks s ! c) = p"
  shows "t_phase (pl_tasks s ! c) = Ended"
proof -
  have inv: "scope_ok s" by (rule pool_scope.inv_reachable [OF assms(1) scope_ok_start])
  then have "task_ok (length (pl_tasks s)) (pl_completed s) p (pl_tasks s ! p)"
    using assms(2) by (simp add: scope_ok_def pool_ok_def)
  then have "t_cont (pl_tasks s ! p) = []" "t_wait (pl_tasks s ! p) = None" using assms(3) by (simp_all add: task_ok_def)
  moreover have "scoped s p" using inv assms(2,4) by (simp add: scope_ok_def aborted_def)
  ultimately show ?thesis using assms(3,5,6,7) by (auto simp: scoped_def)
qed

text \<open>A turn in which the top-level agent ends without collecting the subagent it spawned.\<close>

definition uncollected_run :: "pool_action list" where
  "uncollected_run = [PA_Spawn 0, PA_Close 0, PA_Cancel 0, PA_Cancel 0, PA_Cancel 0, PA_Drop 1,
     PA_Cancel 0, PA_Finish 0]"

definition uncollected :: pool_sys where
  "uncollected = the (pool_run uncollected_run pool_start)"

lemma uncollected_reach: "reach_by pool_step pool_start uncollected"
proof -
  have "pool_run uncollected_run pool_start \<noteq> None" by code_simp
  then show ?thesis unfolding uncollected_def by (auto intro: pool_run_reach [OF _ reach_refl])
qed


theorem children_end_with_parent_witness:
  "t_parent (pl_tasks uncollected ! 1) = 0 \<and> t_phase (pl_tasks uncollected ! 1) = Ended"
proof -
  have "0 < length (pl_tasks uncollected)" "t_phase (pl_tasks uncollected ! 0) = Ended"
    "\<not> t_aborted (pl_tasks uncollected ! 0)" "1 < length (pl_tasks uncollected)"
    "t_parent (pl_tasks uncollected ! 1) = 0"
    by code_simp+
  with children_end_with_parent [OF uncollected_reach, of 0 1] show ?thesis by simp
qed

end
