(* ===== verification/Silo_Auth.thy ===== *)
theory Silo_Auth
  imports Silo_Event
begin

text \<open>
  Authentication of the clients of the interactive frontend: the messages of the wire protocol
  (\<open>silo-core/src/protocol.rs\<close>), the pairing codes, the local token and the registry of paired keys
  (\<open>silo-frontend/src/interactive/auth.rs\<close>), and the decision on one authentication request
  (\<open>authenticate\<close> in \<open>connection.rs\<close>).

  SHA-256, base64 and Ed25519 are other crates: they are the fields of \<open>crypto\<close>, an argument of the
  definitions that use them. Random values, the time and the success of a write are arguments too.
  Instants and durations are integers, in nanoseconds.
\<close>

section \<open>Wire protocol\<close>

datatype auth_request =
    AQ_LocalToken string
  | AQ_Pair string string string
  | AQ_Challenge string
  | AQ_Signature string string

datatype client_message =
    CM_Authenticate auth_request
  | CM_Prompt string
  | CM_AnswerQuestion string string
  | CM_UploadFile string string
  | CM_RequestEvents u64
  | CM_RequestAccessReport
  | CM_RequestCost
  | CM_RequestPairingCode
  | CM_Interrupt
  | CM_Shutdown
  | CM_Ping u64

record cost_entry =
  ce_backend :: string
  ce_usage :: usage_snapshot
  ce_quota :: quota_config

datatype server_message =
    SM_Hello string u32
  | SM_AuthChallenge string
  | SM_AuthOk string "string option" u64
  | SM_AuthError string
  | SM_Event event
  | SM_Events "event list"
  | SM_AccessReport access_report
  | SM_Cost "cost_entry list"
  | SM_PairingCode string u64
  | SM_Pong u64
  | SM_Error string
  | SM_ShuttingDown "string option"

section \<open>Pairing codes\<close>

definition PAIRING_CODE_TTL :: int where
  "PAIRING_CODE_TTL = 120 * 1000000000"

definition PAIRING_ALPHABET :: string where
  "PAIRING_ALPHABET = ''ABCDEFGHJKLMNPQRSTUVWXYZ23456789''"

definition PAIRING_CODE_LEN :: nat where
  "PAIRING_CODE_LEN = 8"

type_synonym pairing_codes = "string \<rightharpoonup> int"

text \<open>The draws of \<open>gen_range\<close> are the argument; each is an index into the alphabet.\<close>

definition draws_ok :: "nat list \<Rightarrow> bool" where
  "draws_ok rs = (length rs = PAIRING_CODE_LEN \<and> list_all (\<lambda>r. r < length PAIRING_ALPHABET) rs)"

definition mint_at :: "nat list \<Rightarrow> int \<Rightarrow> pairing_codes \<Rightarrow> string \<times> pairing_codes" where
  "mint_at rs t codes =
     (let code = map (\<lambda>r. PAIRING_ALPHABET ! r) rs in (code, codes(code \<mapsto> t)))"

definition redeem_at :: "string \<Rightarrow> int \<Rightarrow> pairing_codes \<Rightarrow> bool \<times> pairing_codes" where
  "redeem_at code t codes =
     (case codes code of
        Some issued \<Rightarrow> max 0 (t - issued) \<le> PAIRING_CODE_TTL
      | None \<Rightarrow> False,
      codes(code := None))"

section \<open>The local token\<close>

definition hex_encode :: "u8 list \<Rightarrow> string" where
  "hex_encode bs = concat (map (\<lambda>b. [hex_digit (unat b div 16), hex_digit (unat b mod 16)]) bs)"

text \<open>The result, and the content of the token file afterwards; \<open>wrote\<close> is the outcome of the write.\<close>

definition load_or_create_token ::
  "string \<Rightarrow> string option \<Rightarrow> u8 list \<Rightarrow> io_error option
     \<Rightarrow> (frontend_error + string) \<times> string option" where
  "load_or_create_token path file random wrote =
     (case file of
        Some content \<Rightarrow>
          (let token = trim content in
           (if token = [] then Inl (Fe_Setup (''the token file '' @ path @ '' is empty'')) else Inr token,
            file))
      | None \<Rightarrow>
          (let token = hex_encode random in
           case wrote of Some e \<Rightarrow> (Inl (Fe_Io e), None) | None \<Rightarrow> (Inr token, Some token)))"

definition constant_time_eq :: "u8 list \<Rightarrow> u8 list \<Rightarrow> bool" where
  "constant_time_eq a b = (foldl (\<lambda>acc (x, y). or acc (xor x y)) 0 (zip a b) = 0)"

section \<open>Paired keys\<close>

record ('vk, 'sg) crypto =
  cr_sha256 :: "string \<Rightarrow> u8 list"
  cr_b64 :: "string \<Rightarrow> string"
  cr_unb64 :: "string \<Rightarrow> string option"
  cr_key :: "string \<Rightarrow> 'vk option"
  cr_sig :: "string \<Rightarrow> 'sg option"
  cr_verify :: "'vk \<Rightarrow> string \<Rightarrow> 'sg \<Rightarrow> bool"

definition parse_public_key :: "('vk, 'sg) crypto \<Rightarrow> string \<Rightarrow> 'vk option" where
  "parse_public_key cr s =
     (case cr_unb64 cr s of
        None \<Rightarrow> None
      | Some bytes \<Rightarrow> if length bytes = 32 then cr_key cr bytes else None)"

record key_record =
  kr_public_key_b64 :: string
  kr_client_name :: string

text \<open>The registry in memory and the content of its file.\<close>

record authorized_keys =
  ak_records :: "(string \<times> key_record) list"
  ak_file :: "(string \<times> key_record) list"

text \<open>The ids \<open>short_id\<close> draws; \<open>None\<close> when all of them are taken and the loop goes on drawing.\<close>

fun fresh_id :: "(string \<times> 'a) list \<Rightarrow> string list \<Rightarrow> string option" where
  "fresh_id recs [] = None"
| "fresh_id recs (i # is) = (if map_of recs i = None then Some i else fresh_id recs is)"

definition keys_save :: "bool \<Rightarrow> authorized_keys \<Rightarrow> (frontend_error + unit) \<times> authorized_keys" where
  "keys_save ok ak =
     (if ok then (Inr (), ak\<lparr>ak_file := ak_records ak\<rparr>) else (Inl (Fe_Io ''write failed''), ak))"

definition keys_add ::
  "string list \<Rightarrow> bool \<Rightarrow> string \<Rightarrow> string \<Rightarrow> authorized_keys
     \<Rightarrow> ((frontend_error + string) \<times> authorized_keys) option" where
  "keys_add ids ok public_key_b64 client_name ak =
     (case fresh_id (ak_records ak) ids of
        None \<Rightarrow> None
      | Some key_id \<Rightarrow>
          (let ak1 = ak\<lparr>ak_records :=
                 bt_insert key_id \<lparr>kr_public_key_b64 = public_key_b64, kr_client_name = client_name\<rparr>
                   (ak_records ak)\<rparr> in
           case keys_save ok ak1 of
             (Inl e, ak2) \<Rightarrow> Some (Inl e, ak2)
           | (Inr _, ak2) \<Rightarrow> Some (Inr key_id, ak2)))"

definition verifying_key :: "('vk, 'sg) crypto \<Rightarrow> authorized_keys \<Rightarrow> string \<Rightarrow> 'vk option" where
  "verifying_key cr ak key_id =
     (case map_of (ak_records ak) key_id of
        None \<Rightarrow> None
      | Some r \<Rightarrow> parse_public_key cr (kr_public_key_b64 r))"

definition nonempty :: "string \<Rightarrow> string option" where
  "nonempty s = (if s = [] then None else Some s)"

definition key_client_name :: "authorized_keys \<Rightarrow> string \<Rightarrow> string option" where
  "key_client_name ak key_id =
     (case map_of (ak_records ak) key_id of None \<Rightarrow> None | Some r \<Rightarrow> nonempty (kr_client_name r))"

section \<open>One authentication request\<close>

text \<open>What a request finds: the digest of the token, the codes and the keys.\<close>

record auth_state =
  as_token_digest :: "u8 list"
  as_pairing :: pairing_codes
  as_keys :: authorized_keys

text \<open>The outcome: accepted with the key id and the name, refused, or a challenge to answer.\<close>

datatype auth_verdict =
    Au_Accept "string option" "string option"
  | Au_Deny string
  | Au_Challenge string string

text \<open>What a request may draw: the time, ids, the outcome of the write, challenge bytes.\<close>

record auth_draw =
  ad_now :: int
  ad_ids :: "string list"
  ad_saved :: bool
  ad_challenge :: string

type_synonym pending = "(string \<times> string) option"

definition signature_valid :: "('vk, 'sg) crypto \<Rightarrow> 'vk \<Rightarrow> string \<Rightarrow> string \<Rightarrow> bool" where
  "signature_valid cr vk challenge signature_b64 =
     (case cr_unb64 cr signature_b64 of
        None \<Rightarrow> False
      | Some bytes \<Rightarrow>
          (case cr_sig cr bytes of None \<Rightarrow> False | Some sg \<Rightarrow> cr_verify cr vk challenge sg))"

fun auth_request_step ::
  "('vk, 'sg) crypto \<Rightarrow> auth_draw \<Rightarrow> auth_request \<Rightarrow> pending \<Rightarrow> auth_state
     \<Rightarrow> (auth_verdict \<times> auth_state) option" where
  "auth_request_step cr d (AQ_LocalToken token) pend st =
     Some (if constant_time_eq (cr_sha256 cr token) (as_token_digest st) then Au_Accept None None
           else Au_Deny ''invalid token'', st)"
| "auth_request_step cr d (AQ_Pair code public_key_b64 client_name) pend st =
     (let (redeemed, codes) = redeem_at code (ad_now d) (as_pairing st);
          st1 = st\<lparr>as_pairing := codes\<rparr> in
      if \<not> redeemed then Some (Au_Deny ''invalid or expired pairing code'', st1)
      else if parse_public_key cr public_key_b64 = None then Some (Au_Deny ''invalid public key'', st1)
      else case keys_add (ad_ids d) (ad_saved d) public_key_b64 client_name (as_keys st1) of
        None \<Rightarrow> None
      | Some (Inr key_id, ak) \<Rightarrow> Some (Au_Accept (Some key_id) (nonempty client_name), st1\<lparr>as_keys := ak\<rparr>)
      | Some (Inl _, ak) \<Rightarrow> Some (Au_Deny ''could not persist the public key'', st1\<lparr>as_keys := ak\<rparr>))"
| "auth_request_step cr d (AQ_Challenge key_id) pend st =
     Some (if verifying_key cr (as_keys st) key_id = None then Au_Deny ''unknown key''
           else Au_Challenge key_id (ad_challenge d), st)"
| "auth_request_step cr d (AQ_Signature key_id signature_b64) pend st =
     Some (case pend of
             None \<Rightarrow> Au_Deny ''no pending challenge''
           | Some (pending_id, challenge) \<Rightarrow>
               if pending_id \<noteq> key_id then Au_Deny ''challenge does not match this key''
               else case verifying_key cr (as_keys st) key_id of
                 None \<Rightarrow> Au_Deny ''unknown key''
               | Some vk \<Rightarrow>
                   if signature_valid cr vk challenge signature_b64
                   then Au_Accept (Some key_id) (key_client_name (as_keys st) key_id)
                   else Au_Deny ''invalid signature'', st)"

section \<open>Digests, codes and the registry\<close>

lemma or_eq_0: "or (a :: 'a::len word) b = 0 \<longleftrightarrow> a = 0 \<and> b = 0"
proof
  assume "or a b = 0"
  then have "\<not> bit (or a b) n" for n by simp
  then show "a = 0 \<and> b = 0" by (auto simp: bit_or_iff intro: bit_word_eqI)
qed simp

lemma xor_eq_0: "xor (a :: 'a::len word) b = 0 \<longleftrightarrow> a = b"
proof
  assume "xor a b = 0"
  then have "xor (xor a b) b = b" by simp
  then show "a = b" by (simp add: xor.assoc)
qed simp

lemma foldl_or_eq_0:
  "foldl (\<lambda>acc (x, y). or acc (xor x y)) c (zip a b) = 0 \<longleftrightarrow>
     (c :: 'a::len word) = 0 \<and> (\<forall>(x, y)\<in>set (zip a b). x = y)"
  by (induction a b arbitrary: c rule: list_induct2') (auto simp: or_eq_0 xor_eq_0)

lemma zip_all_eq: "length a = length b \<Longrightarrow> (\<forall>(x, y)\<in>set (zip a b). x = y) \<longleftrightarrow> a = b"
  by (induction a b rule: list_induct2) auto

lemma constant_time_eq_iff: "length a = length b \<Longrightarrow> constant_time_eq a b \<longleftrightarrow> a = b"
  by (simp add: constant_time_eq_def foldl_or_eq_0 zip_all_eq)

text \<open>
  C26: the comparison that looks at every byte of two digests decides whether they are equal.
\<close>

theorem constant_time_eq_exact:
  assumes "length a = 32" and "length b = 32"
  shows "constant_time_eq a b \<longleftrightarrow> a = b"
  using assms by (simp add: constant_time_eq_iff)

theorem constant_time_eq_exact_witness:
  "\<not> constant_time_eq (replicate 32 7) (replicate 31 7 @ [6])"
  using constant_time_eq_exact [of "replicate 32 7" "replicate 31 7 @ [6]"]
  by (simp add: replicate_append_same flip: replicate_Suc) (simp add: numeral_eq_Suc)

lemma fresh_id_new: "fresh_id recs ids = Some i \<Longrightarrow> map_of recs i = None"
  by (induction recs ids rule: fresh_id.induct) (auto split: if_splits)

lemma keys_add_cases:
  assumes "keys_add ids ok k c ak = Some (r, ak')"
  obtains i where "fresh_id (ak_records ak) ids = Some i"
    "ak_records ak' = bt_insert i \<lparr>kr_public_key_b64 = k, kr_client_name = c\<rparr> (ak_records ak)"
    "r = (if ok then Inr i else Inl (Fe_Io ''write failed''))"
    "ak_file ak' = (if ok then ak_records ak' else ak_file ak)"
  using assms by (auto simp: keys_add_def keys_save_def Let_def split: option.splits if_splits)

lemma redeem_single_use: "\<not> fst (redeem_at code t (snd (redeem_at code t' codes)))"
  by (simp add: redeem_at_def)

lemma redeem_fresh:
  "fst (redeem_at code t codes) \<longleftrightarrow> (\<exists>issued. codes code = Some issued \<and> t - issued \<le> PAIRING_CODE_TTL)"
  by (auto simp: redeem_at_def PAIRING_CODE_TTL_def split: option.splits)

end
