(* ===== verification/Silo_Server.thy ===== *)
theory Silo_Server
  imports Silo_Auth Silo_Pump
begin

text \<open>
  The interactive frontend (\<open>silo-frontend/src/interactive/mod.rs\<close> and \<open>connection.rs\<close>): the state
  its connections share, what it does with every message of a client, the two tools it runs, and
  the machine in which connections, tool calls, the cost watcher and the harness take turns.

  A pending question holds a one-shot channel; \<open>sh_channels\<close> lists the channels of all questions
  asked so far, and a question id in \<open>sh_questions\<close> points to the channel its answer goes to. Text
  frames are decoded by \<open>serde_json\<close>: the decoders are arguments, collected in \<open>server_env\<close>.
\<close>

section \<open>Shared state\<close>

datatype channel_state =
    Ch_Waiting
  | Ch_Answered string
  | Ch_Interrupted
  | Ch_Cancelled
  | Ch_Gone

record question_channel =
  qc_id :: string
  qc_state :: channel_state

record shared =
  sh_harness_id :: string
  sh_bus :: event_bus
  sh_commands :: "frontend_command list"
  sh_access :: access_report
  sh_auth :: auth_state
  sh_questions :: "string \<rightharpoonup> nat"
  sh_channels :: "question_channel list"
  sh_cost :: "(string \<times> cost_entry) list"
  sh_cost_next :: u64
  sh_cost_cursor :: nat
  sh_prompts :: "string list"
  sh_shutdown :: bool
  sh_shutdown_message :: "string option"

definition PROTOCOL_VERSION :: u32 where
  "PROTOCOL_VERSION = 1"

definition sh_emit :: "event_payload \<Rightarrow> shared \<Rightarrow> shared" where
  "sh_emit p sh = sh\<lparr>sh_bus := emit p (sh_bus sh)\<rparr>"

section \<open>Questions\<close>

definition set_channel :: "nat \<Rightarrow> channel_state \<Rightarrow> shared \<Rightarrow> shared" where
  "set_channel k st sh =
     sh\<lparr>sh_channels := (sh_channels sh)[k := (sh_channels sh ! k)\<lparr>qc_state := st\<rparr>]\<rparr>"

definition channel_waits :: "nat \<Rightarrow> shared \<Rightarrow> bool" where
  "channel_waits k sh = (qc_state (sh_channels sh ! k) = Ch_Waiting)"

text \<open>A sender that is dropped without sending cancels the wait, if anyone still waits.\<close>

definition drop_sender :: "nat option \<Rightarrow> shared \<Rightarrow> shared" where
  "drop_sender ko sh =
     (case ko of None \<Rightarrow> sh | Some k \<Rightarrow> if channel_waits k sh then set_channel k Ch_Cancelled sh else sh)"

definition ask_question :: "agent_id \<Rightarrow> user_question \<Rightarrow> string \<Rightarrow> shared \<Rightarrow> nat \<times> shared" where
  "ask_question agent q qid sh =
     (let sh1 = drop_sender (sh_questions sh qid) sh; k = length (sh_channels sh1);
          sh2 = sh1\<lparr>sh_questions := (sh_questions sh1)(qid \<mapsto> k),
                    sh_channels := sh_channels sh1 @ [\<lparr>qc_id = qid, qc_state = Ch_Waiting\<rparr>]\<rparr> in
      (k, sh_emit (EP_QuestionAsked qid agent q) sh2))"

text \<open>One resolution of a pending question: the entry is taken, and the event follows if anyone waited.\<close>

definition resolve_question :: "string \<Rightarrow> channel_state \<Rightarrow> event_payload \<Rightarrow> shared \<Rightarrow> shared" where
  "resolve_question qid st p sh =
     (case sh_questions sh qid of
        None \<Rightarrow> sh
      | Some k \<Rightarrow>
          (let sh1 = sh\<lparr>sh_questions := (sh_questions sh)(qid := None)\<rparr> in
           if channel_waits k sh1 then sh_emit p (set_channel k st sh1) else sh1))"

text \<open>What a call that waits on a channel returns once the channel is settled.\<close>

fun question_result :: "channel_state \<Rightarrow> (frontend_error + tool_output) option" where
  "question_result Ch_Waiting = None"
| "question_result (Ch_Answered a) = Some (Inr (output_ok a))"
| "question_result Ch_Interrupted = Some (Inr (output_error INTERRUPTED_BY_USER))"
| "question_result Ch_Cancelled = Some (Inl (Fe_Closed ''the question was cancelled by shutdown''))"
| "question_result Ch_Gone = Some (Inl (Fe_Closed ''the frontend is shutting down''))"

text \<open>The shutdown branch of a waiting call: its entry is removed and its receiver dropped.\<close>

definition abandon_question :: "nat \<Rightarrow> shared \<Rightarrow> shared" where
  "abandon_question k sh =
     (let sh1 = set_channel k Ch_Gone sh; qid = qc_id (sh_channels sh ! k) in
      drop_sender (sh_questions sh1 qid) (sh1\<lparr>sh_questions := (sh_questions sh1)(qid := None)\<rparr>))"

section \<open>Messages of a client\<close>

record ('vk, 'sg) server_env =
  se_crypto :: "('vk, 'sg) crypto"
  se_message :: "string \<Rightarrow> client_message option"
  se_question :: "json \<Rightarrow> string + user_question"

text \<open>The replies queued for the client, and the state afterwards.\<close>

fun handle_message ::
  "nat list \<Rightarrow> int \<Rightarrow> client_message \<Rightarrow> string \<Rightarrow> string option \<Rightarrow> shared
     \<Rightarrow> server_message list \<times> shared" where
  "handle_message rs t (CM_Authenticate _) cid cname sh = ([SM_Error ''already authenticated''], sh)"
| "handle_message rs t (CM_Prompt msg) cid cname sh =
     (let sh1 = sh_emit (EP_UserPrompt (Some cid) cname msg) sh in
      ([], sh1\<lparr>sh_prompts := sh_prompts sh1 @ [msg]\<rparr>))"
| "handle_message rs t (CM_AnswerQuestion qid answer) cid cname sh =
     ([], resolve_question qid (Ch_Answered answer) (EP_QuestionAnswered qid (Some cid) answer) sh)"
| "handle_message rs t CM_Interrupt cid cname sh =
     ([], sh\<lparr>sh_commands := sh_commands sh @ [Cmd_Interrupt]\<rparr>)"
| "handle_message rs t (CM_UploadFile name content) cid cname sh =
     ([], sh_emit (EP_FileShared name content (FO_Client cid)) sh)"
| "handle_message rs t (CM_RequestEvents from_seq) cid cname sh = ([SM_Events (since (sh_bus sh) from_seq)], sh)"
| "handle_message rs t CM_RequestAccessReport cid cname sh = ([SM_AccessReport (sh_access sh)], sh)"
| "handle_message rs t CM_RequestCost cid cname sh = ([SM_Cost (map snd (sh_cost sh))], sh)"
| "handle_message rs t CM_RequestPairingCode cid cname sh =
     (let (code, codes) = mint_at rs t (as_pairing (sh_auth sh)) in
      ([SM_PairingCode code (of_int (PAIRING_CODE_TTL div 1000000000))],
       sh\<lparr>sh_auth := (sh_auth sh)\<lparr>as_pairing := codes\<rparr>\<rparr>))"
| "handle_message rs t CM_Shutdown cid cname sh =
     ([], sh\<lparr>sh_commands := sh_commands sh @ [Cmd_Shutdown None]\<rparr>)"
| "handle_message rs t (CM_Ping nonce) cid cname sh = ([SM_Pong nonce], sh)"

section \<open>Tools of the frontend\<close>

text \<open>
  \<open>Path::file_name\<close>: the last component of a path, when it is a name. Empty components and dots do
  not count.
\<close>

definition path_file_name :: "string \<Rightarrow> string option" where
  "path_file_name p =
     (case filter (\<lambda>c. c \<noteq> [] \<and> c \<noteq> ''.'') (path_components p) of
        [] \<Rightarrow> None
      | cs \<Rightarrow> if last cs = ''..'' then None else Some (last cs))"

definition parse_send_user_file :: "json \<Rightarrow> string + (string \<times> string)" where
  "parse_send_user_file input =
     (case json_get_str input ''path'' of
        None \<Rightarrow> Inl ''SendUserFile requires a 'path' string''
      | Some path \<Rightarrow>
          if path = [] then Inl ''SendUserFile requires a 'path' string''
          else case path_file_name path of
            None \<Rightarrow> Inl (''the path '' @ debug_str path @ '' has no file name'')
          | Some name \<Rightarrow>
              (case json_get_str input ''content_b64'' of
                 None \<Rightarrow> Inl ''SendUserFile input is missing 'content_b64' (the harness injects the file content)''
               | Some content \<Rightarrow> Inr (name, content)))"

datatype tool_progress = TP_Done "frontend_error + tool_output" | TP_Waits nat

definition run_tool ::
  "('vk, 'sg) server_env \<Rightarrow> agent_id \<Rightarrow> tool_call \<Rightarrow> string \<Rightarrow> shared \<Rightarrow> tool_progress \<times> shared" where
  "run_tool env agent call qid sh =
     (if tc_name call = ''AskUserQuestion'' then
        (case se_question env (tc_input call) of
           Inl e \<Rightarrow> (TP_Done (Inr (output_error (''invalid AskUserQuestion input: '' @ e))), sh)
         | Inr q \<Rightarrow>
             if sh_shutdown sh then (TP_Done (Inl (Fe_Closed ''the frontend is shutting down'')), sh)
             else let (k, sh1) = ask_question agent q qid sh in (TP_Waits k, sh1))
      else if tc_name call = ''SendUserFile'' then
        (case parse_send_user_file (tc_input call) of
           Inl e \<Rightarrow> (TP_Done (Inr (output_error e)), sh)
         | Inr (name, content) \<Rightarrow>
             (TP_Done (Inr (output_ok (''sent '' @ name @ '' to the user''))),
              sh_emit (EP_FileShared name content (FO_Llm agent)) sh))
      else (TP_Done (Inr (output_error (''unknown frontend tool: '' @ tc_name call))), sh))"

text \<open>
  \<open>interrupt\<close> takes every pending question; the map gives them in no particular order, which is the
  argument.
\<close>

fun interrupt_questions :: "string list \<Rightarrow> shared \<Rightarrow> shared" where
  "interrupt_questions [] sh = sh"
| "interrupt_questions (qid # ids) sh =
     interrupt_questions ids
       (resolve_question qid Ch_Interrupted (EP_QuestionAnswered qid None INTERRUPTED_ANSWER) sh)"

definition pending_ids :: "shared \<Rightarrow> string list" where
  "pending_ids sh =
     map (\<lambda>(k, c). qc_id c)
       (filter (\<lambda>(k, c). sh_questions sh (qc_id c) = Some k) (enumerate 0 (sh_channels sh)))"

definition next_user_input :: "shared \<Rightarrow> (frontend_error + string) option \<times> shared" where
  "next_user_input sh =
     (if sh_shutdown sh then (Some (Inl (Fe_Closed ''the frontend is shutting down'')), sh)
      else case sh_prompts sh of
        [] \<Rightarrow> (None, sh)
      | p # ps \<Rightarrow> (Some (Inr p), sh\<lparr>sh_prompts := ps\<rparr>))"

text \<open>\<open>shutdown\<close>: clearing the map drops every sender that is still in it.\<close>

definition clear_questions :: "shared \<Rightarrow> shared" where
  "clear_questions sh =
     sh\<lparr>sh_questions := Map.empty,
        sh_channels := map (\<lambda>(k, c). if sh_questions sh (qc_id c) = Some k \<and> qc_state c = Ch_Waiting
                                     then c\<lparr>qc_state := Ch_Cancelled\<rparr> else c)
                         (enumerate 0 (sh_channels sh))\<rparr>"

definition server_shutdown :: "string option \<Rightarrow> shared \<Rightarrow> shared" where
  "server_shutdown msg sh = clear_questions (sh\<lparr>sh_shutdown_message := msg, sh_shutdown := True\<rparr>)"

section \<open>The cost cache\<close>

definition apply_cost :: "event_payload \<Rightarrow> (string \<times> cost_entry) list \<Rightarrow> (string \<times> cost_entry) list" where
  "apply_cost p cost =
     (case p of
        EP_CostReport backend usage quota \<Rightarrow>
          bt_insert backend \<lparr>ce_backend = backend, ce_usage = usage, ce_quota = quota\<rparr> cost
      | _ \<Rightarrow> cost)"

fun apply_costs :: "event list \<Rightarrow> u64 \<times> (string \<times> cost_entry) list \<Rightarrow> u64 \<times> (string \<times> cost_entry) list" where
  "apply_costs [] nc = nc"
| "apply_costs (e # es) (n, cost) = apply_costs es (ev_seq e + 1, apply_cost (ev_payload e) cost)"

fun cost_turn ::
  "event_bus \<Rightarrow> recv_result \<Rightarrow> u64 \<times> (string \<times> cost_entry) list \<Rightarrow> u64 \<times> (string \<times> cost_entry) list" where
  "cost_turn b (Recv_Ok e) (n, cost) =
     (if ev_seq e \<ge> n then (ev_seq e + 1, apply_cost (ev_payload e) cost) else (n, cost))"
| "cost_turn b Recv_Lagged (n, cost) = apply_costs (since b n) (n, cost)"

definition cost_watch :: "shared \<Rightarrow> shared option" where
  "cost_watch sh =
     (if sh_shutdown sh then None
      else case broadcast_recv BUS_CAPACITY (bus_sent (sh_bus sh)) (sh_cost_cursor sh) of
        None \<Rightarrow> None
      | Some (r, cur) \<Rightarrow>
          (let (n, cost) = cost_turn (sh_bus sh) r (sh_cost_next sh, sh_cost sh) in
           Some (sh\<lparr>sh_cost_cursor := cur, sh_cost_next := n, sh_cost := cost\<rparr>)))"

section \<open>Connections\<close>

datatype conn_phase =
    Ph_Auth pending
  | Ph_Open string "string option"
  | Ph_Closed

record conn =
  cn_phase :: conn_phase
  cn_sent :: "server_message list"

datatype frame = Fr_Text string | Fr_Close | Fr_Other | Fr_Failed

text \<open>What the handling of a frame may draw besides: codes, the client id, the outcome of a send.\<close>

record frame_draw =
  fd_auth :: auth_draw
  fd_code :: "nat list"
  fd_client_id :: string
  fd_send_ok :: bool

definition conn_say :: "server_message list \<Rightarrow> conn_phase \<Rightarrow> conn \<Rightarrow> conn" where
  "conn_say ms ph c = c\<lparr>cn_phase := ph, cn_sent := cn_sent c @ ms\<rparr>"

definition deny :: "string \<Rightarrow> conn \<Rightarrow> conn" where
  "deny msg c = conn_say [SM_AuthError msg] Ph_Closed c"

definition hello :: "shared \<Rightarrow> conn" where
  "hello sh =
     \<lparr>cn_phase = (if sh_shutdown sh then Ph_Closed else Ph_Auth None),
      cn_sent = [SM_Hello (sh_harness_id sh) PROTOCOL_VERSION]\<rparr>"

text \<open>The verdict on a request, applied to the connection.\<close>

fun auth_verdict_conn :: "('vk, 'sg) server_env \<Rightarrow> frame_draw \<Rightarrow> auth_verdict \<Rightarrow> shared \<Rightarrow> conn \<Rightarrow> conn" where
  "auth_verdict_conn env d (Au_Accept key_id name) sh c =
     (if fd_send_ok d
      then conn_say [SM_AuthOk (fd_client_id d) key_id (next_seq (sh_bus sh))] (Ph_Open (fd_client_id d) name) c
      else conn_say [] Ph_Closed c)"
| "auth_verdict_conn env d (Au_Deny msg) sh c = deny msg c"
| "auth_verdict_conn env d (Au_Challenge key_id challenge) sh c =
     (if fd_send_ok d
      then conn_say [SM_AuthChallenge (cr_b64 (se_crypto env) challenge)] (Ph_Auth (Some (key_id, challenge))) c
      else conn_say [] Ph_Closed c)"

definition auth_frame ::
  "('vk, 'sg) server_env \<Rightarrow> frame_draw \<Rightarrow> frame \<Rightarrow> pending \<Rightarrow> conn \<Rightarrow> shared \<Rightarrow> (conn \<times> shared) option" where
  "auth_frame env d fr pend c sh =
     (case fr of
        Fr_Text msg \<Rightarrow>
          (case se_message env msg of
             Some (CM_Authenticate auth) \<Rightarrow>
               (case auth_request_step (se_crypto env) (fd_auth d) auth pend (sh_auth sh) of
                  None \<Rightarrow> None
                | Some (v, st) \<Rightarrow> Some (auth_verdict_conn env d v sh c, sh\<lparr>sh_auth := st\<rparr>))
           | Some _ \<Rightarrow> Some (deny ''authentication required'' c, sh)
           | None \<Rightarrow> Some (deny ''malformed message'' c, sh))
      | Fr_Other \<Rightarrow> Some (c, sh)
      | _ \<Rightarrow> Some (conn_say [] Ph_Closed c, sh))"

definition open_frame ::
  "('vk, 'sg) server_env \<Rightarrow> frame_draw \<Rightarrow> frame \<Rightarrow> string \<Rightarrow> string option \<Rightarrow> conn \<Rightarrow> shared
     \<Rightarrow> conn \<times> shared" where
  "open_frame env d fr cid cname c sh =
     (case fr of
        Fr_Text msg \<Rightarrow>
          (case se_message env msg of
             Some m \<Rightarrow>
               (let (replies, sh1) = handle_message (fd_code d) (ad_now (fd_auth d)) m cid cname sh in
                (conn_say replies (cn_phase c) c, sh1))
           | None \<Rightarrow> (conn_say [SM_Error ''unrecognized message''] (cn_phase c) c, sh))
      | Fr_Other \<Rightarrow> (c, sh)
      | _ \<Rightarrow> (conn_say [] Ph_Closed c, sh))"

section \<open>The machine\<close>

record server =
  sv_shared :: shared
  sv_conns :: "conn list"

datatype server_action =
    SV_Connect
  | SV_Frame nat frame frame_draw
  | SV_Timeout nat
  | SV_Notice nat
  | SV_Mint "nat list" int
  | SV_Tool agent_id tool_call string
  | SV_Abandon nat
  | SV_Interrupt "string list"
  | SV_NextInput
  | SV_Watch
  | SV_Emitted event_payload
  | SV_Shutdown "string option"

definition with_shared :: "shared \<Rightarrow> server \<Rightarrow> server" where
  "with_shared sh s = s\<lparr>sv_shared := sh\<rparr>"

definition with_conn :: "nat \<Rightarrow> conn \<Rightarrow> server \<Rightarrow> server" where
  "with_conn i c s = s\<lparr>sv_conns := (sv_conns s)[i := c]\<rparr>"

definition serve_frame ::
  "('vk, 'sg) server_env \<Rightarrow> nat \<Rightarrow> frame \<Rightarrow> frame_draw \<Rightarrow> server \<Rightarrow> server option" where
  "serve_frame env i fr d s =
     (if i < length (sv_conns s) \<and> draws_ok (fd_code d)
      then (let c = sv_conns s ! i in
            case cn_phase c of
              Ph_Auth pend \<Rightarrow>
                (case auth_frame env d fr pend c (sv_shared s) of
                   None \<Rightarrow> None
                 | Some (c1, sh) \<Rightarrow> Some (with_conn i c1 (with_shared sh s)))
            | Ph_Open cid cname \<Rightarrow>
                (let (c1, sh) = open_frame env d fr cid cname c (sv_shared s) in
                 Some (with_conn i c1 (with_shared sh s)))
            | Ph_Closed \<Rightarrow> None)
      else None)"

text \<open>
  \<open>SV_Emitted\<close> is an event of another component of the session, which never answers questions.
\<close>

fun server_exec :: "('vk, 'sg) server_env \<Rightarrow> server_action \<Rightarrow> server \<Rightarrow> server option" where
  "server_exec env SV_Connect s = Some (s\<lparr>sv_conns := sv_conns s @ [hello (sv_shared s)]\<rparr>)"
| "server_exec env (SV_Frame i fr d) s = serve_frame env i fr d s"
| "server_exec env (SV_Timeout i) s =
     (if i < length (sv_conns s)
      then (case cn_phase (sv_conns s ! i) of
              Ph_Auth _ \<Rightarrow> Some (with_conn i (deny ''authentication timed out'' (sv_conns s ! i)) s)
            | _ \<Rightarrow> None)
      else None)"
| "server_exec env (SV_Notice i) s =
     (if i < length (sv_conns s) \<and> sh_shutdown (sv_shared s)
      then Some (with_conn i (conn_say [] Ph_Closed (sv_conns s ! i)) s) else None)"
| "server_exec env (SV_Mint rs t) s =
     (if draws_ok rs
      then (let sh = sv_shared s; (code, codes) = mint_at rs t (as_pairing (sh_auth sh)) in
            Some (with_shared (sh\<lparr>sh_auth := (sh_auth sh)\<lparr>as_pairing := codes\<rparr>\<rparr>) s))
      else None)"
| "server_exec env (SV_Tool agent call qid) s =
     Some (with_shared (snd (run_tool env agent call qid (sv_shared s))) s)"
| "server_exec env (SV_Abandon k) s =
     (if k < length (sh_channels (sv_shared s)) \<and> sh_shutdown (sv_shared s) \<and> channel_waits k (sv_shared s)
      then Some (with_shared (abandon_question k (sv_shared s)) s) else None)"
| "server_exec env (SV_Interrupt ids) s =
     (if distinct ids \<and> set ids = set (pending_ids (sv_shared s))
      then Some (with_shared (interrupt_questions ids (sv_shared s)) s) else None)"
| "server_exec env SV_NextInput s = Some (with_shared (snd (next_user_input (sv_shared s))) s)"
| "server_exec env SV_Watch s =
     (case cost_watch (sv_shared s) of None \<Rightarrow> None | Some sh \<Rightarrow> Some (with_shared sh s))"
| "server_exec env (SV_Emitted p) s =
     (if payload_kind p = ''question_answered'' then None
      else Some (with_shared (sh_emit p (sv_shared s)) s))"
| "server_exec env (SV_Shutdown msg) s = Some (with_shared (server_shutdown msg (sv_shared s)) s)"

fun server_run :: "('vk, 'sg) server_env \<Rightarrow> server_action list \<Rightarrow> server \<Rightarrow> server option" where
  "server_run env [] s = Some s"
| "server_run env (a # as) s =
     (case server_exec env a s of None \<Rightarrow> None | Some s1 \<Rightarrow> server_run env as s1)"

definition shared_start :: "string \<Rightarrow> event_bus \<Rightarrow> access_report \<Rightarrow> u8 list \<Rightarrow> authorized_keys \<Rightarrow> shared" where
  "shared_start hid b access digest keys =
     (let (n, cost) = apply_costs (since b 0) (0, []) in
      \<lparr>sh_harness_id = hid, sh_bus = b, sh_commands = [], sh_access = access,
       sh_auth = \<lparr>as_token_digest = digest, as_pairing = Map.empty, as_keys = keys\<rparr>,
       sh_questions = Map.empty, sh_channels = [], sh_cost = cost, sh_cost_next = n,
       sh_cost_cursor = length (bus_sent b), sh_prompts = [], sh_shutdown = False,
       sh_shutdown_message = None\<rparr>)"

definition server_start :: "shared \<Rightarrow> server" where
  "server_start sh = \<lparr>sv_shared = sh, sv_conns = []\<rparr>"

section \<open>Frames\<close>

lemma server_run_snoc:
  "server_run env (as @ [a]) s =
     (case server_run env as s of None \<Rightarrow> None | Some s1 \<Rightarrow> server_exec env a s1)"
  by (induction "as" arbitrary: s) (auto split: option.splits)

lemma with_simps [simp]:
  "sv_conns (with_shared sh s) = sv_conns s" "sv_shared (with_shared sh s) = sh"
  "with_shared (sv_shared s) s = s" "sv_shared (with_conn i c s) = sv_shared s" "sv_conns (with_conn i c s) = (sv_conns s)[i := c]"
  by (simp_all add: with_shared_def with_conn_def)

lemma conn_say_simps [simp]:
  "cn_phase (conn_say ms ph c) = ph" "cn_sent (conn_say ms ph c) = cn_sent c @ ms"
  by (simp_all add: conn_say_def)

lemma deny_simps [simp]:
  "cn_phase (deny m c) = Ph_Closed" "cn_sent (deny m c) = cn_sent c @ [SM_AuthError m]"
  by (simp_all add: deny_def)

text \<open>What can become of a connection in one action.\<close>

fun frame_target :: "server_action \<Rightarrow> nat option" where
  "frame_target (SV_Frame i _ _) = Some i"
| "frame_target (SV_Timeout i) = Some i"
| "frame_target (SV_Notice i) = Some i"
| "frame_target _ = None"

lemma server_exec_conns:
  assumes "server_exec env a s = Some s'" and "frame_target a = None"
  shows "sv_conns s' = sv_conns s \<or> sv_conns s' = sv_conns s @ [hello (sv_shared s)]"
  using assms by (cases a) (auto simp: Let_def split_beta split: if_splits option.splits)

lemma server_exec_target:
  assumes "server_exec env a s = Some s'" and "frame_target a = Some i"
  shows "i < length (sv_conns s) \<and> (\<exists>c. sv_conns s' = (sv_conns s)[i := c])"
  using assms
  by (cases a)
    (auto simp: serve_frame_def Let_def split_beta split: if_splits conn_phase.splits option.splits prod.splits)

text \<open>A request that is accepted was justified in the state it found.\<close>

fun credential_ok ::
  "('vk, 'sg) crypto \<Rightarrow> auth_draw \<Rightarrow> auth_state \<Rightarrow> pending \<Rightarrow> auth_request \<Rightarrow> bool" where
  "credential_ok cr d st pend (AQ_LocalToken token) = constant_time_eq (cr_sha256 cr token) (as_token_digest st)"
| "credential_ok cr d st pend (AQ_Pair code public_key_b64 _) =
     ((case as_pairing st code of
         None \<Rightarrow> False | Some issued \<Rightarrow> max 0 (ad_now d - issued) \<le> PAIRING_CODE_TTL) \<and>
      parse_public_key cr public_key_b64 \<noteq> None)"
| "credential_ok cr d st pend (AQ_Challenge _) = False"
| "credential_ok cr d st pend (AQ_Signature key_id signature_b64) =
     (case pend of None \<Rightarrow> False
      | Some (pending_id, challenge) \<Rightarrow>
          pending_id = key_id \<and>
          (case verifying_key cr (as_keys st) key_id of None \<Rightarrow> False
           | Some vk \<Rightarrow> signature_valid cr vk challenge signature_b64))"

lemma accept_justified:
  "auth_request_step cr d q pend st = Some (Au_Accept k nm, st') \<Longrightarrow> credential_ok cr d st pend q"
  by (cases q)
    (auto simp: Let_def redeem_at_def split: if_splits option.splits sum.splits prod.splits)

lemma auth_frame_opens:
  assumes "auth_frame env d fr pend c sh = Some (c', sh')" and "cn_phase c' = Ph_Open cid cname"
    and "cn_phase c = Ph_Auth pend"
  shows "\<exists>msg q. fr = Fr_Text msg \<and> se_message env msg = Some (CM_Authenticate q) \<and>
    credential_ok (se_crypto env) (fd_auth d) (sh_auth sh) pend q"
proof -
  obtain msg where fr: "fr = Fr_Text msg" using assms by (cases fr) (auto simp: auth_frame_def)
  then obtain q where q: "se_message env msg = Some (CM_Authenticate q)"
    using assms by (auto simp: auth_frame_def split: option.splits client_message.splits)
  then obtain v st where v: "auth_request_step (se_crypto env) (fd_auth d) q pend (sh_auth sh) = Some (v, st)"
    "c' = auth_verdict_conn env d v sh c"
    using assms fr by (auto simp: auth_frame_def split: option.splits)
  with assms(2) obtain k nm where "v = Au_Accept k nm" by (cases v) (auto split: if_splits)
  with v fr q show ?thesis using accept_justified by blast
qed

lemma serve_frame_phase:
  assumes "serve_frame env i fr d s = Some s'"
  obtains (auth) pend c' sh' where "cn_phase (sv_conns s ! i) = Ph_Auth pend"
      "auth_frame env d fr pend (sv_conns s ! i) (sv_shared s) = Some (c', sh')"
      "s' = with_conn i c' (with_shared sh' s)" "i < length (sv_conns s)" "draws_ok (fd_code d)"
    | (opened) cid cname c' sh' where "cn_phase (sv_conns s ! i) = Ph_Open cid cname"
      "open_frame env d fr cid cname (sv_conns s ! i) (sv_shared s) = (c', sh')"
      "s' = with_conn i c' (with_shared sh' s)" "i < length (sv_conns s)" "draws_ok (fd_code d)"
  using assms
  by (auto simp: serve_frame_def Let_def split: if_splits conn_phase.splits option.splits prod.splits)

lemma opened_by_frame:
  assumes "server_exec env a s = Some s'" and "i < length (sv_conns s')"
    and "cn_phase (sv_conns s' ! i) = Ph_Open cid cname"
    and "\<not> (i < length (sv_conns s) \<and> cn_phase (sv_conns s ! i) = Ph_Open cid cname)"
  obtains msg d q pend where "a = SV_Frame i (Fr_Text msg) d" "i < length (sv_conns s)"
    "se_message env msg = Some (CM_Authenticate q)" "cn_phase (sv_conns s ! i) = Ph_Auth pend"
    "credential_ok (se_crypto env) (fd_auth d) (sh_auth (sv_shared s)) pend q"
proof (cases "frame_target a")
  case None
  with server_exec_conns [OF assms(1)] assms(2-4) show ?thesis
    by (auto simp: nth_append hello_def split: if_splits)
next
  case (Some j)
  with server_exec_target [OF assms(1)] obtain c where j: "j < length (sv_conns s)" "sv_conns s' = (sv_conns s)[j := c]"
    by blast
  with assms have "j = i" by (cases "j = i") auto
  with Some assms(1,3) j(1) obtain fr d where a: "a = SV_Frame i fr d"
    by (cases a) (auto split: if_splits conn_phase.splits)
  with assms(1) have "serve_frame env i fr d s = Some s'" by simp
  then show ?thesis
  proof (cases rule: serve_frame_phase)
    case (auth pend c' sh')
    with assms(3) have "cn_phase c' = Ph_Open cid cname" by simp
    with auth a that show ?thesis using auth_frame_opens by blast
  next
    case (opened cid' cname' c' sh')
    then have "cn_phase c' \<in> {Ph_Open cid' cname', Ph_Closed}"
      by (auto simp: open_frame_def Let_def split: frame.splits option.splits prod.splits)
    with opened assms(3,4) j show ?thesis by auto
  qed
qed

section \<open>Who authenticates\<close>

lemma sh_auth_simps [simp]:
  "sh_auth (sh_emit p sh) = sh_auth sh" "sh_auth (set_channel k st sh) = sh_auth sh"
  "sh_auth (drop_sender ko sh) = sh_auth sh" "sh_auth (snd (ask_question ag q qid sh)) = sh_auth sh"
  "sh_auth (resolve_question qid st p sh) = sh_auth sh" "sh_auth (abandon_question k sh) = sh_auth sh"
  "sh_auth (snd (next_user_input sh)) = sh_auth sh" "sh_auth (server_shutdown m sh) = sh_auth sh"
  by (simp_all add: sh_emit_def set_channel_def drop_sender_def ask_question_def resolve_question_def
      abandon_question_def next_user_input_def server_shutdown_def clear_questions_def Let_def
      split: option.splits list.splits)

lemma sh_auth_interrupt [simp]: "sh_auth (interrupt_questions ids sh) = sh_auth sh"
  by (induction ids sh rule: interrupt_questions.induct) simp_all

lemma sh_auth_tool [simp]: "sh_auth (snd (run_tool env ag call qid sh)) = sh_auth sh"
  using sh_auth_simps(4) [of ag _ qid sh]
  by (auto simp: run_tool_def split_beta split: sum.splits prod.splits)

lemma sh_auth_watch: "cost_watch sh = Some sh' \<Longrightarrow> sh_auth sh' = sh_auth sh"
  by (auto simp: cost_watch_def split_beta Let_def split: if_splits option.splits)

lemma auth_step_digest:
  "auth_request_step cr d q pend st = Some (v, st') \<Longrightarrow> as_token_digest st' = as_token_digest st"
  by (cases q) (auto simp: Let_def split_beta split: if_splits option.splits sum.splits prod.splits)

lemma handle_message_digest:
  "as_token_digest (sh_auth (snd (handle_message rs t m cid cname sh))) = as_token_digest (sh_auth sh)"
  by (cases m) (auto simp: Let_def split_beta)

definition conn_wf :: "('vk, 'sg) server_env \<Rightarrow> conn \<Rightarrow> bool" where
  "conn_wf env c =
     (case cn_phase c of
        Ph_Auth (Some (_, challenge)) \<Rightarrow>
          cn_sent c \<noteq> [] \<and> last (cn_sent c) = SM_AuthChallenge (cr_b64 (se_crypto env) challenge)
      | _ \<Rightarrow> True)"

lemma conn_closed_wf [simp]: "cn_phase c = Ph_Closed \<Longrightarrow> conn_wf env c"
  by (simp add: conn_wf_def)

lemma auth_frame_wf:
  assumes "auth_frame env d fr pend c sh = Some (c', sh')" and "conn_wf env c"
  shows "conn_wf env c' \<and> as_token_digest (sh_auth sh') = as_token_digest (sh_auth sh)"
proof (cases fr)
  case (Fr_Text msg)
  show ?thesis
  proof (cases "se_message env msg")
    case None
    with assms Fr_Text show ?thesis by (auto simp: auth_frame_def conn_wf_def)
  next
    case (Some m)
    show ?thesis
    proof (cases m)
      case (CM_Authenticate q)
      then obtain v st where v: "auth_request_step (se_crypto env) (fd_auth d) q pend (sh_auth sh) = Some (v, st)"
        "c' = auth_verdict_conn env d v sh c" "sh' = sh\<lparr>sh_auth := st\<rparr>"
        using assms Fr_Text Some by (auto simp: auth_frame_def split: option.splits)
      then show ?thesis using auth_step_digest by (cases v) (auto simp: conn_wf_def)
    qed (use assms Fr_Text Some in \<open>auto simp: auth_frame_def conn_wf_def\<close>)
  qed
qed (use assms in \<open>auto simp: auth_frame_def conn_wf_def\<close>)

lemma open_frame_wf:
  assumes "open_frame env d fr cid cname c sh = (c', sh')" and "cn_phase c = Ph_Open cid cname"
  shows "conn_wf env c' \<and> as_token_digest (sh_auth sh') = as_token_digest (sh_auth sh)"
  using assms handle_message_digest
  by (auto simp: open_frame_def conn_wf_def Let_def split_beta split: frame.splits option.splits)

definition server_wf :: "('vk, 'sg) server_env \<Rightarrow> u8 list \<Rightarrow> server \<Rightarrow> bool" where
  "server_wf env digest s =
     (as_token_digest (sh_auth (sv_shared s)) = digest \<and> (\<forall>c\<in>set (sv_conns s). conn_wf env c))"

lemma server_wf_update:
  assumes "server_wf env digest s" and "i < length (sv_conns s)" and "conn_wf env c"
    and "as_token_digest (sh_auth sh) = as_token_digest (sh_auth (sv_shared s))"
  shows "server_wf env digest (with_conn i c (with_shared sh s))"
  using assms by (auto simp: server_wf_def dest!: set_mp [OF set_update_subset_insert])

lemma server_wf_frame:
  assumes "serve_frame env i fr d s = Some s'" and wf: "server_wf env digest s"
  shows "server_wf env digest s'"
  using assms(1)
proof (cases rule: serve_frame_phase)
  case (auth pend c' sh')
  then have "conn_wf env (sv_conns s ! i)" using wf by (simp add: server_wf_def)
  with auth show ?thesis using auth_frame_wf server_wf_update [OF wf] by metis
next
  case (opened cid cname c' sh')
  then show ?thesis using open_frame_wf server_wf_update [OF wf] by metis
qed

lemma server_wf_exec:
  assumes "server_exec env a s = Some s'" and "server_wf env digest s"
  shows "server_wf env digest s'"
proof (cases "frame_target a")
  case None
  have "as_token_digest (sh_auth (sv_shared s')) = as_token_digest (sh_auth (sv_shared s))"
    using assms(1) None sh_auth_watch
    by (cases a) (auto simp: Let_def split_beta split: if_splits option.splits)
  moreover have "\<forall>c\<in>set (sv_conns s'). conn_wf env c"
    using server_exec_conns [OF assms(1) None] assms(2) by (auto simp: server_wf_def hello_def conn_wf_def)
  ultimately show ?thesis using assms(2) by (simp add: server_wf_def)
next
  case (Some i)
  have "server_wf env digest (with_conn i c s)" if "conn_wf env c" "i < length (sv_conns s)" for c
    using server_wf_update [OF assms(2) that(2,1), of "sv_shared s"] by simp
  then show ?thesis
    using assms server_wf_frame Some by (cases a) (auto split: if_splits conn_phase.splits)
qed

lemma server_wf_run:
  "server_run env as s = Some s' \<Longrightarrow> server_wf env digest s \<Longrightarrow> server_wf env digest s'"
  by (induction "as" arbitrary: s) (auto intro: server_wf_exec split: option.splits)

lemma open_has_cause:
  assumes "server_run env as s = Some s'" and "sv_conns s = []" and "i < length (sv_conns s')"
    and "cn_phase (sv_conns s' ! i) = Ph_Open cid cname"
  shows "\<exists>pre msg d q post s1 pend. as = pre @ SV_Frame i (Fr_Text msg) d # post \<and>
    server_run env pre s = Some s1 \<and> i < length (sv_conns s1) \<and>
    se_message env msg = Some (CM_Authenticate q) \<and> cn_phase (sv_conns s1 ! i) = Ph_Auth pend \<and>
    credential_ok (se_crypto env) (fd_auth d) (sh_auth (sv_shared s1)) pend q"
  using assms
proof (induction "as" arbitrary: s' rule: rev_induct)
  case (snoc a "as")
  then obtain s1 where s1: "server_run env as s = Some s1" "server_exec env a s1 = Some s'"
    by (auto simp: server_run_snoc split: option.splits)
  show ?case
  proof (cases "i < length (sv_conns s1) \<and> cn_phase (sv_conns s1 ! i) = Ph_Open cid cname")
    case True
    with snoc.IH [OF s1(1) snoc.prems(2)] show ?thesis by (metis append_Cons append_assoc)
  next
    case False
    from opened_by_frame [OF s1(2) snoc.prems(3,4) False] s1(1) show ?thesis
      by (metis append_Nil2 append_Cons append_Nil)
  qed
qed simp

text \<open>
  C27: a client is let in only by a credential it presented itself in a text frame of its own
  connection: the local token (its digest is the one the frontend started with), a pairing code that
  was outstanding and at most 120 seconds old, or a signature, under a key registered at that moment,
  of the challenge that was the last thing the server said on this connection.
\<close>

theorem client_opened_by_credential:
  assumes "server_run env as (server_start sh) = Some s" and "i < length (sv_conns s)"
    and "cn_phase (sv_conns s ! i) = Ph_Open cid cname"
    and "\<And>x. length (cr_sha256 (se_crypto env) x) = 32" and "length (as_token_digest (sh_auth sh)) = 32"
  shows "\<exists>pre msg d q post s1. as = pre @ SV_Frame i (Fr_Text msg) d # post \<and>
    server_run env pre (server_start sh) = Some s1 \<and> se_message env msg = Some (CM_Authenticate q) \<and>
    (case q of
       AQ_LocalToken token \<Rightarrow> cr_sha256 (se_crypto env) token = as_token_digest (sh_auth sh)
     | AQ_Pair code key name \<Rightarrow>
         (\<exists>issued. as_pairing (sh_auth (sv_shared s1)) code = Some issued \<and>
            ad_now (fd_auth d) - issued \<le> PAIRING_CODE_TTL)
     | AQ_Challenge key_id \<Rightarrow> False
     | AQ_Signature key_id signature \<Rightarrow>
         (\<exists>vk challenge. verifying_key (se_crypto env) (as_keys (sh_auth (sv_shared s1))) key_id = Some vk \<and>
            last (cn_sent (sv_conns s1 ! i)) = SM_AuthChallenge (cr_b64 (se_crypto env) challenge) \<and>
            signature_valid (se_crypto env) vk challenge signature))"
proof -
  have "sv_conns (server_start sh) = []" by (simp add: server_start_def)
  from open_has_cause [OF assms(1) this assms(2,3)]
  obtain pre msg d q post s1 pend where run: "as = pre @ SV_Frame i (Fr_Text msg) d # post"
    "server_run env pre (server_start sh) = Some s1" "se_message env msg = Some (CM_Authenticate q)"
    and i: "i < length (sv_conns s1)" "cn_phase (sv_conns s1 ! i) = Ph_Auth pend"
    and ok: "credential_ok (se_crypto env) (fd_auth d) (sh_auth (sv_shared s1)) pend q"
    by blast
  have "server_wf env (as_token_digest (sh_auth sh)) (server_start sh)"
    by (simp add: server_wf_def server_start_def)
  with run(2) have "server_wf env (as_token_digest (sh_auth sh)) s1" by (rule server_wf_run)
  then have "as_token_digest (sh_auth (sv_shared s1)) = as_token_digest (sh_auth sh)"
    "conn_wf env (sv_conns s1 ! i)"
    using i by (auto simp: server_wf_def)
  with run ok i assms(4,5) show ?thesis
    by (intro exI [of _ pre] exI [of _ msg] exI [of _ d] exI [of _ q] exI [of _ post] exI [of _ s1])
      (auto simp: constant_time_eq_iff conn_wf_def PAIRING_CODE_TTL_def split: auth_request.splits option.splits)
qed

section \<open>Pairing codes are used once\<close>

text \<open>The actions that mint a code, and those that let a client in by it.\<close>

definition drawn_code :: "nat list \<Rightarrow> string" where
  "drawn_code rs = map (\<lambda>r. PAIRING_ALPHABET ! r) rs"

fun mints :: "('vk, 'sg) server_env \<Rightarrow> string \<Rightarrow> server_action \<Rightarrow> server \<Rightarrow> bool" where
  "mints env code (SV_Mint rs _) s = (drawn_code rs = code)"
| "mints env code (SV_Frame i (Fr_Text msg) d) s =
     ((case cn_phase (sv_conns s ! i) of Ph_Open _ _ \<Rightarrow> True | _ \<Rightarrow> False) \<and>
      se_message env msg = Some CM_RequestPairingCode \<and> drawn_code (fd_code d) = code)"
| "mints env code _ s = False"

fun pairs :: "('vk, 'sg) server_env \<Rightarrow> string \<Rightarrow> server_action \<Rightarrow> server \<Rightarrow> bool" where
  "pairs env code (SV_Frame i (Fr_Text msg) d) s =
     (case cn_phase (sv_conns s ! i) of
        Ph_Auth pend \<Rightarrow>
          (case se_message env msg of
             Some (CM_Authenticate (AQ_Pair c key name)) \<Rightarrow>
               c = code \<and>
               (case auth_request_step (se_crypto env) (fd_auth d) (AQ_Pair c key name) pend (sh_auth (sv_shared s)) of
                  Some (Au_Accept _ _, _) \<Rightarrow> True | _ \<Rightarrow> False)
           | _ \<Rightarrow> False)
      | _ \<Rightarrow> False)"
| "pairs env code _ s = False"

fun count_run ::
  "('vk, 'sg) server_env \<Rightarrow> (server_action \<Rightarrow> server \<Rightarrow> bool) \<Rightarrow> server_action list \<Rightarrow> server \<Rightarrow> nat" where
  "count_run env P [] s = 0"
| "count_run env P (a # as) s =
     (if P a s then 1 else 0) +
     (case server_exec env a s of None \<Rightarrow> 0 | Some s1 \<Rightarrow> count_run env P as s1)"

definition outstanding_code :: "string \<Rightarrow> auth_state \<Rightarrow> nat" where
  "outstanding_code code st = (if as_pairing st code = None then 0 else 1)"

lemma auth_step_outstanding:
  assumes "auth_request_step cr d q pend st = Some (v, st')"
  shows "(if \<exists>key name. q = AQ_Pair code key name \<and> (\<exists>k nm. v = Au_Accept k nm) then 1 else 0)
    + outstanding_code code st' \<le> outstanding_code code st"
  using assms
  by (cases q)
    (auto simp: outstanding_code_def redeem_at_def Let_def
      split: if_splits option.splits sum.splits prod.splits)

lemma mint_outstanding:
  "outstanding_code code (st\<lparr>as_pairing := snd (mint_at rs t (as_pairing st))\<rparr>)
     \<le> outstanding_code code st + (if drawn_code rs = code then 1 else 0)"
  by (auto simp: outstanding_code_def mint_at_def drawn_code_def Let_def)

lemma handle_message_outstanding:
  "outstanding_code code (sh_auth (snd (handle_message rs t m cid cname sh)))
     \<le> outstanding_code code (sh_auth sh) + (if m = CM_RequestPairingCode \<and> drawn_code rs = code then 1 else 0)"
  using mint_outstanding [where st = "sh_auth sh" and code = code and rs = rs and t = t]
  by (cases m) (auto simp: Let_def split_beta split: if_splits)

lemma exec_outstanding:
  assumes "server_exec env a s = Some s'"
  shows "(if pairs env code a s then 1 else 0) + outstanding_code code (sh_auth (sv_shared s'))
    \<le> outstanding_code code (sh_auth (sv_shared s)) + (if mints env code a s then 1 else 0)"
proof (cases "\<exists>i fr d. a = SV_Frame i fr d")
  case False
  show ?thesis
  proof (cases a)
    case (SV_Mint rs t)
    with assms show ?thesis
      using mint_outstanding [where st = "sh_auth (sv_shared s)" and code = code and rs = rs and t = t]
      by (auto simp: Let_def split_beta split: if_splits)
  qed (use assms False sh_auth_watch in \<open>auto split: if_splits option.splits conn_phase.splits\<close>)
next
  case True
  then obtain i fr d where a: "a = SV_Frame i fr d" by blast
  with assms have "serve_frame env i fr d s = Some s'" by simp
  then show ?thesis
  proof (cases rule: serve_frame_phase)
    case (auth pend c' sh')
    show ?thesis
    proof (cases "\<exists>msg q. fr = Fr_Text msg \<and> se_message env msg = Some (CM_Authenticate q)")
      case True
      then obtain msg q where q: "fr = Fr_Text msg" "se_message env msg = Some (CM_Authenticate q)" by blast
      with auth obtain v st where v: "sh' = (sv_shared s)\<lparr>sh_auth := st\<rparr>"
        "auth_request_step (se_crypto env) (fd_auth d) q pend (sh_auth (sv_shared s)) = Some (v, st)"
        by (auto simp: auth_frame_def split: option.splits)
      have "pairs env code a s \<longrightarrow> (\<exists>key name. q = AQ_Pair code key name \<and> (\<exists>k nm. v = Au_Accept k nm))"
        using a q v auth by (cases q; cases v) auto
      with auth_step_outstanding [OF v(2), of code] v(1) auth show ?thesis by (auto split: if_splits)
    next
      case False
      then have "sh' = sv_shared s" "\<not> pairs env code a s"
        using auth a by (auto simp: auth_frame_def split: frame.splits option.splits client_message.splits)
      with auth show ?thesis by simp
    qed
  next
    case (opened cid cname c' sh')
    then have "\<not> pairs env code a s" using a by (cases fr) auto
    moreover have "outstanding_code code (sh_auth sh') \<le> outstanding_code code (sh_auth (sv_shared s))
        + (if mints env code a s then 1 else 0)"
    proof (cases "\<exists>msg m. fr = Fr_Text msg \<and> se_message env msg = Some m")
      case True
      then obtain msg m where m: "fr = Fr_Text msg" "se_message env msg = Some m" by blast
      with opened have "sh' = snd (handle_message (fd_code d) (ad_now (fd_auth d)) m cid cname (sv_shared s))"
        by (auto simp: open_frame_def split_beta)
      moreover have "mints env code a s \<longleftrightarrow> m = CM_RequestPairingCode \<and> drawn_code (fd_code d) = code"
        using a m opened(1) by auto
      ultimately show ?thesis using handle_message_outstanding by simp
    next
      case False
      with opened(2) have "sh' = sv_shared s"
        by (auto simp: open_frame_def split: frame.splits option.splits)
      then show ?thesis by simp
    qed
    ultimately show ?thesis using opened by simp
  qed
qed

lemma count_outstanding:
  "server_run env as s = Some s' \<Longrightarrow>
     count_run env (pairs env code) as s + outstanding_code code (sh_auth (sv_shared s'))
       \<le> outstanding_code code (sh_auth (sv_shared s)) + count_run env (mints env code) as s"
proof (induction "as" arbitrary: s)
  case (Cons a "as")
  then obtain s1 where s1: "server_exec env a s = Some s1" "server_run env as s1 = Some s'"
    by (auto split: option.splits)
  from Cons.IH [OF s1(2)] exec_outstanding [OF s1(1), of code] s1(1) show ?case by simp
qed simp

text \<open>
  C28: a pairing code lets in at most as many clients as it was minted times, whatever else the
  clients send and however the connections interleave; a code minted once pairs one client at most.
\<close>

theorem pairing_code_single_use:
  assumes "server_run env as (server_start sh) = Some s" and "as_pairing (sh_auth sh) code = None"
  shows "count_run env (pairs env code) as (server_start sh)
    \<le> count_run env (mints env code) as (server_start sh)"
  using count_outstanding [OF assms(1), of code] assms(2)
  by (simp add: outstanding_code_def server_start_def)

section \<open>A session with two clients\<close>

text \<open>The first client enters with the token and asks for a code, the second pairs with it.\<close>

definition demo_crypto :: "(string, string) crypto" where
  "demo_crypto =
     \<lparr>cr_sha256 = (\<lambda>x. take 32 (map of_char x @ replicate 32 0)), cr_b64 = (\<lambda>x. x), cr_unb64 = Some,
      cr_key = Some, cr_sig = Some, cr_verify = (\<lambda>vk ch sg. sg = vk @ ch)\<rparr>"

definition demo_question :: user_question where
  "demo_question = \<lparr>uq_question = ''Go on?'', uq_options = [], uq_multi_select = False, uq_allow_free_text = True\<rparr>"

definition demo_messages :: "string \<Rightarrow> client_message option" where
  "demo_messages =
     map_of [(''token'', CM_Authenticate (AQ_LocalToken ''secret'')), (''code'', CM_RequestPairingCode),
       (''pair'', CM_Authenticate (AQ_Pair ''AAAAAAAA'' (replicate 32 CHR ''k'') ''phone'')),
       (''yes'', CM_AnswerQuestion ''q1'' ''yes''), (''no'', CM_AnswerQuestion ''q1'' ''no'')]"

definition demo_env :: "(string, string) server_env" where
  "demo_env = \<lparr>se_crypto = demo_crypto, se_message = demo_messages, se_question = (\<lambda>_. Inr demo_question)\<rparr>"

definition demo_draw :: "string \<Rightarrow> frame_draw" where
  "demo_draw cid =
     \<lparr>fd_auth = \<lparr>ad_now = 60 * 1000000000, ad_ids = [''id1'', ''id2''], ad_saved = True, ad_challenge = []\<rparr>,
      fd_code = replicate 8 0, fd_client_id = cid, fd_send_ok = True\<rparr>"

definition demo_bus :: event_bus where
  "demo_bus = bus_new \<lparr>jn_clock = FakeClock 0, jn_records = [], jn_next_seq = 0\<rparr>"

definition demo_access :: access_report where
  "demo_access =
     \<lparr>ar_sandbox_kind = ''mock'', ar_workspace_mount = [], ar_scratch_dir = [], ar_readable_paths = [],
      ar_allowed_domains = [], ar_credential_domains = [], ar_notes = []\<rparr>"

definition demo_shared :: shared where
  "demo_shared =
     shared_start ''h'' demo_bus demo_access (cr_sha256 demo_crypto ''secret'')
       \<lparr>ak_records = [], ak_file = []\<rparr>"

definition demo_actions :: "server_action list" where
  "demo_actions =
     [SV_Connect, SV_Frame 0 (Fr_Text ''token'') (demo_draw ''c1''), SV_Frame 0 (Fr_Text ''code'') (demo_draw ''c1''),
      SV_Connect, SV_Frame 1 (Fr_Text ''pair'') (demo_draw ''c2''),
      SV_Connect, SV_Frame 2 (Fr_Text ''pair'') (demo_draw ''c3''),
      SV_Tool ''agent-0'' \<lparr>tc_id = ''t'', tc_name = ''AskUserQuestion'', tc_input = JNull\<rparr> ''q1'',
      SV_Frame 1 (Fr_Text ''yes'') (demo_draw ''c2''), SV_Frame 0 (Fr_Text ''no'') (demo_draw ''c1'')]"

definition demo_end :: server where
  "demo_end = the (server_run demo_env demo_actions (server_start demo_shared))"

lemma server_demo_run: "server_run demo_env demo_actions (server_start demo_shared) = Some demo_end"
proof -
  have "server_run demo_env demo_actions (server_start demo_shared) \<noteq> None" by code_simp
  then show ?thesis by (auto simp: demo_end_def)
qed

lemma demo_phases:
  "map cn_phase (sv_conns demo_end) = [Ph_Open ''c1'' None, Ph_Open ''c2'' (Some ''phone''), Ph_Closed]"
  by code_simp

theorem client_opened_by_credential_witness:
  "\<exists>pre d post q s1. demo_actions = pre @ SV_Frame 1 (Fr_Text ''pair'') d # post \<and>
     server_run demo_env pre (server_start demo_shared) = Some s1 \<and>
     demo_messages ''pair'' = Some (CM_Authenticate q)"
proof -
  have hyps: "1 < length (sv_conns demo_end)" "cn_phase (sv_conns demo_end ! 1) = Ph_Open ''c2'' (Some ''phone'')"
    using demo_phases by (auto simp: map_eq_Cons_conv)
  have digest: "length (cr_sha256 (se_crypto demo_env) x) = 32" for x
    by (simp add: demo_env_def demo_crypto_def)
  have "length (as_token_digest (sh_auth demo_shared)) = 32" by code_simp
  from client_opened_by_credential [OF server_demo_run hyps digest this]
  obtain pre msg d q post s1 where *: "demo_actions = pre @ SV_Frame 1 (Fr_Text msg) d # post"
    "server_run demo_env pre (server_start demo_shared) = Some s1"
    "se_message demo_env msg = Some (CM_Authenticate q)"
    by blast
  from *(1) have "SV_Frame 1 (Fr_Text msg) d \<in> set demo_actions" by (metis in_set_conv_decomp)
  with *(3) have "msg = ''pair''"
    by (auto simp: demo_actions_def demo_env_def demo_messages_def)
  with * show ?thesis by (auto simp: demo_env_def)
qed

theorem pairing_code_single_use_witness:
  "count_run demo_env (pairs demo_env ''AAAAAAAA'') demo_actions (server_start demo_shared) = 1 \<and>
   count_run demo_env (pairs demo_env ''AAAAAAAA'') demo_actions (server_start demo_shared)
     \<le> count_run demo_env (mints demo_env ''AAAAAAAA'') demo_actions (server_start demo_shared)"
proof -
  have "as_pairing (sh_auth demo_shared) ''AAAAAAAA'' = None" by code_simp
  moreover have "count_run demo_env (pairs demo_env ''AAAAAAAA'') demo_actions (server_start demo_shared) = 1"
    by code_simp
  ultimately show ?thesis using pairing_code_single_use [OF server_demo_run] by blast
qed

end
