(* ===== verification/Silo_Questions.thy ===== *)
theory Silo_Questions
  imports Silo_Server
begin

text \<open>
  Two services of the interactive frontend over the machine of the previous theory: the questions
  the model asks the user, of which the first answer wins, and the cache of cost reports, which
  follows the event history through the same broadcast as the event pump.
\<close>

section \<open>Questions are answered once\<close>

fun answers_question :: "string \<Rightarrow> event_payload \<Rightarrow> bool" where
  "answers_question qid (EP_QuestionAnswered q _ _) = (q = qid)"
| "answers_question qid _ = False"

definition answer_events :: "string \<Rightarrow> shared \<Rightarrow> nat" where
  "answer_events qid sh =
     length (filter (answers_question qid) (map ev_payload (bus_history (sh_bus sh))))"

fun settled :: "channel_state \<Rightarrow> bool" where
  "settled (Ch_Answered _) = True"
| "settled Ch_Interrupted = True"
| "settled _ = False"

definition settled_channels :: "string \<Rightarrow> question_channel list \<Rightarrow> nat" where
  "settled_channels qid cs = length (filter (\<lambda>c. qc_id c = qid \<and> settled (qc_state c)) cs)"

text \<open>
  The invariant of the questions: the map points to channels of its ids, every settled channel has
  its event, and an answer that was sent on is in the history.
\<close>

definition announced :: "shared \<Rightarrow> question_channel \<Rightarrow> bool" where
  "announced sh c =
     (\<forall>a. qc_state c = Ch_Answered a \<longrightarrow>
        (\<exists>cid. EP_QuestionAnswered (qc_id c) (Some cid) a \<in> set (map ev_payload (bus_history (sh_bus sh)))))"

definition questions_ok :: "shared \<Rightarrow> bool" where
  "questions_ok sh =
     ((\<forall>qid k. sh_questions sh qid = Some k \<longrightarrow> k < length (sh_channels sh) \<and> qc_id (sh_channels sh ! k) = qid) \<and>
      (\<forall>qid. answer_events qid sh = settled_channels qid (sh_channels sh)) \<and>
      (\<forall>c\<in>set (sh_channels sh). announced sh c))"

lemma answer_events_emit:
  "answer_events qid (sh_emit p sh) = answer_events qid sh + (if answers_question qid p then 1 else 0)"
  by (simp add: answer_events_def sh_emit_def)

lemma sh_emit_fields [simp]:
  "sh_questions (sh_emit p sh) = sh_questions sh" "sh_channels (sh_emit p sh) = sh_channels sh"
  by (simp_all add: sh_emit_def)

lemma announced_emit: "announced sh c \<Longrightarrow> announced (sh_emit p sh) c"
  by (simp add: announced_def sh_emit_def) blast

lemma questions_ok_emit:
  "questions_ok sh \<Longrightarrow> (\<And>qid. \<not> answers_question qid p) \<Longrightarrow> questions_ok (sh_emit p sh)"
  by (simp add: questions_ok_def answer_events_emit announced_emit)

lemma questions_ok_cong:
  assumes "questions_ok sh" and "sh_bus sh' = sh_bus sh" and "sh_questions sh' = sh_questions sh"
    and "sh_channels sh' = sh_channels sh"
  shows "questions_ok sh'"
  using assms by (simp add: questions_ok_def answer_events_def announced_def)

lemma questions_ok_forget:
  "questions_ok sh \<Longrightarrow> questions_ok (sh\<lparr>sh_questions := (sh_questions sh)(qid := None)\<rparr>)"
  by (simp add: questions_ok_def answer_events_def announced_def)

text \<open>Replacing the state of a waiting channel by one that carries no answer.\<close>

lemma length_filter_list_update:
  "k < length xs \<Longrightarrow>
     length (filter P (xs[k := x])) + (if P (xs ! k) then 1 else 0) = length (filter P xs) + (if P x then 1 else 0)"
proof (induction xs arbitrary: k)
  case (Cons y ys)
  then show ?case by (cases k) simp_all
qed simp

lemma settled_update:
  assumes "k < length cs"
  shows "settled_channels qid (cs[k := c]) + (if qc_id (cs ! k) = qid \<and> settled (qc_state (cs ! k)) then 1 else 0)
    = settled_channels qid cs + (if qc_id c = qid \<and> settled (qc_state c) then 1 else 0)"
  unfolding settled_channels_def by (rule length_filter_list_update [OF assms])

lemma set_channel_fields [simp]:
  "sh_questions (set_channel k st sh) = sh_questions sh" "sh_bus (set_channel k st sh) = sh_bus sh"
  "length (sh_channels (set_channel k st sh)) = length (sh_channels sh)"
  by (simp_all add: set_channel_def)

lemma set_channel_id:
  "j < length (sh_channels sh) \<Longrightarrow> qc_id (sh_channels (set_channel k st sh) ! j) = qc_id (sh_channels sh ! j)"
  by (cases "j = k") (simp_all add: set_channel_def)

lemma set_channel_settled:
  assumes "k < length (sh_channels sh)" and "channel_waits k sh"
  shows "settled_channels qid (sh_channels (set_channel k st sh)) =
    settled_channels qid (sh_channels sh) + (if qc_id (sh_channels sh ! k) = qid \<and> settled st then 1 else 0)"
  using settled_update [OF assms(1), of qid "(sh_channels sh ! k)\<lparr>qc_state := st\<rparr>"] assms(2)
  by (simp add: set_channel_def channel_waits_def)

lemma questions_ok_unsettled:
  assumes "questions_ok sh" and "k < length (sh_channels sh)" and "channel_waits k sh" and "\<not> settled st"
  shows "questions_ok (set_channel k st sh)"
proof -
  have "announced (set_channel k st sh) c" if "c \<in> set (sh_channels (set_channel k st sh))" for c
  proof -
    have "c = (sh_channels sh ! k)\<lparr>qc_state := st\<rparr> \<or> c \<in> set (sh_channels sh)"
      using that set_update_subset_insert by (fastforce simp: set_channel_def)
    then show ?thesis using assms(1,4) by (auto simp: questions_ok_def announced_def)
  qed
  with assms show ?thesis
    by (auto simp: questions_ok_def set_channel_id set_channel_settled answer_events_def)
qed

lemma questions_ok_drop:
  assumes "questions_ok sh" and "\<And>k. ko = Some k \<Longrightarrow> k < length (sh_channels sh)"
  shows "questions_ok (drop_sender ko sh)"
  using assms by (auto simp: drop_sender_def questions_ok_unsettled split: option.splits)

lemma drop_sender_fields [simp]:
  "sh_questions (drop_sender ko sh) = sh_questions sh" "sh_bus (drop_sender ko sh) = sh_bus sh"
  "length (sh_channels (drop_sender ko sh)) = length (sh_channels sh)"
  by (simp_all add: drop_sender_def split: option.splits)

lemma questions_ok_resolve:
  assumes ok: "questions_ok sh" and "settled st"
    and p: "\<And>q. answers_question q p \<longleftrightarrow> q = qid"
    and answer: "\<And>a. st = Ch_Answered a \<Longrightarrow> \<exists>cid. p = EP_QuestionAnswered qid (Some cid) a"
  shows "questions_ok (resolve_question qid st p sh)"
proof (cases "sh_questions sh qid")
  case (Some k)
  let ?sh1 = "sh\<lparr>sh_questions := (sh_questions sh)(qid := None)\<rparr>"
  have ok1: "questions_ok ?sh1" using ok by (rule questions_ok_forget)
  have k: "k < length (sh_channels ?sh1)" "qc_id (sh_channels ?sh1 ! k) = qid"
    using ok Some by (auto simp: questions_ok_def)
  show ?thesis
  proof (cases "channel_waits k ?sh1")
    case True
    let ?sh2 = "sh_emit p (set_channel k st ?sh1)"
    have "answer_events q ?sh2 = settled_channels q (sh_channels ?sh2)" for q
      using ok1 p assms(2) k set_channel_settled [OF k(1) True, of q st]
      by (simp add: answer_events_emit questions_ok_def) (simp add: answer_events_def)
    moreover have "announced ?sh2 c" if "c \<in> set (sh_channels ?sh2)" for c
    proof -
      have "c = (sh_channels sh ! k)\<lparr>qc_state := st\<rparr> \<or> c \<in> set (sh_channels sh)"
        using that set_update_subset_insert by (fastforce simp: set_channel_def)
      then show ?thesis using ok answer k by (fastforce simp: questions_ok_def announced_def sh_emit_def)
    qed
    ultimately have "questions_ok ?sh2"
      using ok1 by (auto simp: questions_ok_def set_channel_id)
    with Some True show ?thesis by (simp add: resolve_question_def Let_def)
  next
    case False
    with Some ok1 show ?thesis by (simp add: resolve_question_def Let_def)
  qed
qed (use ok in \<open>simp add: resolve_question_def\<close>)

lemma announced_cong: "sh_bus sh' = sh_bus sh \<Longrightarrow> announced sh' c = announced sh c"
  by (simp add: announced_def)

lemma questions_ok_ask:
  assumes "questions_ok sh"
  shows "questions_ok (snd (ask_question ag q qid sh))"
proof -
  let ?sh1 = "drop_sender (sh_questions sh qid) sh"
  let ?sh2 = "?sh1\<lparr>sh_questions := (sh_questions ?sh1)(qid \<mapsto> length (sh_channels ?sh1)),
      sh_channels := sh_channels ?sh1 @ [\<lparr>qc_id = qid, qc_state = Ch_Waiting\<rparr>]\<rparr>"
  have ok1: "questions_ok ?sh1" using assms by (intro questions_ok_drop) (auto simp: questions_ok_def)
  have same: "announced ?sh2 c = announced ?sh1 c" for c by (rule announced_cong) simp
  have "settled_channels q (sh_channels ?sh2) = settled_channels q (sh_channels ?sh1)" for q
    by (simp add: settled_channels_def)
  moreover have "answer_events q ?sh2 = answer_events q ?sh1" for q by (simp add: answer_events_def)
  moreover have "announced ?sh2 \<lparr>qc_id = qid, qc_state = Ch_Waiting\<rparr>" by (simp add: announced_def)
  ultimately have "questions_ok ?sh2"
    using ok1 unfolding questions_ok_def same by (auto simp: nth_append less_SucI)
  then show ?thesis by (simp add: ask_question_def Let_def questions_ok_emit)
qed

lemma questions_ok_tool:
  assumes "questions_ok sh"
  shows "questions_ok (snd (run_tool env ag call qid sh))"
  using assms questions_ok_ask [OF assms, of ag _ qid] questions_ok_emit [OF assms]
  by (auto simp: run_tool_def split_beta split: sum.splits)

lemma questions_ok_abandon:
  assumes "questions_ok sh" and "k < length (sh_channels sh)" and "channel_waits k sh"
  shows "questions_ok (abandon_question k sh)"
proof -
  have "questions_ok (set_channel k Ch_Gone sh)" using assms by (intro questions_ok_unsettled) simp_all
  then show ?thesis
    unfolding abandon_question_def Let_def
    by (intro questions_ok_drop questions_ok_forget) (auto simp: questions_ok_def)
qed

lemma questions_ok_interrupt: "questions_ok sh \<Longrightarrow> questions_ok (interrupt_questions ids sh)"
proof (induction ids arbitrary: sh)
  case (Cons i ids)
  have "questions_ok (resolve_question i Ch_Interrupted (EP_QuestionAnswered i None INTERRUPTED_ANSWER) sh)"
    using Cons.prems by (intro questions_ok_resolve) auto
  with Cons.IH show ?case by simp
qed simp

lemma length_filter_enumerate:
  "(\<And>k x. P (g k x) = P x) \<Longrightarrow>
     length (filter P (map (\<lambda>(k, x). g k x) (enumerate n xs))) = length (filter P xs)"
  by (induction xs arbitrary: n) auto

lemma questions_ok_clear:
  assumes "questions_ok sh"
  shows "questions_ok (clear_questions sh)"
proof -
  let ?g = "\<lambda>k c. if sh_questions sh (qc_id c) = Some k \<and> qc_state c = Ch_Waiting
    then c\<lparr>qc_state := Ch_Cancelled\<rparr> else c"
  have chans: "sh_channels (clear_questions sh) = map (\<lambda>(k, c). ?g k c) (enumerate 0 (sh_channels sh))"
    and bus: "sh_bus (clear_questions sh) = sh_bus sh" and none: "sh_questions (clear_questions sh) = Map.empty"
    by (simp_all add: clear_questions_def)
  have "settled_channels q (sh_channels (clear_questions sh)) = settled_channels q (sh_channels sh)" for q
    unfolding chans settled_channels_def by (rule length_filter_enumerate) auto
  moreover have "announced (clear_questions sh) c" if "c \<in> set (sh_channels (clear_questions sh))" for c
  proof -
    from that obtain kc where kc: "kc \<in> set (enumerate 0 (sh_channels sh))" "c = ?g (fst kc) (snd kc)"
      unfolding chans by (auto simp only: set_map image_iff split_beta)
    then have "snd kc \<in> set (sh_channels sh)"
      by (metis enumerate_eq_zip prod.collapse set_zip_rightD)
    with kc assms show ?thesis by (auto simp: questions_ok_def announced_def bus)
  qed
  ultimately show ?thesis
    using assms by (simp add: questions_ok_def none answer_events_def bus)
qed

lemma questions_ok_message:
  assumes "questions_ok sh"
  shows "questions_ok (snd (handle_message rs t m cid cname sh))"
proof (cases m)
  case (CM_AnswerQuestion qid answer)
  with assms show ?thesis by (auto intro!: questions_ok_resolve)
next
  case (CM_Prompt msg)
  have "questions_ok (sh_emit (EP_UserPrompt (Some cid) cname msg) sh)"
    using assms by (rule questions_ok_emit) simp
  with CM_Prompt show ?thesis by (auto simp: Let_def intro: questions_ok_cong)
next
  case (CM_UploadFile name content)
  with assms show ?thesis by (auto intro: questions_ok_emit)
qed (use assms in \<open>auto simp: Let_def split_beta intro: questions_ok_cong\<close>)

lemma questions_ok_frame:
  assumes "serve_frame env i fr d s = Some s'" and "questions_ok (sv_shared s)"
  shows "questions_ok (sv_shared s')"
  using assms(1)
proof (cases rule: serve_frame_phase)
  case (auth pend c' sh')
  then have "sh_bus sh' = sh_bus (sv_shared s)" "sh_questions sh' = sh_questions (sv_shared s)"
    "sh_channels sh' = sh_channels (sv_shared s)"
    by (auto simp: auth_frame_def split: frame.splits option.splits client_message.splits)
  with auth assms(2) show ?thesis by (auto intro: questions_ok_cong)
next
  case (opened cid cname c' sh')
  then show ?thesis
    using assms(2) questions_ok_message [OF assms(2)]
    by (auto simp: open_frame_def split_beta split: frame.splits option.splits)
qed

lemma answers_kind: "answers_question qid p \<Longrightarrow> payload_kind p = ''question_answered''"
  by (cases p) auto

lemma questions_ok_exec:
  assumes "server_exec env a s = Some s'" and ok: "questions_ok (sv_shared s)"
  shows "questions_ok (sv_shared s')"
proof (cases a)
  case (SV_Frame i fr d)
  with assms show ?thesis by (auto intro: questions_ok_frame)
next
  case (SV_Emitted p)
  with assms show ?thesis by (auto intro!: questions_ok_emit dest: answers_kind split: if_splits)
next
  case (SV_Shutdown msg)
  have "questions_ok ((sv_shared s)\<lparr>sh_shutdown_message := msg, sh_shutdown := True\<rparr>)"
    using ok by (rule questions_ok_cong) simp_all
  with assms SV_Shutdown show ?thesis by (auto simp: server_shutdown_def questions_ok_clear)
next
  case SV_Watch
  with assms show ?thesis
    by (auto simp: cost_watch_def Let_def split_beta intro: questions_ok_cong split: if_splits option.splits)
next
  case SV_NextInput
  with assms show ?thesis
    by (auto simp: next_user_input_def intro: questions_ok_cong split: if_splits list.splits)
next
  case (SV_Mint rs t)
  with assms show ?thesis by (auto simp: Let_def split_beta intro: questions_ok_cong split: if_splits)
qed (use assms questions_ok_tool questions_ok_interrupt questions_ok_abandon in
      \<open>auto split: if_splits conn_phase.splits\<close>)

lemma questions_ok_run:
  "server_run env as s = Some s' \<Longrightarrow> questions_ok (sv_shared s) \<Longrightarrow> questions_ok (sv_shared s')"
  by (induction "as" arbitrary: s) (auto intro: questions_ok_exec split: option.splits)

lemma questions_ok_start:
  assumes "list_all (\<lambda>e. payload_kind (ev_payload e) \<noteq> ''question_answered'') (bus_history b)"
  shows "questions_ok (shared_start hid b access digest keys)"
proof -
  have "filter (answers_question qid) (map ev_payload (bus_history b)) = []" for qid
    using assms answers_kind by (auto simp: list_all_iff filter_empty_conv)
  then show ?thesis
    by (simp add: questions_ok_def shared_start_def answer_events_def settled_channels_def split_beta)
qed

text \<open>
  C29: every question is resolved at most once. In every state the frontend can reach there are
  exactly as many \<open>QuestionAnswered\<close> events for a question id as calls that were settled by an answer
  or an interrupt, so at most one when ids are not reused, and a call that returned an answer
  returned the answer that a client gave and all clients were told.
\<close>

theorem question_answered_once:
  assumes "server_run env as (server_start (shared_start hid b access digest keys)) = Some s"
    and "list_all (\<lambda>e. payload_kind (ev_payload e) \<noteq> ''question_answered'') (bus_history b)"
  shows "answer_events qid (sv_shared s) = settled_channels qid (sh_channels (sv_shared s)) \<and>
    (distinct (map qc_id (sh_channels (sv_shared s))) \<longrightarrow> answer_events qid (sv_shared s) \<le> 1) \<and>
    (\<forall>c\<in>set (sh_channels (sv_shared s)). \<forall>a. question_result (qc_state c) = Some (Inr (output_ok a)) \<longrightarrow>
       (\<exists>cid. EP_QuestionAnswered (qc_id c) (Some cid) a
          \<in> set (map ev_payload (bus_history (sh_bus (sv_shared s))))))"
proof -
  have ok: "questions_ok (sv_shared s)"
    using questions_ok_run [OF assms(1)] questions_ok_start [OF assms(2)] by (simp add: server_start_def)
  then have eq: "answer_events qid (sv_shared s) = settled_channels qid (sh_channels (sv_shared s))"
    by (simp add: questions_ok_def)
  have single: "settled_channels qid cs \<le> 1" if "distinct (map qc_id cs)" for cs
    using that
  proof (induction cs)
    case (Cons c cs)
    have "filter (\<lambda>x. qc_id x = qc_id c \<and> settled (qc_state x)) cs = []"
      using Cons.prems by (auto simp: filter_empty_conv image_iff)
    with Cons show ?case by (auto simp: settled_channels_def)
  qed (simp add: settled_channels_def)
  have answered: "qc_state c = Ch_Answered a" if "question_result (qc_state c) = Some (Inr (output_ok a))" for c a
    using that by (cases "qc_state c") (auto simp: output_ok_def output_error_def)
  have "\<exists>cid. EP_QuestionAnswered (qc_id c) (Some cid) a \<in> set (map ev_payload (bus_history (sh_bus (sv_shared s))))"
    if "c \<in> set (sh_channels (sv_shared s))" "question_result (qc_state c) = Some (Inr (output_ok a))" for c a
    using ok that(1) answered [OF that(2)] by (simp add: questions_ok_def announced_def)
  with eq single [of "sh_channels (sv_shared s)"] show ?thesis by simp
qed

section \<open>The cost cache follows the reports\<close>

fun latest_cost :: "string \<Rightarrow> event_payload list \<Rightarrow> cost_entry option" where
  "latest_cost b [] = None"
| "latest_cost b (p # ps) =
     (case latest_cost b ps of
        Some e \<Rightarrow> Some e
      | None \<Rightarrow>
          (case p of
             EP_CostReport backend usage quota \<Rightarrow>
               if backend = b then Some \<lparr>ce_backend = b, ce_usage = usage, ce_quota = quota\<rparr> else None
           | _ \<Rightarrow> None))"

definition cost_wf :: "(string \<times> cost_entry) list \<Rightarrow> bool" where
  "cost_wf cost = (sorted_wrt (<) (map fst cost) \<and> (\<forall>k e. map_of cost k = Some e \<longrightarrow> ce_backend e = k))"

lemma cost_wf_apply: "cost_wf cost \<Longrightarrow> cost_wf (apply_cost p cost)"
  by (auto simp: cost_wf_def apply_cost_def bt_insert_sorted map_of_bt_insert split: event_payload.splits)

lemma cost_wf_applies: "cost_wf cost \<Longrightarrow> cost_wf (snd (apply_costs es (n, cost)))"
  by (induction es arbitrary: n cost) (auto simp: cost_wf_apply)

lemma apply_costs_latest:
  "map_of (snd (apply_costs es (n, cost))) b =
     (case latest_cost b (map ev_payload es) of None \<Rightarrow> map_of cost b | Some e \<Rightarrow> Some e)"
  by (induction es arbitrary: n cost)
    (auto simp: apply_cost_def map_of_bt_insert split: option.splits event_payload.splits)

lemma apply_costs_append: "apply_costs (es @ es') nc = apply_costs es' (apply_costs es nc)"
  by (induction es nc rule: apply_costs.induct) auto

lemma apply_costs_fst: "fst (apply_costs es (n, cost)) = (if es = [] then n else ev_seq (last es) + 1)"
  by (induction es arbitrary: n cost) auto

lemma apply_costs_cost: "snd (apply_costs es (n, cost)) = snd (apply_costs es (m, cost))"
  by (cases es) auto

text \<open>The cache reflects the events before the watcher's position.\<close>

definition cost_ok :: "shared \<Rightarrow> bool" where
  "cost_ok sh =
     (let h = bus_history (sh_bus sh) in
      bus_wf (sh_bus sh) \<and> bus_sent (sh_bus sh) = h \<and>
      (\<exists>n\<le>length h. sh_cost_next sh = of_nat n \<and> sh_cost_cursor sh \<le> n \<and>
         sh_cost sh = snd (apply_costs (take n h) (0, []))))"

text \<open>Everything but the watcher leaves the cache alone and at most emits events.\<close>

definition only_emits :: "shared \<Rightarrow> shared \<Rightarrow> bool" where
  "only_emits sh sh' =
     (sh_cost sh' = sh_cost sh \<and> sh_cost_next sh' = sh_cost_next sh \<and>
      sh_cost_cursor sh' = sh_cost_cursor sh \<and> (\<exists>ps. sh_bus sh' = fold emit ps (sh_bus sh)))"

lemma only_emits_trans: "only_emits a b \<Longrightarrow> only_emits b c \<Longrightarrow> only_emits a c"
  unfolding only_emits_def by (metis fold_append comp_apply)

lemma only_emitsI:
  "sh_cost sh' = sh_cost sh \<Longrightarrow> sh_cost_next sh' = sh_cost_next sh \<Longrightarrow>
     sh_cost_cursor sh' = sh_cost_cursor sh \<Longrightarrow> sh_bus sh' = sh_bus sh \<Longrightarrow> only_emits sh sh'"
  by (auto simp: only_emits_def intro: exI [of _ "[]"])

lemma only_emits_emit: "only_emits sh (sh_emit p sh)"
  by (auto simp: only_emits_def sh_emit_def intro: exI [of _ "[p]"])

lemma only_emits_set: "only_emits sh (set_channel k st sh)"
  by (rule only_emitsI) (simp_all add: set_channel_def)

lemma only_emits_drop: "only_emits sh (drop_sender ko sh)"
  by (auto simp: drop_sender_def only_emits_set intro: only_emitsI split: option.splits)

lemma only_emits_resolve: "only_emits sh (resolve_question qid st p sh)"
proof (cases "sh_questions sh qid")
  case (Some k)
  let ?sh1 = "sh\<lparr>sh_questions := (sh_questions sh)(qid := None)\<rparr>"
  have "only_emits sh ?sh1" by (rule only_emitsI) simp_all
  moreover have "only_emits ?sh1 (sh_emit p (set_channel k st ?sh1))"
    using only_emits_trans only_emits_set only_emits_emit by blast
  ultimately show ?thesis
    using Some only_emits_trans by (auto simp: resolve_question_def Let_def)
qed (auto simp: resolve_question_def intro: only_emitsI)

lemma only_emits_interrupt: "only_emits sh (interrupt_questions ids sh)"
proof (induction ids arbitrary: sh)
  case (Cons i ids)
  show ?case unfolding interrupt_questions.simps by (rule only_emits_trans [OF only_emits_resolve Cons.IH])
qed (auto intro: only_emitsI)

lemma only_emits_ask: "only_emits sh (snd (ask_question ag q qid sh))"
proof -
  let ?sh1 = "drop_sender (sh_questions sh qid) sh"
  have "only_emits sh ?sh1" by (rule only_emits_drop)
  moreover have "only_emits ?sh1 (?sh1\<lparr>sh_questions := f, sh_channels := cs\<rparr>)" for f cs
    by (rule only_emitsI) simp_all
  ultimately show ?thesis
    using only_emits_trans only_emits_emit unfolding ask_question_def Let_def snd_conv by meson
qed

lemma only_emits_tool: "only_emits sh (snd (run_tool env ag call qid sh))"
  using only_emits_ask [of sh ag _ qid] only_emits_emit [of sh]
  by (auto simp: run_tool_def split_beta intro: only_emitsI split: sum.splits)

lemma only_emits_abandon: "only_emits sh (abandon_question k sh)"
proof -
  have "only_emits sh1 (sh1\<lparr>sh_questions := f\<rparr>)" for sh1 f by (rule only_emitsI) simp_all
  then show ?thesis
    using only_emits_trans only_emits_set only_emits_drop unfolding abandon_question_def Let_def by meson
qed

lemma only_emits_message: "only_emits sh (snd (handle_message rs t m cid cname sh))"
proof (cases m)
  case (CM_Prompt msg)
  have "only_emits sh1 (sh1\<lparr>sh_prompts := f\<rparr>)" for sh1 f by (rule only_emitsI) simp_all
  then have "only_emits sh ((sh_emit p sh)\<lparr>sh_prompts := f\<rparr>)" for p f
    by (rule only_emits_trans [OF only_emits_emit])
  with CM_Prompt show ?thesis by (simp add: Let_def)
next
  case (CM_AnswerQuestion qid answer)
  then show ?thesis by (simp add: only_emits_resolve)
next
  case (CM_UploadFile name content)
  then show ?thesis by (simp add: only_emits_emit)
qed (auto simp: Let_def split_beta intro: only_emitsI)

lemma only_emits_frame:
  assumes "serve_frame env i fr d s = Some s'"
  shows "only_emits (sv_shared s) (sv_shared s')"
  using assms
proof (cases rule: serve_frame_phase)
  case (auth pend c' sh')
  then show ?thesis
    by (auto simp: auth_frame_def intro!: only_emitsI split: frame.splits option.splits client_message.splits)
next
  case (opened cid cname c' sh')
  then show ?thesis
    using only_emits_message
    by (auto simp: open_frame_def split_beta intro: only_emitsI split: frame.splits option.splits)
qed

lemma only_emits_exec:
  assumes "server_exec env a s = Some s'" and "a \<noteq> SV_Watch"
  shows "only_emits (sv_shared s) (sv_shared s')"
proof (cases a)
  case (SV_Shutdown msg)
  with assms show ?thesis
    by (auto simp: server_shutdown_def clear_questions_def intro: only_emitsI)
next
  case SV_NextInput
  with assms show ?thesis by (auto simp: next_user_input_def intro: only_emitsI split: if_splits list.splits)
qed (use assms only_emits_frame only_emits_tool only_emits_interrupt only_emits_abandon only_emits_emit in
      \<open>auto simp: Let_def split_beta intro: only_emitsI split: if_splits conn_phase.splits\<close>)

lemma emit_sent_grows: "bus_sent (emit p b) = bus_sent b @ [last (bus_history (emit p b))]"
  by (simp add: emit_history) (simp add: emit_def emit_push_def emit_journal_def emit_send_def Let_def split_beta)

lemma last_seq:
  assumes "bus_wf b" and "bus_history b \<noteq> []"
  shows "ev_seq (last (bus_history b)) + 1 = of_nat (length (bus_history b))"
proof -
  obtain m where "length (bus_history b) = Suc m" using assms(2) by (cases "length (bus_history b)") auto
  then show ?thesis using bus_wf_seq_nth [OF assms(1), of m] assms(2) by (simp add: last_conv_nth add.commute)
qed

lemma cost_ok_fold:
  assumes "cost_ok sh" and "sh_cost sh' = sh_cost sh" "sh_cost_next sh' = sh_cost_next sh"
    "sh_cost_cursor sh' = sh_cost_cursor sh" and "sh_bus sh' = fold emit ps (sh_bus sh)"
  shows "cost_ok sh'"
  using assms
proof (induction ps arbitrary: sh)
  case (Cons p ps)
  have "bus_sent (emit p (sh_bus sh)) = bus_history (emit p (sh_bus sh))"
    using Cons.prems(1) emit_sent_grows [of p "sh_bus sh"] by (simp add: cost_ok_def emit_history Let_def)
  moreover obtain n where "n \<le> length (bus_history (sh_bus sh))" "sh_cost_next sh = of_nat n"
    "sh_cost_cursor sh \<le> n" "sh_cost sh = snd (apply_costs (take n (bus_history (sh_bus sh))) (0, []))"
    using Cons.prems(1) by (auto simp: cost_ok_def Let_def)
  ultimately have "cost_ok (sh_emit p sh)"
    using Cons.prems(1)
    by (auto simp: cost_ok_def sh_emit_def bus_wf_emit Let_def emit_history intro!: exI [of _ n])
  with Cons.IH [of "sh_emit p sh"] Cons.prems(2-5) show ?case by (simp add: sh_emit_def)
qed (simp add: cost_ok_def)

lemma only_emits_cost_ok: "only_emits sh sh' \<Longrightarrow> cost_ok sh \<Longrightarrow> cost_ok sh'"
  unfolding only_emits_def using cost_ok_fold by blast

lemma cost_ok_watch:
  assumes ok: "cost_ok sh" and "cost_watch sh = Some sh'" and len: "length (bus_history (sh_bus sh)) < 2 ^ 64"
  shows "cost_ok sh'"
proof -
  let ?h = "bus_history (sh_bus sh)"
  obtain n where n: "n \<le> length ?h" "sh_cost_next sh = of_nat n" "sh_cost_cursor sh \<le> n"
    "sh_cost sh = snd (apply_costs (take n ?h) (0, []))" and wf: "bus_wf (sh_bus sh)" "bus_sent (sh_bus sh) = ?h"
    using ok by (auto simp: cost_ok_def Let_def)
  obtain r cur where r: "broadcast_recv BUS_CAPACITY ?h (sh_cost_cursor sh) = Some (r, cur)"
    "sh' = sh\<lparr>sh_cost_cursor := cur, sh_cost_next := fst (cost_turn (sh_bus sh) r (of_nat n, sh_cost sh)),
       sh_cost := snd (cost_turn (sh_bus sh) r (of_nat n, sh_cost sh))\<rparr>"
    using assms(2) n(2) wf(2)
    by (auto simp: cost_watch_def Let_def split_beta split: if_splits option.splits)
  have "\<exists>m\<le>length ?h. fst (cost_turn (sh_bus sh) r (of_nat n, sh_cost sh)) = of_nat m \<and> cur \<le> m \<and>
    snd (cost_turn (sh_bus sh) r (of_nat n, sh_cost sh)) = snd (apply_costs (take m ?h) (0, []))"
  proof (cases r)
    case (Recv_Ok e)
    then have e: "sh_cost_cursor sh < length ?h" "e = ?h ! sh_cost_cursor sh" "cur = Suc (sh_cost_cursor sh)"
      using r(1) by (auto simp: broadcast_recv_def split: if_splits)
    then have seq: "ev_seq e = of_nat (sh_cost_cursor sh)" using wf(1) by (simp add: bus_wf_seq_nth)
    then have ge: "ev_seq e \<ge> (of_nat n :: u64) \<longleftrightarrow> sh_cost_cursor sh = n"
      using e(1) n(1,3) len by (auto simp: word_le_nat_alt unat_of_nat_u64)
    show ?thesis
    proof (cases "sh_cost_cursor sh = n")
      case True
      have "take (Suc n) ?h = take n ?h @ [e]" using True e by (simp add: take_Suc_conv_app_nth)
      moreover obtain m c where "apply_costs (take n ?h) (0, []) = (m, c)" by fastforce
      ultimately show ?thesis
        using True ge seq e n(4) Recv_Ok
        by (intro exI [of _ "Suc n"]) (simp add: apply_costs_append add.commute)
    next
      case False
      with ge n e Recv_Ok show ?thesis by (intro exI [of _ n]) auto
    qed
  next
    case Recv_Lagged
    then have cur: "cur \<le> length ?h" using r(1) by (auto simp: broadcast_recv_def split: if_splits)
    have since: "since (sh_bus sh) (of_nat n) = drop n ?h"
      using since_drop [OF wf(1)] len n(1) by (simp add: unat_of_nat_u64)
    have "?h \<noteq> []" using r(1) by (auto simp: broadcast_recv_def split: if_splits)
    then have last: "ev_seq (last ?h) + 1 = of_nat (length ?h)" using last_seq [OF wf(1)] by simp
    have "fst (apply_costs (drop n ?h) (of_nat n, c)) = of_nat (length ?h)" for c
      using last n(1) by (simp add: apply_costs_fst last_drop)
    moreover have "snd (apply_costs (drop n ?h) (of_nat n, sh_cost sh)) = snd (apply_costs ?h (0, []))"
      using n(4) apply_costs_append [of "take n ?h" "drop n ?h" "(0, [])"]
        apply_costs_cost [of "drop n ?h" _ "snd (apply_costs (take n ?h) (0, []))" "of_nat n"]
      by (metis append_take_drop_id prod.collapse)
    ultimately show ?thesis
      using cur since Recv_Lagged by (intro exI [of _ "length ?h"]) simp
  qed
  with wf r(2) show ?thesis by (simp add: cost_ok_def Let_def)
qed

lemma exec_history_grows:
  assumes "server_exec env a s = Some s'"
  shows "length (bus_history (sh_bus (sv_shared s))) \<le> length (bus_history (sh_bus (sv_shared s')))"
proof (cases "a = SV_Watch")
  case True
  with assms show ?thesis by (auto simp: cost_watch_def Let_def split_beta split: if_splits option.splits)
next
  case False
  have "length (bus_history b) \<le> length (bus_history (fold emit ps b))" for ps b
  proof (induction ps arbitrary: b)
    case (Cons p ps)
    from Cons.IH [of "emit p b"] show ?case by (simp add: emit_history)
  qed simp
  with only_emits_exec [OF assms False] show ?thesis by (auto simp: only_emits_def)
qed

lemma cost_ok_run:
  assumes "server_run env as s = Some s'" and "cost_ok (sv_shared s)"
    and "length (bus_history (sh_bus (sv_shared s'))) < 2 ^ 64"
  shows "cost_ok (sv_shared s')"
  using assms
proof (induction "as" arbitrary: s' rule: rev_induct)
  case (snoc a "as")
  then obtain s1 where s1: "server_run env as s = Some s1" "server_exec env a s1 = Some s'"
    by (auto simp: server_run_snoc split: option.splits)
  have len: "length (bus_history (sh_bus (sv_shared s1))) < 2 ^ 64"
    using exec_history_grows [OF s1(2)] snoc.prems(3) by linarith
  have ok1: "cost_ok (sv_shared s1)" by (rule snoc.IH [OF s1(1) snoc.prems(2) len])
  show ?case
  proof (cases "a = SV_Watch")
    case True
    with s1(2) ok1 len show ?thesis by (auto intro: cost_ok_watch split: option.splits)
  next
    case False
    with s1(2) ok1 show ?thesis using only_emits_exec only_emits_cost_ok by blast
  qed
qed simp

lemma cost_ok_start:
  assumes "bus_wf b" and "bus_sent b = bus_history b" and "length (bus_history b) < 2 ^ 64"
  shows "cost_ok (shared_start hid b access digest keys)"
proof -
  let ?h = "bus_history b"
  have since: "since b 0 = ?h" using since_drop [OF assms(1)] assms(3) by simp
  have "fst (apply_costs ?h (0, [])) = of_nat (length ?h)"
  proof (cases "?h = []")
    case False
    then show ?thesis using last_seq [OF assms(1)] by (simp add: apply_costs_fst)
  qed (simp add: apply_costs_fst)
  with assms(1,2) since show ?thesis
    by (auto simp: cost_ok_def shared_start_def split_beta Let_def intro: exI [of _ "length ?h"])
qed

text \<open>
  Once the watcher has seen every event, the reply to a cost request lists, by backend name,
  exactly the latest cost report of each backend in the history, also when the watcher lagged behind
  the broadcast and caught up from the history.
\<close>

theorem cost_reply_latest:
  assumes "server_run env as (server_start (shared_start hid b access digest keys)) = Some s"
    and "bus_wf b" and "bus_sent b = bus_history b"
    and "length (bus_history (sh_bus (sv_shared s))) < 2 ^ 64"
    and "length (bus_history b) < 2 ^ 64"
    and "sh_cost_cursor (sv_shared s) = length (bus_sent (sh_bus (sv_shared s)))"
  shows "\<exists>es. fst (handle_message rs t CM_RequestCost cid cname (sv_shared s)) = [SM_Cost es] \<and>
    sorted_wrt (<) (map ce_backend es) \<and>
    (\<forall>e. e \<in> set es \<longleftrightarrow>
       latest_cost (ce_backend e) (map ev_payload (bus_history (sh_bus (sv_shared s)))) = Some e)"
proof -
  let ?h = "bus_history (sh_bus (sv_shared s))" and ?c = "sh_cost (sv_shared s)"
  have "cost_ok (sv_shared s)"
    by (rule cost_ok_run [OF assms(1) _ assms(4)])
      (simp add: server_start_def cost_ok_start [OF assms(2,3,5)])
  then have c: "?c = snd (apply_costs ?h (0, []))"
    using assms(6) by (auto simp: cost_ok_def Let_def)
  have wf: "cost_wf ?c" unfolding c by (rule cost_wf_applies) (simp add: cost_wf_def)
  have latest: "map_of ?c k = latest_cost k (map ev_payload ?h)" for k
    unfolding c by (simp add: apply_costs_latest split: option.splits)
  have distinct: "distinct (map fst ?c)"
    using wf by (simp add: cost_wf_def strict_sorted_iff)
  then have backend: "ce_backend e = k" if "(k, e) \<in> set ?c" for k e
    using wf that by (simp add: cost_wf_def)
  have "map ce_backend (map snd ?c) = map fst ?c" using backend by (simp add: case_prod_unfold)
  moreover have "e \<in> set (map snd ?c) \<longleftrightarrow> map_of ?c (ce_backend e) = Some e" for e
  proof
    assume "e \<in> set (map snd ?c)"
    then obtain k where "(k, e) \<in> set ?c" by auto
    with backend [OF this] distinct show "map_of ?c (ce_backend e) = Some e" by (metis map_of_is_SomeI)
  next
    assume "map_of ?c (ce_backend e) = Some e"
    then show "e \<in> set (map snd ?c)" by (metis list.set_map image_eqI map_of_SomeD snd_conv)
  qed
  moreover have "sorted_wrt (<) (map fst ?c)" using wf by (simp add: cost_wf_def)
  ultimately show ?thesis
    unfolding handle_message.simps fst_conv latest by (intro exI [of _ "map snd ?c"]) (simp del: map_map)
qed

section \<open>The sample sessions\<close>

theorem question_answered_once_witness:
  "answer_events ''q1'' (sv_shared demo_end) = 1 \<and>
   settled_channels ''q1'' (sh_channels (sv_shared demo_end)) = 1 \<and>
   map (\<lambda>c. question_result (qc_state c)) (sh_channels (sv_shared demo_end)) = [Some (Inr (output_ok ''yes''))]"
proof -
  have "list_all (\<lambda>e. payload_kind (ev_payload e) \<noteq> ''question_answered'') (bus_history demo_bus)"
    by code_simp
  from question_answered_once [OF server_demo_run [unfolded demo_shared_def] this, of "''q1''"]
  have "answer_events ''q1'' (sv_shared demo_end) = settled_channels ''q1'' (sh_channels (sv_shared demo_end))"
    by blast
  moreover have "answer_events ''q1'' (sv_shared demo_end) = 1"
    "map (\<lambda>c. question_result (qc_state c)) (sh_channels (sv_shared demo_end)) = [Some (Inr (output_ok ''yes''))]"
    by code_simp+
  ultimately show ?thesis by simp
qed

definition demo_usage :: "u64 \<Rightarrow> usage_snapshot" where
  "demo_usage n = \<lparr>us_input_tokens = n, us_output_tokens = 0, us_usd = 0\<rparr>"

definition demo_quota :: quota_config where
  "demo_quota = \<lparr>max_total_tokens = None, max_usd = None\<rparr>"

definition demo_reports :: "server_action list" where
  "demo_reports =
     [SV_Emitted (EP_CostReport ''b'' (demo_usage 1) demo_quota), SV_Watch,
      SV_Emitted (EP_CostReport ''a'' (demo_usage 2) demo_quota), SV_Emitted EP_AwaitingInput, SV_Watch, SV_Watch,
      SV_Emitted (EP_CostReport ''b'' (demo_usage 3) demo_quota), SV_Watch]"

definition demo_costs :: server where
  "demo_costs = the (server_run demo_env demo_reports (server_start demo_shared))"

lemma demo_costs_run: "server_run demo_env demo_reports (server_start demo_shared) = Some demo_costs"
proof -
  have "server_run demo_env demo_reports (server_start demo_shared) \<noteq> None" by code_simp
  then show ?thesis by (auto simp: demo_costs_def)
qed

theorem cost_reply_latest_witness:
  "\<exists>es. fst (handle_message [] 0 CM_RequestCost ''c1'' None (sv_shared demo_costs)) = [SM_Cost es] \<and>
     map (\<lambda>e. (ce_backend e, ce_usage e)) es = [(''a'', demo_usage 2), (''b'', demo_usage 3)] \<and>
     sorted_wrt (<) (map ce_backend es)"
proof -
  have bus: "bus_wf demo_bus" "bus_sent demo_bus = bus_history demo_bus" "length (bus_history demo_bus) < 2 ^ 64"
    by (simp_all add: bus_wf_def bus_new_def demo_bus_def journal_wf_def)
  have n: "length (bus_history (sh_bus (sv_shared demo_costs))) = 4" by code_simp
  then have len: "length (bus_history (sh_bus (sv_shared demo_costs))) < 2 ^ 64" by simp
  have cur: "sh_cost_cursor (sv_shared demo_costs) = length (bus_sent (sh_bus (sv_shared demo_costs)))"
    by code_simp
  from cost_reply_latest [OF demo_costs_run [unfolded demo_shared_def] bus(1,2) len bus(3) cur]
  obtain es where es: "fst (handle_message [] 0 CM_RequestCost ''c1'' None (sv_shared demo_costs)) = [SM_Cost es]"
    "sorted_wrt (<) (map ce_backend es)"
    by blast
  moreover have "map (\<lambda>e. (ce_backend (snd e), ce_usage (snd e))) (sh_cost (sv_shared demo_costs)) =
    [(''a'', demo_usage 2), (''b'', demo_usage 3)]"
    by code_simp
  ultimately show ?thesis by (auto simp: comp_def)
qed

end
