(* ===== verification/Silo_Snapshot.thy ===== *)
theory Silo_Snapshot
  imports Silo_Core
begin

text \<open>
  Snapshots of a workspace and the report of an unlock (\<open>silo-workspace\<close>: \<open>snapshot.rs\<close>, \<open>diff.rs\<close>,
  \<open>autoexec.rs\<close>, and step 5 of \<open>unlock\<close> in \<open>lib.rs\<close>): the manifest of a tree and its file form, the
  comparison of the locked tree with the current one, and the changed paths whose contents the host
  may execute. A tree is a \<open>BTreeMap\<close>, a list of paths and entries by increasing path. Reading a file
  or a blob, SHA-256, the JSON form of the manifest and the text of a unified diff are arguments.
\<close>

section \<open>Tree entries and the manifest\<close>

datatype entry_kind = EK_File | EK_Symlink | EK_Dir

record manifest_entry =
  me_path :: string
  me_kind :: entry_kind
  me_sha256 :: "string option"
  me_size :: "u64 option"
  me_symlink_target :: "string option"
  me_mode :: "u32 option"

datatype tree_entry =
    TE_File string u64 "u32 option"
  | TE_Symlink string
  | TE_Dir "u32 option"

type_synonym tree = "(string \<times> tree_entry) list"

fun from_tree :: "string \<Rightarrow> tree_entry \<Rightarrow> manifest_entry" where
  "from_tree path (TE_File sha sz mode) =
     \<lparr>me_path = path, me_kind = EK_File, me_sha256 = Some sha, me_size = Some sz,
      me_symlink_target = None, me_mode = mode\<rparr>"
| "from_tree path (TE_Symlink target) =
     \<lparr>me_path = path, me_kind = EK_Symlink, me_sha256 = None, me_size = None,
      me_symlink_target = Some target, me_mode = None\<rparr>"
| "from_tree path (TE_Dir mode) =
     \<lparr>me_path = path, me_kind = EK_Dir, me_sha256 = None, me_size = None,
      me_symlink_target = None, me_mode = mode\<rparr>"

definition into_tree :: "manifest_entry \<Rightarrow> workspace_error + (string \<times> tree_entry)" where
  "into_tree m =
     (case me_kind m of
        EK_File \<Rightarrow>
          (case (me_sha256 m, me_size m) of
             (Some sha, Some sz) \<Rightarrow> Inr (me_path m, TE_File sha sz (me_mode m))
           | _ \<Rightarrow> Inl (Ws_Damaged (''manifest entry '' @ me_path m @ '' is a file without a hash or size'')))
      | EK_Symlink \<Rightarrow>
          (case me_symlink_target m of
             Some target \<Rightarrow> Inr (me_path m, TE_Symlink target)
           | None \<Rightarrow> Inl (Ws_Damaged (''manifest entry '' @ me_path m @ '' is a symlink without a target'')))
      | EK_Dir \<Rightarrow> Inr (me_path m, TE_Dir (me_mode m)))"

text \<open>Collecting into a map: a later entry replaces an earlier one, the first error ends it.\<close>

fun collect_tree :: "manifest_entry list \<Rightarrow> tree \<Rightarrow> workspace_error + tree" where
  "collect_tree [] t = Inr t"
| "collect_tree (m # ms) t =
     (case into_tree m of Inl e \<Rightarrow> Inl e | Inr (p, e) \<Rightarrow> collect_tree ms (bt_insert p e t))"

definition write_manifest :: "(manifest_entry list \<Rightarrow> string) \<Rightarrow> tree \<Rightarrow> string" where
  "write_manifest ser t = ser (map (\<lambda>(p, e). from_tree p e) t)"

definition load_manifest ::
  "(string \<Rightarrow> string + manifest_entry list) \<Rightarrow> string \<Rightarrow> string \<Rightarrow> workspace_error + tree" where
  "load_manifest de path bytes =
     (case de bytes of
        Inl e \<Rightarrow> Inl (Ws_Damaged (''manifest at '' @ path @ '' is unreadable: '' @ e))
      | Inr ms \<Rightarrow> collect_tree ms [])"

section \<open>Comparison of two entries\<close>

fun content_equal :: "tree_entry \<Rightarrow> tree_entry \<Rightarrow> bool" where
  "content_equal (TE_File h n _) (TE_File h' n' _) = (h = h' \<and> n = n')"
| "content_equal (TE_Symlink t) (TE_Symlink t') = (t = t')"
| "content_equal (TE_Dir _) (TE_Dir _) = True"
| "content_equal _ _ = False"

fun diff_entry_mode :: "tree_entry \<Rightarrow> u32 option" where
  "diff_entry_mode (TE_File _ _ m) = m"
| "diff_entry_mode (TE_Dir m) = m"
| "diff_entry_mode (TE_Symlink _) = None"

fun octal :: "nat \<Rightarrow> nat \<Rightarrow> string" where
  "octal 0 n = (if n = 0 then [] else octal 0 (n div 8) @ [digit_char (n mod 8)])"
| "octal (Suc w) n = octal w (n div 8) @ [digit_char (n mod 8)]"

definition mode_note :: "tree_entry \<Rightarrow> tree_entry \<Rightarrow> string option" where
  "mode_note old new =
     (case (diff_entry_mode old, diff_entry_mode new) of
        (Some m, Some m') \<Rightarrow>
          if m \<noteq> m' then Some (''mode '' @ octal 4 (unat m) @ '' -> '' @ octal 4 (unat m')) else None
      | _ \<Rightarrow> None)"

section \<open>Reading the two sides of a change\<close>

definition BINARY_SNIFF_BYTES :: nat where
  "BINARY_SNIFF_BYTES = 8192"

definition MAX_DIFF_BYTES :: nat where
  "MAX_DIFF_BYTES = 1024 * 1024"

definition bytes_to_text :: "string \<Rightarrow> string option" where
  "bytes_to_text bytes =
     (if length bytes > MAX_DIFF_BYTES then None
      else if CHR 0x00 \<in> set (take BINARY_SNIFF_BYTES bytes) then None
      else Some (from_utf8_lossy bytes))"

record diff_io =
  di_current :: "string \<Rightarrow> io_error + string"
  di_blob :: "string \<Rightarrow> io_error + string"
  di_unified :: "string \<Rightarrow> string \<Rightarrow> string"

definition read_current_text :: "diff_io \<Rightarrow> string \<Rightarrow> workspace_error + string option" where
  "read_current_text io rel =
     (case di_current io rel of
        Inl e \<Rightarrow> Inl (Ws_Io e)
      | Inr bytes \<Rightarrow> Inr (if length bytes > MAX_DIFF_BYTES then None else bytes_to_text bytes))"

definition read_blob_text :: "diff_io \<Rightarrow> string \<Rightarrow> u64 \<Rightarrow> workspace_error + string option" where
  "read_blob_text io sha sz =
     (if unat sz > MAX_DIFF_BYTES then Inr None
      else case di_blob io sha of
        Inl e \<Rightarrow> Inl (Ws_Damaged (''snapshot blob '' @ sha @ '' is unreadable: '' @ e))
      | Inr bytes \<Rightarrow> Inr (bytes_to_text bytes))"

section \<open>The changes between two trees\<close>

datatype change_kind = Added | Modified | Deleted

record file_change =
  fc_path :: string
  fc_kind :: change_kind
  fc_diff :: "string option"
  fc_note :: "string option"

text \<open>The diff text of a path, \<open>None\<close> when a side is not text.\<close>

fun added_diff :: "diff_io \<Rightarrow> string \<Rightarrow> tree_entry \<Rightarrow> workspace_error + string option" where
  "added_diff io p (TE_File _ _ _) =
     (case read_current_text io p of
        Inl e \<Rightarrow> Inl e | Inr None \<Rightarrow> Inr None | Inr (Some new) \<Rightarrow> Inr (Some (di_unified io [] new)))"
| "added_diff io p _ = Inr None"

fun deleted_diff :: "diff_io \<Rightarrow> tree_entry \<Rightarrow> workspace_error + string option" where
  "deleted_diff io (TE_File sha sz _) =
     (case read_blob_text io sha sz of
        Inl e \<Rightarrow> Inl e | Inr None \<Rightarrow> Inr None | Inr (Some old) \<Rightarrow> Inr (Some (di_unified io old [])))"
| "deleted_diff io _ = Inr None"

fun modified_diff :: "diff_io \<Rightarrow> string \<Rightarrow> tree_entry \<Rightarrow> tree_entry \<Rightarrow> workspace_error + string option" where
  "modified_diff io p (TE_File sha sz _) (TE_File _ _ _) =
     (case read_blob_text io sha sz of
        Inl e \<Rightarrow> Inl e
      | Inr old \<Rightarrow>
          (case read_current_text io p of
             Inl e \<Rightarrow> Inl e
           | Inr new \<Rightarrow>
               Inr (case (old, new) of (Some o1, Some n1) \<Rightarrow> Some (di_unified io o1 n1) | _ \<Rightarrow> None)))"
| "modified_diff io p _ _ = Inr None"

definition change_of ::
  "string \<Rightarrow> change_kind \<Rightarrow> string option \<Rightarrow> workspace_error + string option
     \<Rightarrow> workspace_error + file_change option" where
  "change_of p kind nt d =
     (case d of
        Inl e \<Rightarrow> Inl e
      | Inr txt_diff \<Rightarrow> Inr (Some \<lparr>fc_path = p, fc_kind = kind, fc_diff = txt_diff, fc_note = nt\<rparr>))"

definition diff_path ::
  "diff_io \<Rightarrow> string \<Rightarrow> tree_entry option \<Rightarrow> tree_entry option \<Rightarrow> workspace_error + file_change option" where
  "diff_path io p old new =
     (case (old, new) of
        (None, Some e) \<Rightarrow> change_of p Added None (added_diff io p e)
      | (Some e, None) \<Rightarrow> change_of p Deleted None (deleted_diff io e)
      | (Some e, Some e') \<Rightarrow>
          (let changed = \<not> content_equal e e'; nt = mode_note e e' in
           if \<not> changed \<and> nt = None then Inr None
           else change_of p Modified nt (if changed then modified_diff io p e e' else Inr None))
      | (None, None) \<Rightarrow> Inr None)"

fun diff_paths :: "diff_io \<Rightarrow> tree \<Rightarrow> tree \<Rightarrow> string list \<Rightarrow> workspace_error + file_change list" where
  "diff_paths io locked current [] = Inr []"
| "diff_paths io locked current (p # ps) =
     (case diff_path io p (map_of locked p) (map_of current p) of
        Inl e \<Rightarrow> Inl e
      | Inr co \<Rightarrow>
          (case diff_paths io locked current ps of
             Inl e \<Rightarrow> Inl e
           | Inr cs \<Rightarrow> Inr (case co of None \<Rightarrow> cs | Some c \<Rightarrow> c # cs)))"

definition diff_trees :: "diff_io \<Rightarrow> tree \<Rightarrow> tree \<Rightarrow> workspace_error + file_change list" where
  "diff_trees io locked current =
     diff_paths io locked current (remdups (sort (map fst locked @ map fst current)))"

section \<open>Auto-exec surfaces\<close>

datatype pattern =
    UnderDir "string list"
  | PName string
  | PathSuffix "string list"
  | NameSuffix string

definition windows :: "nat \<Rightarrow> 'a list \<Rightarrow> 'a list list" where
  "windows n xs = map (\<lambda>i. take n (drop i xs)) [0..<Suc (length xs) - n]"

fun pattern_matches :: "pattern \<Rightarrow> string list \<Rightarrow> bool" where
  "pattern_matches (UnderDir dirs) segs = list_ex (\<lambda>w. w = dirs) (windows (length dirs) (butlast segs))"
| "pattern_matches (PName name) segs = (segs \<noteq> [] \<and> last segs = name)"
| "pattern_matches (PathSuffix suf) segs = suffix suf segs"
| "pattern_matches (NameSuffix suf) segs = (segs \<noteq> [] \<and> ends_with suf (last segs))"

definition RULES :: "(pattern \<times> string) list" where
  "RULES =
     [(UnderDir [''.git'', ''hooks''],
       ''git hook: git runs these scripts on commit, checkout, merge, push, and other operations''),
      (PathSuffix [''.git'', ''config''],
       ''git repository configuration: core.hooksPath, core.fsmonitor, and filter drivers name programs git executes''),
      (PName ''.gitattributes'',
       ''git attributes: filter and diff driver assignments make git run the bound driver commands on checkout, diff, and other operations''),
      (PName ''.gitmodules'',
       ''git submodules: URL and path changes control what git fetches and checks out on submodule update''),
      (PName ''.envrc'',
       ''direnv configuration: the shell executes .envrc when entering the directory''),
      (UnderDir [''.direnv''],
       ''direnv state: contents are loaded by direnv when entering the directory''),
      (UnderDir [''.vscode''],
       ''VS Code workspace configuration: tasks.json, settings.json, and launch.json can run commands when the folder is opened''),
      (UnderDir [''.idea''],
       ''JetBrains IDE configuration: run configurations and tool settings can run commands when the project is opened''),
      (PName ''package.json'',
       ''npm manifest: lifecycle scripts such as postinstall run on package installation''),
      (UnderDir [''.husky''],
       ''husky git hook: git runs these scripts on commit and other operations''),
      (PName ''.pre-commit-config.yaml'',
       ''pre-commit configuration: defines hooks that run on git commit''),
      (PName ''build.rs'',
       ''cargo build script: compiled and run by cargo build''),
      (PathSuffix [''.cargo'', ''config.toml''],
       ''cargo configuration: runner and rustc-wrapper settings redirect build and run commands''),
      (PathSuffix [''.cargo'', ''config''],
       ''cargo configuration: runner and rustc-wrapper settings redirect build and run commands''),
      (NameSuffix ''.code-workspace'',
       ''VS Code workspace file: embedded settings and tasks can run commands when opened'')]"

definition path_segments :: "string \<Rightarrow> string list" where
  "path_segments p = filter (\<lambda>s. s \<noteq> []) (path_components p)"

definition match_path :: "string \<Rightarrow> string option" where
  "match_path p =
     (let segs = path_segments p in
      if segs = [] then None
      else map_option snd (find (\<lambda>(pat, _). pattern_matches pat segs) RULES))"

section \<open>The unlock report\<close>

record auto_exec_flag =
  af_path :: string
  af_reason :: string

record unlock_report =
  ur_changes :: "file_change list"
  ur_flags :: "auto_exec_flag list"

definition change_flag :: "file_change \<Rightarrow> auto_exec_flag option" where
  "change_flag c = map_option (\<lambda>r. \<lparr>af_path = fc_path c, af_reason = r\<rparr>) (match_path (fc_path c))"

definition unlock_report_of :: "diff_io \<Rightarrow> tree \<Rightarrow> tree \<Rightarrow> workspace_error + unlock_report" where
  "unlock_report_of io locked current =
     (case diff_trees io locked current of
        Inl e \<Rightarrow> Inl e
      | Inr cs \<Rightarrow> Inr \<lparr>ur_changes = cs, ur_flags = List.map_filter change_flag cs\<rparr>)"

section \<open>The manifest reads back\<close>

lemma bt_insert_last:
  "sorted_wrt (<) (map fst (t @ [(k, v)])) \<Longrightarrow> bt_insert k v t = t @ [(k, v)]"
proof (induction t)
  case (Cons e t)
  then show ?case by (cases e) (auto dest: order.asym)
qed simp

lemma collect_from_tree:
  "sorted_wrt (<) (map fst (t @ t')) \<Longrightarrow> collect_tree (map (\<lambda>(p, e). from_tree p e) t') t = Inr (t @ t')"
proof (induction t' arbitrary: t)
  case (Cons e t')
  obtain p n where e: "e = (p, n)" by (cases e)
  have "into_tree (from_tree p n) = Inr (p, n)" by (cases n) (simp_all add: into_tree_def)
  moreover have "bt_insert p n t = t @ [(p, n)]"
    using Cons.prems e by (intro bt_insert_last) (auto simp: sorted_wrt_append)
  ultimately show ?case using Cons.IH [of "t @ [(p, n)]"] Cons.prems e by simp
qed simp

text \<open>
  The manifest written for a tree reads back as the same tree, modes and link targets included,
  whenever the JSON decoder inverts the encoder on it.
\<close>

theorem manifest_roundtrip:
  assumes "sorted_wrt (<) (map fst t)"
    and "de (ser (map (\<lambda>(p, e). from_tree p e) t)) = Inr (map (\<lambda>(p, e). from_tree p e) t)"
  shows "load_manifest de path (write_manifest ser t) = Inr t"
  using assms collect_from_tree [of "[]" t] by (simp add: load_manifest_def write_manifest_def)

section \<open>The report is exact\<close>

fun modes_agree :: "u32 option \<Rightarrow> u32 option \<Rightarrow> bool" where
  "modes_agree (Some m) (Some m') = (m = m')"
| "modes_agree _ _ = True"

fun same_entry :: "tree_entry \<Rightarrow> tree_entry \<Rightarrow> bool" where
  "same_entry (TE_File h n m) (TE_File h' n' m') = (h = h' \<and> n = n' \<and> modes_agree m m')"
| "same_entry (TE_Symlink t) (TE_Symlink t') = (t = t')"
| "same_entry (TE_Dir m) (TE_Dir m') = modes_agree m m'"
| "same_entry _ _ = False"

text \<open>What became of a path, from what was there before and after.\<close>

fun path_change :: "tree_entry option \<Rightarrow> tree_entry option \<Rightarrow> change_kind option" where
  "path_change None None = None"
| "path_change None (Some _) = Some Added"
| "path_change (Some _) None = Some Deleted"
| "path_change (Some e) (Some e') = (if same_entry e e' then None else Some Modified)"

lemma mode_note_iff: "mode_note e e' = None \<longleftrightarrow> modes_agree (diff_entry_mode e) (diff_entry_mode e')"
  by (cases "diff_entry_mode e"; cases "diff_entry_mode e'") (auto simp: mode_note_def)

lemma same_entry_iff: "content_equal e e' \<and> mode_note e e' = None \<longleftrightarrow> same_entry e e'"
  unfolding mode_note_iff by (cases e; cases e') auto

text \<open>Every file of the current tree and the blob of every file of the locked tree can be read.\<close>

fun file_readable :: "diff_io \<Rightarrow> string \<Rightarrow> tree_entry \<Rightarrow> bool" where
  "file_readable io p (TE_File _ _ _) = (\<not> isl (di_current io p))"
| "file_readable io p _ = True"

fun blob_readable :: "diff_io \<Rightarrow> tree_entry \<Rightarrow> bool" where
  "blob_readable io (TE_File h _ _) = (\<not> isl (di_blob io h))"
| "blob_readable io _ = True"

definition readable :: "diff_io \<Rightarrow> tree \<Rightarrow> tree \<Rightarrow> bool" where
  "readable io locked current =
     (list_all (\<lambda>(p, e). file_readable io p e) current \<and> list_all (\<lambda>(_, e). blob_readable io e) locked)"

lemma readable_at:
  assumes "readable io locked current"
  shows "map_of current p = Some e \<Longrightarrow> file_readable io p e" and "map_of locked p = Some e \<Longrightarrow> blob_readable io e"
  using assms by (auto simp: readable_def list_all_iff dest!: map_of_SomeD)

lemma readable_texts:
  "\<not> isl (di_current io p) \<Longrightarrow> \<exists>x. read_current_text io p = Inr x"
  "\<not> isl (di_blob io h) \<Longrightarrow> \<exists>x. read_blob_text io h n = Inr x"
  by (auto simp: read_current_text_def read_blob_text_def split: sum.splits)

lemma readable_diffs:
  "file_readable io p e \<Longrightarrow> \<exists>x. added_diff io p e = Inr x"
  "blob_readable io e \<Longrightarrow> \<exists>x. deleted_diff io e = Inr x"
  "file_readable io p e' \<Longrightarrow> blob_readable io e \<Longrightarrow> \<exists>x. modified_diff io p e e' = Inr x"
proof -
  show "\<exists>x. added_diff io p e = Inr x" if "file_readable io p e"
    using that readable_texts(1) [of io p] by (cases e) (auto split: option.splits)
  show "\<exists>x. deleted_diff io e = Inr x" if "blob_readable io e"
  proof (cases e)
    case (TE_File h n m)
    then show ?thesis using that readable_texts(2) [of io h n] by (auto split: option.splits)
  qed simp_all
  show "\<exists>x. modified_diff io p e e' = Inr x" if "file_readable io p e'" "blob_readable io e"
  proof (cases "(io, p, e, e')" rule: modified_diff.cases)
    case (1 io' p' h n m h' n' m')
    then show ?thesis
      using that readable_texts(1) [of io p] readable_texts(2) [of io h n] by (auto split: option.splits)
  qed simp_all
qed

lemma diff_path_exact:
  assumes "\<And>e. new = Some e \<Longrightarrow> file_readable io p e" and "\<And>e. old = Some e \<Longrightarrow> blob_readable io e"
  shows "\<exists>c. diff_path io p old new = Inr c \<and>
    (case path_change old new of
       None \<Rightarrow> c = None
     | Some k \<Rightarrow> \<exists>d n. c = Some \<lparr>fc_path = p, fc_kind = k, fc_diff = d, fc_note = n\<rparr>)"
proof (cases old; cases new)
  fix e e' assume *: "old = Some e" "new = Some e'"
  show ?thesis
  proof (cases "same_entry e e'")
    case True
    then have "content_equal e e'" "mode_note e e' = None" by (simp_all add: same_entry_iff [symmetric])
    with * True show ?thesis by (simp add: diff_path_def)
  next
    case False
    obtain d where "modified_diff io p e e' = Inr d" using readable_diffs(3) assms * by blast
    with * False show ?thesis
      by (auto simp: diff_path_def change_of_def Let_def same_entry_iff [symmetric])
  qed
next
  fix e assume *: "old = None" "new = Some e"
  obtain d where "added_diff io p e = Inr d" using readable_diffs(1) assms * by blast
  with * show ?thesis by (simp add: diff_path_def change_of_def)
next
  fix e assume *: "old = Some e" "new = None"
  obtain d where "deleted_diff io e = Inr d" using readable_diffs(2) assms * by blast
  with * show ?thesis by (simp add: diff_path_def change_of_def)
qed (simp add: diff_path_def)

lemma diff_paths_exact:
  assumes "readable io locked current"
  shows "\<exists>cs. diff_paths io locked current ps = Inr cs \<and>
    map (\<lambda>c. (fc_path c, fc_kind c)) cs =
      List.map_filter (\<lambda>p. map_option (Pair p) (path_change (map_of locked p) (map_of current p))) ps"
proof (induction ps)
  case Nil
  then show ?case by simp
next
  case (Cons p ps)
  then obtain cs where "diff_paths io locked current ps = Inr cs"
    "map (\<lambda>c. (fc_path c, fc_kind c)) cs =
      List.map_filter (\<lambda>p. map_option (Pair p) (path_change (map_of locked p) (map_of current p))) ps"
    by blast
  moreover obtain c where "diff_path io p (map_of locked p) (map_of current p) = Inr c"
    "case path_change (map_of locked p) (map_of current p) of
       None \<Rightarrow> c = None
     | Some k \<Rightarrow> \<exists>d n. c = Some \<lparr>fc_path = p, fc_kind = k, fc_diff = d, fc_note = n\<rparr>"
    using diff_path_exact [of "map_of current p" io p "map_of locked p"] readable_at [OF assms] by blast
  ultimately show ?case by (auto split: option.splits)
qed

lemma map_filter_pair:
  "map fst (List.map_filter (\<lambda>p. map_option (Pair p) (f p)) ps) = filter (\<lambda>p. f p \<noteq> None) ps"
  by (induction ps) (auto split: option.splits)

lemma path_change_in: "path_change (map_of t p) (map_of t' p) = Some k \<Longrightarrow> p \<in> fst ` set t \<union> fst ` set t'"
  by (cases "map_of t p"; cases "map_of t' p") (auto dest: map_of_SomeD intro: rev_image_eqI)

lemma diff_trees_exact:
  assumes "readable io locked current"
  obtains cs where "diff_trees io locked current = Inr cs" "sorted_wrt (<) (map fc_path cs)"
    "\<And>p k. (p, k) \<in> set (map (\<lambda>c. (fc_path c, fc_kind c)) cs) \<longleftrightarrow>
       path_change (map_of locked p) (map_of current p) = Some k"
proof -
  let ?ps = "remdups (sort (map fst locked @ map fst current))"
  let ?f = "\<lambda>p. path_change (map_of locked p) (map_of current p)"
  obtain cs where cs: "diff_trees io locked current = Inr cs"
    "map (\<lambda>c. (fc_path c, fc_kind c)) cs = List.map_filter (\<lambda>p. map_option (Pair p) (?f p)) ?ps"
    using diff_paths_exact [OF assms, of ?ps] by (auto simp: diff_trees_def)
  have "map fc_path cs = map fst (map (\<lambda>c. (fc_path c, fc_kind c)) cs)" by simp
  also have "\<dots> = filter (\<lambda>p. ?f p \<noteq> None) ?ps" unfolding cs(2) by (rule map_filter_pair)
  finally have "sorted_wrt (<) (map fc_path cs)" by (simp add: sorted_wrt_filter strict_sorted_iff)
  moreover have "(p, k) \<in> set (map (\<lambda>c. (fc_path c, fc_kind c)) cs) \<longleftrightarrow> ?f p = Some k" for p k
    unfolding cs(2) set_map_filter_iff using path_change_in [of locked p current k] by auto
  ultimately show ?thesis using that cs(1) by blast
qed

lemma report_exact:
  assumes "readable io locked current"
  shows "\<exists>r. unlock_report_of io locked current = Inr r \<and>
    sorted_wrt (<) (map fc_path (ur_changes r)) \<and>
    (\<forall>p k. (p, k) \<in> set (map (\<lambda>c. (fc_path c, fc_kind c)) (ur_changes r)) \<longleftrightarrow>
       path_change (map_of locked p) (map_of current p) = Some k) \<and>
    (\<forall>p why. \<lparr>af_path = p, af_reason = why\<rparr> \<in> set (ur_flags r) \<longleftrightarrow>
       path_change (map_of locked p) (map_of current p) \<noteq> None \<and> match_path p = Some why)"
proof -
  obtain cs where cs: "diff_trees io locked current = Inr cs" "sorted_wrt (<) (map fc_path cs)"
    "\<And>p k. (p, k) \<in> set (map (\<lambda>c. (fc_path c, fc_kind c)) cs) \<longleftrightarrow>
       path_change (map_of locked p) (map_of current p) = Some k"
    using diff_trees_exact [OF assms] by metis
  have changed: "p \<in> set (map fc_path cs) \<longleftrightarrow> path_change (map_of locked p) (map_of current p) \<noteq> None" for p
  proof -
    have "p \<in> set (map fc_path cs) \<longleftrightarrow> (\<exists>k. (p, k) \<in> set (map (\<lambda>c. (fc_path c, fc_kind c)) cs))" by auto
    then show ?thesis unfolding cs(3) by blast
  qed
  have "\<lparr>af_path = p, af_reason = why\<rparr> \<in> set (List.map_filter change_flag cs) \<longleftrightarrow>
      p \<in> set (map fc_path cs) \<and> match_path p = Some why" for p why
    unfolding set_map_filter_iff by (auto simp: change_flag_def)
  then show ?thesis using cs changed by (simp add: unlock_report_of_def)
qed

text \<open>
  C30: when the files of the current tree and the blobs of the locked one can be read, the unlock report lists exactly the paths whose
  entry appeared, disappeared or differs in content, link target, kind or recorded mode, each once
  and in path order, with the right kind of change, and flags exactly those of them that match an
  auto-exec rule, with the reason of the first rule that matches.
\<close>

theorem unlock_report_exact:
  assumes "readable io locked current"
  shows "\<exists>r. unlock_report_of io locked current = Inr r \<and>
    sorted_wrt (<) (map fc_path (ur_changes r)) \<and>
    (\<forall>p k. (p, k) \<in> set (map (\<lambda>c. (fc_path c, fc_kind c)) (ur_changes r)) \<longleftrightarrow>
       path_change (map_of locked p) (map_of current p) = Some k) \<and>
    (\<forall>p why. \<lparr>af_path = p, af_reason = why\<rparr> \<in> set (ur_flags r) \<longleftrightarrow>
       path_change (map_of locked p) (map_of current p) \<noteq> None \<and> match_path p = Some why)"
  using assms by (rule report_exact)

section \<open>Hooks are flagged\<close>

lemma windows_append: "ys \<in> set (windows (length ys) (xs @ ys @ zs))"
proof -
  have "take (length ys) (drop (length xs) (xs @ ys @ zs)) = ys" by simp
  moreover have "length xs \<in> set [0..<Suc (length (xs @ ys @ zs)) - length ys]" by simp
  ultimately show ?thesis unfolding windows_def set_map by (metis image_eqI)
qed

lemma match_path_rule:
  assumes "(pat, why) \<in> set RULES" and "pattern_matches pat (path_segments p)" and "path_segments p \<noteq> []"
  shows "\<exists>why'. match_path p = Some why'"
proof -
  have "find (\<lambda>(pat, _). pattern_matches pat (path_segments p)) RULES \<noteq> None"
    using assms(1,2) by (auto simp: find_None_iff)
  with assms(3) show ?thesis by (auto simp: match_path_def)
qed

text \<open>
  No change below a directory \<open>.git/hooks\<close>, however deep that directory lies in the workspace,
  escapes the flags of the report.
\<close>

theorem hook_changes_flagged:
  assumes "readable io locked current" and "path_change (map_of locked p) (map_of current p) \<noteq> None"
    and "path_segments p = pre @ [''.git'', ''hooks''] @ rest" and "rest \<noteq> []"
  shows "\<exists>r f. unlock_report_of io locked current = Inr r \<and> f \<in> set (ur_flags r) \<and> af_path f = p"
proof -
  have "butlast (path_segments p) = pre @ [''.git'', ''hooks''] @ butlast rest"
    using assms(3,4) by (simp add: butlast_append)
  then have "pattern_matches (UnderDir [''.git'', ''hooks'']) (path_segments p)"
    using windows_append [of "[''.git'', ''hooks'']" pre "butlast rest"] by (simp add: list_ex_iff)
  moreover have "UnderDir [''.git'', ''hooks''] \<in> fst ` set RULES" by (simp add: RULES_def)
  ultimately obtain why where why: "match_path p = Some why"
    using match_path_rule assms(3) by fastforce
  obtain cs where cs: "diff_trees io locked current = Inr cs"
    "\<And>p k. (p, k) \<in> set (map (\<lambda>c. (fc_path c, fc_kind c)) cs) \<longleftrightarrow>
       path_change (map_of locked p) (map_of current p) = Some k"
    using diff_trees_exact [OF assms(1)] by metis
  from assms(2) obtain k where "path_change (map_of locked p) (map_of current p) = Some k" by blast
  with cs(2) have "(p, k) \<in> set (map (\<lambda>c. (fc_path c, fc_kind c)) cs)" by blast
  then obtain c where c: "c \<in> set cs" "fc_path c = p" by auto
  with why have "\<lparr>af_path = p, af_reason = why\<rparr> \<in> set (List.map_filter change_flag cs)"
    unfolding set_map_filter_iff by (auto simp: change_flag_def)
  with cs(1) show ?thesis
    unfolding unlock_report_of_def by (metis (no_types, lifting) auto_exec_flag.select_convs(1) sum.simps(6) unlock_report.select_convs(2))
qed

section \<open>A sample workspace\<close>

definition sample_locked :: tree where
  "sample_locked = [(''README'', TE_File ''h1'' 5 (Some 0x1A4)), (''src'', TE_Dir (Some 0x1ED))]"

definition sample_current :: tree where
  "sample_current =
     [(''.git/hooks/pre-commit'', TE_File ''h2'' 9 (Some 0x1ED)), (''README'', TE_File ''h1'' 5 (Some 0x1ED)),
      (''src'', TE_Dir (Some 0x1ED))]"

definition sample_io :: diff_io where
  "sample_io = \<lparr>di_current = (\<lambda>_. Inr ''new''), di_blob = (\<lambda>_. Inr ''old''), di_unified = (\<lambda>a b. a @ b)\<rparr>"

lemma sample_readable: "readable sample_io sample_locked sample_current"
  by (simp add: readable_def sample_io_def sample_locked_def sample_current_def)

theorem manifest_roundtrip_witness:
  "load_manifest (\<lambda>_. Inr (map (\<lambda>(p, e). from_tree p e) sample_locked)) ''m''
     (write_manifest (\<lambda>_. ''bytes'') sample_locked) = Inr sample_locked"
proof (rule manifest_roundtrip)
  show "sorted_wrt (<) (map fst sample_locked)" by code_simp
qed simp

theorem unlock_report_exact_witness:
  "\<exists>r. unlock_report_of sample_io sample_locked sample_current = Inr r \<and>
     (''README'', Modified) \<in> set (map (\<lambda>c. (fc_path c, fc_kind c)) (ur_changes r)) \<and>
     ''src'' \<notin> set (map fc_path (ur_changes r))"
proof -
  obtain r where r: "unlock_report_of sample_io sample_locked sample_current = Inr r"
    and ch: "\<And>p k. (p, k) \<in> set (map (\<lambda>c. (fc_path c, fc_kind c)) (ur_changes r)) \<longleftrightarrow>
       path_change (map_of sample_locked p) (map_of sample_current p) = Some k"
    using unlock_report_exact [OF sample_readable] by blast
  have "path_change (map_of sample_locked ''README'') (map_of sample_current ''README'') = Some Modified"
    "path_change (map_of sample_locked ''src'') (map_of sample_current ''src'') = None"
    by code_simp+
  with ch [of "''README''"] ch [of "''src''"] r show ?thesis by auto
qed

theorem hook_changes_flagged_witness:
  "\<exists>r f. unlock_report_of sample_io sample_locked sample_current = Inr r \<and> f \<in> set (ur_flags r) \<and>
     af_path f = ''.git/hooks/pre-commit''"
proof (rule hook_changes_flagged [OF sample_readable])
  show "path_change (map_of sample_locked ''.git/hooks/pre-commit'')
      (map_of sample_current ''.git/hooks/pre-commit'') \<noteq> None"
    by code_simp
  show "path_segments ''.git/hooks/pre-commit'' = [] @ [''.git'', ''hooks''] @ [''pre-commit'']" by code_simp
qed simp

end
