(* ===== verification/Silo_Files.thy ===== *)
theory Silo_Files
  imports Silo_Snapshot "HOL-Library.AList"
begin

text \<open>
  The file operations of a workspace lock (\<open>silo-workspace/src/strategy.rs\<close>: \<open>move_contents\<close>,
  \<open>copy_contents\<close>, \<open>remove_contents\<close> and what they call; \<open>snapshot.rs\<close>: \<open>scan_tree\<close>, \<open>snapshot\<close>,
  \<open>walk_tree\<close>). A directory is the list of its entries in the order \<open>read_dir\<close> gives them. Every
  operation takes the failures the system calls will meet, in order, and leaves behind what had been
  done before the failure; an exhausted list means that no further call fails.
\<close>

unbundle bit_operations_syntax

section \<open>File trees and failing calls\<close>

datatype node =
    Nd_File string u32
  | Nd_Link string
  | Nd_Dir u32 "(string \<times> node) list"
  | Nd_Other

type_synonym dir = "(string \<times> node) list"

text \<open>
  One entry per group of system calls: \<open>None\<close> when all of them succeed, otherwise the error and how
  far the group got, zero when it changed nothing.
\<close>

type_synonym faults = "(nat \<times> io_error) option list"

text \<open>
  What the surroundings decide: whether renaming from one directory to the other stays on one device,
  whether writing through a symbolic link works, and the mode a new directory gets.
\<close>

record fs_env =
  fe_same_device :: bool
  fe_follow :: "string \<Rightarrow> bool"
  fe_dir_mode :: u32

definition next_fault :: "faults \<Rightarrow> (nat \<times> io_error) option" where
  "next_fault fs = (case fs of [] \<Rightarrow> None | f # _ \<Rightarrow> f)"

definition EEXIST :: io_error where
  "EEXIST = ''File exists (os error 17)''"

definition EISDIR :: io_error where
  "EISDIR = ''Is a directory (os error 21)''"

definition ENOENT :: io_error where
  "ENOENT = ''No such file or directory (os error 2)''"

definition NOT_REGULAR :: io_error where
  "NOT_REGULAR = ''the source path is neither a regular file nor a symlink to a regular file''"

definition put_entry :: "string \<Rightarrow> node option \<Rightarrow> dir \<Rightarrow> dir" where
  "put_entry name n d = (case n of None \<Rightarrow> AList.delete name d | Some x \<Rightarrow> AList.update name x d)"

section \<open>Copying\<close>

text \<open>\<open>fs::copy\<close> onto what is at the destination.\<close>

definition copy_file ::
  "fs_env \<Rightarrow> string \<Rightarrow> u32 \<Rightarrow> node option \<Rightarrow> faults \<Rightarrow> node option \<times> io_error option \<times> faults" where
  "copy_file env bytes mode dst fs =
     (case next_fault fs of
        Some (k, e) \<Rightarrow>
          (if k = 0 then dst
           else case dst of Some (Nd_Dir _ _) \<Rightarrow> dst | Some (Nd_Link _) \<Rightarrow> dst
                          | _ \<Rightarrow> Some (Nd_File (take (k - 1) bytes) mode), Some e, tl fs)
      | None \<Rightarrow>
          (case dst of
             Some (Nd_Dir _ _) \<Rightarrow> (dst, Some EISDIR, tl fs)
           | Some (Nd_Link t) \<Rightarrow> (dst, if fe_follow env t then None else Some ENOENT, tl fs)
           | _ \<Rightarrow> (Some (Nd_File bytes mode), None, tl fs)))"

text \<open>\<open>create_dir_all\<close> on one missing level: the entries then there, unless something else is.\<close>

fun open_dir :: "fs_env \<Rightarrow> node option \<Rightarrow> (u32 \<times> dir) option" where
  "open_dir env None = Some (fe_dir_mode env, [])"
| "open_dir env (Some (Nd_Dir m d)) = Some (m, d)"
| "open_dir env _ = None"

fun copy_entry ::
    "fs_env \<Rightarrow> node \<Rightarrow> node option \<Rightarrow> faults \<Rightarrow> node option \<times> io_error option \<times> faults"
  and copy_kids :: "fs_env \<Rightarrow> dir \<Rightarrow> dir \<Rightarrow> faults \<Rightarrow> dir \<times> io_error option \<times> faults" where
  "copy_entry env (Nd_Link t) dst fs =
     (case next_fault fs of
        Some (_, e) \<Rightarrow> (dst, Some e, tl fs)
      | None \<Rightarrow> (case dst of None \<Rightarrow> (Some (Nd_Link t), None, tl fs) | Some _ \<Rightarrow> (dst, Some EEXIST, tl fs)))"
| "copy_entry env (Nd_Dir mode kids) dst fs =
     (case dst of
        Some (Nd_Link t) \<Rightarrow>
          (dst, (case next_fault fs of Some (_, e) \<Rightarrow> Some e
                 | None \<Rightarrow> if fe_follow env t then None else Some EEXIST), tl fs)
      | _ \<Rightarrow>
        (case open_dir env dst of
           None \<Rightarrow> (dst, Some EEXIST, tl fs)
         | Some (m, d) \<Rightarrow>
             (case next_fault fs of
                Some (k, e) \<Rightarrow> (if k = 0 then dst else Some (Nd_Dir m d), Some e, tl fs)
              | None \<Rightarrow>
                  (case copy_kids env kids d (tl fs) of
                     (d1, Some e, fs1) \<Rightarrow> (Some (Nd_Dir m d1), Some e, fs1)
                   | (d1, None, fs1) \<Rightarrow>
                       (case next_fault fs1 of
                          Some (_, e) \<Rightarrow> (Some (Nd_Dir m d1), Some e, tl fs1)
                        | None \<Rightarrow> (Some (Nd_Dir mode d1), None, tl fs1))))))"
| "copy_entry env (Nd_File bytes mode) dst fs = copy_file env bytes mode dst fs"
| "copy_entry env Nd_Other dst fs =
     (dst, Some (case next_fault fs of Some (_, e) \<Rightarrow> e | None \<Rightarrow> NOT_REGULAR), tl fs)"
| "copy_kids env [] d fs = (d, None, fs)"
| "copy_kids env ((name, n) # rest) d fs =
     (case copy_entry env n (map_of d name) fs of
        (x, Some e, fs1) \<Rightarrow> (put_entry name x d, Some e, fs1)
      | (x, None, fs1) \<Rightarrow> copy_kids env rest (put_entry name x d) fs1)"

text \<open>\<open>copy_contents_excluding\<close>: the entries of one directory but for those with an excluded name.\<close>

definition copy_contents_excluding ::
  "fs_env \<Rightarrow> string list \<Rightarrow> dir \<Rightarrow> dir \<Rightarrow> faults \<Rightarrow> dir \<times> io_error option \<times> faults" where
  "copy_contents_excluding env exclude src dest fs =
     (case next_fault fs of
        Some (_, e) \<Rightarrow> (dest, Some e, tl fs)
      | None \<Rightarrow> copy_kids env (filter (\<lambda>(name, _). name \<notin> set exclude) src) dest (tl fs))"

definition copy_contents :: "fs_env \<Rightarrow> dir \<Rightarrow> dir \<Rightarrow> faults \<Rightarrow> dir \<times> io_error option \<times> faults" where
  "copy_contents env src dest fs = copy_contents_excluding env [] src dest fs"

section \<open>Removing\<close>

fun remove_entry :: "node \<Rightarrow> faults \<Rightarrow> node option \<times> io_error option \<times> faults"
  and remove_kids :: "dir \<Rightarrow> faults \<Rightarrow> dir \<times> io_error option \<times> faults" where
  "remove_entry (Nd_Dir mode kids) fs =
     (case remove_kids kids fs of
        (d, Some e, fs1) \<Rightarrow> (Some (Nd_Dir mode d), Some e, fs1)
      | (d, None, fs1) \<Rightarrow>
          (case next_fault fs1 of
             Some (_, e) \<Rightarrow> (Some (Nd_Dir mode d), Some e, tl fs1)
           | None \<Rightarrow> (None, None, tl fs1)))"
| "remove_entry n fs =
     (case next_fault fs of Some (_, e) \<Rightarrow> (Some n, Some e, tl fs) | None \<Rightarrow> (None, None, tl fs))"
| "remove_kids [] fs = ([], None, fs)"
| "remove_kids ((name, n) # rest) fs =
     (case remove_entry n fs of
        (x, Some e, fs1) \<Rightarrow> (put_entry name x ((name, n) # rest), Some e, fs1)
      | (_, None, fs1) \<Rightarrow> remove_kids rest fs1)"

definition remove_contents :: "dir \<Rightarrow> faults \<Rightarrow> dir \<times> io_error option \<times> faults" where
  "remove_contents d fs =
     (case next_fault fs of Some (_, e) \<Rightarrow> (d, Some e, tl fs) | None \<Rightarrow> remove_kids d (tl fs))"

section \<open>Moving\<close>

text \<open>Whether \<open>rename\<close> accepts what is at the destination.\<close>

fun rename_onto :: "node \<Rightarrow> node option \<Rightarrow> bool" where
  "rename_onto n None = True"
| "rename_onto (Nd_Dir _ _) (Some (Nd_Dir _ d)) = (d = [])"
| "rename_onto (Nd_Dir _ _) (Some _) = False"
| "rename_onto _ (Some (Nd_Dir _ _)) = False"
| "rename_onto _ (Some _) = True"

text \<open>
  The loop over the entries read: the source and the destination after it. The first group of calls
  of an entry reads it from the listing (a failure that got further than nothing) and renames it.
\<close>

fun move_entries ::
  "fs_env \<Rightarrow> dir \<Rightarrow> dir \<Rightarrow> dir \<Rightarrow> faults \<Rightarrow> dir \<times> dir \<times> io_error option \<times> faults" where
  "move_entries env [] src dest fs = (src, dest, None, fs)"
| "move_entries env ((name, n) # rest) src dest fs =
     (case next_fault fs of
        Some (Suc _, e) \<Rightarrow> (src, dest, Some e, tl fs)
      | f \<Rightarrow>
          if fe_same_device env \<and> f = None \<and> rename_onto n (map_of dest name)
          then move_entries env rest (AList.delete name src) (AList.update name n dest) (tl fs)
          else
            (case copy_entry env n (map_of dest name) (tl fs) of
               (x, Some e, fs1) \<Rightarrow> (src, put_entry name x dest, Some e, fs1)
             | (x, None, fs1) \<Rightarrow>
                 (case remove_entry n fs1 of
                    (y, Some e, fs2) \<Rightarrow> (put_entry name y src, put_entry name x dest, Some e, fs2)
                  | (y, None, fs2) \<Rightarrow>
                      move_entries env rest (put_entry name y src) (put_entry name x dest) fs2)))"

definition move_contents ::
  "fs_env \<Rightarrow> dir \<Rightarrow> dir \<Rightarrow> faults \<Rightarrow> dir \<times> dir \<times> io_error option \<times> faults" where
  "move_contents env src dest fs =
     (case next_fault fs of
        Some (_, e) \<Rightarrow> (src, dest, Some e, tl fs)
      | None \<Rightarrow> move_entries env src src dest (tl fs))"

section \<open>Scanning\<close>

text \<open>
  \<open>scan_tree\<close>: the walk goes into a directory right after recording it. What \<open>file_entry\<close> does with a
  regular file is an argument: it may store the content.
\<close>

type_synonym blobs = "(string \<times> string) list"

definition child_path :: "string \<Rightarrow> string \<Rightarrow> string" where
  "child_path base name = (if base = [] then name else base @ ''/'' @ name)"

definition unsupported :: "string \<Rightarrow> string \<Rightarrow> workspace_error" where
  "unsupported base_dir rel = Ws_Setup (''unsupported file type at '' @ base_dir @ ''/'' @ rel)"

fun scan_node ::
    "(string \<Rightarrow> blobs \<Rightarrow> string \<times> blobs) \<Rightarrow> string \<Rightarrow> string \<Rightarrow> node \<Rightarrow> tree \<Rightarrow> blobs \<Rightarrow> faults \<Rightarrow>
       (workspace_error + tree) \<times> blobs \<times> faults"
  and scan_kids ::
    "(string \<Rightarrow> blobs \<Rightarrow> string \<times> blobs) \<Rightarrow> string \<Rightarrow> string \<Rightarrow> dir \<Rightarrow> tree \<Rightarrow> blobs \<Rightarrow> faults \<Rightarrow>
       (workspace_error + tree) \<times> blobs \<times> faults" where
  "scan_node entry base_dir rel (Nd_File bytes mode) t bl fs =
     (case next_fault fs of
        Some (_, e) \<Rightarrow> (Inl (Ws_Io e), bl, tl fs)
      | None \<Rightarrow>
          (case entry bytes bl of
             (sha, bl1) \<Rightarrow>
               (Inr (bt_insert rel (TE_File sha (of_nat (length bytes)) (Some (mode AND 0xFFF))) t), bl1, tl fs)))"
| "scan_node entry base_dir rel (Nd_Link target) t bl fs =
     (case next_fault fs of
        Some (_, e) \<Rightarrow> (Inl (Ws_Io e), bl, tl fs)
      | None \<Rightarrow> (Inr (bt_insert rel (TE_Symlink target) t), bl, tl fs))"
| "scan_node entry base_dir rel (Nd_Dir mode kids) t bl fs =
     (case next_fault fs of
        Some (_, e) \<Rightarrow> (Inl (Ws_Io e), bl, tl fs)
      | None \<Rightarrow> scan_kids entry base_dir rel kids (bt_insert rel (TE_Dir (Some (mode AND 0xFFF))) t) bl (tl fs))"
| "scan_node entry base_dir rel Nd_Other t bl fs =
     (case next_fault fs of
        Some (_, e) \<Rightarrow> (Inl (Ws_Io e), bl, tl fs)
      | None \<Rightarrow> (Inl (unsupported base_dir rel), bl, tl fs))"
| "scan_kids entry base_dir base [] t bl fs = (Inr t, bl, fs)"
| "scan_kids entry base_dir base ((name, n) # rest) t bl fs =
     (case scan_node entry base_dir (child_path base name) n t bl fs of
        (Inl e, bl1, fs1) \<Rightarrow> (Inl e, bl1, fs1)
      | (Inr t1, bl1, fs1) \<Rightarrow> scan_kids entry base_dir base rest t1 bl1 fs1)"

definition scan_tree ::
  "(string \<Rightarrow> blobs \<Rightarrow> string \<times> blobs) \<Rightarrow> string \<Rightarrow> dir \<Rightarrow> blobs \<Rightarrow> faults \<Rightarrow>
     (workspace_error + tree) \<times> blobs \<times> faults" where
  "scan_tree entry base_dir d bl fs =
     (case next_fault fs of
        Some (_, e) \<Rightarrow> (Inl (Ws_Io e), bl, tl fs)
      | None \<Rightarrow> scan_kids entry base_dir [] d [] bl (tl fs))"

definition hash_file :: "(string \<Rightarrow> string) \<Rightarrow> string \<Rightarrow> blobs \<Rightarrow> string \<times> blobs" where
  "hash_file sha256 bytes bl = (sha256 bytes, bl)"

text \<open>A blob is stored under its hash; one that is there already is kept.\<close>

definition store_file_blob :: "(string \<Rightarrow> string) \<Rightarrow> string \<Rightarrow> blobs \<Rightarrow> string \<times> blobs" where
  "store_file_blob sha256 bytes bl =
     (let sha = sha256 bytes in
      (sha, if map_of bl sha = None then (sha, bytes) # bl else bl))"

definition walk_tree ::
  "(string \<Rightarrow> string) \<Rightarrow> string \<Rightarrow> dir \<Rightarrow> faults \<Rightarrow> (workspace_error + tree) \<times> faults" where
  "walk_tree sha256 base_dir d fs =
     (case scan_tree (hash_file sha256) base_dir d [] fs of (r, _, fs1) \<Rightarrow> (r, fs1))"

definition snapshot_dir ::
  "(string \<Rightarrow> string) \<Rightarrow> string \<Rightarrow> dir \<Rightarrow> blobs \<Rightarrow> faults \<Rightarrow> (workspace_error + tree) \<times> blobs \<times> faults" where
  "snapshot_dir sha256 base_dir d bl fs =
     (case next_fault fs of
        Some (_, e) \<Rightarrow> (Inl (Ws_Io e), bl, tl fs)
      | None \<Rightarrow> scan_tree (store_file_blob sha256) base_dir d bl (tl fs))"

section \<open>Reading by path\<close>

text \<open>
  The entry at a path. A path found by a scan never leads through a symbolic link, so resolving links
  is not needed for reading it.
\<close>

fun node_at :: "string list \<Rightarrow> dir \<Rightarrow> node option" where
  "node_at [] d = None"
| "node_at [c] d = map_of d c"
| "node_at (c # cs) d = (case map_of d c of Some (Nd_Dir _ kids) \<Rightarrow> node_at cs kids | _ \<Rightarrow> None)"

definition read_at :: "dir \<Rightarrow> string \<Rightarrow> io_error + string" where
  "read_at d rel = (case node_at (path_components rel) d of Some (Nd_File bytes _) \<Rightarrow> Inr bytes | _ \<Rightarrow> Inl ENOENT)"

definition read_blob :: "blobs \<Rightarrow> string \<Rightarrow> io_error + string" where
  "read_blob bl sha = (case map_of bl sha of Some bytes \<Rightarrow> Inr bytes | None \<Rightarrow> Inl ENOENT)"

section \<open>Well-formed trees\<close>

text \<open>The names in a directory differ, are not empty and have no slash, at every level.\<close>

definition name_ok :: "string \<Rightarrow> bool" where
  "name_ok name = (name \<noteq> [] \<and> CHR ''/'' \<notin> set name)"

fun node_wf :: "node \<Rightarrow> bool" where
  "node_wf (Nd_Dir _ kids) =
     (distinct (map fst kids) \<and> list_all (\<lambda>k. name_ok (fst k) \<and> node_wf (snd k)) kids)"
| "node_wf _ = True"

definition dir_wf :: "dir \<Rightarrow> bool" where
  "dir_wf d = (distinct (map fst d) \<and> list_all (\<lambda>k. name_ok (fst k) \<and> node_wf (snd k)) d)"

text \<open>No device, socket or pipe is in it.\<close>

fun plain :: "node \<Rightarrow> bool" where
  "plain (Nd_Dir _ kids) = list_all (\<lambda>k. plain (snd k)) kids"
| "plain Nd_Other = False"
| "plain _ = True"

definition dir_plain :: "dir \<Rightarrow> bool" where
  "dir_plain d = list_all (\<lambda>k. plain (snd k)) d"

lemma dir_wf_simps [simp]:
  "dir_wf []"
  "dir_wf ((k, n) # d) \<longleftrightarrow> k \<notin> fst ` set d \<and> name_ok k \<and> node_wf n \<and> dir_wf d"
  "node_wf (Nd_Dir m d) \<longleftrightarrow> dir_wf d"
  by (auto simp: dir_wf_def)

lemma dir_plain_simps [simp]:
  "dir_plain []" "dir_plain ((k, n) # d) \<longleftrightarrow> plain n \<and> dir_plain d" "plain (Nd_Dir m d) \<longleftrightarrow> dir_plain d"
  by (simp_all add: dir_plain_def)

declare node_wf.simps(1) [simp del] plain.simps(1) [simp del]

section \<open>Copies that succeed are exact\<close>

lemma no_faults [simp]: "next_fault [] = None"
  by (simp add: next_fault_def)

lemma update_new: "k \<notin> fst ` set d \<Longrightarrow> AList.update k v d = d @ [(k, v)]"
  by (induction d) auto

lemma put_entry_new: "k \<notin> fst ` set d \<Longrightarrow> put_entry k (Some v) d = d @ [(k, v)]"
  by (simp add: put_entry_def update_new)

lemma map_of_put_entry: "map_of (put_entry k x d) k' = (if k' = k then x else map_of d k')"
  by (auto simp: put_entry_def update_conv delete_conv split: option.splits)

lemma map_of_missing: "k \<notin> fst ` set d \<Longrightarrow> map_of d k = None"
  by (simp add: map_of_eq_None_iff)

text \<open>Whatever calls fail elsewhere: a copy onto nothing that reports success is the original.\<close>

lemma copy_exact:
  "copy_entry env n dst fs = (x, None, fs') \<Longrightarrow> dst = None \<Longrightarrow> node_wf n \<Longrightarrow> x = Some n"
  "copy_kids env kids d fs = (d', None, fs') \<Longrightarrow> dir_wf kids \<Longrightarrow>
     fst ` set kids \<inter> fst ` set d = {} \<Longrightarrow> d' = d @ kids"
proof (induction env n dst fs and env kids d fs arbitrary: x fs' and d' fs'
    rule: copy_entry_copy_kids.induct)
  case (2 env mode kids dst fs)
  then show ?case by (auto split: option.splits prod.splits)
next
  case (6 env name n rest d fs)
  then obtain y fs1 where y: "copy_entry env n (map_of d name) fs = (y, None, fs1)"
    "copy_kids env rest (put_entry name y d) fs1 = (d', None, fs')"
    by (auto split: option.splits prod.splits)
  have new: "name \<notin> fst ` set d" using 6 by auto
  have "y = Some n" using 6 y(1) map_of_missing [OF new] by auto
  with new have "put_entry name y d = d @ [(name, n)]" by (simp add: put_entry_new)
  moreover have "fst ` set rest \<inter> fst ` set (d @ [(name, n)]) = {}" using 6 by auto
  ultimately show ?case
    using "6.IH"(2) [OF y(1) [symmetric] refl refl y(2)] 6(4) by simp
qed (auto simp: copy_file_def split: option.splits prod.splits if_splits)

text \<open>Without failures everything succeeds.\<close>

lemma copy_clean:
  "fs = [] \<Longrightarrow> dst = None \<Longrightarrow> node_wf n \<Longrightarrow> plain n \<Longrightarrow> copy_entry env n dst fs = (Some n, None, [])"
  "fs = [] \<Longrightarrow> dir_wf kids \<Longrightarrow> dir_plain kids \<Longrightarrow> fst ` set kids \<inter> fst ` set d = {} \<Longrightarrow>
     copy_kids env kids d fs = (d @ kids, None, [])"
proof (induction env n dst fs and env kids d fs rule: copy_entry_copy_kids.induct)
  case (6 env name n rest d fs)
  then have new: "name \<notin> fst ` set d" by auto
  have "copy_entry env n (map_of d name) fs = (Some n, None, [])"
    using 6 map_of_missing [OF new] by simp
  moreover have "fst ` set rest \<inter> fst ` set (d @ [(name, n)]) = {}" using 6 by auto
  ultimately show ?case using 6 new by (simp add: put_entry_new)
qed (auto simp: copy_file_def)

lemma remove_clean:
  "fs = [] \<Longrightarrow> remove_entry n fs = (None, None, [])" "fs = [] \<Longrightarrow> remove_kids d fs = ([], None, [])"
  by (induction n fs and d fs rule: remove_entry_remove_kids.induct) auto

lemma remove_gone:
  "remove_entry n fs = (y, None, fs') \<Longrightarrow> y = None"
  by (cases n) (auto split: option.splits prod.splits)

lemma move_clean:
  assumes "dir_wf todo" and "dir_plain todo" and "fst ` set todo \<inter> fst ` set dest = {}"
  shows "move_entries env todo src dest [] =
    (filter (\<lambda>e. fst e \<notin> fst ` set todo) src, dest @ todo, None, [])"
  using assms
proof (induction todo arbitrary: src dest)
  case (Cons e todo)
  obtain name n where e: "e = (name, n)" by (cases e)
  have new: "name \<notin> fst ` set dest" using Cons.prems e by auto
  have rest: "fst ` set todo \<inter> fst ` set (dest @ [(name, n)]) = {}" using Cons.prems e by auto
  have "AList.delete name src = filter (\<lambda>e. fst e \<noteq> name) src"
    unfolding AList.delete_eq by (rule filter_cong) auto
  then have "filter (\<lambda>e. fst e \<notin> fst ` set todo) (AList.delete name src) =
      filter (\<lambda>x. fst x \<notin> fst ` set (e # todo)) src"
    using e by (simp add: conj_commute)
  with Cons.IH [of "dest @ [(name, n)]" "AList.delete name src"] Cons.prems e new rest
  show ?case
    by (simp add: map_of_missing copy_clean remove_clean update_new put_entry_new put_entry_def)
qed simp

section \<open>Moving loses nothing\<close>

text \<open>
  Whatever calls fail while a directory is moved into one that has none of its names, every entry is
  whole in the one or in the other afterwards, and it is in the destination after a success.
\<close>

lemma move_entries_cases:
  assumes "move_entries env ((k, n) # todo) src dest fs = (src', dest', err, fs')"
    and "node_wf n" and "map_of dest k = None"
  obtains (stopped) x where "src' = src" "dest' = put_entry k x dest" "err \<noteq> None"
  | (copied) y where "src' = put_entry k y src" "dest' = put_entry k (Some n) dest" "err \<noteq> None"
  | (moved) fs1 where
      "move_entries env todo (put_entry k None src) (put_entry k (Some n) dest) fs1 = (src', dest', err, fs')"
proof -
  have same_dest: "put_entry k None dest = dest"
    using assms(3) by (simp add: put_entry_def map_of_eq_None_iff delete_idem)
  consider (list) e where "next_fault fs = Some e" "src' = src" "dest' = dest" "err \<noteq> None"
    | (rename) "move_entries env todo (AList.delete k src) (AList.update k n dest) (tl fs) = (src', dest', err, fs')"
    | (copy) "(case copy_entry env n None (tl fs) of
               (x, Some e, fs1) \<Rightarrow> (src, put_entry k x dest, Some e, fs1)
             | (x, None, fs1) \<Rightarrow>
                 (case remove_entry n fs1 of
                    (y, Some e, fs2) \<Rightarrow> (put_entry k y src, put_entry k x dest, Some e, fs2)
                  | (y, None, fs2) \<Rightarrow>
                      move_entries env todo (put_entry k y src) (put_entry k x dest) fs2)) =
              (src', dest', err, fs')"
    using assms(1,3) by (auto split: option.splits prod.splits nat.splits if_splits)
  then show thesis
  proof cases
    case list
    then show thesis by (intro stopped [of None]) (simp_all add: same_dest)
  next
    case rename
    then show thesis using moved by (simp add: put_entry_def)
  next
    case copy
    obtain x r fs1 where x: "copy_entry env n None (tl fs) = (x, r, fs1)" by (cases "copy_entry env n None (tl fs)")
    show thesis
    proof (cases r)
      case None
      then have "x = Some n" using copy_exact(1) [OF _ refl assms(2)] x by blast
      moreover obtain y q fs2 where "remove_entry n fs1 = (y, q, fs2)" by (cases "remove_entry n fs1")
      ultimately show thesis
        using copy x None copied moved by (cases q) (auto dest: remove_gone)
    qed (use copy x stopped in auto)
  qed
qed

lemma move_entries_conserves:
  assumes "move_entries env todo src dest fs = (src', dest', err, fs')"
    and "dir_wf todo" and "\<forall>k\<in>fst ` set todo. map_of dest k = None"
  shows "(k \<notin> fst ` set todo \<longrightarrow> map_of src' k = map_of src k \<and> map_of dest' k = map_of dest k) \<and>
    ((k, n) \<in> set todo \<longrightarrow> map_of src k = Some n \<longrightarrow> map_of src' k = Some n \<or> map_of dest' k = Some n) \<and>
    (err = None \<longrightarrow> (k, n) \<in> set todo \<longrightarrow> map_of dest' k = Some n \<and> map_of src' k = None)"
  using assms
proof (induction todo arbitrary: src dest fs)
  case (Cons e todo)
  obtain k0 n0 where e: "e = (k0, n0)" by (cases e)
  have wf: "node_wf n0" "map_of dest k0 = None" "k0 \<notin> fst ` set todo" "dir_wf todo" using Cons.prems e by auto
  from Cons.prems(1) [unfolded e] wf(1,2) show ?case
  proof (cases rule: move_entries_cases)
    case (moved fs1)
    have "\<forall>k\<in>fst ` set todo. map_of (put_entry k0 (Some n0) dest) k = None"
      using Cons.prems(3) wf(3) e by (auto simp: map_of_put_entry)
    note IH = Cons.IH [OF moved wf(4) this]
    show ?thesis
      using IH wf(3) e by (cases "k = k0") (auto simp: map_of_put_entry rev_image_eqI)
  qed (use e wf(3) in \<open>auto simp: map_of_put_entry rev_image_eqI\<close>)
qed simp

section \<open>What a scan finds\<close>

text \<open>The entries below a node in the order of the walk, with their paths.\<close>

fun node_list :: "(string \<Rightarrow> string) \<Rightarrow> string \<Rightarrow> node \<Rightarrow> (string \<times> tree_entry) list"
  and kids_list :: "(string \<Rightarrow> string) \<Rightarrow> string \<Rightarrow> dir \<Rightarrow> (string \<times> tree_entry) list" where
  "node_list sha rel (Nd_File bytes mode) =
     [(rel, TE_File (sha bytes) (of_nat (length bytes)) (Some (mode AND 0xFFF)))]"
| "node_list sha rel (Nd_Link target) = [(rel, TE_Symlink target)]"
| "node_list sha rel (Nd_Dir mode kids) = (rel, TE_Dir (Some (mode AND 0xFFF))) # kids_list sha rel kids"
| "node_list sha rel Nd_Other = []"
| "kids_list sha base [] = []"
| "kids_list sha base ((name, n) # rest) = node_list sha (child_path base name) n @ kids_list sha base rest"

definition bt_collect :: "(string \<times> tree_entry) list \<Rightarrow> tree \<Rightarrow> tree" where
  "bt_collect l t = fold (\<lambda>(p, e). bt_insert p e) l t"

definition tree_of :: "(string \<Rightarrow> string) \<Rightarrow> dir \<Rightarrow> tree" where
  "tree_of sha d = bt_collect (kids_list sha [] d) []"

lemma bt_collect_simps [simp]:
  "bt_collect [] t = t" "bt_collect ((p, e) # l) t = bt_collect l (bt_insert p e t)"
  "bt_collect (l @ l') t = bt_collect l' (bt_collect l t)"
  by (simp_all add: bt_collect_def)

lemma set_bt_insert_subset: "set (bt_insert p e t) \<subseteq> insert (p, e) (set t)"
  by (induction p e t rule: bt_insert.induct) auto

lemma set_bt_collect: "set (bt_collect l t) \<subseteq> set l \<union> set t"
proof (induction l arbitrary: t)
  case (Cons x l)
  obtain p e where x: "x = (p, e)" by (cases x)
  with Cons [of "bt_insert p e t"] set_bt_insert_subset [of p e t] show ?case by auto
qed simp

lemma bt_collect_sorted: "sorted_wrt (<) (map fst t) \<Longrightarrow> sorted_wrt (<) (map fst (bt_collect l t))"
  by (induction l arbitrary: t) (auto simp: bt_insert_sorted)

lemma tree_of_sorted: "sorted_wrt (<) (map fst (tree_of sha d))"
  by (simp add: tree_of_def bt_collect_sorted)

text \<open>
  Without failures a scan of plain files returns the tree, and leaves every file in the store when
  \<open>file_entry\<close> keeps what is there and adds the file it is given.
\<close>

definition keeps_blobs :: "(string \<Rightarrow> string) \<Rightarrow> (string \<Rightarrow> blobs \<Rightarrow> string \<times> blobs) \<Rightarrow> bool \<Rightarrow> bool" where
  "keeps_blobs sha entry stores =
     (\<forall>b bl. fst (entry b bl) = sha b \<and> fst ` set bl \<subseteq> fst ` set (snd (entry b bl)) \<and>
        (stores \<longrightarrow> sha b \<in> fst ` set (snd (entry b bl))))"

definition stored_in :: "blobs \<Rightarrow> tree_entry \<Rightarrow> bool" where
  "stored_in bl e = (case e of TE_File h _ _ \<Rightarrow> h \<in> fst ` set bl | _ \<Rightarrow> True)"

lemma stored_in_mono: "stored_in bl e \<Longrightarrow> fst ` set bl \<subseteq> fst ` set bl' \<Longrightarrow> stored_in bl' e"
  by (cases e) (auto simp: stored_in_def)

lemma scan_clean:
  "keeps_blobs sha entry stores \<Longrightarrow> fs = [] \<Longrightarrow> plain n \<Longrightarrow>
     \<exists>bl'. scan_node entry base_dir rel n t bl fs = (Inr (bt_collect (node_list sha rel n) t), bl', []) \<and>
       fst ` set bl \<subseteq> fst ` set bl' \<and> (stores \<longrightarrow> (\<forall>(p, e)\<in>set (node_list sha rel n). stored_in bl' e))"
  "keeps_blobs sha entry stores \<Longrightarrow> fs = [] \<Longrightarrow> dir_plain d \<Longrightarrow>
     \<exists>bl'. scan_kids entry base_dir rel d t bl fs = (Inr (bt_collect (kids_list sha rel d) t), bl', []) \<and>
       fst ` set bl \<subseteq> fst ` set bl' \<and> (stores \<longrightarrow> (\<forall>(p, e)\<in>set (kids_list sha rel d). stored_in bl' e))"
proof (induction entry base_dir rel n t bl fs and entry base_dir rel d t bl fs
    rule: scan_node_scan_kids.induct)
  case (1 entry base_dir rel bytes mode t bl fs)
  obtain h bl1 where h: "entry bytes bl = (h, bl1)" by (cases "entry bytes bl")
  have "h = sha bytes \<and> fst ` set bl \<subseteq> fst ` set bl1 \<and> (stores \<longrightarrow> sha bytes \<in> fst ` set bl1)"
    using 1(1) h unfolding keeps_blobs_def by (metis fst_conv snd_conv)
  with 1 h show ?case by (simp add: stored_in_def)
next
  case (6 entry base_dir base name n rest t bl fs)
  then obtain bl1 where n: "scan_node entry base_dir (child_path base name) n t bl fs =
      (Inr (bt_collect (node_list sha (child_path base name) n) t), bl1, [])"
    "fst ` set bl \<subseteq> fst ` set bl1"
    "stores \<longrightarrow> (\<forall>(p, e)\<in>set (node_list sha (child_path base name) n). stored_in bl1 e)"
    by auto
  from "6.IH"(2) [OF n(1) [symmetric] refl refl 6(3) refl] 6 obtain bl2 where
    r: "scan_kids entry base_dir base rest (bt_collect (node_list sha (child_path base name) n) t) bl1 [] =
      (Inr (bt_collect (kids_list sha base rest) (bt_collect (node_list sha (child_path base name) n) t)), bl2, [])"
    "fst ` set bl1 \<subseteq> fst ` set bl2" "stores \<longrightarrow> (\<forall>(p, e)\<in>set (kids_list sha base rest). stored_in bl2 e)"
    by auto
  have "stores \<longrightarrow> (\<forall>(p, e)\<in>set (node_list sha (child_path base name) n). stored_in bl2 e)"
    using n(3) stored_in_mono [OF _ r(2)] by auto
  with n r 6 show ?case by auto
qed (auto simp: stored_in_def)

lemma entry_keeps_blobs:
  "keeps_blobs sha (hash_file sha) False" "keeps_blobs sha (store_file_blob sha) True"
  by (auto simp: keeps_blobs_def hash_file_def store_file_blob_def Let_def map_of_eq_None_iff)

lemma walk_clean: "dir_plain d \<Longrightarrow> walk_tree sha base_dir d [] = (Inr (tree_of sha d), [])"
  using scan_clean(2) [OF entry_keeps_blobs(1) refl, of d sha base_dir "[]" "[]" "[]"]
  by (auto simp: walk_tree_def scan_tree_def tree_of_def)

lemma snapshot_clean:
  assumes "dir_plain d"
  obtains bl' where "snapshot_dir sha base_dir d bl [] = (Inr (tree_of sha d), bl', [])"
    "\<forall>(p, e)\<in>set (tree_of sha d). stored_in bl' e"
proof -
  obtain bl' where bl': "scan_kids (store_file_blob sha) base_dir [] d [] bl [] =
      (Inr (bt_collect (kids_list sha [] d) []), bl', [])"
    "\<forall>(p, e)\<in>set (kids_list sha [] d). stored_in bl' e"
    using scan_clean(2) [OF entry_keeps_blobs(2) refl assms] by blast
  then show thesis
    using that set_bt_collect [of "kids_list sha [] d" "[]"]
    by (auto simp: snapshot_dir_def scan_tree_def tree_of_def)
qed

section \<open>Scanned files can be read\<close>

lemma path_components_nonempty [simp]: "path_components p \<noteq> []"
  by (induction p) (auto split: list.splits)

lemma path_components_name: "CHR ''/'' \<notin> set name \<Longrightarrow> path_components name = [name]"
  by (induction name) auto

lemma path_components_snoc:
  "CHR ''/'' \<notin> set name \<Longrightarrow> path_components (base @ CHR ''/'' # name) = path_components base @ [name]"
proof (induction base)
  case (Cons c base)
  then show ?case by (cases "path_components base") auto
qed (simp add: path_components_name)

lemma node_at_snoc:
  "cs \<noteq> [] \<Longrightarrow> node_at (cs @ [c]) d = (case node_at cs d of Some (Nd_Dir _ kids) \<Rightarrow> map_of kids c | _ \<Rightarrow> None)"
proof (induction cs d rule: node_at.induct)
  case (3 c' c'' cs d)
  then show ?case by (auto split: option.splits node.splits)
qed (auto split: option.splits node.splits)

lemma node_at_child:
  assumes "base \<noteq> []" "node_at (path_components base) d = Some (Nd_Dir m kids)" "name_ok name"
  shows "node_at (path_components (child_path base name)) d = map_of kids name"
  using assms by (simp add: child_path_def name_ok_def path_components_snoc node_at_snoc)

lemma scanned_files:
  "(p, TE_File h z m) \<in> set (node_list sha rel n) \<Longrightarrow> rel \<noteq> [] \<Longrightarrow> node_wf n \<Longrightarrow>
     node_at (path_components rel) d = Some n \<Longrightarrow> \<exists>b m'. node_at (path_components p) d = Some (Nd_File b m')"
  "(p, TE_File h z m) \<in> set (kids_list sha base kids) \<Longrightarrow> dir_wf kids \<Longrightarrow>
     \<forall>(k, x)\<in>set kids. node_at (path_components (child_path base k)) d = Some x \<Longrightarrow>
     \<exists>b m'. node_at (path_components p) d = Some (Nd_File b m')"
proof (induction sha rel n and sha base kids rule: node_list_kids_list.induct)
  case (3 sha rel mode kids)
  have "node_at (path_components (child_path rel k)) d = Some x" if "(k, x) \<in> set kids" for k x
  proof -
    have "name_ok k" "map_of kids k = Some x"
      using 3(4) that by (auto simp: dir_wf_def list_all_iff)
    then show ?thesis using node_at_child [OF 3(3,5)] by simp
  qed
  with 3 show ?case by auto
next
  case (6 sha base name n rest)
  have "child_path base name \<noteq> []" using 6(4) by (simp add: child_path_def name_ok_def)
  with 6 show ?case by auto
qed auto

lemma read_at_scanned:
  assumes "dir_wf d" and "(p, TE_File h z m) \<in> set (tree_of sha d)"
  shows "\<not> isl (read_at d p)"
proof -
  have "(p, TE_File h z m) \<in> set (kids_list sha [] d)"
    using assms(2) set_bt_collect [of "kids_list sha [] d" "[]"] by (auto simp: tree_of_def)
  moreover have "\<forall>(k, x)\<in>set d. node_at (path_components (child_path [] k)) d = Some x"
    using assms(1) by (auto simp: dir_wf_def list_all_iff child_path_def name_ok_def path_components_name)
  ultimately obtain b m' where "node_at (path_components p) d = Some (Nd_File b m')"
    using scanned_files(2) assms(1) by blast
  then show ?thesis by (simp add: read_at_def)
qed

lemma read_blob_stored: "stored_in bl (TE_File h z m) \<Longrightarrow> \<not> isl (read_blob bl h)"
  by (auto simp: stored_in_def read_blob_def split: option.splits) (rule weak_map_of_SomeI)

end
