(* ===== verification/Silo_Workspace.thy ===== *)
theory Silo_Workspace
  imports Silo_Files
begin

text \<open>
  The life of a workspace (\<open>silo-workspace/src/lib.rs\<close>: \<open>lock\<close>, \<open>unlock\<close>, \<open>status\<close>, \<open>attach\<close>,
  \<open>attach_shared\<close> and the detach guards; \<open>registry.rs\<close>: the records; \<open>process.rs\<close>; \<open>strategy.rs\<close>: the
  container strategies). The world is the workspace directory, the registry, the directory of every
  snapshot id with its container, blobs and manifest, the running processes, and the failures the
  system calls will meet. An operation maps a world to a result or a \<open>WorkspaceError\<close> and the world it
  leaves. Canonical paths, random ids, SHA-256, the JSON form and the text of a diff are arguments.
\<close>

section \<open>Registry records\<close>

datatype container_strategy = PlainDir | SparseBundle | Ext4Fuse

record attachment =
  at_harness_id :: string
  at_pid :: u32
  at_start_hint :: string
  at_token :: string

record secondary_attachment =
  sa_purpose :: string
  sa_pid :: u32
  sa_start_hint :: string
  sa_token :: string

record registry_entry =
  re_id :: string
  re_locked :: bool
  re_unlocking :: bool
  re_strategy :: container_strategy
  re_attached :: "attachment option"
  re_secondary :: "secondary_attachment list"
  re_warnings :: "string list"

record workspace_status =
  ws_path :: string
  ws_locked :: bool
  ws_attached_harness :: "string option"
  ws_live_shells :: nat
  ws_warnings :: "string list"

section \<open>The world\<close>

record space =
  sp_data :: "dir option"
  sp_bundle :: "dir option"
  sp_image :: "dir option"
  sp_mounted :: bool
  sp_blobs :: blobs
  sp_manifest :: "string option"

record proc =
  pr_start :: string
  pr_zombie :: bool

datatype fate = Exits | Turns_Zombie | Survives

record ws_world =
  ww_dir :: dir
  ww_mode :: u32
  ww_registry :: "(string \<times> registry_entry) list"
  ww_spaces :: "(string \<times> space) list"
  ww_procs :: "(u32 \<times> proc) list"
  ww_faults :: faults

text \<open>
  The surroundings: the canonical paths, the directory names under the state directory, whether the
  build is for Linux, the entries a fresh disk image has, what becomes of a process that is signalled,
  and the libraries.
\<close>

record ws_env =
  we_fs :: fs_env
  we_canon :: string
  we_state :: string
  we_root :: string
  we_linux :: bool
  we_volume :: dir
  we_pid :: u32
  we_signalled :: "u32 \<Rightarrow> fate"
  we_sha256 :: "string \<Rightarrow> string"
  we_ser :: "manifest_entry list \<Rightarrow> string"
  we_de :: "string \<Rightarrow> string + manifest_entry list"
  we_unified :: "string \<Rightarrow> string \<Rightarrow> string"

definition empty_space :: space where
  "empty_space = \<lparr>sp_data = None, sp_bundle = None, sp_image = None, sp_mounted = False, sp_blobs = [],
     sp_manifest = None\<rparr>"

definition space_of :: "string \<Rightarrow> ws_world \<Rightarrow> space" where
  "space_of i w = (case map_of (ww_spaces w) i of Some s \<Rightarrow> s | None \<Rightarrow> empty_space)"

definition set_space :: "string \<Rightarrow> (space \<Rightarrow> space) \<Rightarrow> ws_world \<Rightarrow> ws_world" where
  "set_space i f w = w\<lparr>ww_spaces := AList.update i (f (space_of i w)) (ww_spaces w)\<rparr>"

definition join_path :: "string \<Rightarrow> string \<Rightarrow> string" where
  "join_path d name = d @ ''/'' @ name"

section \<open>Operations that may fail\<close>

type_synonym 'a wsio = "ws_world \<Rightarrow> (workspace_error + 'a) \<times> ws_world"

definition ret :: "'a \<Rightarrow> 'a wsio" where
  "ret x w = (Inr x, w)"

definition raise :: "workspace_error \<Rightarrow> 'a wsio" where
  "raise e w = (Inl e, w)"

definition and_then :: "'a wsio \<Rightarrow> ('a \<Rightarrow> 'b wsio) \<Rightarrow> 'b wsio" where
  "and_then m f w = (case m w of (Inl e, w1) \<Rightarrow> (Inl e, w1) | (Inr x, w1) \<Rightarrow> f x w1)"

definition follow_by :: "'a wsio \<Rightarrow> 'b wsio \<Rightarrow> 'b wsio" where
  "follow_by m m' = and_then m (\<lambda>_. m')"

definition change :: "(ws_world \<Rightarrow> ws_world) \<Rightarrow> unit wsio" where
  "change f w = (Inr (), f w)"

definition get_world :: "ws_world wsio" where
  "get_world w = (Inr w, w)"

text \<open>The result of an operation as a value, for \<open>let r = op()\<close> followed by \<open>r?\<close> later.\<close>

definition result_of :: "'a wsio \<Rightarrow> (workspace_error + 'a) wsio" where
  "result_of m w = (case m w of (r, w1) \<Rightarrow> (Inr r, w1))"

definition from_result :: "workspace_error + 'a \<Rightarrow> 'a wsio" where
  "from_result r w = (r, w)"

text \<open>\<open>let _ = op()\<close>.\<close>

definition ignoring :: "'a wsio \<Rightarrow> unit wsio" where
  "ignoring m w = (Inr (), snd (m w))"

definition map_err :: "(workspace_error \<Rightarrow> workspace_error) \<Rightarrow> 'a wsio \<Rightarrow> 'a wsio" where
  "map_err f m w = (case m w of (Inl e, w1) \<Rightarrow> (Inl (f e), w1) | r \<Rightarrow> r)"

text \<open>A group of system calls without an effect of its own: it fails with an input/output error.\<close>

definition sys :: "unit wsio" where
  "sys w =
     (case next_fault (ww_faults w) of
        Some (_, e) \<Rightarrow> (Inl (Ws_Io e), w\<lparr>ww_faults := tl (ww_faults w)\<rparr>)
      | None \<Rightarrow> (Inr (), w\<lparr>ww_faults := tl (ww_faults w)\<rparr>))"

definition io_result :: "io_error option \<Rightarrow> workspace_error + unit" where
  "io_result r = (case r of Some e \<Rightarrow> Inl (Ws_Io e) | None \<Rightarrow> Inr ())"

section \<open>Processes\<close>

definition start_hint :: "ws_world \<Rightarrow> u32 \<Rightarrow> string" where
  "start_hint w pid = (case map_of (ww_procs w) pid of Some p \<Rightarrow> trim (pr_start p) | None \<Rightarrow> [])"

definition identity_matches :: "ws_world \<Rightarrow> u32 \<Rightarrow> string \<Rightarrow> bool" where
  "identity_matches w pid stored =
     (stored = [] \<or> (let current = start_hint w pid in current = [] \<or> current = stored))"

definition alive :: "ws_world \<Rightarrow> u32 \<Rightarrow> bool" where
  "alive w pid = (pid \<noteq> 0 \<and> map_of (ww_procs w) pid \<noteq> None)"

definition alive_with_hint :: "ws_world \<Rightarrow> u32 \<Rightarrow> string \<Rightarrow> bool" where
  "alive_with_hint w pid stored = (alive w pid \<and> identity_matches w pid stored)"

definition running :: "ws_world \<Rightarrow> u32 \<Rightarrow> bool" where
  "running w pid =
     (alive w pid \<and> (case map_of (ww_procs w) pid of Some p \<Rightarrow> \<not> pr_zombie p | None \<Rightarrow> False))"

definition is_protected :: "ws_env \<Rightarrow> u32 \<Rightarrow> bool" where
  "is_protected env pid = (pid = 0 \<or> pid = 1 \<or> pid = we_pid env)"

text \<open>Signalling and waiting: what the process is afterwards is up to the surroundings.\<close>

definition terminate :: "ws_env \<Rightarrow> u32 \<Rightarrow> string \<Rightarrow> ws_world \<Rightarrow> ws_world" where
  "terminate env pid stored w =
     (if is_protected env pid \<or> \<not> identity_matches w pid stored then w
      else case map_of (ww_procs w) pid of
        None \<Rightarrow> w
      | Some p \<Rightarrow>
          (case we_signalled env pid of
             Exits \<Rightarrow> w\<lparr>ww_procs := AList.delete pid (ww_procs w)\<rparr>
           | Turns_Zombie \<Rightarrow> w\<lparr>ww_procs := AList.update pid (p\<lparr>pr_zombie := True\<rparr>) (ww_procs w)\<rparr>
           | Survives \<Rightarrow> w))"

section \<open>Container strategies\<close>

definition strategy_warning :: "container_strategy \<Rightarrow> string" where
  "strategy_warning k =
     (case k of
        PlainDir \<Rightarrow> ''workspace contents moved under the harness state directory; '' @
                    ''they are protected by file permissions only''
      | SparseBundle \<Rightarrow> ''the workspace image is mounted host-visible while a harness is attached''
      | Ext4Fuse \<Rightarrow> ''the workspace image is mounted host-visible while a harness is attached; '' @
                    ''the image size is fixed at lock time and does not grow'')"

definition uses_image :: "container_strategy \<Rightarrow> bool" where
  "uses_image k = (k = SparseBundle \<or> k = Ext4Fuse)"

definition LINUX_TOOLS_HINT :: string where
  "LINUX_TOOLS_HINT = ''install fuse2fs and mkfs.ext4 (the fuse2fs and e2fsprogs packages) to hold '' @
     ''locked workspaces in an ext4 disk image instead''"

definition select_linux_strategy :: "(string \<Rightarrow> bool) \<Rightarrow> container_strategy \<times> string option" where
  "select_linux_strategy have_tool =
     (if have_tool ''fuse2fs'' \<and> have_tool ''mkfs.ext4'' then (Ext4Fuse, None)
      else (PlainDir, Some LINUX_TOOLS_HINT))"

datatype target_os = MacOs | Linux | OtherOs

definition select_for_platform :: "target_os \<Rightarrow> (string \<Rightarrow> bool) \<Rightarrow> container_strategy \<times> string option" where
  "select_for_platform os have_tool =
     (case os of
        MacOs \<Rightarrow> (SparseBundle, None)
      | Linux \<Rightarrow> select_linux_strategy have_tool
      | OtherOs \<Rightarrow> (PlainDir, None))"

definition MARKER_FILE_NAME :: string where
  "MARKER_FILE_NAME = ''LOCKED_BY_LLMDEVSILO''"

definition nl :: string where
  "nl = [CHR 0x0A]"

definition MARKER_CONTENTS :: string where
  "MARKER_CONTENTS =
     ''This directory is a locked llmdevsilo workspace.'' @ nl @ nl @
     ''While locked, the contents are managed by the llmdevsilo harness and a'' @ nl @
     ''sandboxed coding agent may be working on them. Do not create, edit, or'' @ nl @
     ''delete files here from outside the sandbox.'' @ nl @ nl @
     ''To stop the harness, restore the contents, and review a report of every'' @ nl @
     ''change, unlock the workspace:'' @ nl @ nl @
     ''    silo workspace unlock <path-to-this-directory>'' @ nl"

definition VOLUME_METADATA :: "string list" where
  "VOLUME_METADATA = [''.fseventsd'', ''.Spotlight-V100'', ''.Trashes'', ''.TemporaryItems'']"

definition EXT4_VOLUME_METADATA :: "string list" where
  "EXT4_VOLUME_METADATA = [''lost+found'']"

definition write_marker :: "unit wsio" where
  "write_marker =
     follow_by sys
       (change (\<lambda>w. w\<lparr>ww_dir := AList.update MARKER_FILE_NAME (Nd_File MARKER_CONTENTS 0x1A4) (ww_dir w)\<rparr>))"

text \<open>Its failure, also that of a name which is a directory, is ignored.\<close>

definition remove_marker :: "unit wsio" where
  "remove_marker =
     ignoring (follow_by sys
       (change (\<lambda>w. case map_of (ww_dir w) MARKER_FILE_NAME of
                      Some (Nd_Dir _ _) \<Rightarrow> w
                    | _ \<Rightarrow> w\<lparr>ww_dir := AList.delete MARKER_FILE_NAME (ww_dir w)\<rparr>)))"

definition make_dir_readonly :: "unit wsio" where
  "make_dir_readonly = follow_by sys (change (\<lambda>w. w\<lparr>ww_mode := ww_mode w AND NOT 0x92\<rparr>))"

definition make_dir_writable :: "unit wsio" where
  "make_dir_writable = follow_by sys (change (\<lambda>w. w\<lparr>ww_mode := ww_mode w OR 0x80\<rparr>))"

text \<open>The bytes of the regular files below a directory and the size of an image for them.\<close>

definition saturating_add :: "u64 \<Rightarrow> u64 \<Rightarrow> u64" where
  "saturating_add a b = (if unat a + unat b < 2 ^ 64 then a + b else - 1)"

definition saturating_mul :: "u64 \<Rightarrow> u64 \<Rightarrow> u64" where
  "saturating_mul a b = (if unat a * unat b < 2 ^ 64 then a * b else - 1)"

definition div_ceil :: "u64 \<Rightarrow> u64 \<Rightarrow> u64" where
  "div_ceil a b = (if a mod b = 0 then a div b else a div b + 1)"

definition ext4_image_size_bytes :: "u64 \<Rightarrow> u64" where
  "ext4_image_size_bytes content_size =
     saturating_mul
       (div_ceil (max (saturating_add (saturating_mul content_size 2) (256 * (1024 * 1024))) (1024 * (1024 * 1024)))
         4096) 4096"

fun node_size :: "node \<Rightarrow> u64" and dir_content_size :: "dir \<Rightarrow> u64 \<Rightarrow> u64" where
  "node_size (Nd_File bytes _) = of_nat (length bytes)"
| "node_size (Nd_Dir _ kids) = dir_content_size kids 0"
| "node_size _ = 0"
| "dir_content_size [] acc = acc"
| "dir_content_size ((_, n) # rest) acc = dir_content_size rest (saturating_add acc (node_size n))"

section \<open>Image tools\<close>

definition mkfs_ext4_args :: "string \<Rightarrow> string list" where
  "mkfs_ext4_args img = [''-q'', ''-F'', ''-O'', ''^has_journal'', ''-E'', ''root_owner'', img]"

definition fuse2fs_mount_args :: "string \<Rightarrow> string \<Rightarrow> string list" where
  "fuse2fs_mount_args img mountpoint = [img, mountpoint]"

definition fusermount_unmount_args :: "string \<Rightarrow> bool \<Rightarrow> string list" where
  "fusermount_unmount_args mountpoint lazy = [''-u''] @ (if lazy then [''-z''] else []) @ [mountpoint]"

definition hdiutil_create_args :: "string \<Rightarrow> string \<Rightarrow> string list" where
  "hdiutil_create_args bundle i =
     [''create'', ''-type'', ''SPARSEBUNDLE'', ''-fs'', ''APFS'', ''-size'', ''64g'', ''-volname'',
      ''silo-'' @ i, bundle]"

definition hdiutil_attach_args :: "string \<Rightarrow> string \<Rightarrow> string list" where
  "hdiutil_attach_args bundle mountpoint = [''attach'', ''-nobrowse'', ''-mountpoint'', mountpoint, bundle]"

definition hdiutil_detach_args :: "string \<Rightarrow> string list" where
  "hdiutil_detach_args mountpoint = [''detach'', mountpoint]"

text \<open>A spawn that fails got nowhere; a tool that fails reports on its standard error.\<close>

definition run_tool_cmd :: "string \<Rightarrow> string list \<Rightarrow> unit wsio" where
  "run_tool_cmd program args w =
     (let w1 = w\<lparr>ww_faults := tl (ww_faults w)\<rparr> in
      case next_fault (ww_faults w) of
        None \<Rightarrow> (Inr (), w1)
      | Some (0, e) \<Rightarrow> (Inl (Ws_Setup (''cannot run '' @ program @ '': '' @ e)), w1)
      | Some (Suc _, e) \<Rightarrow>
          (Inl (Ws_Setup (program @ '' '' @ (case args of [] \<Rightarrow> [] | a # _ \<Rightarrow> a) @ '' failed: '' @ trim e)), w1))"

definition run_hdiutil :: "string list \<Rightarrow> unit wsio" where
  "run_hdiutil args = run_tool_cmd ''hdiutil'' args"

definition workspace_dir :: "ws_env \<Rightarrow> string \<Rightarrow> string" where
  "workspace_dir env i = join_path (we_root env) i"

definition mountpoint_path :: "ws_env \<Rightarrow> string \<Rightarrow> string" where
  "mountpoint_path env i = join_path (workspace_dir env i) ''mnt''"

definition bundle_path :: "ws_env \<Rightarrow> string \<Rightarrow> string" where
  "bundle_path env i = join_path (workspace_dir env i) ''workspace.sparsebundle''"

definition image_path :: "ws_env \<Rightarrow> string \<Rightarrow> string" where
  "image_path env i = join_path (workspace_dir env i) ''workspace.img''"

definition is_mountpoint :: "string \<Rightarrow> ws_world \<Rightarrow> bool" where
  "is_mountpoint i w = sp_mounted (space_of i w)"

definition set_mounted :: "string \<Rightarrow> bool \<Rightarrow> unit wsio" where
  "set_mounted i b = change (set_space i (\<lambda>s. s\<lparr>sp_mounted := b\<rparr>))"

text \<open>The second attempt of a failed detach is forced.\<close>

definition detach_image :: "ws_env \<Rightarrow> string \<Rightarrow> unit wsio" where
  "detach_image env i w =
     (if \<not> is_mountpoint i w then (Inr (), w)
      else
        (let args = hdiutil_detach_args (mountpoint_path env i) in
         case run_hdiutil args w of
           (Inr _, w1) \<Rightarrow> set_mounted i False w1
         | (Inl _, w1) \<Rightarrow>
             map_err (\<lambda>e. Ws_Setup (''cannot detach the workspace image at '' @ mountpoint_path env i @
                 '' (retried with -force): '' @ workspace_error_to_string e))
               (follow_by (run_hdiutil (args @ [''-force''])) (set_mounted i False)) w1))"

definition run_fusermount :: "string list \<Rightarrow> unit wsio" where
  "run_fusermount args w =
     (case run_tool_cmd ''fusermount'' args w of
        (Inr _, w1) \<Rightarrow> (Inr (), w1)
      | (Inl first, w1) \<Rightarrow>
          map_err (\<lambda>second. Ws_Setup (workspace_error_to_string first @ ''; '' @ workspace_error_to_string second))
            (run_tool_cmd ''fusermount3'' args) w1)"

definition not_linux :: workspace_error where
  "not_linux = Ws_Setup ''the ext4 image strategy requires Linux''"

definition unmount_fuse :: "ws_env \<Rightarrow> string \<Rightarrow> unit wsio" where
  "unmount_fuse env i w =
     (if \<not> is_mountpoint i w then (Inr (), w)
      else if \<not> we_linux env then (Inl not_linux, w)
      else
        (case run_fusermount (fusermount_unmount_args (mountpoint_path env i) False) w of
           (Inr _, w1) \<Rightarrow> set_mounted i False w1
         | (Inl _, w1) \<Rightarrow>
             map_err (\<lambda>e. Ws_Setup (''cannot unmount the workspace image at '' @ mountpoint_path env i @
                 '' (retried with a lazy unmount): '' @ workspace_error_to_string e))
               (follow_by (run_fusermount (fusermount_unmount_args (mountpoint_path env i) True))
                  (set_mounted i False)) w1))"

text \<open>Mounting an image that is not there fails in the tool.\<close>

definition missing_image :: "string \<Rightarrow> string list \<Rightarrow> workspace_error" where
  "missing_image program args =
     Ws_Setup (program @ '' '' @ (case args of [] \<Rightarrow> [] | a # _ \<Rightarrow> a) @ '' failed: '' @ ENOENT)"

definition mount_ext4_image :: "ws_env \<Rightarrow> string \<Rightarrow> unit wsio" where
  "mount_ext4_image env i =
     (if we_linux env
      then
        (let args = fuse2fs_mount_args (image_path env i) (mountpoint_path env i) in
         follow_by (run_tool_cmd ''fuse2fs'' args)
          (and_then get_world (\<lambda>w.
            if sp_image (space_of i w) = None then raise (missing_image ''fuse2fs'' args) else set_mounted i True)))
      else raise not_linux)"

definition attach_bundle :: "ws_env \<Rightarrow> string \<Rightarrow> unit wsio" where
  "attach_bundle env i =
     (let args = hdiutil_attach_args (bundle_path env i) (mountpoint_path env i) in
      follow_by (run_hdiutil args)
       (and_then get_world (\<lambda>w.
         if sp_bundle (space_of i w) = None then raise (missing_image ''hdiutil'' args) else set_mounted i True)))"

definition release_mount :: "ws_env \<Rightarrow> container_strategy \<Rightarrow> string \<Rightarrow> unit wsio" where
  "release_mount env k i =
     (case k of PlainDir \<Rightarrow> ret () | SparseBundle \<Rightarrow> detach_image env i | Ext4Fuse \<Rightarrow> unmount_fuse env i)"

section \<open>Into and out of a container\<close>

text \<open>The file operations of the previous theory between the workspace directory and a container.\<close>

definition on_container ::
  "(dir \<Rightarrow> dir \<Rightarrow> faults \<Rightarrow> dir \<times> dir \<times> io_error option \<times> faults) \<Rightarrow> (space \<Rightarrow> dir option) \<Rightarrow>
     (dir \<Rightarrow> space \<Rightarrow> space) \<Rightarrow> string \<Rightarrow> unit wsio" where
  "on_container f get put i w =
     (case f (ww_dir w) (case get (space_of i w) of Some d \<Rightarrow> d | None \<Rightarrow> []) (ww_faults w) of
        (d, c, r, fs) \<Rightarrow> (io_result r, (set_space i (put c) w)\<lparr>ww_dir := d, ww_faults := fs\<rparr>))"

definition put_data :: "dir \<Rightarrow> space \<Rightarrow> space" where
  "put_data d s = s\<lparr>sp_data := Some d\<rparr>"

definition put_bundle :: "dir \<Rightarrow> space \<Rightarrow> space" where
  "put_bundle d s = s\<lparr>sp_bundle := Some d\<rparr>"

definition put_image :: "dir \<Rightarrow> space \<Rightarrow> space" where
  "put_image d s = s\<lparr>sp_image := Some d\<rparr>"

text \<open>When the data directory cannot be created there is none.\<close>

definition move_into_data :: "ws_env \<Rightarrow> string \<Rightarrow> unit wsio" where
  "move_into_data env i w =
     (case next_fault (ww_faults w) of
        Some (0, e) \<Rightarrow> (Inl (Ws_Io e), w\<lparr>ww_faults := tl (ww_faults w)\<rparr>)
      | _ \<Rightarrow> on_container (move_contents (we_fs env)) sp_data put_data i w)"

definition move_out_of_data :: "ws_env \<Rightarrow> string \<Rightarrow> unit wsio" where
  "move_out_of_data env i =
     on_container (\<lambda>d c fs. case move_contents (we_fs env) c d fs of (c', d', r, fs') \<Rightarrow> (d', c', r, fs'))
       sp_data put_data i"

definition copy_into ::
  "ws_env \<Rightarrow> (space \<Rightarrow> dir option) \<Rightarrow> (dir \<Rightarrow> space \<Rightarrow> space) \<Rightarrow> string \<Rightarrow> unit wsio" where
  "copy_into env get put i =
     on_container (\<lambda>d c fs. case copy_contents (we_fs env) d c fs of (c', r, fs') \<Rightarrow> (d, c', r, fs')) get put i"

definition copy_out ::
  "ws_env \<Rightarrow> string list \<Rightarrow> (space \<Rightarrow> dir option) \<Rightarrow> (dir \<Rightarrow> space \<Rightarrow> space) \<Rightarrow> string \<Rightarrow> unit wsio" where
  "copy_out env exclude get put i =
     on_container (\<lambda>d c fs. case copy_contents_excluding (we_fs env) exclude c d fs of (d', r, fs') \<Rightarrow> (d', c, r, fs'))
       get put i"

definition remove_originals :: "unit wsio" where
  "remove_originals w =
     (case remove_contents (ww_dir w) (ww_faults w) of
        (d, r, fs) \<Rightarrow> (io_result r, w\<lparr>ww_dir := d, ww_faults := fs\<rparr>))"

definition lock_into_sparsebundle :: "ws_env \<Rightarrow> string \<Rightarrow> unit wsio" where
  "lock_into_sparsebundle env i =
     follow_by (run_hdiutil (hdiutil_create_args (bundle_path env i) i))
    (follow_by (change (set_space i (put_bundle (we_volume env))))
    (follow_by sys
    (follow_by (attach_bundle env i)
    (and_then (result_of (copy_into env sp_bundle put_bundle i)) (\<lambda>copy_result.
     and_then (result_of (follow_by (run_hdiutil (hdiutil_detach_args (mountpoint_path env i)))
                 (set_mounted i False))) (\<lambda>detach_result.
     follow_by (from_result copy_result)
    (follow_by (from_result detach_result) remove_originals)))))))"

definition remove_file_of :: "(space \<Rightarrow> space) \<Rightarrow> string \<Rightarrow> unit wsio" where
  "remove_file_of clear i = ignoring (follow_by sys (change (set_space i clear)))"

definition cleanup_sparsebundle :: "ws_env \<Rightarrow> string \<Rightarrow> unit wsio" where
  "cleanup_sparsebundle env i =
     follow_by (ignoring (detach_image env i)) (remove_file_of (\<lambda>s. s\<lparr>sp_bundle := None\<rparr>) i)"

definition restore_from_sparsebundle :: "ws_env \<Rightarrow> string \<Rightarrow> unit wsio" where
  "restore_from_sparsebundle env i =
     follow_by sys
    (and_then get_world (\<lambda>w.
     follow_by (if is_mountpoint i w then ret () else attach_bundle env i)
    (and_then (result_of (copy_out env VOLUME_METADATA sp_bundle put_bundle i)) (\<lambda>copy_result.
     and_then (result_of (detach_image env i)) (\<lambda>detach_result.
     follow_by (from_result copy_result) (from_result detach_result))))))"

text \<open>\<open>mkfs.ext4\<close> leaves an entry of its own in the new file system.\<close>

definition fresh_ext4 :: "ws_env \<Rightarrow> dir" where
  "fresh_ext4 env = [(''lost+found'', Nd_Dir (fe_dir_mode (we_fs env)) [])]"

definition lock_into_ext4_image :: "ws_env \<Rightarrow> string \<Rightarrow> unit wsio" where
  "lock_into_ext4_image env i =
     (if \<not> we_linux env then raise not_linux
      else
        follow_by sys
       (follow_by (change (set_space i (put_image [])))
       (follow_by sys
       (follow_by (run_tool_cmd ''mkfs.ext4'' (mkfs_ext4_args (image_path env i)))
       (follow_by (change (set_space i (put_image (fresh_ext4 env))))
       (follow_by sys
       (follow_by (mount_ext4_image env i)
       (follow_by (ignoring (follow_by sys (change (set_space i (\<lambda>s.
                     s\<lparr>sp_image := map_option (AList.delete ''lost+found'') (sp_image s)\<rparr>)))))
       (and_then (result_of (copy_into env sp_image put_image i)) (\<lambda>copy_result.
        and_then (result_of (unmount_fuse env i)) (\<lambda>unmount_result.
        follow_by (from_result copy_result)
       (follow_by (from_result unmount_result) remove_originals))))))))))))"

definition cleanup_ext4_image :: "ws_env \<Rightarrow> string \<Rightarrow> unit wsio" where
  "cleanup_ext4_image env i =
     follow_by (ignoring (unmount_fuse env i)) (remove_file_of (\<lambda>s. s\<lparr>sp_image := None\<rparr>) i)"

definition restore_from_ext4_image :: "ws_env \<Rightarrow> string \<Rightarrow> unit wsio" where
  "restore_from_ext4_image env i =
     (if \<not> we_linux env then raise not_linux
      else
        follow_by sys
       (and_then get_world (\<lambda>w.
        follow_by (if is_mountpoint i w then ret () else mount_ext4_image env i)
       (and_then (result_of (copy_out env EXT4_VOLUME_METADATA sp_image put_image i)) (\<lambda>copy_result.
        and_then (result_of (unmount_fuse env i)) (\<lambda>unmount_result.
        follow_by (from_result copy_result) (from_result unmount_result)))))))"

section \<open>The registry\<close>

definition path_to_string :: "string \<Rightarrow> workspace_error + string" where
  "path_to_string p =
     (if utf8_valid p then Inr p else Inl (Ws_Setup (''path is not valid UTF-8: '' @ from_utf8_lossy p)))"

text \<open>Taking the lock file fails outright or times out; the file may be damaged.\<close>

definition acquire_lock :: "ws_env \<Rightarrow> unit wsio" where
  "acquire_lock env w =
     (let w1 = w\<lparr>ww_faults := tl (ww_faults w)\<rparr> in
      case next_fault (ww_faults w) of
        None \<Rightarrow> (Inr (), w1)
      | Some (0, e) \<Rightarrow> (Inl (Ws_Io e), w1)
      | Some (Suc _, _) \<Rightarrow>
          (Inl (Ws_Setup (''timed out waiting for the workspace registry lock at '' @
             join_path (we_root env) ''registry.json.lock'')), w1))"

definition load_registry :: "ws_env \<Rightarrow> (string \<times> registry_entry) list wsio" where
  "load_registry env w =
     (let w1 = w\<lparr>ww_faults := tl (ww_faults w)\<rparr> in
      case next_fault (ww_faults w) of
        None \<Rightarrow> (Inr (ww_registry w), w1)
      | Some (0, e) \<Rightarrow> (Inl (Ws_Io e), w1)
      | Some (Suc _, e) \<Rightarrow>
          (Inl (Ws_Damaged (''workspace registry at '' @ join_path (we_root env) ''registry.json'' @
             '' is unreadable: '' @ e)), w1))"

definition save_registry :: "(string \<times> registry_entry) list \<Rightarrow> unit wsio" where
  "save_registry reg = follow_by sys (change (\<lambda>w. w\<lparr>ww_registry := reg\<rparr>))"

definition bt_remove :: "string \<Rightarrow> (string \<times> 'a) list \<Rightarrow> (string \<times> 'a) list" where
  "bt_remove k m = filter (\<lambda>(k', _). k' \<noteq> k) m"

section \<open>Locking\<close>

definition new_entry :: "string \<Rightarrow> container_strategy \<Rightarrow> registry_entry" where
  "new_entry i k = \<lparr>re_id = i, re_locked = True, re_unlocking = False, re_strategy = k, re_attached = None,
     re_secondary = [], re_warnings = []\<rparr>"

definition reserve :: "ws_env \<Rightarrow> container_strategy \<Rightarrow> string \<Rightarrow> string \<Rightarrow> unit wsio" where
  "reserve env k key i =
     follow_by (acquire_lock env)
    (and_then (load_registry env) (\<lambda>reg.
       if (case map_of reg key of Some e \<Rightarrow> re_locked e | None \<Rightarrow> False) then raise (Ws_Locked key)
       else save_registry (bt_insert key (new_entry i k) reg)))"

definition take_snapshot :: "ws_env \<Rightarrow> string \<Rightarrow> tree wsio" where
  "take_snapshot env i w =
     (case snapshot_dir (we_sha256 env) (we_canon env) (ww_dir w) (sp_blobs (space_of i w)) (ww_faults w) of
        (r, bl, fs) \<Rightarrow> (r, (set_space i (\<lambda>s. s\<lparr>sp_blobs := bl\<rparr>) w)\<lparr>ww_faults := fs\<rparr>))"

definition store_manifest :: "ws_env \<Rightarrow> string \<Rightarrow> tree \<Rightarrow> unit wsio" where
  "store_manifest env i t =
     follow_by sys (change (set_space i (\<lambda>s. s\<lparr>sp_manifest := Some (write_manifest (we_ser env) t)\<rparr>)))"

text \<open>A strategy whose tools fail is given up for the plain directory.\<close>

definition or_plain ::
  "ws_env \<Rightarrow> string \<Rightarrow> container_strategy \<Rightarrow> string \<Rightarrow> unit wsio \<Rightarrow> unit wsio \<Rightarrow>
     (container_strategy \<times> string list) wsio" where
  "or_plain env i k what into cleanup =
     and_then (result_of into) (\<lambda>r.
       case r of
         Inr _ \<Rightarrow> ret (k, [])
       | Inl e \<Rightarrow>
           follow_by cleanup
          (follow_by (move_into_data env i)
            (ret (PlainDir, [what @ '' ('' @ workspace_error_to_string e @ ''); using the plain-directory strategy instead'']))))"

definition fill_container :: "ws_env \<Rightarrow> container_strategy \<Rightarrow> string \<Rightarrow> (container_strategy \<times> string list) wsio" where
  "fill_container env k i =
     (case k of
        PlainDir \<Rightarrow> follow_by (move_into_data env i) (ret (PlainDir, []))
      | SparseBundle \<Rightarrow>
          or_plain env i k ''hdiutil failed'' (lock_into_sparsebundle env i) (cleanup_sparsebundle env i)
      | Ext4Fuse \<Rightarrow>
          or_plain env i k ''ext4 image setup failed'' (lock_into_ext4_image env i) (cleanup_ext4_image env i))"

definition slow_work ::
  "ws_env \<Rightarrow> container_strategy \<Rightarrow> string option \<Rightarrow> string \<Rightarrow> (container_strategy \<times> string list) wsio" where
  "slow_work env k hint i =
     and_then (take_snapshot env i) (\<lambda>t.
     follow_by (store_manifest env i t)
    (and_then (fill_container env k i) (\<lambda>(k', extra).
     follow_by write_marker
    (follow_by make_dir_readonly
     (ret (k', (case hint of Some h \<Rightarrow> [h] | None \<Rightarrow> []) @ extra))))))"

text \<open>The removal of a whole snapshot directory; one that fails got nowhere or emptied it.\<close>

definition remove_space :: "string \<Rightarrow> unit wsio" where
  "remove_space i w =
     (let w1 = w\<lparr>ww_faults := tl (ww_faults w)\<rparr>;
          gone = w1\<lparr>ww_spaces := AList.delete i (ww_spaces w1)\<rparr> in
      case next_fault (ww_faults w) of
        None \<Rightarrow> (Inr (), gone)
      | Some (0, e) \<Rightarrow> (Inl (Ws_Io e), w1)
      | Some (Suc _, e) \<Rightarrow> (Inl (Ws_Io e), gone))"

definition only_if :: "(ws_world \<Rightarrow> bool) \<Rightarrow> unit wsio \<Rightarrow> unit wsio" where
  "only_if P m w = (if P w then m w else (Inr (), w))"

definition undo_partial_lock :: "ws_env \<Rightarrow> string \<Rightarrow> unit wsio" where
  "undo_partial_lock env i =
     follow_by (ignoring make_dir_writable)
    (follow_by remove_marker
    (follow_by (only_if (\<lambda>w. sp_data (space_of i w) \<noteq> None) (ignoring (move_out_of_data env i)))
    (follow_by (only_if (\<lambda>w. sp_bundle (space_of i w) \<noteq> None)
        (follow_by (ignoring (restore_from_sparsebundle env i)) (ignoring (detach_image env i))))
    (follow_by (only_if (\<lambda>w. sp_image (space_of i w) \<noteq> None)
        (follow_by (ignoring (restore_from_ext4_image env i)) (ignoring (unmount_fuse env i))))
      (only_if (\<lambda>w. \<not> is_mountpoint i w) (ignoring (remove_space i)))))))"

definition rollback_entry :: "ws_env \<Rightarrow> string \<Rightarrow> string \<Rightarrow> unit wsio" where
  "rollback_entry env key i =
     follow_by (acquire_lock env)
    (and_then (load_registry env) (\<lambda>reg.
       if (case map_of reg key of Some e \<Rightarrow> re_id e = i | None \<Rightarrow> False)
       then save_registry (bt_remove key reg) else ret ()))"

definition commit_lock ::
  "ws_env \<Rightarrow> string \<Rightarrow> string \<Rightarrow> container_strategy \<Rightarrow> string list \<Rightarrow> unit wsio" where
  "commit_lock env key i k extra =
     follow_by (acquire_lock env)
    (and_then (load_registry env) (\<lambda>reg.
       case map_of reg key of
         Some e \<Rightarrow>
           if re_id e = i then save_registry (bt_insert key (e\<lparr>re_strategy := k, re_warnings := extra\<rparr>) reg)
           else follow_by (undo_partial_lock env i)
             (raise (Ws_Setup (''the registry entry for '' @ key @ '' changed while locking; the lock was rolled back'')))
       | None \<Rightarrow> follow_by (undo_partial_lock env i)
           (raise (Ws_Setup (''the registry entry for '' @ key @ '' changed while locking; the lock was rolled back'')))))"

definition inside_of :: "string \<Rightarrow> string \<Rightarrow> bool" where
  "inside_of p q = prefix (path_segments q) (path_segments p)"

definition lock ::
  "ws_env \<Rightarrow> container_strategy \<Rightarrow> string option \<Rightarrow> string \<Rightarrow> workspace_status wsio" where
  "lock env k hint i =
     follow_by sys
      (if inside_of (we_canon env) (we_state env) \<or> inside_of (we_state env) (we_canon env)
       then raise (Ws_Setup (''workspace '' @ we_canon env @
              '' cannot contain or live inside the harness state directory '' @ we_state env))
       else
         and_then (from_result (path_to_string (we_canon env))) (\<lambda>key.
         follow_by (reserve env k key i)
        (and_then (result_of (slow_work env k hint i)) (\<lambda>r.
           case r of
             Inl error \<Rightarrow>
               follow_by (undo_partial_lock env i) (follow_by (ignoring (rollback_entry env key i)) (raise error))
           | Inr (k', extra) \<Rightarrow>
               follow_by (commit_lock env key i k' extra)
                 (ret \<lparr>ws_path = we_canon env, ws_locked = True, ws_attached_harness = None,
                       ws_live_shells = 0, ws_warnings = strategy_warning k' # extra\<rparr>)))))"

section \<open>Unlocking\<close>

definition unlock_step_error :: "string \<Rightarrow> string \<Rightarrow> workspace_error" where
  "unlock_step_error step detail =
     Ws_Setup (''unlock step '' @ [CHR 0x27] @ step @ [CHR 0x27] @ '' failed: '' @ detail @
       ''; the workspace is unchanged for this step '' @ [CHR 0xE2, CHR 0x80, CHR 0x94] @
       '' re-run unlock to resume'')"

definition in_step :: "string \<Rightarrow> 'a wsio \<Rightarrow> 'a wsio" where
  "in_step step m = map_err (\<lambda>e. unlock_step_error step (workspace_error_to_string e)) m"

definition mark_unlocking :: "ws_env \<Rightarrow> string \<Rightarrow> registry_entry wsio" where
  "mark_unlocking env key =
     follow_by (acquire_lock env)
    (and_then (load_registry env) (\<lambda>reg.
       case map_of reg key of
         None \<Rightarrow> raise (Ws_NotLocked key)
       | Some e \<Rightarrow>
           (let e' = e\<lparr>re_unlocking := True\<rparr> in
            follow_by (save_registry (bt_insert key e' reg)) (ret e'))))"

definition unlock_targets :: "registry_entry \<Rightarrow> (u32 \<times> string) list" where
  "unlock_targets e =
     (case re_attached e of Some a \<Rightarrow> [(at_pid a, at_start_hint a)] | None \<Rightarrow> []) @
     map (\<lambda>a. (sa_pid a, sa_start_hint a)) (re_secondary e)"

definition survivors :: "ws_env \<Rightarrow> (u32 \<times> string) list \<Rightarrow> ws_world \<Rightarrow> u32 list" where
  "survivors env targets w =
     map fst (filter (\<lambda>(pid, hint). \<not> is_protected env pid \<and> running w pid \<and> identity_matches w pid hint) targets)"

definition debug_pids :: "u32 list \<Rightarrow> string" where
  "debug_pids pids = ''['' @ join_with '', '' (map (\<lambda>p. nat_to_string (unat p)) pids) @ '']''"

definition stop_attached :: "ws_env \<Rightarrow> registry_entry \<Rightarrow> unit wsio" where
  "stop_attached env e =
     follow_by (change (fold (\<lambda>(pid, hint). terminate env pid hint) (unlock_targets e)))
    (and_then get_world (\<lambda>w.
       let left = survivors env (unlock_targets e) w in
       if left = [] then ret ()
       else raise (unlock_step_error ''terminating attachments'' (''process(es) '' @ debug_pids left @ '' did not exit''))))"

definition restore_contents :: "ws_env \<Rightarrow> registry_entry \<Rightarrow> unit wsio" where
  "restore_contents env e =
     in_step ''restoring the workspace contents''
      (case re_strategy e of
         PlainDir \<Rightarrow> only_if (\<lambda>w. sp_data (space_of (re_id e) w) \<noteq> None) (move_out_of_data env (re_id e))
       | SparseBundle \<Rightarrow> restore_from_sparsebundle env (re_id e)
       | Ext4Fuse \<Rightarrow> restore_from_ext4_image env (re_id e))"

definition read_manifest :: "ws_env \<Rightarrow> string \<Rightarrow> tree wsio" where
  "read_manifest env i =
     follow_by sys
    (and_then get_world (\<lambda>w.
       case sp_manifest (space_of i w) of
         None \<Rightarrow> raise (Ws_Io ENOENT)
       | Some bytes \<Rightarrow>
           from_result (load_manifest (we_de env) (join_path (workspace_dir env i) ''manifest.json'') bytes)))"

definition walk_workspace :: "ws_env \<Rightarrow> tree wsio" where
  "walk_workspace env w =
     (case walk_tree (we_sha256 env) (we_canon env) (ww_dir w) (ww_faults w) of
        (r, fs) \<Rightarrow> (r, w\<lparr>ww_faults := fs\<rparr>))"

definition world_io :: "ws_env \<Rightarrow> string \<Rightarrow> ws_world \<Rightarrow> diff_io" where
  "world_io env i w =
     \<lparr>di_current = read_at (ww_dir w), di_blob = read_blob (sp_blobs (space_of i w)), di_unified = we_unified env\<rparr>"

definition make_report :: "ws_env \<Rightarrow> string \<Rightarrow> unlock_report wsio" where
  "make_report env i =
     and_then (read_manifest env i) (\<lambda>locked.
     and_then (walk_workspace env) (\<lambda>current.
     and_then get_world (\<lambda>w. from_result (unlock_report_of (world_io env i w) locked current))))"

definition unlock :: "ws_env \<Rightarrow> unlock_report wsio" where
  "unlock env =
     and_then (from_result (path_to_string (we_canon env))) (\<lambda>key.
     and_then (mark_unlocking env key) (\<lambda>e.
     let i = re_id e; release = in_step ''detaching the workspace image'' (release_mount env (re_strategy e) i) in
     follow_by (stop_attached env e)
    (follow_by release
    (follow_by sys
    (follow_by (in_step ''restoring directory access'' make_dir_writable)
    (follow_by remove_marker
    (follow_by (restore_contents env e)
    (and_then (make_report env i) (\<lambda>report.
     follow_by release
    (follow_by (rollback_entry env key i)
    (follow_by (only_if (\<lambda>w. \<not> is_mountpoint i w) (ignoring (remove_space i)))
     (ret report))))))))))))"

section \<open>Attaching\<close>

definition prune_dead_attachments :: "ws_world \<Rightarrow> registry_entry \<Rightarrow> registry_entry \<times> bool" where
  "prune_dead_attachments w e =
     (let (e1, pruned) =
            (case re_attached e of
               Some a \<Rightarrow>
                 if alive_with_hint w (at_pid a) (at_start_hint a) then (e, False) else (e\<lparr>re_attached := None\<rparr>, True)
             | None \<Rightarrow> (e, False));
          kept = filter (\<lambda>s. alive_with_hint w (sa_pid s) (sa_start_hint s)) (re_secondary e1) in
      (e1\<lparr>re_secondary := kept\<rparr>, pruned \<or> length kept \<noteq> length (re_secondary e1)))"

definition live_secondary_count :: "(u32 \<Rightarrow> string \<Rightarrow> bool) \<Rightarrow> registry_entry \<Rightarrow> nat" where
  "live_secondary_count is_alive e = length (filter (\<lambda>s. is_alive (sa_pid s) (sa_start_hint s)) (re_secondary e))"

definition has_live_attachments :: "(u32 \<Rightarrow> string \<Rightarrow> bool) \<Rightarrow> registry_entry \<Rightarrow> bool" where
  "has_live_attachments is_alive e =
     ((case re_attached e of Some a \<Rightarrow> is_alive (at_pid a) (at_start_hint a) | None \<Rightarrow> False) \<or>
      live_secondary_count is_alive e > 0)"

definition mount_for_entry :: "ws_env \<Rightarrow> registry_entry \<Rightarrow> string wsio" where
  "mount_for_entry env e =
     (let i = re_id e; data = join_path (workspace_dir env i) ''data'' in
      case re_strategy e of
        PlainDir \<Rightarrow>
          and_then get_world (\<lambda>w.
            if sp_data (space_of i w) = None
            then raise (Ws_Damaged (''workspace data directory is missing at '' @ data))
            else ret data)
      | SparseBundle \<Rightarrow>
          follow_by sys
         (follow_by (only_if (\<lambda>w. \<not> is_mountpoint i w) (attach_bundle env i)) (ret (mountpoint_path env i)))
      | Ext4Fuse \<Rightarrow>
          follow_by sys
         (follow_by (only_if (\<lambda>w. \<not> is_mountpoint i w) (mount_ext4_image env i)) (ret (mountpoint_path env i))))"

definition unlock_in_progress :: "string \<Rightarrow> workspace_error" where
  "unlock_in_progress key =
     Ws_Setup (''an unlock of workspace '' @ key @ '' is in progress; re-run `silo workspace unlock` to finish it'')"

text \<open>What both kinds of attachment begin with: the entry, pruned.\<close>

definition open_entry :: "ws_env \<Rightarrow> string \<Rightarrow> ((string \<times> registry_entry) list \<times> registry_entry) wsio" where
  "open_entry env key =
     follow_by (acquire_lock env)
    (and_then (load_registry env) (\<lambda>reg.
       case map_of reg key of
         None \<Rightarrow> raise (Ws_NotLocked key)
       | Some e \<Rightarrow>
           if \<not> re_locked e then raise (Ws_NotLocked key)
           else if re_unlocking e then raise (unlock_in_progress key)
           else and_then get_world (\<lambda>w. ret (reg, fst (prune_dead_attachments w e)))))"

text \<open>What the detach guard has captured.\<close>

datatype guard =
    Guard_Harness string container_strategy string
  | Guard_Shell string container_strategy u32 string

definition attach :: "ws_env \<Rightarrow> string \<Rightarrow> string \<Rightarrow> (string \<times> guard) wsio" where
  "attach env harness_id token =
     and_then (from_result (path_to_string (we_canon env))) (\<lambda>key.
     and_then (open_entry env key) (\<lambda>(reg, e).
       case re_attached e of
         Some a \<Rightarrow>
           raise (Ws_Setup (''workspace '' @ key @ '' is already attached to harness '' @ at_harness_id a @
             '' (pid '' @ nat_to_string (unat (at_pid a)) @ '')''))
       | None \<Rightarrow>
           and_then (mount_for_entry env e) (\<lambda>mount_path.
           and_then get_world (\<lambda>w.
           follow_by (save_registry (bt_insert key (e\<lparr>re_attached :=
               Some \<lparr>at_harness_id = harness_id, at_pid = we_pid env, at_start_hint = start_hint w (we_pid env),
                     at_token = token\<rparr>\<rparr>) reg))
             (ret (mount_path, Guard_Harness key (re_strategy e) token))))))"

definition attach_shared :: "ws_env \<Rightarrow> string \<Rightarrow> (string \<times> guard) wsio" where
  "attach_shared env token =
     and_then (from_result (path_to_string (we_canon env))) (\<lambda>key.
     and_then (open_entry env key) (\<lambda>(reg, e).
     and_then (mount_for_entry env e) (\<lambda>mount_path.
     and_then get_world (\<lambda>w.
     follow_by (save_registry (bt_insert key (e\<lparr>re_secondary := re_secondary e @
         [\<lparr>sa_purpose = ''shell'', sa_pid = we_pid env, sa_start_hint = start_hint w (we_pid env),
           sa_token = token\<rparr>]\<rparr>) reg))
       (ret (mount_path, Guard_Shell key (re_strategy e) (we_pid env) token))))))"

text \<open>The entry without the attachment a guard stands for.\<close>

definition drop_attachment :: "guard \<Rightarrow> registry_entry \<Rightarrow> registry_entry" where
  "drop_attachment g e =
     (case g of
        Guard_Harness _ _ token \<Rightarrow>
          if (case re_attached e of Some a \<Rightarrow> at_token a = token | None \<Rightarrow> False) then e\<lparr>re_attached := None\<rparr> else e
      | Guard_Shell _ _ pid token \<Rightarrow>
          (case position (\<lambda>s. sa_pid s = pid \<and> sa_token s = token) (re_secondary e) of
             Some n \<Rightarrow> e\<lparr>re_secondary := take n (re_secondary e) @ drop (Suc n) (re_secondary e)\<rparr>
           | None \<Rightarrow> e))"

fun guard_key :: "guard \<Rightarrow> string" where
  "guard_key (Guard_Harness key _ _) = key"
| "guard_key (Guard_Shell key _ _ _) = key"

fun guard_strategy :: "guard \<Rightarrow> container_strategy" where
  "guard_strategy (Guard_Harness _ k _) = k"
| "guard_strategy (Guard_Shell _ k _ _) = k"

definition detach_once :: "ws_env \<Rightarrow> guard \<Rightarrow> unit wsio" where
  "detach_once env g =
     follow_by (acquire_lock env)
    (and_then (load_registry env) (\<lambda>reg.
       case map_of reg (guard_key g) of
         None \<Rightarrow> ret ()
       | Some e0 \<Rightarrow>
           (let e = drop_attachment g e0 in
            and_then get_world (\<lambda>w.
              let release = uses_image (guard_strategy g) \<and> \<not> has_live_attachments (alive_with_hint w) e in
              follow_by (save_registry (bt_insert (guard_key g) e reg))
                (if release then release_mount env (guard_strategy g) (re_id e) else ret ())))))"

text \<open>\<open>retry_detach\<close>: three attempts, and the last failure is only logged.\<close>

definition DETACH_ATTEMPTS :: nat where
  "DETACH_ATTEMPTS = 3"

fun retry_detach :: "nat \<Rightarrow> unit wsio \<Rightarrow> ws_world \<Rightarrow> ws_world" where
  "retry_detach 0 cleanup w = w"
| "retry_detach (Suc n) cleanup w =
     (case cleanup w of (Inr _, w1) \<Rightarrow> w1 | (Inl _, w1) \<Rightarrow> retry_detach n cleanup w1)"

definition detach :: "ws_env \<Rightarrow> guard \<Rightarrow> ws_world \<Rightarrow> ws_world" where
  "detach env g w = retry_detach DETACH_ATTEMPTS (detach_once env g) w"

definition status :: "ws_env \<Rightarrow> workspace_status wsio" where
  "status env =
     and_then (from_result (path_to_string (we_canon env))) (\<lambda>key.
     follow_by (acquire_lock env)
    (and_then (load_registry env) (\<lambda>reg.
       case map_of reg key of
         None \<Rightarrow> ret \<lparr>ws_path = we_canon env, ws_locked = False, ws_attached_harness = None, ws_live_shells = 0,
                       ws_warnings = []\<rparr>
       | Some e0 \<Rightarrow>
           and_then get_world (\<lambda>w.
             let (e, pruned) = prune_dead_attachments w e0 in
             follow_by (if pruned then save_registry (bt_insert key e reg) else ret ())
               (ret \<lparr>ws_path = we_canon env, ws_locked = re_locked e,
                     ws_attached_harness = map_option at_harness_id (re_attached e),
                     ws_live_shells = length (re_secondary e),
                     ws_warnings = strategy_warning (re_strategy e) # re_warnings e\<rparr>)))))"

end
