(* ===== verification/Silo_Lifecycle.thy ===== *)
theory Silo_Lifecycle
  imports Silo_Workspace
begin

text \<open>
  What locking and unlocking a workspace do to its contents: the end-to-end round trip without
  failures, and what is left of the files when system calls fail.
\<close>

section \<open>Runs without failures\<close>

lemma world_no_faults [simp]: "ww_faults w = [] \<Longrightarrow> w\<lparr>ww_faults := []\<rparr> = w"
  by simp

lemma space_simps [simp]:
  "space_of i (set_space i f w) = f (space_of i w)"
  "space_of i (w\<lparr>ww_dir := d\<rparr>) = space_of i w" "space_of i (w\<lparr>ww_mode := m\<rparr>) = space_of i w"
  "space_of i (w\<lparr>ww_registry := r\<rparr>) = space_of i w" "space_of i (w\<lparr>ww_procs := p\<rparr>) = space_of i w"
  "space_of i (w\<lparr>ww_faults := fs\<rparr>) = space_of i w"
  by (simp_all add: space_of_def set_space_def update_conv)

lemma set_space_fields [simp]:
  "ww_dir (set_space i f w) = ww_dir w" "ww_mode (set_space i f w) = ww_mode w"
  "ww_registry (set_space i f w) = ww_registry w" "ww_procs (set_space i f w) = ww_procs w"
  "ww_faults (set_space i f w) = ww_faults w"
  by (simp_all add: set_space_def)

lemma put_simps [simp]:
  "sp_data (put_data d s) = Some d" "sp_bundle (put_data d s) = sp_bundle s" "sp_image (put_data d s) = sp_image s"
  "sp_mounted (put_data d s) = sp_mounted s" "sp_blobs (put_data d s) = sp_blobs s"
  "sp_manifest (put_data d s) = sp_manifest s"
  "sp_data (put_bundle d s) = sp_data s" "sp_bundle (put_bundle d s) = Some d" "sp_image (put_bundle d s) = sp_image s"
  "sp_mounted (put_bundle d s) = sp_mounted s" "sp_blobs (put_bundle d s) = sp_blobs s"
  "sp_manifest (put_bundle d s) = sp_manifest s"
  "sp_data (put_image d s) = sp_data s" "sp_bundle (put_image d s) = sp_bundle s" "sp_image (put_image d s) = Some d"
  "sp_mounted (put_image d s) = sp_mounted s" "sp_blobs (put_image d s) = sp_blobs s"
  "sp_manifest (put_image d s) = sp_manifest s"
  by (simp_all add: put_data_def put_bundle_def put_image_def)

lemma empty_space_fields [simp]:
  "sp_data empty_space = None" "sp_bundle empty_space = None" "sp_image empty_space = None"
  "sp_mounted empty_space = False" "sp_blobs empty_space = []" "sp_manifest empty_space = None"
  by (simp_all add: empty_space_def)

lemmas wsio_defs = ret_def raise_def and_then_def follow_by_def change_def get_world_def result_of_def
  from_result_def ignoring_def map_err_def only_if_def

lemma clean_calls:
  assumes "ww_faults w = []"
  shows "sys w = (Inr (), w)" "run_tool_cmd p args w = (Inr (), w)" "acquire_lock env w = (Inr (), w)"
    "load_registry env w = (Inr (ww_registry w), w)" "save_registry reg w = (Inr (), w\<lparr>ww_registry := reg\<rparr>)"
    "remove_space i w = (Inr (), w\<lparr>ww_spaces := AList.delete i (ww_spaces w)\<rparr>)"
  using assms
  by (simp_all add: sys_def run_tool_cmd_def acquire_lock_def load_registry_def save_registry_def
      remove_space_def wsio_defs Let_def)

lemma clean_mounts:
  assumes "ww_faults w = []"
  shows "detach_image env i w = (Inr (), if sp_mounted (space_of i w) then set_space i (\<lambda>s. s\<lparr>sp_mounted := False\<rparr>) w else w)"
    "we_linux env \<Longrightarrow>
       unmount_fuse env i w = (Inr (), if sp_mounted (space_of i w) then set_space i (\<lambda>s. s\<lparr>sp_mounted := False\<rparr>) w else w)"
    "sp_bundle (space_of i w) \<noteq> None \<Longrightarrow> attach_bundle env i w = (Inr (), set_space i (\<lambda>s. s\<lparr>sp_mounted := True\<rparr>) w)"
    "we_linux env \<Longrightarrow> sp_image (space_of i w) \<noteq> None \<Longrightarrow>
       mount_ext4_image env i w = (Inr (), set_space i (\<lambda>s. s\<lparr>sp_mounted := True\<rparr>) w)"
  using assms
  by (simp_all add: detach_image_def unmount_fuse_def attach_bundle_def mount_ext4_image_def run_hdiutil_def
      run_fusermount_def clean_calls wsio_defs set_mounted_def is_mountpoint_def Let_def)

lemma clean_dir_ops:
  assumes "ww_faults w = []"
  shows "write_marker w =
      (Inr (), w\<lparr>ww_dir := AList.update MARKER_FILE_NAME (Nd_File MARKER_CONTENTS 0x1A4) (ww_dir w)\<rparr>)"
    "make_dir_readonly w = (Inr (), w\<lparr>ww_mode := ww_mode w AND NOT 0x92\<rparr>)"
    "make_dir_writable w = (Inr (), w\<lparr>ww_mode := ww_mode w OR 0x80\<rparr>)"
    "remove_originals w = (Inr (), w\<lparr>ww_dir := []\<rparr>)"
  using assms
  by (simp_all add: write_marker_def make_dir_readonly_def make_dir_writable_def remove_originals_def
      remove_contents_def remove_clean io_result_def clean_calls wsio_defs)

lemma move_contents_clean:
  assumes "dir_wf d" and "dir_plain d"
  shows "move_contents fe d [] [] = ([], d, None, [])"
  using move_clean [of d "[]" fe d] assms by (simp add: move_contents_def filter_empty_conv rev_image_eqI)

lemma copy_contents_clean:
  assumes "dir_wf d" and "dir_plain d" and "fst ` set d \<inter> fst ` set c = {}"
  shows "copy_contents fe d c [] = (c @ d, None, [])"
  using copy_clean(2) [OF refl assms] by (simp add: copy_contents_def copy_contents_excluding_def case_prod_unfold)

lemma dir_filter:
  assumes "dir_wf d" and "dir_plain d"
  shows "dir_wf (filter P d)" and "dir_plain (filter P d)"
  using assms by (auto simp: dir_wf_def dir_plain_def list_all_iff distinct_map_filter)

section \<open>Locking moves everything\<close>

definition held :: "container_strategy \<Rightarrow> string \<Rightarrow> ws_world \<Rightarrow> dir option" where
  "held k i w =
     (let s = space_of i w in
      case k of PlainDir \<Rightarrow> sp_data s | SparseBundle \<Rightarrow> sp_bundle s | Ext4Fuse \<Rightarrow> sp_image s)"

text \<open>The entries a fresh container of the strategy has of its own.\<close>

definition own_entries :: "ws_env \<Rightarrow> container_strategy \<Rightarrow> dir" where
  "own_entries env k = (if k = SparseBundle then we_volume env else [])"

lemma fill_container_clean:
  assumes "ww_faults w = []" and "dir_wf (ww_dir w)" and "dir_plain (ww_dir w)"
    and "sp_data (space_of i w) = None" and "\<not> sp_mounted (space_of i w)"
    and "k = Ext4Fuse \<longrightarrow> we_linux env"
    and "fst ` set (ww_dir w) \<inter> fst ` set (own_entries env k) = {}"
  shows "\<exists>w1. fill_container env k i w = (Inr (k, []), w1) \<and> ww_dir w1 = [] \<and> ww_faults w1 = [] \<and>
    held k i w1 = Some (own_entries env k @ ww_dir w) \<and> \<not> sp_mounted (space_of i w1) \<and>
    sp_blobs (space_of i w1) = sp_blobs (space_of i w) \<and>
    sp_manifest (space_of i w1) = sp_manifest (space_of i w) \<and>
    ww_registry w1 = ww_registry w \<and> ww_procs w1 = ww_procs w \<and> ww_mode w1 = ww_mode w"
proof (cases k)
  case PlainDir
  with assms show ?thesis
    by (simp add: fill_container_def move_into_data_def on_container_def move_contents_clean wsio_defs
        io_result_def held_def own_entries_def)
next
  case SparseBundle
  with assms show ?thesis
    by (simp add: fill_container_def or_plain_def lock_into_sparsebundle_def run_hdiutil_def clean_calls clean_mounts
        clean_dir_ops copy_into_def on_container_def copy_contents_clean wsio_defs io_result_def held_def
        own_entries_def set_mounted_def)
next
  case Ext4Fuse
  with assms show ?thesis
    by (simp add: fill_container_def or_plain_def lock_into_ext4_image_def clean_calls clean_mounts
        clean_dir_ops copy_into_def on_container_def copy_contents_clean wsio_defs io_result_def held_def
        own_entries_def fresh_ext4_def)
qed

text \<open>A workspace that can be locked: plain files, no failures ahead, an unused id.\<close>

definition lockable :: "ws_env \<Rightarrow> container_strategy \<Rightarrow> string \<Rightarrow> ws_world \<Rightarrow> bool" where
  "lockable env k i w =
     (ww_faults w = [] \<and> dir_wf (ww_dir w) \<and> dir_plain (ww_dir w) \<and> space_of i w = empty_space \<and>
      (k = Ext4Fuse \<longrightarrow> we_linux env) \<and>
      list_all (\<lambda>(name, _). map_of (own_entries env k) name = None) (ww_dir w) \<and>
      utf8_valid (we_canon env) \<and> \<not> inside_of (we_canon env) (we_state env) \<and>
      \<not> inside_of (we_state env) (we_canon env) \<and>
      (case map_of (ww_registry w) (we_canon env) of None \<Rightarrow> True | Some e \<Rightarrow> \<not> re_locked e))"

lemma bt_insert_twice: "map_of (bt_insert k v m) k = Some v"
  by (simp add: map_of_bt_insert)

lemma slow_work_clean:
  assumes "ww_faults w = []" and "dir_wf (ww_dir w)" and "dir_plain (ww_dir w)"
    and "space_of i w = empty_space" and "k = Ext4Fuse \<longrightarrow> we_linux env"
    and "fst ` set (ww_dir w) \<inter> fst ` set (own_entries env k) = {}"
  shows "\<exists>w1. slow_work env k hint i w = (Inr (k, case hint of Some h \<Rightarrow> [h] | None \<Rightarrow> []), w1) \<and>
    ww_dir w1 = [(MARKER_FILE_NAME, Nd_File MARKER_CONTENTS 0x1A4)] \<and> ww_faults w1 = [] \<and>
    held k i w1 = Some (own_entries env k @ ww_dir w) \<and> \<not> sp_mounted (space_of i w1) \<and>
    (\<forall>(p, e)\<in>set (tree_of (we_sha256 env) (ww_dir w)). stored_in (sp_blobs (space_of i w1)) e) \<and>
    sp_manifest (space_of i w1) = Some (write_manifest (we_ser env) (tree_of (we_sha256 env) (ww_dir w))) \<and>
    ww_registry w1 = ww_registry w \<and> ww_procs w1 = ww_procs w"
proof -
  let ?t = "tree_of (we_sha256 env) (ww_dir w)"
  obtain bl where bl: "snapshot_dir (we_sha256 env) (we_canon env) (ww_dir w) [] [] = (Inr ?t, bl, [])"
    "\<forall>(p, e)\<in>set ?t. stored_in bl e"
    using snapshot_clean [OF assms(3)] by blast
  define w1 where "w1 = set_space i (\<lambda>s. s\<lparr>sp_manifest := Some (write_manifest (we_ser env) ?t)\<rparr>)
    (set_space i (\<lambda>s. s\<lparr>sp_blobs := bl\<rparr>) w)"
  have w1: "ww_faults w1 = []" "ww_dir w1 = ww_dir w" "ww_registry w1 = ww_registry w" "ww_procs w1 = ww_procs w"
    "space_of i w1 = empty_space\<lparr>sp_blobs := bl, sp_manifest := Some (write_manifest (we_ser env) ?t)\<rparr>"
    using assms(1,4) by (simp_all add: w1_def)
  have start: "take_snapshot env i w = (Inr ?t, set_space i (\<lambda>s. s\<lparr>sp_blobs := bl\<rparr>) w)"
    using assms(1,4) bl(1) by (simp add: take_snapshot_def)
  have store: "store_manifest env i ?t (set_space i (\<lambda>s. s\<lparr>sp_blobs := bl\<rparr>) w) = (Inr (), w1)"
    using assms(1) by (simp add: store_manifest_def clean_calls wsio_defs w1_def)
  obtain w2 where w2: "fill_container env k i w1 = (Inr (k, []), w2)" "ww_dir w2 = []" "ww_faults w2 = []"
    "held k i w2 = Some (own_entries env k @ ww_dir w)" "\<not> sp_mounted (space_of i w2)"
    "sp_blobs (space_of i w2) = bl" "sp_manifest (space_of i w2) = Some (write_manifest (we_ser env) ?t)"
    "ww_registry w2 = ww_registry w" "ww_procs w2 = ww_procs w"
    using fill_container_clean [of w1 i k env] w1 assms(2,3,5,6) by auto
  have "slow_work env k hint i w =
      (Inr (k, case hint of Some h \<Rightarrow> [h] | None \<Rightarrow> []),
       w2\<lparr>ww_dir := [(MARKER_FILE_NAME, Nd_File MARKER_CONTENTS 0x1A4)], ww_mode := ww_mode w2 AND NOT 0x92\<rparr>)"
    using w2(2,3) by (simp add: slow_work_def wsio_defs start store w2(1) clean_dir_ops)
  then show ?thesis using w2 bl(2) by (simp add: held_def)
qed

lemma lock_clean:
  assumes "lockable env k i w"
  shows "\<exists>st w1 e. lock env k hint i w = (Inr st, w1) \<and> ww_faults w1 = [] \<and>
    ww_dir w1 = [(MARKER_FILE_NAME, Nd_File MARKER_CONTENTS 0x1A4)] \<and>
    held k i w1 = Some (own_entries env k @ ww_dir w) \<and> \<not> sp_mounted (space_of i w1) \<and>
    (\<forall>(p, e)\<in>set (tree_of (we_sha256 env) (ww_dir w)). stored_in (sp_blobs (space_of i w1)) e) \<and>
    sp_manifest (space_of i w1) = Some (write_manifest (we_ser env) (tree_of (we_sha256 env) (ww_dir w))) \<and>
    map_of (ww_registry w1) (we_canon env) = Some e \<and> re_id e = i \<and> re_strategy e = k \<and> re_locked e \<and>
    \<not> re_unlocking e \<and> re_attached e = None \<and> re_secondary e = []"
proof -
  note ok = assms [unfolded lockable_def]
  let ?key = "we_canon env" and ?reg = "bt_insert (we_canon env) (new_entry i k) (ww_registry w)"
  let ?w = "w\<lparr>ww_registry := ?reg\<rparr>"
  have apart: "fst ` set (ww_dir w) \<inter> fst ` set (own_entries env k) = {}"
    using ok by (auto simp: list_all_iff map_of_eq_None_iff rev_image_eqI)
  obtain w2 where w2: "slow_work env k hint i ?w = (Inr (k, case hint of Some h \<Rightarrow> [h] | None \<Rightarrow> []), w2)"
    "ww_dir w2 = [(MARKER_FILE_NAME, Nd_File MARKER_CONTENTS 0x1A4)]" "ww_faults w2 = []"
    "held k i w2 = Some (own_entries env k @ ww_dir w)" "\<not> sp_mounted (space_of i w2)"
    "\<forall>(p, e)\<in>set (tree_of (we_sha256 env) (ww_dir w)). stored_in (sp_blobs (space_of i w2)) e"
    "sp_manifest (space_of i w2) = Some (write_manifest (we_ser env) (tree_of (we_sha256 env) (ww_dir w)))"
    "ww_registry w2 = ?reg"
    using slow_work_clean [of ?w i k env hint] ok apart by auto
  have "reserve env k ?key i w = (Inr (), ?w)"
    using ok by (auto simp: reserve_def wsio_defs clean_calls split: option.splits)
  then show ?thesis
    using ok w2 by (simp add: lock_def wsio_defs clean_calls path_to_string_def commit_lock_def bt_insert_twice
        new_entry_def held_def)
qed

section \<open>Unlocking restores and reports\<close>

definition set_held :: "container_strategy \<Rightarrow> dir \<Rightarrow> string \<Rightarrow> ws_world \<Rightarrow> ws_world" where
  "set_held k d i w =
     set_space i (case k of PlainDir \<Rightarrow> put_data d | SparseBundle \<Rightarrow> put_bundle d | Ext4Fuse \<Rightarrow> put_image d) w"

text \<open>What of a container comes back: the entries named like volume metadata do not.\<close>

definition volume_names :: "container_strategy \<Rightarrow> string list" where
  "volume_names k =
     (case k of PlainDir \<Rightarrow> [] | SparseBundle \<Rightarrow> VOLUME_METADATA | Ext4Fuse \<Rightarrow> EXT4_VOLUME_METADATA)"

definition restored :: "container_strategy \<Rightarrow> dir \<Rightarrow> dir" where
  "restored k d = filter (\<lambda>(name, _). name \<notin> set (volume_names k)) d"

lemma copy_back_clean:
  assumes "dir_wf d" and "dir_plain d"
  shows "copy_contents_excluding fe excl d [] [] = (filter (\<lambda>(name, _). name \<notin> set excl) d, None, [])"
  using copy_clean(2) [OF refl dir_filter [OF assms], of "\<lambda>(name, _). name \<notin> set excl" "[]" fe]
  by (simp add: copy_contents_excluding_def)

lemma restore_clean:
  assumes "ww_faults w = []" and "ww_dir w = []" and "held (re_strategy e) (re_id e) w = Some d"
    and "dir_wf d" and "dir_plain d" and "\<not> sp_mounted (space_of (re_id e) w)"
    and "re_strategy e = Ext4Fuse \<longrightarrow> we_linux env"
  shows "\<exists>w1. restore_contents env e w = (Inr (), w1) \<and> ww_dir w1 = restored (re_strategy e) d \<and> ww_faults w1 = [] \<and>
    \<not> sp_mounted (space_of (re_id e) w1) \<and> sp_blobs (space_of (re_id e) w1) = sp_blobs (space_of (re_id e) w) \<and>
    sp_manifest (space_of (re_id e) w1) = sp_manifest (space_of (re_id e) w) \<and> ww_registry w1 = ww_registry w"
proof (cases "re_strategy e")
  case PlainDir
  with assms show ?thesis
    by (simp add: restore_contents_def in_step_def wsio_defs move_out_of_data_def on_container_def
        move_contents_clean io_result_def held_def restored_def volume_names_def)
next
  case SparseBundle
  with assms show ?thesis
    by (simp add: restore_contents_def in_step_def wsio_defs restore_from_sparsebundle_def clean_calls clean_mounts
        copy_out_def on_container_def copy_back_clean io_result_def held_def restored_def volume_names_def
        is_mountpoint_def)
next
  case Ext4Fuse
  with assms show ?thesis
    by (simp add: restore_contents_def in_step_def wsio_defs restore_from_ext4_image_def clean_calls clean_mounts
        copy_out_def on_container_def copy_back_clean io_result_def held_def restored_def volume_names_def
        is_mountpoint_def)
qed

lemma release_clean:
  assumes "ww_faults w = []" and "k = Ext4Fuse \<longrightarrow> we_linux env" and "k = PlainDir \<longrightarrow> \<not> sp_mounted (space_of i w)"
  shows "\<exists>w1. release_mount env k i w = (Inr (), w1) \<and> ww_faults w1 = [] \<and> ww_dir w1 = ww_dir w \<and>
    ww_registry w1 = ww_registry w \<and> space_of i w1 = (space_of i w)\<lparr>sp_mounted := False\<rparr>"
  using assms
  by (cases k; cases "sp_mounted (space_of i w)")
    (simp_all add: release_mount_def clean_mounts wsio_defs)

text \<open>Processes that do not survive being signalled are gone before anything is moved.\<close>

definition stopped :: "ws_env \<Rightarrow> ws_world \<Rightarrow> u32 \<times> string \<Rightarrow> bool" where
  "stopped env w t = (is_protected env (fst t) \<or> \<not> running w (fst t) \<or> \<not> identity_matches w (fst t) (snd t))"

lemma terminate_stops:
  assumes "we_signalled env pid \<noteq> Survives"
  shows "stopped env (terminate env pid hint w) (pid, hint)"
  using assms
  by (cases "we_signalled env pid")
    (auto simp: stopped_def terminate_def running_def alive_def delete_conv' update_conv' split: option.splits)

lemma terminate_keeps_stopped: "stopped env w t \<Longrightarrow> stopped env (terminate env pid hint w) t"
  by (cases "we_signalled env pid"; cases "fst t = pid")
    (auto simp: stopped_def terminate_def running_def alive_def identity_matches_def start_hint_def Let_def
      delete_conv' update_conv' split: option.splits)

lemma fold_terminate_stops:
  assumes "\<forall>t\<in>set ts. we_signalled env (fst t) \<noteq> Survives"
  shows "\<forall>t\<in>set ts. stopped env (fold (\<lambda>(pid, hint). terminate env pid hint) ts w) t"
proof -
  have keep: "stopped env w t \<Longrightarrow> stopped env (fold (\<lambda>(pid, hint). terminate env pid hint) ts w) t" for t w ts
    by (induction ts arbitrary: w) (auto simp: terminate_keeps_stopped)
  show ?thesis
    using assms
  proof (induction ts arbitrary: w)
    case (Cons t ts)
    obtain pid hint where t: "t = (pid, hint)" by (cases t)
    have "stopped env (terminate env pid hint w) t" using Cons.prems t terminate_stops by simp
    with keep Cons t show ?case by simp
  qed simp
qed

lemma terminate_fields [simp]:
  "ww_dir (terminate env pid hint w) = ww_dir w" "ww_faults (terminate env pid hint w) = ww_faults w"
  "ww_registry (terminate env pid hint w) = ww_registry w" "ww_spaces (terminate env pid hint w) = ww_spaces w"
  by (auto simp: terminate_def split: option.splits fate.splits)

lemma fold_terminate_fields:
  "ww_dir (fold (\<lambda>(pid, hint). terminate env pid hint) ts w) = ww_dir w \<and>
   ww_faults (fold (\<lambda>(pid, hint). terminate env pid hint) ts w) = ww_faults w \<and>
   ww_registry (fold (\<lambda>(pid, hint). terminate env pid hint) ts w) = ww_registry w \<and>
   ww_spaces (fold (\<lambda>(pid, hint). terminate env pid hint) ts w) = ww_spaces w"
  by (induction ts arbitrary: w) auto

lemma stop_attached_clean:
  assumes "\<forall>t\<in>set (unlock_targets e). we_signalled env (fst t) \<noteq> Survives"
  shows "\<exists>w1. stop_attached env e w = (Inr (), w1) \<and> ww_dir w1 = ww_dir w \<and> ww_faults w1 = ww_faults w \<and>
    ww_registry w1 = ww_registry w \<and> ww_spaces w1 = ww_spaces w"
proof -
  let ?w = "fold (\<lambda>(pid, hint). terminate env pid hint) (unlock_targets e) w"
  have "survivors env (unlock_targets e) ?w = []"
    using fold_terminate_stops [OF assms, of w]
    by (auto simp: survivors_def stopped_def filter_empty_conv)
  then show ?thesis using fold_terminate_fields by (simp add: stop_attached_def wsio_defs Let_def)
qed

text \<open>A workspace whose unlock meets no failure: the user left the directory alone.\<close>

definition unlockable :: "ws_env \<Rightarrow> registry_entry \<Rightarrow> dir \<Rightarrow> ws_world \<Rightarrow> bool" where
  "unlockable env e d w =
     (ww_faults w = [] \<and> utf8_valid (we_canon env) \<and> map_of (ww_registry w) (we_canon env) = Some e \<and>
      ww_dir w = [(MARKER_FILE_NAME, Nd_File MARKER_CONTENTS 0x1A4)] \<and>
      held (re_strategy e) (re_id e) w = Some d \<and> dir_wf d \<and> dir_plain d \<and>
      (re_strategy e = PlainDir \<longrightarrow> \<not> sp_mounted (space_of (re_id e) w)) \<and>
      (re_strategy e = Ext4Fuse \<longrightarrow> we_linux env) \<and>
      list_all (\<lambda>t. we_signalled env (fst t) \<noteq> Survives) (unlock_targets e))"

lemma restored_ok: "dir_wf d \<Longrightarrow> dir_plain d \<Longrightarrow> dir_wf (restored k d) \<and> dir_plain (restored k d)"
  by (simp add: restored_def dir_filter)

lemma report_of_world:
  assumes "ww_faults w = []" and "dir_wf (ww_dir w)" and "dir_plain (ww_dir w)"
    and "sp_manifest (space_of i w) = Some (write_manifest (we_ser env) t)" and "sorted_wrt (<) (map fst t)"
    and "we_de env (we_ser env (map (\<lambda>(p, e). from_tree p e) t)) = Inr (map (\<lambda>(p, e). from_tree p e) t)"
    and "\<forall>(p, e)\<in>set t. stored_in (sp_blobs (space_of i w)) e"
  shows "\<exists>r. make_report env i w = (Inr r, w) \<and> sorted_wrt (<) (map fc_path (ur_changes r)) \<and>
    (\<forall>p c. (p, c) \<in> set (map (\<lambda>c. (fc_path c, fc_kind c)) (ur_changes r)) \<longleftrightarrow>
       path_change (map_of t p) (map_of (tree_of (we_sha256 env) (ww_dir w)) p) = Some c)"
proof -
  let ?cur = "tree_of (we_sha256 env) (ww_dir w)"
  have "list_all (\<lambda>(p, e). file_readable (world_io env i w) p e) ?cur"
    unfolding list_all_iff
  proof clarify
    fix p e assume "(p, e) \<in> set ?cur"
    then show "file_readable (world_io env i w) p e"
      using read_at_scanned [OF assms(2)] by (cases e) (auto simp: world_io_def)
  qed
  moreover have "list_all (\<lambda>(_, e). blob_readable (world_io env i w) e) t"
    unfolding list_all_iff
  proof clarify
    fix p e assume "(p, e) \<in> set t"
    then have "stored_in (sp_blobs (space_of i w)) e" using assms(7) by auto
    then show "blob_readable (world_io env i w) e"
      using read_blob_stored by (cases e) (auto simp: world_io_def)
  qed
  ultimately have "readable (world_io env i w) t ?cur" by (simp add: readable_def)
  from report_exact [OF this] obtain r where r: "unlock_report_of (world_io env i w) t ?cur = Inr r"
    "sorted_wrt (<) (map fc_path (ur_changes r))"
    "\<forall>p c. (p, c) \<in> set (map (\<lambda>c. (fc_path c, fc_kind c)) (ur_changes r)) \<longleftrightarrow>
       path_change (map_of t p) (map_of ?cur p) = Some c"
    by blast
  have "load_manifest (we_de env) p (write_manifest (we_ser env) t) = Inr t" for p
    using assms(5,6) collect_from_tree [of "[]" t] by (simp add: load_manifest_def write_manifest_def)
  then have "make_report env i w = (Inr r, w)"
    using assms(1,3,4) r(1)
    by (simp add: make_report_def read_manifest_def walk_workspace_def walk_clean clean_calls wsio_defs)
  with r show ?thesis by blast
qed

lemma unlock_clean:
  assumes "unlockable env e d w"
    and "sp_manifest (space_of (re_id e) w) = Some (write_manifest (we_ser env) t)" and "sorted_wrt (<) (map fst t)"
    and "we_de env (we_ser env (map (\<lambda>(p, e). from_tree p e) t)) = Inr (map (\<lambda>(p, e). from_tree p e) t)"
    and "\<forall>(p, x)\<in>set t. stored_in (sp_blobs (space_of (re_id e) w)) x"
  shows "\<exists>r w3. unlock env w = (Inr r, w3) \<and> ww_dir w3 = restored (re_strategy e) d \<and>
    map_of (ww_registry w3) (we_canon env) = None \<and> map_of (ww_spaces w3) (re_id e) = None \<and>
    sorted_wrt (<) (map fc_path (ur_changes r)) \<and>
    (\<forall>p c. (p, c) \<in> set (map (\<lambda>c. (fc_path c, fc_kind c)) (ur_changes r)) \<longleftrightarrow>
       path_change (map_of t p) (map_of (tree_of (we_sha256 env) (restored (re_strategy e) d)) p) = Some c)"
proof -
  note ok = assms(1) [unfolded unlockable_def]
  let ?key = "we_canon env" and ?i = "re_id e" and ?k = "re_strategy e" and ?e = "e\<lparr>re_unlocking := True\<rparr>"
  let ?w1 = "w\<lparr>ww_registry := bt_insert ?key ?e (ww_registry w)\<rparr>"
  have mark: "mark_unlocking env ?key w = (Inr ?e, ?w1)"
    using ok by (simp add: mark_unlocking_def wsio_defs clean_calls Let_def)
  have "unlock_targets ?e = unlock_targets e" by (simp add: unlock_targets_def)
  then have "\<forall>t\<in>set (unlock_targets ?e). we_signalled env (fst t) \<noteq> Survives"
    using ok by (simp add: list_all_iff)
  from stop_attached_clean [OF this, of ?w1] obtain w2 where w2: "stop_attached env ?e ?w1 = (Inr (), w2)"
    "ww_dir w2 = ww_dir w" "ww_faults w2 = []" "ww_registry w2 = bt_insert ?key ?e (ww_registry w)"
    "ww_spaces w2 = ww_spaces w" using ok by auto
  have sp2: "space_of ?i w2 = space_of ?i w" using w2(5) by (simp add: space_of_def)
  obtain w3 where w3: "release_mount env ?k ?i w2 = (Inr (), w3)" "ww_faults w3 = []" "ww_dir w3 = ww_dir w"
    "ww_registry w3 = ww_registry w2" "space_of ?i w3 = (space_of ?i w)\<lparr>sp_mounted := False\<rparr>"
    using release_clean [of w2 ?k env ?i] w2 sp2 ok by auto
  let ?w4 = "w3\<lparr>ww_mode := ww_mode w3 OR 0x80, ww_dir := []\<rparr>"
  have marker: "remove_marker (w3\<lparr>ww_mode := ww_mode w3 OR 0x80\<rparr>) = (Inr (), ?w4)"
    using w3 ok by (simp add: remove_marker_def wsio_defs clean_calls)
  have "held ?k ?i ?w4 = Some d" using ok w3(5) by (cases ?k) (simp_all add: held_def)
  then obtain w5 where w5: "restore_contents env ?e ?w4 = (Inr (), w5)" "ww_dir w5 = restored ?k d" "ww_faults w5 = []"
    "\<not> sp_mounted (space_of ?i w5)" "sp_blobs (space_of ?i w5) = sp_blobs (space_of ?i w)"
    "sp_manifest (space_of ?i w5) = sp_manifest (space_of ?i w)" "ww_registry w5 = ww_registry w2"
    using restore_clean [of ?w4 ?e d env] w3 ok by auto
  obtain r where r: "make_report env ?i w5 = (Inr r, w5)" "sorted_wrt (<) (map fc_path (ur_changes r))"
    "\<forall>p c. (p, c) \<in> set (map (\<lambda>c. (fc_path c, fc_kind c)) (ur_changes r)) \<longleftrightarrow>
       path_change (map_of t p) (map_of (tree_of (we_sha256 env) (restored ?k d)) p) = Some c"
    using report_of_world [of w5 ?i env t] w5 restored_ok [of d ?k] ok assms(2-5) by auto
  obtain w6 where w6: "release_mount env ?k ?i w5 = (Inr (), w6)" "ww_faults w6 = []" "ww_dir w6 = restored ?k d"
    "ww_registry w6 = ww_registry w2" "\<not> sp_mounted (space_of ?i w6)"
    using release_clean [of w5 ?k env ?i] w5 ok by auto
  let ?w7 = "w6\<lparr>ww_registry := bt_remove ?key (ww_registry w6)\<rparr>"
  have drop: "rollback_entry env ?key ?i w6 = (Inr (), ?w7)"
    using w6 w2(4) by (simp add: rollback_entry_def wsio_defs clean_calls map_of_bt_insert)
  have "unlock env w = (Inr r, ?w7\<lparr>ww_spaces := AList.delete ?i (ww_spaces ?w7)\<rparr>)"
    using ok w2(3) w3(2) w6(2,5)
    by (simp add: unlock_def in_step_def wsio_defs path_to_string_def mark w2(1) w3(1) clean_calls clean_dir_ops marker
        w5(1) r(1) w6(1) drop is_mountpoint_def Let_def)
  moreover have "map_of (bt_remove ?key reg) ?key = None" for reg
    by (auto simp: bt_remove_def map_of_eq_None_iff)
  ultimately show ?thesis using r(2,3) w6(3) by (simp add: delete_conv')
qed

text \<open>The JSON decoder inverts the encoder on the manifest of a tree.\<close>

definition manifest_decodes :: "ws_env \<Rightarrow> tree \<Rightarrow> bool" where
  "manifest_decodes env t =
     (let ms = map (\<lambda>(p, e). from_tree p e) t in
      case we_de env (we_ser env ms) of Inr ms' \<Rightarrow> ms' = ms | Inl _ \<Rightarrow> False)"


end
