(* ===== verification/Silo_Faults.thy ===== *)
theory Silo_Faults
  imports Silo_Lifecycle
begin

text \<open>
  Locking when system calls fail: one failure costs nothing when the contents go into a plain directory
  on the device of the workspace; a copy to another device that fails half-way, or the removal of the
  originals after a copy into an image, does cost files.
\<close>

section \<open>One failure\<close>

text \<open>At most one call fails, and it is the last of which the outcome is fixed.\<close>

definition single :: "faults \<Rightarrow> bool" where
  "single fs = (fs = [] \<or> list_all (\<lambda>f. f = None) (butlast fs) \<and> last fs \<noteq> None)"

lemma single_simps [simp]:
  "single []" "single (f # fs) \<longleftrightarrow> (if fs = [] then f \<noteq> None else f = None \<and> single fs)"
  by (auto simp: single_def)

lemma single_tl: "single fs \<Longrightarrow> single (tl fs)"
  by (cases fs) (auto split: if_splits)

lemma single_fault: "single fs \<Longrightarrow> next_fault fs = Some x \<Longrightarrow> tl fs = []"
  by (cases fs) (auto simp: next_fault_def split: if_splits)

lemmas fault_rules = single_tl single_fault

text \<open>An operation that fails only because of the failing call has used it up.\<close>

definition spends :: "(('e + 'a) \<times> faults) \<Rightarrow> bool" where
  "spends r = (single (snd r) \<and> (isl (fst r) \<longrightarrow> snd r = []))"

lemma scan_spends:
  "scan_node entry base_dir rel n t bl fs = (r, bl', fs') \<Longrightarrow> single fs \<Longrightarrow> plain n \<Longrightarrow> spends (r, fs')"
  "scan_kids entry base_dir rel d t bl fs = (r, bl', fs') \<Longrightarrow> single fs \<Longrightarrow> dir_plain d \<Longrightarrow> spends (r, fs')"
proof (induction entry base_dir rel n t bl fs and entry base_dir rel d t bl fs arbitrary: r bl' fs' and r bl' fs'
    rule: scan_node_scan_kids.induct)
  case (3 entry base_dir rel mode kids t bl fs)
  then show ?case by (auto simp: spends_def dest: fault_rules split: option.splits prod.splits)
next
  case (6 entry base_dir base name n rest t bl fs)
  obtain r1 bl1 fs1 where n: "scan_node entry base_dir (child_path base name) n t bl fs = (r1, bl1, fs1)"
    by (cases "scan_node entry base_dir (child_path base name) n t bl fs")
  have sp: "spends (r1, fs1)" using "6.IH"(1) [OF n] 6 by simp
  show ?case
  proof (cases r1)
    case (Inr t1)
    then show ?thesis
      using 6(3) n "6.IH"(2) [OF n [symmetric] _ refl, of t1 r bl' fs'] sp 6(5) by (simp add: spends_def)
  qed (use 6(3) n sp in \<open>simp add: spends_def\<close>)
qed (auto simp: spends_def dest: fault_rules split: option.splits prod.splits)

text \<open>On one device the entries up to the failure have moved, the others are where they were.\<close>

lemma move_entries_single:
  assumes "fe_same_device env" and "single fs" and "dir_wf todo" and "dir_plain todo"
    and "fst ` set todo \<inter> fst ` set dest = {}"
  shows "\<exists>m err fs'. move_entries env todo todo dest fs = (drop m todo, dest @ take m todo, err, fs') \<and>
    m \<le> length todo \<and> single fs' \<and> (if err = None then m = length todo else fs' = [])"
  using assms(2-)
proof (induction todo arbitrary: dest fs)
  case (Cons x todo)
  obtain name n where x: "x = (name, n)" by (cases x)
  have new: "name \<notin> fst ` set dest" and del: "AList.delete name ((name, n) # todo) = todo"
    using Cons.prems x by (auto simp: delete_idem)
  have "fst ` set todo \<inter> fst ` set (dest @ [(name, n)]) = {}" using Cons.prems x by auto
  moreover have "dir_wf todo" "dir_plain todo" using Cons.prems(2,3) x by simp_all
  ultimately obtain m err fs' where
    IH: "move_entries env todo todo (dest @ [(name, n)]) (tl fs) = (drop m todo, (dest @ [(name, n)]) @ take m todo, err, fs')"
    "m \<le> length todo" "single fs'" "if err = None then m = length todo else fs' = []"
    using Cons.IH [OF single_tl [OF Cons.prems(1)]] by blast
  show ?case
  proof (cases "\<exists>k e. next_fault fs = Some (Suc k, e)")
    case True
    then obtain k e where f: "next_fault fs = Some (Suc k, e)" by blast
    then show ?thesis
      using x single_fault [OF Cons.prems(1) f]
      by (intro exI [of _ 0] exI [of _ "Some e"] exI [of _ "[]"]) simp
  next
    case False
    then consider "next_fault fs = None" | e where "next_fault fs = Some (0, e)" "tl fs = []"
      using single_fault [OF Cons.prems(1)] by (cases "next_fault fs") (auto, metis not0_implies_Suc)
    then have "move_entries env (x # todo) (x # todo) dest fs =
        (drop (Suc m) (x # todo), dest @ take (Suc m) (x # todo), err, fs')"
    proof cases
      case 1
      then show ?thesis using IH(1) assms(1) x new del by (simp add: map_of_missing update_new)
    next
      case 2
      then show ?thesis
        using IH(1) Cons.prems(2,3) x new del
        by (simp add: map_of_missing copy_clean remove_clean put_entry_new put_entry_def update_new)
    qed
    with IH show ?thesis by (intro exI [of _ "Suc m"] exI [of _ err] exI [of _ fs']) (auto split: if_splits)
  qed
qed simp

section \<open>A plain lock with one failure\<close>

text \<open>The failing call of the world, seen through the operations.\<close>

definition one_fault :: "ws_world \<Rightarrow> bool" where
  "one_fault w = single (ww_faults w)"

definition spent :: "((workspace_error + 'a) \<times> ws_world) \<Rightarrow> bool" where
  "spent r = (one_fault (snd r) \<and> (isl (fst r) \<longrightarrow> ww_faults (snd r) = []))"

lemma spent_calls:
  assumes "one_fault w"
  shows "spent (sys w)" "spent (acquire_lock env w)" "spent (load_registry env w)"
  using assms
  by (auto simp: spent_def one_fault_def sys_def acquire_lock_def load_registry_def Let_def dest: fault_rules
      split: option.splits nat.splits)

text \<open>These leave the files alone; only a successful save changes the registry.\<close>

definition same_files :: "ws_world \<Rightarrow> ws_world \<Rightarrow> bool" where
  "same_files w w' = (ww_dir w' = ww_dir w \<and> ww_spaces w' = ww_spaces w)"

lemma calls_same:
  "same_files w (snd (sys w))" "same_files w (snd (acquire_lock env w))" "same_files w (snd (load_registry env w))"
  "ww_registry (snd (sys w)) = ww_registry w" "ww_registry (snd (acquire_lock env w)) = ww_registry w"
  "ww_registry (snd (load_registry env w)) = ww_registry w"
  "fst (load_registry env w) = Inr reg \<Longrightarrow> reg = ww_registry w"
  by (auto simp: same_files_def sys_def acquire_lock_def load_registry_def Let_def split: option.splits nat.splits)

text \<open>What the file work of a lock may leave of the contents \<open>d\<close> when it fails.\<close>

definition split_up :: "dir \<Rightarrow> string \<Rightarrow> ws_world \<Rightarrow> bool" where
  "split_up d i w =
     (\<exists>m mk. m \<le> length d \<and> ww_dir w = drop m d @ mk \<and>
        (mk = [] \<or> m = length d \<and> mk = [(MARKER_FILE_NAME, Nd_File MARKER_CONTENTS 0x1A4)]) \<and>
        (sp_data (space_of i w) = Some (take m d) \<or> sp_data (space_of i w) = None \<and> m = 0) \<and>
        sp_bundle (space_of i w) = None \<and> sp_image (space_of i w) = None \<and> \<not> sp_mounted (space_of i w))"

lemma split_upI:
  assumes "sp_bundle (space_of i w) = None" "sp_image (space_of i w) = None" "\<not> sp_mounted (space_of i w)"
  shows "ww_dir w = d \<Longrightarrow> sp_data (space_of i w) = None \<Longrightarrow> split_up d i w"
    and "m \<le> length d \<Longrightarrow> ww_dir w = drop m d \<Longrightarrow> sp_data (space_of i w) = Some (take m d) \<Longrightarrow> split_up d i w"
    and "ww_dir w = [(MARKER_FILE_NAME, Nd_File MARKER_CONTENTS 0x1A4)] \<Longrightarrow> sp_data (space_of i w) = Some d \<Longrightarrow>
      split_up d i w"
proof -
  show "split_up d i w" if "ww_dir w = d" "sp_data (space_of i w) = None"
    unfolding split_up_def by (rule exI [of _ 0], rule exI [of _ "[]"]) (use assms that in simp)
  show "split_up d i w" if "m \<le> length d" "ww_dir w = drop m d" "sp_data (space_of i w) = Some (take m d)"
    unfolding split_up_def by (rule exI [of _ m], rule exI [of _ "[]"]) (use assms that in simp)
  show "split_up d i w" if "ww_dir w = [(MARKER_FILE_NAME, Nd_File MARKER_CONTENTS 0x1A4)]" "sp_data (space_of i w) = Some d"
    unfolding split_up_def by (rule exI [of _ "length d"], rule exI [of _ "ww_dir w"]) (use assms that in simp)
qed

lemma map_of_rotate: "distinct (map fst d) \<Longrightarrow> map_of (drop m d @ take m d) = map_of d"
proof -
  assume d: "distinct (map fst d)"
  have "set (drop m d @ take m d) = set d" by (metis append_take_drop_id set_append sup_commute)
  moreover have "distinct (map fst (drop m d @ take m d))"
    using d by (metis append_take_drop_id distinct_append distinct_map inf_commute map_append set_append)
  ultimately show ?thesis using d map_of_inject_set by blast
qed

lemma dir_parts:
  assumes "dir_wf d" and "dir_plain d"
  shows "dir_wf (take m d)" "dir_plain (take m d)" "fst ` set (take m d) \<inter> fst ` set (drop m d) = {}"
proof -
  have "distinct (map fst (take m d) @ map fst (drop m d))"
    using assms(1) by (simp add: dir_wf_def flip: map_append)
  then show "fst ` set (take m d) \<inter> fst ` set (drop m d) = {}" by simp
  show "dir_wf (take m d)" "dir_plain (take m d)"
    using assms by (auto simp: dir_wf_def dir_plain_def list_all_iff take_map [symmetric] dest: in_set_takeD)
qed

lemma move_back:
  assumes "dir_wf d" and "dir_plain d"
  shows "move_contents fe (take m d) (drop m d) [] = ([], drop m d @ take m d, None, [])"
  using move_clean [OF dir_parts [OF assms], of fe m "take m d"]
  by (simp add: move_contents_def filter_empty_conv rev_image_eqI)

lemma undo_restores:
  assumes "ww_faults w = []" and "split_up d i w" and "dir_wf d" and "dir_plain d"
    and "map_of d MARKER_FILE_NAME = None"
  shows "map_of (ww_dir (snd (undo_partial_lock env i w))) = map_of d \<and>
    ww_faults (snd (undo_partial_lock env i w)) = [] \<and> \<not> isl (fst (undo_partial_lock env i w))"
proof -
  obtain m mk where m: "m \<le> length d" "ww_dir w = drop m d @ mk"
    "mk = [] \<or> m = length d \<and> mk = [(MARKER_FILE_NAME, Nd_File MARKER_CONTENTS 0x1A4)]"
    "sp_data (space_of i w) = Some (take m d) \<or> sp_data (space_of i w) = None \<and> m = 0"
    "sp_bundle (space_of i w) = None" "sp_image (space_of i w) = None" "\<not> sp_mounted (space_of i w)"
    using assms(2) by (auto simp: split_up_def)
  have none: "MARKER_FILE_NAME \<notin> fst ` set (drop m d)"
    using assms(5) by (auto simp: map_of_eq_None_iff dest: in_set_dropD intro: rev_image_eqI)
  then have none': "map_of (drop m d) MARKER_FILE_NAME = None" by (rule map_of_missing)
  let ?w1 = "w\<lparr>ww_mode := ww_mode w OR 0x80, ww_dir := drop m d\<rparr>"
  have mark: "remove_marker (w\<lparr>ww_mode := ww_mode w OR 0x80\<rparr>) = (Inr (), ?w1)"
    using m(2,3) none none' assms(1)
    by (auto simp: remove_marker_def wsio_defs clean_calls delete_idem split: option.splits)
  have dist: "map_of (drop m d @ take m d) = map_of d"
    by (rule map_of_rotate) (use assms(3) in \<open>simp add: dir_wf_def\<close>)
  show ?thesis
    using m(4)
  proof
    assume data: "sp_data (space_of i w) = Some (take m d)"
    show ?thesis
      using assms(1) m(5-7) data dist
      by (simp add: undo_partial_lock_def wsio_defs clean_dir_ops mark move_out_of_data_def on_container_def
          move_back [OF assms(3,4)] io_result_def is_mountpoint_def clean_calls)
  next
    assume data: "sp_data (space_of i w) = None \<and> m = 0"
    then show ?thesis
      using assms(1) m(5-7) dist
      by (simp add: undo_partial_lock_def wsio_defs clean_dir_ops mark is_mountpoint_def clean_calls)
  qed
qed

lemma move_into_one_fault:
  assumes "one_fault w" and "dir_wf (ww_dir w)" and "dir_plain (ww_dir w)" and "fe_same_device (we_fs env)"
    and "sp_data (space_of i w) = None" and "move_into_data env i w = (r, w1)"
  shows "(\<exists>m. m \<le> length (ww_dir w) \<and> ww_dir w1 = drop m (ww_dir w) \<and>
      space_of i w1 = put_data (take m (ww_dir w)) (space_of i w) \<and> (isl r \<or> m = length (ww_dir w))) \<or>
    (isl r \<and> ww_dir w1 = ww_dir w \<and> space_of i w1 = space_of i w)"
    and "spent (r, w1)" and "ww_registry w1 = ww_registry w"
proof -
  have fs: "single (ww_faults w)" using assms(1) by (simp add: one_fault_def)
  have "((\<exists>m. m \<le> length (ww_dir w) \<and> ww_dir w1 = drop m (ww_dir w) \<and>
      space_of i w1 = put_data (take m (ww_dir w)) (space_of i w) \<and> (isl r \<or> m = length (ww_dir w))) \<or>
    (isl r \<and> ww_dir w1 = ww_dir w \<and> space_of i w1 = space_of i w)) \<and> spent (r, w1) \<and> ww_registry w1 = ww_registry w"
  proof (cases "next_fault (ww_faults w)")
    case (Some f)
    obtain k e where f: "f = (k, e)" by (cases f)
    have spent: "tl (ww_faults w) = []" by (rule single_fault [OF fs Some])
    show ?thesis
    proof (cases k)
      case 0
      then show ?thesis using assms(6) Some f spent by (auto simp: move_into_data_def spent_def one_fault_def)
    next
      case (Suc k')
      with assms(5,6) Some f spent have "ww_dir w1 = drop 0 (ww_dir w)" "isl r" "spent (r, w1)"
        "space_of i w1 = put_data (take 0 (ww_dir w)) (space_of i w)" "ww_registry w1 = ww_registry w"
        by (auto simp: move_into_data_def on_container_def move_contents_def io_result_def spent_def one_fault_def)
      then show ?thesis by blast
    qed
  next
    case None
    obtain m err fs' where mv: "move_entries (we_fs env) (ww_dir w) (ww_dir w) [] (tl (ww_faults w)) =
        (drop m (ww_dir w), [] @ take m (ww_dir w), err, fs')" "m \<le> length (ww_dir w)" "single fs'"
      "if err = None then m = length (ww_dir w) else fs' = []"
      using move_entries_single [OF assms(4) single_tl [OF fs] assms(2,3), of "[]"] by auto
    with assms(5,6) None have "ww_dir w1 = drop m (ww_dir w)" "isl r \<or> m = length (ww_dir w)" "spent (r, w1)"
      "space_of i w1 = put_data (take m (ww_dir w)) (space_of i w)" "ww_registry w1 = ww_registry w"
      by (auto simp: move_into_data_def on_container_def move_contents_def io_result_def spent_def one_fault_def
          split: option.splits if_splits)
    with mv(2) show ?thesis by blast
  qed
  then show "(\<exists>m. m \<le> length (ww_dir w) \<and> ww_dir w1 = drop m (ww_dir w) \<and>
      space_of i w1 = put_data (take m (ww_dir w)) (space_of i w) \<and> (isl r \<or> m = length (ww_dir w))) \<or>
    (isl r \<and> ww_dir w1 = ww_dir w \<and> space_of i w1 = space_of i w)" "spent (r, w1)" "ww_registry w1 = ww_registry w"
    by blast+
qed

lemma snapshot_one_fault:
  assumes "one_fault w" and "dir_plain (ww_dir w)" and "take_snapshot env i w = (r, w1)"
  shows "spent (r, w1) \<and> ww_dir w1 = ww_dir w \<and> ww_registry w1 = ww_registry w \<and>
    (\<exists>bl. space_of i w1 = (space_of i w)\<lparr>sp_blobs := bl\<rparr>)"
proof -
  obtain r' bl fs' where sn: "snapshot_dir (we_sha256 env) (we_canon env) (ww_dir w) (sp_blobs (space_of i w)) (ww_faults w) = (r', bl, fs')"
    by (cases "snapshot_dir (we_sha256 env) (we_canon env) (ww_dir w) (sp_blobs (space_of i w)) (ww_faults w)")
  have fs: "single (ww_faults w)" using assms(1) by (simp add: one_fault_def)
  note fs2 = single_tl [OF fs]
  have "spends (r', fs')"
  proof (cases "next_fault (ww_faults w) = None \<and> next_fault (tl (ww_faults w)) = None")
    case True
    with sn show ?thesis
      using scan_spends(2) [OF _ single_tl [OF fs2] assms(2)]
      by (simp add: snapshot_dir_def scan_tree_def)
  next
    case False
    with sn fs fs2 show ?thesis
      by (auto simp: snapshot_dir_def scan_tree_def spends_def dest: single_fault split: option.splits)
  qed
  with sn assms(3) show ?thesis by (auto simp: take_snapshot_def spent_def spends_def one_fault_def)
qed

lemma sys_one_fault:
  assumes "one_fault w"
  obtains (ok) w1 where "sys w = (Inr (), w1)" "w1 = w\<lparr>ww_faults := tl (ww_faults w)\<rparr>" "one_fault w1"
  | (bad) e where "sys w = (Inl e, w\<lparr>ww_faults := []\<rparr>)"
  using assms by (cases "next_fault (ww_faults w)") (auto simp: sys_def one_fault_def dest: fault_rules)

lemma slow_work_one_fault:
  assumes "one_fault w" and "dir_wf (ww_dir w)" and "dir_plain (ww_dir w)" and "fe_same_device (we_fs env)"
    and "space_of i w = empty_space" and "slow_work env PlainDir hint i w = (r, w1)"
  shows "ww_registry w1 = ww_registry w \<and>
    (case r of
       Inl _ \<Rightarrow> ww_faults w1 = [] \<and> split_up (ww_dir w) i w1
     | Inr (k, _) \<Rightarrow> k = PlainDir \<and> one_fault w1 \<and> sp_data (space_of i w1) = Some (ww_dir w))"
proof -
  let ?d = "ww_dir w"
  obtain r1 w2 where sn: "take_snapshot env i w = (r1, w2)" by (cases "take_snapshot env i w")
  obtain bl where w2: "spent (r1, w2)" "ww_dir w2 = ?d" "ww_registry w2 = ww_registry w"
    "space_of i w2 = empty_space\<lparr>sp_blobs := bl\<rparr>"
    using snapshot_one_fault [OF assms(1,3) sn] assms(5) by auto
  show ?thesis
  proof (cases r1)
    case (Inl e)
    with sn assms(6) w2 show ?thesis
      by (auto simp: slow_work_def wsio_defs spent_def intro!: split_upI(1))
  next
    case (Inr t)
    have one2: "one_fault w2" using w2(1) by (simp add: spent_def)
    then show ?thesis
    proof (cases rule: sys_one_fault)
      case (bad e)
      with sn Inr assms(6) w2 show ?thesis
        by (auto simp: slow_work_def store_manifest_def wsio_defs intro!: split_upI(1))
    next
      case (ok w3)
      let ?w4 = "set_space i (\<lambda>s. s\<lparr>sp_manifest := Some (write_manifest (we_ser env) t)\<rparr>) w3"
      have store: "store_manifest env i t w2 = (Inr (), ?w4)" using ok by (simp add: store_manifest_def wsio_defs)
      have w4: "one_fault ?w4" "ww_dir ?w4 = ?d" "ww_registry ?w4 = ww_registry w" "sp_data (space_of i ?w4) = None"
        "sp_bundle (space_of i ?w4) = None" "sp_image (space_of i ?w4) = None" "\<not> sp_mounted (space_of i ?w4)"
        using ok w2 by (auto simp: one_fault_def)
      obtain r5 w5 where mv: "move_into_data env i ?w4 = (r5, w5)" by (cases "move_into_data env i ?w4")
      note moved = move_into_one_fault [OF w4(1) _ _ assms(4) w4(4) mv, unfolded w4(2), OF assms(2,3)]
      show ?thesis
      proof (cases r5)
        case (Inl e)
        have "split_up ?d i w5"
          using moved(1) w4(4-7) split_upI(1) [of i w5 ?d] split_upI(2) [of i w5 _ ?d] by auto
        with sn \<open>r1 = Inr t\<close> store mv Inl assms(6) moved(2,3) w4(3) show ?thesis
          by (auto simp: slow_work_def fill_container_def wsio_defs spent_def)
      next
        case (Inr u)
        then have full: "ww_dir w5 = []" "space_of i w5 = put_data ?d (space_of i ?w4)" using moved(1) by auto
        note run = sn \<open>r1 = Inr t\<close> store mv Inr assms(6) full moved(3) w4(3-7)
        have "one_fault w5" using moved(2) by (simp add: spent_def)
        then show ?thesis
        proof (cases rule: sys_one_fault)
          case (bad e)
          with run show ?thesis
            by (auto simp: slow_work_def fill_container_def write_marker_def wsio_defs
                intro!: split_upI(2) [of i _ "length ?d"])
        next
          case (ok w6)
          let ?w7 = "w6\<lparr>ww_dir := [(MARKER_FILE_NAME, Nd_File MARKER_CONTENTS 0x1A4)]\<rparr>"
          have marker: "write_marker w5 = (Inr (), ?w7)"
            using ok full by (simp add: write_marker_def wsio_defs)
          have w7: "ww_registry ?w7 = ww_registry w" "space_of i ?w7 = space_of i w5"
            using ok moved(3) w4(3) by simp_all
          have "one_fault ?w7" using ok by (simp add: one_fault_def)
          then show ?thesis
          proof (cases rule: sys_one_fault)
            case (bad e)
            with run marker w7 show ?thesis
              by (auto simp: slow_work_def fill_container_def make_dir_readonly_def wsio_defs intro!: split_upI(3))
          next
            case (ok w8)
            with run marker w7 show ?thesis
              by (auto simp: slow_work_def fill_container_def make_dir_readonly_def wsio_defs one_fault_def)
          qed
        qed
      qed
    qed
  qed
qed

lemma space_of_same: "ww_spaces w' = ww_spaces w \<Longrightarrow> space_of i w' = space_of i w"
  by (simp add: space_of_def)

lemma save_registry_cases:
  obtains (ok) w1 where "save_registry reg w = (Inr (), w1)" "ww_registry w1 = reg" "same_files w w1"
      "one_fault w \<longrightarrow> one_fault w1"
  | (bad) e w1 where "save_registry reg w = (Inl e, w1)" "ww_registry w1 = ww_registry w" "same_files w w1"
  by (cases "next_fault (ww_faults w)")
    (auto simp: save_registry_def wsio_defs sys_def same_files_def one_fault_def dest: fault_rules)

lemma reserve_cases:
  assumes "one_fault w"
  obtains (ok) w1 where "reserve env k key i w = (Inr (), w1)" "same_files w w1" "one_fault w1"
      "ww_registry w1 = bt_insert key (new_entry i k) (ww_registry w)"
  | (bad) e w1 where "reserve env k key i w = (Inl e, w1)" "same_files w w1"
proof -
  obtain r1 w1 where a: "acquire_lock env w = (r1, w1)" by (cases "acquire_lock env w")
  obtain r2 w2 where l: "load_registry env w1 = (r2, w2)" by (cases "load_registry env w1")
  have w1: "one_fault w1" "same_files w w1" "ww_registry w1 = ww_registry w"
    using spent_calls(2) [OF assms, of env] calls_same(2) [of w env] calls_same(5) [of env w] a by (simp_all add: spent_def)
  have w2: "one_fault w2" "same_files w w2" "ww_registry w2 = ww_registry w"
    using spent_calls(3) [OF w1(1), of env] calls_same(3) [of w1 env] calls_same(6) [of env w1] l w1(2,3)
    by (simp_all add: spent_def same_files_def)
  show thesis
  proof (cases r1)
    case Inl
    then show thesis using a bad w1(2) by (simp add: reserve_def wsio_defs)
  next
    case (Inr u)
    show thesis
    proof (cases r2)
      case Inl
      then show thesis using a l \<open>r1 = Inr u\<close> bad w2(2) by (simp add: reserve_def wsio_defs)
    next
      case (Inr reg)
      then have reg: "reg = ww_registry w" using calls_same(7) [of env w1 reg] l w1(3) by simp
      show thesis
      proof (cases "case map_of reg key of Some e \<Rightarrow> re_locked e | None \<Rightarrow> False")
        case True
        then show thesis using a l \<open>r1 = Inr u\<close> Inr bad w2(2) by (simp add: reserve_def wsio_defs)
      next
        case False
        note run = a l \<open>r1 = Inr u\<close> Inr False
        show thesis
          by (rule save_registry_cases [of "bt_insert key (new_entry i k) reg" w2])
            (use run ok bad w2 reg in \<open>auto simp: reserve_def wsio_defs same_files_def\<close>)
      qed
    qed
  qed
qed

lemma commit_keeps:
  assumes "map_of (ww_registry w) key = Some e" and "re_id e = i"
  shows "same_files w (snd (commit_lock env key i k extra w)) \<and>
    (\<exists>e'. map_of (ww_registry (snd (commit_lock env key i k extra w))) key = Some e' \<and> re_id e' = i)"
proof -
  obtain r1 w1 where a: "acquire_lock env w = (r1, w1)" by (cases "acquire_lock env w")
  obtain r2 w2 where l: "load_registry env w1 = (r2, w2)" by (cases "load_registry env w1")
  have w1: "same_files w w1" "ww_registry w1 = ww_registry w" using calls_same(2) [of w env] calls_same(5) [of env w] a by simp_all
  have w2: "same_files w w2" "ww_registry w2 = ww_registry w"
    using calls_same(3) [of w1 env] calls_same(6) [of env w1] l w1 by (simp_all add: same_files_def)
  show ?thesis
  proof (cases r1)
    case Inl
    then show ?thesis using a w1 assms by (simp add: commit_lock_def wsio_defs)
  next
    case (Inr u)
    show ?thesis
    proof (cases r2)
      case Inl
      then show ?thesis using a l \<open>r1 = Inr u\<close> w2 assms by (simp add: commit_lock_def wsio_defs)
    next
      case (Inr reg)
      then have reg: "reg = ww_registry w" using calls_same(7) [of env w1 reg] l w1(2) by simp
      note run = a l \<open>r1 = Inr u\<close> Inr assms
      show ?thesis
        by (rule save_registry_cases [of "bt_insert key (e\<lparr>re_strategy := k, re_warnings := extra\<rparr>) reg" w2])
          (use run w2 reg in \<open>auto simp: commit_lock_def wsio_defs same_files_def map_of_bt_insert\<close>)
    qed
  qed
qed

lemma rollback_same_dir: "ww_dir (snd (rollback_entry env key i w)) = ww_dir w"
proof -
  have "ww_dir (snd (save_registry reg w)) = ww_dir w" for reg w
    by (rule save_registry_cases [of reg w]) (auto simp: same_files_def)
  moreover have "ww_dir (snd (acquire_lock env w)) = ww_dir w" "ww_dir (snd (load_registry env w)) = ww_dir w" for w
    using calls_same(2,3) [of w env] by (simp_all add: same_files_def)
  ultimately show ?thesis
    by (auto simp: rollback_entry_def wsio_defs split: prod.splits sum.splits option.splits) (metis snd_conv)+
qed


section \<open>Files lost\<close>

definition demo_fs :: "bool \<Rightarrow> fs_env" where
  "demo_fs same = \<lparr>fe_same_device = same, fe_follow = (\<lambda>_. False), fe_dir_mode = 0x1ED\<rparr>"

definition demo_dir :: dir where
  "demo_dir = [(''a'', Nd_File ''hello'' 0x1A4), (''b'', Nd_File ''world'' 0x1A4)]"

definition demo_env :: "bool \<Rightarrow> ws_env" where
  "demo_env same =
     \<lparr>we_fs = demo_fs same, we_canon = ''/work'', we_state = ''/state'', we_root = ''/state/workspaces'',
      we_linux = True, we_volume = [], we_pid = 7, we_signalled = (\<lambda>_. Exits), we_sha256 = (\<lambda>b. b),
      we_ser = (\<lambda>_. ''manifest''),
      we_de = (\<lambda>_. Inr (map (\<lambda>(p, e). from_tree p e) (tree_of (\<lambda>b. b) demo_dir))),
      we_unified = (\<lambda>a b. a @ b)\<rparr>"

definition demo_world :: "faults \<Rightarrow> ws_world" where
  "demo_world fs = \<lparr>ww_dir = demo_dir, ww_mode = 0x1ED, ww_registry = [], ww_spaces = [], ww_procs = [],
     ww_faults = fs\<rparr>"

definition disk_full :: faults where
  "disk_full = replicate 11 None @ [Some (3, ''No space left on device (os error 28)'')]"

text \<open>
  One failing copy can destroy a file of the workspace. With the state directory on another
  device, the disk fills up while the first file is copied; the lock reports the error, and its
  rollback copies the truncated file back over the original, which no other copy is left of.
\<close>

theorem failed_lock_truncates:
  "\<exists>e w1. lock (demo_env False) PlainDir None ''id'' (demo_world disk_full) = (Inl e, w1) \<and>
     map_of (ww_dir (demo_world disk_full)) ''a'' = Some (Nd_File ''hello'' 0x1A4) \<and>
     map_of (ww_dir w1) ''a'' = Some (Nd_File ''he'' 0x1A4) \<and> ww_spaces w1 = []"
proof -
  have "case lock (demo_env False) PlainDir None ''id'' (demo_world disk_full) of
      (Inl e, w1) \<Rightarrow> map_of (ww_dir w1) ''a'' = Some (Nd_File ''he'' 0x1A4) \<and> ww_spaces w1 = []
    | _ \<Rightarrow> False"
    by code_simp
  then show ?thesis by (auto simp: demo_world_def demo_dir_def split: prod.splits sum.splits)
qed

definition busy_file :: faults where
  "busy_file = replicate 21 None @ [Some (0, ''Device or resource busy (os error 16)'')]"

text \<open>
  A lock into a disk image that cannot remove one of the originals falls back to the plain directory
  and deletes the image, with the only copy of the originals already removed, and reports success.
\<close>

theorem fallback_loses_files:
  "\<exists>st w1. lock (demo_env True) Ext4Fuse None ''id'' (demo_world busy_file) = (Inr st, w1) \<and>
     map_of (ww_dir (demo_world busy_file)) ''a'' = Some (Nd_File ''hello'' 0x1A4) \<and>
     map_of (ww_dir w1) ''a'' = None \<and> sp_image (space_of ''id'' w1) = None \<and>
     sp_data (space_of ''id'' w1) = Some [(''b'', Nd_File ''world'' 0x1A4)]"
proof -
  have "case lock (demo_env True) Ext4Fuse None ''id'' (demo_world busy_file) of
      (Inr st, w1) \<Rightarrow> map_of (ww_dir w1) ''a'' = None \<and> sp_image (space_of ''id'' w1) = None \<and>
        sp_data (space_of ''id'' w1) = Some [(''b'', Nd_File ''world'' 0x1A4)]
    | _ \<Rightarrow> False"
    by code_simp
  then show ?thesis by (auto simp: demo_world_def demo_dir_def split: prod.splits sum.splits)
qed



end
