(* ===== verification/Silo_Attach.thy ===== *)
theory Silo_Attach
  imports Silo_Lifecycle
begin

text \<open>
  Processes that share a locked workspace (\<open>silo-workspace/src/lib.rs\<close>: \<open>attach\<close>, \<open>attach_shared\<close>, the
  detach guards, \<open>status\<close> and \<open>unlock\<close>), interleaved. Attaching, one attempt of a guard and \<open>status\<close>
  hold the registry lock throughout and are one step each; an unlock marks its entry, stops the
  attached processes and then does its file work call by call without the lock. Every step may meet
  any failures. Processes come and go; a process that unlocks holds no attachment itself. The machine starts after the lock was committed.
\<close>

section \<open>The file work of an unlock\<close>

definition unlock_work :: "ws_env \<Rightarrow> string \<Rightarrow> registry_entry \<Rightarrow> unit wsio list" where
  "unlock_work env key e =
     (let i = re_id e; release = in_step ''detaching the workspace image'' (release_mount env (re_strategy e) i) in
      [release, sys, in_step ''restoring directory access'' make_dir_writable, remove_marker,
       restore_contents env e, follow_by (make_report env i) (ret ()), release, rollback_entry env key i,
       only_if (\<lambda>w. \<not> is_mountpoint i w) (ignoring (remove_space i))])"

fun in_sequence :: "unit wsio list \<Rightarrow> unit wsio" where
  "in_sequence [] = ret ()"
| "in_sequence (m # ms) = follow_by m (in_sequence ms)"

section \<open>The machine\<close>

datatype unlock_stage = U_Marked registry_entry | U_Working registry_entry nat

record at_sys =
  as_world :: ws_world
  as_holders :: "(u32 \<times> guard) list"
  as_leaving :: "(guard \<times> nat) list"
  as_unlocks :: "(u32 \<times> unlock_stage) list"
  as_tokens :: "string list"

datatype at_action =
    AA_Attach u32 string string faults
  | AA_Shell u32 string faults
  | AA_Leave nat
  | AA_Detach nat faults
  | AA_Status faults
  | AA_Begin u32 string
  | AA_End u32
  | AA_Mark u32 faults
  | AA_Stop nat
  | AA_Work nat faults

definition with_faults :: "faults \<Rightarrow> at_sys \<Rightarrow> ws_world" where
  "with_faults fs s = (as_world s)\<lparr>ww_faults := fs\<rparr>"

definition remove_at :: "nat \<Rightarrow> 'a list \<Rightarrow> 'a list" where
  "remove_at n xs = take n xs @ drop (Suc n) xs"

text \<open>A process that may attach: it runs, is not init, and is not unlocking.\<close>

definition may_attach :: "u32 \<Rightarrow> string \<Rightarrow> at_sys \<Rightarrow> bool" where
  "may_attach p token s =
     (running (as_world s) p \<and> p \<noteq> 1 \<and> p \<notin> fst ` set (as_unlocks s) \<and> token \<notin> set (as_tokens s))"

definition attached :: "u32 \<Rightarrow> string \<Rightarrow> (workspace_error + string \<times> guard) \<times> ws_world \<Rightarrow> at_sys \<Rightarrow> at_sys" where
  "attached p token r s =
     s\<lparr>as_world := snd r, as_tokens := token # as_tokens s,
       as_holders := (case fst r of Inr (_, g) \<Rightarrow> as_holders s @ [(p, g)] | Inl _ \<Rightarrow> as_holders s)\<rparr>"

fun at_exec :: "ws_env \<Rightarrow> at_action \<Rightarrow> at_sys \<Rightarrow> at_sys option" where
  "at_exec env (AA_Attach p harness_id token fs) s =
     (if may_attach p token s
      then Some (attached p token (attach (env\<lparr>we_pid := p\<rparr>) harness_id token (with_faults fs s)) s) else None)"
| "at_exec env (AA_Shell p token fs) s =
     (if may_attach p token s
      then Some (attached p token (attach_shared (env\<lparr>we_pid := p\<rparr>) token (with_faults fs s)) s) else None)"
| "at_exec env (AA_Leave n) s =
     (if n < length (as_holders s)
      then Some (s\<lparr>as_holders := remove_at n (as_holders s),
                   as_leaving := (snd (as_holders s ! n), DETACH_ATTEMPTS) # as_leaving s\<rparr>)
      else None)"
| "at_exec env (AA_Detach n fs) s =
     (if n < length (as_leaving s)
      then
        (case as_leaving s ! n of
           (g, left) \<Rightarrow>
             (case detach_once env g (with_faults fs s) of
                (r, w1) \<Rightarrow>
                  Some (s\<lparr>as_world := w1,
                          as_leaving := (if isl r \<and> left > 1 then (as_leaving s)[n := (g, left - 1)]
                                         else remove_at n (as_leaving s))\<rparr>)))
      else None)"
| "at_exec env (AA_Status fs) s = Some (s\<lparr>as_world := snd (status env (with_faults fs s))\<rparr>)"
| "at_exec env (AA_Begin p start) s =
     (if map_of (ww_procs (as_world s)) p = None
      then Some (s\<lparr>as_world := (as_world s)\<lparr>ww_procs := AList.update p \<lparr>pr_start = start, pr_zombie = False\<rparr>
                                               (ww_procs (as_world s))\<rparr>\<rparr>)
      else None)"
| "at_exec env (AA_End p) s =
     Some (s\<lparr>as_world := (as_world s)\<lparr>ww_procs := AList.delete p (ww_procs (as_world s))\<rparr>,
             as_holders := filter (\<lambda>h. fst h \<noteq> p) (as_holders s),
             as_unlocks := filter (\<lambda>u. fst u \<noteq> p) (as_unlocks s)\<rparr>)"
| "at_exec env (AA_Mark p fs) s =
     (if running (as_world s) p \<and> p \<notin> fst ` set (as_holders s) \<and> p \<notin> fst ` set (as_unlocks s)
      then
        (case mark_unlocking env (we_canon env) (with_faults fs s) of
           (r, w1) \<Rightarrow>
             Some (s\<lparr>as_world := w1,
                     as_unlocks := (case r of Inr e \<Rightarrow> (p, U_Marked e) # as_unlocks s | Inl _ \<Rightarrow> as_unlocks s)\<rparr>))
      else None)"
| "at_exec env (AA_Stop n) s =
     (if n < length (as_unlocks s)
      then
        (case as_unlocks s ! n of
           (p, U_Marked e) \<Rightarrow>
             (case stop_attached (env\<lparr>we_pid := p\<rparr>) e (as_world s) of
                (r, w1) \<Rightarrow>
                  Some (s\<lparr>as_world := w1, as_holders := filter (\<lambda>h. running w1 (fst h)) (as_holders s),
                          as_unlocks := (if isl r then remove_at n (as_unlocks s)
                                         else (as_unlocks s)[n := (p, U_Working e 0)])\<rparr>))
         | _ \<Rightarrow> None)
      else None)"
| "at_exec env (AA_Work n fs) s =
     (if n < length (as_unlocks s)
      then
        (case as_unlocks s ! n of
           (p, U_Working e m) \<Rightarrow>
             (let work = unlock_work env (we_canon env) e in
              if m < length work
              then
                (case (work ! m) (with_faults fs s) of
                   (r, w1) \<Rightarrow>
                     Some (s\<lparr>as_world := w1,
                             as_unlocks := (if isl r \<or> Suc m = length work then remove_at n (as_unlocks s)
                                            else (as_unlocks s)[n := (p, U_Working e (Suc m))])\<rparr>))
              else None)
         | _ \<Rightarrow> None)
      else None)"

inductive at_step :: "ws_env \<Rightarrow> at_sys \<Rightarrow> at_sys \<Rightarrow> bool" for env where
  "at_exec env a s = Some s' \<Longrightarrow> at_step env s s'"

inductive_cases at_stepE: "at_step env s s'"

text \<open>The machine over a workspace that has just been locked.\<close>

definition at_start :: "ws_world \<Rightarrow> at_sys" where
  "at_start w = \<lparr>as_world = w, as_holders = [], as_leaving = [], as_unlocks = [], as_tokens = []\<rparr>"

text \<open>The steps of an unlock in sequence are the unlock.\<close>

lemma unlock_composed:
  "map_prod (map_sum (\<lambda>e. e) (\<lambda>_. ())) (\<lambda>w. w) (unlock env w) =
   and_then (from_result (path_to_string (we_canon env))) (\<lambda>key.
     and_then (mark_unlocking env key) (\<lambda>e.
       follow_by (stop_attached env e) (in_sequence (unlock_work env key e)))) w"
  by (auto simp: unlock_def unlock_work_def and_then_def follow_by_def ret_def Let_def
      split: prod.splits sum.splits)

section \<open>What the operations keep\<close>

text \<open>An operation that leaves the registry and the processes alone.\<close>

definition quiet :: "'a wsio \<Rightarrow> bool" where
  "quiet m = (\<forall>w r w1. m w = (r, w1) \<longrightarrow> ww_registry w1 = ww_registry w \<and> ww_procs w1 = ww_procs w)"

lemma quietD: "quiet m \<Longrightarrow> m w = (r, w1) \<Longrightarrow> ww_registry w1 = ww_registry w \<and> ww_procs w1 = ww_procs w"
  by (simp add: quiet_def)

lemma quiet_snd: "quiet m \<Longrightarrow> ww_registry (snd (m w)) = ww_registry w \<and> ww_procs (snd (m w)) = ww_procs w"
  using quietD by (metis prod.collapse)

lemma quietI:
  "(\<And>w r w1. m w = (r, w1) \<Longrightarrow> ww_registry w1 = ww_registry w \<and> ww_procs w1 = ww_procs w) \<Longrightarrow> quiet m"
  by (simp add: quiet_def)

named_theorems quiet_intros

lemma quiet_basic [quiet_intros]:
  "quiet (ret x)" "quiet (raise e)" "quiet get_world" "quiet (from_result r)" "quiet sys"
  "quiet (run_tool_cmd p args)" "quiet (acquire_lock env)" "quiet (load_registry env)" "quiet (remove_space i)"
  "quiet (change (set_space i f))" "quiet (set_mounted i b)"
  by (auto simp: quiet_def ret_def raise_def get_world_def from_result_def sys_def run_tool_cmd_def acquire_lock_def
      load_registry_def remove_space_def change_def set_mounted_def set_space_def Let_def
      split: option.splits nat.splits)

lemma quiet_and_then [quiet_intros]:
  assumes "quiet m" and "\<And>x. quiet (f x)"
  shows "quiet (and_then m f)"
proof (rule quietI)
  fix w r w1 assume *: "and_then m f w = (r, w1)"
  obtain q w2 where m: "m w = (q, w2)" by (cases "m w")
  then have "ww_registry w2 = ww_registry w \<and> ww_procs w2 = ww_procs w" using assms(1) quietD by blast
  moreover have "ww_registry w1 = ww_registry w2 \<and> ww_procs w1 = ww_procs w2"
    using * m quietD [OF assms(2)] by (cases q) (auto simp: and_then_def)
  ultimately show "ww_registry w1 = ww_registry w \<and> ww_procs w1 = ww_procs w" by simp
qed

lemma quiet_follow_by [quiet_intros]: "quiet m \<Longrightarrow> quiet m' \<Longrightarrow> quiet (follow_by m m')"
  by (simp add: follow_by_def quiet_and_then)

lemma quiet_compose [quiet_intros]:
  "quiet m \<Longrightarrow> quiet (result_of m)" "quiet m \<Longrightarrow> quiet (ignoring m)" "quiet m \<Longrightarrow> quiet (map_err h m)"
  by (auto intro!: quietI simp: result_of_def ignoring_def map_err_def split: prod.splits sum.splits
      dest: quietD quiet_snd)

lemma quiet_only_if [quiet_intros]: "quiet m \<Longrightarrow> quiet (only_if P m)"
  by (auto intro!: quietI simp: only_if_def split: if_splits dest: quietD)

lemma quiet_if [quiet_intros]: "quiet m \<Longrightarrow> quiet m' \<Longrightarrow> quiet (if b then m else m')"
  by simp

lemma quiet_case_sum [quiet_intros]:
  "(\<And>x. quiet (f x)) \<Longrightarrow> (\<And>y. quiet (g y)) \<Longrightarrow> quiet (case r of Inl x \<Rightarrow> f x | Inr y \<Rightarrow> g y)"
  by (simp split: sum.splits)

lemma quiet_case_option [quiet_intros]:
  "quiet m \<Longrightarrow> (\<And>y. quiet (g y)) \<Longrightarrow> quiet (case r of None \<Rightarrow> m | Some y \<Rightarrow> g y)"
  by (simp split: option.splits)

lemma quiet_mounts [quiet_intros]:
  "quiet (detach_image env i)" "quiet (unmount_fuse env i)" "quiet (attach_bundle env i)" "quiet (mount_ext4_image env i)"
  "quiet (release_mount env k i)"
proof -
  have hd: "quiet (run_hdiutil args)" "quiet (run_fusermount args)" for args
  proof -
    show "quiet (run_hdiutil args)" by (simp add: run_hdiutil_def quiet_intros)
    show "quiet (run_fusermount args)"
      by (rule quietI) (auto simp: run_fusermount_def map_err_def split: prod.splits sum.splits
          dest!: quietD [OF quiet_basic(6)])
  qed
  have *: "quiet (follow_by (run_hdiutil args) (set_mounted i b))" "quiet (follow_by (run_fusermount args) (set_mounted i b))"
    for args b by (intro quiet_intros hd)+
  show 1: "quiet (detach_image env i)"
    by (rule quietI) (auto simp: detach_image_def Let_def map_err_def split: prod.splits sum.splits if_splits
        dest!: quietD [OF hd(1)] quietD [OF *(1)] quietD [OF quiet_basic(11)])
  show 2: "quiet (unmount_fuse env i)"
    by (rule quietI) (auto simp: unmount_fuse_def map_err_def split: prod.splits sum.splits if_splits
        dest!: quietD [OF hd(2)] quietD [OF *(2)] quietD [OF quiet_basic(11)])
  show "quiet (attach_bundle env i)" unfolding attach_bundle_def Let_def by (intro quiet_intros hd)
  show "quiet (mount_ext4_image env i)" unfolding mount_ext4_image_def Let_def by (intro quiet_intros)
  show "quiet (release_mount env k i)" using 1 2 by (cases k) (simp_all add: release_mount_def quiet_intros)
qed

lemma quiet_dirs [quiet_intros]:
  "quiet (on_container f get put i)" "quiet make_dir_writable" "quiet remove_marker" "quiet (walk_workspace env)"
  by (auto simp: quiet_def on_container_def set_space_def make_dir_writable_def remove_marker_def walk_workspace_def
      follow_by_def and_then_def change_def ignoring_def sys_def split: prod.splits option.splits node.splits)

lemma quiet_restore [quiet_intros]: "quiet (restore_contents env e)"
  unfolding restore_contents_def in_step_def
  by (cases "re_strategy e")
    (simp_all add: move_out_of_data_def restore_from_sparsebundle_def restore_from_ext4_image_def copy_out_def quiet_intros)

lemma quiet_report [quiet_intros]: "quiet (make_report env i)"
  unfolding make_report_def read_manifest_def by (intro quiet_intros)

section \<open>Attaching and detaching, whatever fails\<close>

lemma procs_cong:
  assumes "ww_procs w' = ww_procs w"
  shows "start_hint w' = start_hint w" "running w' = running w" "alive_with_hint w' = alive_with_hint w"
    "prune_dead_attachments w' = prune_dead_attachments w"
proof -
  show "start_hint w' = start_hint w" "running w' = running w"
    using assms by (simp_all add: fun_eq_iff start_hint_def running_def alive_def)
  show alive: "alive_with_hint w' = alive_with_hint w"
    using assms by (simp add: fun_eq_iff start_hint_def alive_def alive_with_hint_def identity_matches_def)
  show "prune_dead_attachments w' = prune_dead_attachments w"
    by (rule ext) (simp only: prune_dead_attachments_def alive)
qed

lemma procs_frame [simp]:
  "start_hint (w\<lparr>ww_faults := fs\<rparr>) = start_hint w" "running (w\<lparr>ww_faults := fs\<rparr>) = running w"
  "alive_with_hint (w\<lparr>ww_faults := fs\<rparr>) = alive_with_hint w"
  "prune_dead_attachments (w\<lparr>ww_faults := fs\<rparr>) = prune_dead_attachments w"
  by (rule procs_cong, simp)+

lemma calls_only_faults:
  "acquire_lock env w = (r, w1) \<Longrightarrow> \<exists>fs. w1 = w\<lparr>ww_faults := fs\<rparr>"
  "load_registry env w = (r', w1) \<Longrightarrow> (\<exists>fs. w1 = w\<lparr>ww_faults := fs\<rparr>) \<and> (\<forall>reg. r' = Inr reg \<longrightarrow> reg = ww_registry w)"
  by (auto simp: acquire_lock_def load_registry_def Let_def split: option.splits nat.splits)

text \<open>Reading the registry under its lock, before anything is done with it.\<close>

lemma read_registry_inv:
  assumes "follow_by (acquire_lock env) (and_then (load_registry env) f) w = (r, w1)"
  obtains (failed) e fs where "r = Inl e" "w1 = w\<lparr>ww_faults := fs\<rparr>"
  | (read) fs where "f (ww_registry w) (w\<lparr>ww_faults := fs\<rparr>) = (r, w1)"
proof -
  obtain r1 w2 where a: "acquire_lock env w = (r1, w2)" by (cases "acquire_lock env w")
  obtain r2 w3 where l: "load_registry env w2 = (r2, w3)" by (cases "load_registry env w2")
  obtain fs2 where w2: "w2 = w\<lparr>ww_faults := fs2\<rparr>" using calls_only_faults(1) [OF a] by blast
  obtain fs3 where w3: "w3 = w\<lparr>ww_faults := fs3\<rparr>" "\<forall>reg. r2 = Inr reg \<longrightarrow> reg = ww_registry w"
    using calls_only_faults(2) [OF l] w2 by auto
  show thesis
    using assms a l w2 w3 failed read
    by (cases r1; cases r2) (auto simp: follow_by_def and_then_def)
qed

lemma save_registry_inv:
  assumes "save_registry reg w = (r, w1)"
  shows "ww_procs w1 = ww_procs w" and "ww_spaces w1 = ww_spaces w"
    and "ww_registry w1 = (if isl r then ww_registry w else reg)"
  using assms
  by (auto simp: save_registry_def follow_by_def and_then_def sys_def change_def split: option.splits)

definition mounted :: "string \<Rightarrow> ws_world \<Rightarrow> bool" where
  "mounted i w = sp_mounted (space_of i w)"

lemma mounted_frame [simp]:
  "mounted i (w\<lparr>ww_faults := fs\<rparr>) = mounted i w"
  by (simp add: mounted_def)

lemma mount_for_entry_inv:
  assumes "mount_for_entry env e w = (r, w1)"
  shows "ww_registry w1 = ww_registry w" and "ww_procs w1 = ww_procs w"
    and "mounted (re_id e) w \<Longrightarrow> mounted (re_id e) w1"
    and "\<not> isl r \<Longrightarrow> uses_image (re_strategy e) \<Longrightarrow> mounted (re_id e) w1"
proof -
  have "quiet (mount_for_entry env e)"
    unfolding mount_for_entry_def Let_def by (cases "re_strategy e") (simp_all add: quiet_intros)
  from quietD [OF this assms] show "ww_registry w1 = ww_registry w" "ww_procs w1 = ww_procs w" by simp_all
  have "(mounted (re_id e) w \<longrightarrow> mounted (re_id e) w1) \<and>
      (\<not> isl r \<and> uses_image (re_strategy e) \<longrightarrow> mounted (re_id e) w1)"
    using assms
    by (cases "re_strategy e")
      (auto simp: mount_for_entry_def Let_def uses_image_def mounted_def wsio_defs sys_def is_mountpoint_def
        attach_bundle_def mount_ext4_image_def run_hdiutil_def run_tool_cmd_def set_mounted_def
        split: option.splits nat.splits if_splits prod.splits sum.splits)
  then show "mounted (re_id e) w \<Longrightarrow> mounted (re_id e) w1"
    "\<not> isl r \<Longrightarrow> uses_image (re_strategy e) \<Longrightarrow> mounted (re_id e) w1" by blast+
qed

text \<open>The attachment of a process in an entry.\<close>

fun recorded :: "ws_world \<Rightarrow> registry_entry \<Rightarrow> u32 \<Rightarrow> guard \<Rightarrow> bool" where
  "recorded w e p (Guard_Harness _ _ token) =
     (case re_attached e of
        Some a \<Rightarrow> at_pid a = p \<and> at_token a = token \<and> at_start_hint a = start_hint w p
      | None \<Rightarrow> False)"
| "recorded w e p (Guard_Shell _ _ p' token) =
     (p' = p \<and> list_ex (\<lambda>s. sa_pid s = p \<and> sa_token s = token \<and> sa_start_hint s = start_hint w p) (re_secondary e))"

fun guard_token :: "guard \<Rightarrow> string" where
  "guard_token (Guard_Harness _ _ t) = t"
| "guard_token (Guard_Shell _ _ _ t) = t"

lemma running_alive: "running w p \<Longrightarrow> alive_with_hint w p (start_hint w p)"
  by (simp add: running_def alive_with_hint_def identity_matches_def Let_def)

lemma recorded_live:
  assumes "recorded w e p g" and "running w p"
  shows "has_live_attachments (alive_with_hint w) e"
proof (cases g)
  case (Guard_Harness key k t)
  with assms show ?thesis by (auto simp: has_live_attachments_def running_alive split: option.splits)
next
  case (Guard_Shell key k q t)
  with assms(1) obtain s where "s \<in> set (re_secondary e)" "sa_pid s = p" "sa_start_hint s = start_hint w p"
    by (auto simp: list_ex_iff)
  then have "s \<in> set (filter (\<lambda>s. alive_with_hint w (sa_pid s) (sa_start_hint s)) (re_secondary e))"
    using running_alive [OF assms(2)] by simp
  then have "live_secondary_count (alive_with_hint w) e > 0"
    unfolding live_secondary_count_def by (rule length_pos_if_in_set)
  then show ?thesis by (simp add: has_live_attachments_def)
qed

lemma recorded_pruned: "recorded w e p g \<Longrightarrow> running w p \<Longrightarrow> recorded w (fst (prune_dead_attachments w e)) p g"
  by (cases g) (auto simp: prune_dead_attachments_def Let_def running_alive list_ex_iff split: option.splits prod.splits)

lemma recorded_drop:
  assumes "recorded w e p g" and "guard_token g \<noteq> guard_token g'"
  shows "recorded w (drop_attachment g' e) p g"
proof (cases g')
  case (Guard_Harness key k t)
  with assms show ?thesis by (cases g) (auto simp: drop_attachment_def split: option.splits)
next
  case (Guard_Shell key k q t)
  show ?thesis
  proof (cases "position (\<lambda>s. sa_pid s = q \<and> sa_token s = t) (re_secondary e)")
    case None
    with assms Guard_Shell show ?thesis by (simp add: drop_attachment_def)
  next
    case (Some n)
    then have n: "n < length (re_secondary e)" "sa_token (re_secondary e ! n) = t" by (simp_all add: position_Some_iff)
    have "x \<in> set (take n (re_secondary e) @ drop (Suc n) (re_secondary e))"
      if "x \<in> set (re_secondary e)" "sa_token x \<noteq> t" for x
      using that n id_take_nth_drop [OF n(1)] by (metis Un_iff set_append set_ConsD)
    with assms Guard_Shell Some show ?thesis
      by (cases g) (auto simp: drop_attachment_def list_ex_iff)
  qed
qed

lemma recorded_cong: "ww_procs w' = ww_procs w \<Longrightarrow> recorded w' = recorded w"
proof (intro ext)
  fix e p g
  assume "ww_procs w' = ww_procs w"
  from procs_cong(1) [OF this] show "recorded w' e p g = recorded w e p g"
    by (cases g; cases "re_attached e") simp_all
qed

lemma entry_fields [simp]:
  "re_id (fst (prune_dead_attachments w e)) = re_id e" "re_strategy (fst (prune_dead_attachments w e)) = re_strategy e"
  "re_locked (fst (prune_dead_attachments w e)) = re_locked e"
  "re_unlocking (fst (prune_dead_attachments w e)) = re_unlocking e"
  "re_id (drop_attachment g e) = re_id e" "re_strategy (drop_attachment g e) = re_strategy e"
  "re_locked (drop_attachment g e) = re_locked e" "re_unlocking (drop_attachment g e) = re_unlocking e"
  by (auto simp: prune_dead_attachments_def drop_attachment_def Let_def split: option.splits prod.splits guard.splits)

text \<open>What an attachment does, of either kind.\<close>

definition attach_effect :: "ws_env \<Rightarrow> u32 \<Rightarrow> string \<Rightarrow> ws_world \<Rightarrow> (workspace_error + string \<times> guard) \<times> ws_world \<Rightarrow> bool" where
  "attach_effect env p token w rw =
     (ww_procs (snd rw) = ww_procs w \<and>
      (case fst rw of
         Inl _ \<Rightarrow> ww_registry (snd rw) = ww_registry w \<and>
           (\<forall>e. map_of (ww_registry w) (we_canon env) = Some e \<longrightarrow> mounted (re_id e) w \<longrightarrow> mounted (re_id e) (snd rw))
       | Inr (_, g) \<Rightarrow>
           (\<exists>e e'. map_of (ww_registry w) (we_canon env) = Some e \<and> re_locked e \<and> \<not> re_unlocking e \<and>
              map_of (ww_registry (snd rw)) (we_canon env) = Some e' \<and>
              re_id e' = re_id e \<and> re_strategy e' = re_strategy e \<and> re_locked e' \<and> \<not> re_unlocking e' \<and>
              (\<forall>q g'. recorded w e q g' \<longrightarrow> running w q \<longrightarrow> recorded w e' q g') \<and> recorded w e' p g \<and>
              guard_key g = we_canon env \<and> guard_strategy g = re_strategy e \<and> guard_token g = token \<and>
              (uses_image (re_strategy e) \<longrightarrow> mounted (re_id e) (snd rw)))))"

lemma open_entry_inv:
  assumes "open_entry env key w = (r, w1)"
  obtains (failed) x fs where "r = Inl x" "w1 = w\<lparr>ww_faults := fs\<rparr>"
  | (opened) e fs where "r = Inr (ww_registry w, fst (prune_dead_attachments w e))" "w1 = w\<lparr>ww_faults := fs\<rparr>"
      "map_of (ww_registry w) key = Some e" "re_locked e" "\<not> re_unlocking e"
  using assms [unfolded open_entry_def]
proof (cases rule: read_registry_inv)
  case (read fs)
  then show thesis using failed opened
    by (auto simp: and_then_def get_world_def ret_def raise_def split: option.splits if_splits)
qed (use failed in blast)

lemma saved_attachment:
  assumes "save_registry (bt_insert key e' (ww_registry w0)) w = (r, w1)"
  shows "ww_procs w1 = ww_procs w \<and> (\<forall>i. mounted i w1 = mounted i w) \<and>
    (if isl r then ww_registry w1 = ww_registry w else map_of (ww_registry w1) key = Some e')"
  using save_registry_inv [OF assms] by (simp add: mounted_def space_of_def map_of_bt_insert)

lemma attach_does: "attach_effect env p token w (attach (env\<lparr>we_pid := p\<rparr>) harness_id token w)"
proof -
  let ?env = "env\<lparr>we_pid := p\<rparr>" and ?key = "we_canon env"
  obtain r w1 where at: "attach ?env harness_id token w = (r, w1)" by (cases "attach ?env harness_id token w")
  show ?thesis
  proof (cases "utf8_valid ?key")
    case False
    with at show ?thesis by (auto simp: attach_def path_to_string_def wsio_defs attach_effect_def)
  next
    case True
    obtain q w2 where op: "open_entry ?env ?key w = (q, w2)" by (cases "open_entry ?env ?key w")
    from op show ?thesis
    proof (cases rule: open_entry_inv)
      case (failed x fs)
      with at op True show ?thesis by (auto simp: attach_def path_to_string_def wsio_defs attach_effect_def)
    next
      case (opened e fs)
      let ?e = "fst (prune_dead_attachments w e)"
      show ?thesis
      proof (cases "re_attached ?e")
        case (Some a)
        with at op opened True show ?thesis by (auto simp: attach_def path_to_string_def wsio_defs attach_effect_def)
      next
        case None
        obtain m w3 where mt: "mount_for_entry ?env ?e w2 = (m, w3)" by (cases "mount_for_entry ?env ?e w2")
        note mt' = mount_for_entry_inv [OF mt]
        show ?thesis
        proof (cases m)
          case (Inl x)
          with at op opened None mt mt' True show ?thesis
            by (auto simp: attach_def path_to_string_def wsio_defs attach_effect_def)
        next
          case (Inr path)
          let ?a = "\<lparr>at_harness_id = harness_id, at_pid = p, at_start_hint = start_hint w3 p, at_token = token\<rparr>"
          let ?e' = "?e\<lparr>re_attached := Some ?a\<rparr>"
          obtain v w4 where sv: "save_registry (bt_insert ?key ?e' (ww_registry w)) w3 = (v, w4)"
            by (cases "save_registry (bt_insert ?key ?e' (ww_registry w)) w3")
          note sv' = saved_attachment [OF sv]
          have procs: "ww_procs w3 = ww_procs w" using mt'(2) opened(2) by simp
          have at': "r = (case v of Inl x \<Rightarrow> Inl x | Inr _ \<Rightarrow> Inr (path, Guard_Harness ?key (re_strategy e) token))"
            "w1 = w4"
            using at op opened None mt Inr sv True
            by (auto simp: attach_def path_to_string_def wsio_defs split: sum.splits)
          have keeps: "recorded w ?e' q g" if "recorded w e q g" "running w q" for q g
            using recorded_pruned [OF that] None by (cases g) auto
          show ?thesis
            unfolding at at'
            using sv' procs mt' opened Inr keeps procs_cong(1) [OF procs]
            by (cases v) (auto simp: attach_effect_def)
        qed
      qed
    qed
  qed
qed

lemma attach_shared_does: "attach_effect env p token w (attach_shared (env\<lparr>we_pid := p\<rparr>) token w)"
proof -
  let ?env = "env\<lparr>we_pid := p\<rparr>" and ?key = "we_canon env"
  obtain r w1 where at: "attach_shared ?env token w = (r, w1)" by (cases "attach_shared ?env token w")
  show ?thesis
  proof (cases "utf8_valid ?key")
    case False
    with at show ?thesis by (auto simp: attach_shared_def path_to_string_def wsio_defs attach_effect_def)
  next
    case True
    obtain q w2 where op: "open_entry ?env ?key w = (q, w2)" by (cases "open_entry ?env ?key w")
    from op show ?thesis
    proof (cases rule: open_entry_inv)
      case (failed x fs)
      with at op True show ?thesis by (auto simp: attach_shared_def path_to_string_def wsio_defs attach_effect_def)
    next
      case (opened e fs)
      let ?e = "fst (prune_dead_attachments w e)"
      obtain m w3 where mt: "mount_for_entry ?env ?e w2 = (m, w3)" by (cases "mount_for_entry ?env ?e w2")
      note mt' = mount_for_entry_inv [OF mt]
      show ?thesis
      proof (cases m)
        case (Inl x)
        with at op opened mt mt' True show ?thesis
          by (auto simp: attach_shared_def path_to_string_def wsio_defs attach_effect_def)
      next
        case (Inr path)
        let ?a = "\<lparr>sa_purpose = ''shell'', sa_pid = p, sa_start_hint = start_hint w3 p, sa_token = token\<rparr>"
        let ?e' = "?e\<lparr>re_secondary := re_secondary ?e @ [?a]\<rparr>"
        obtain v w4 where sv: "save_registry (bt_insert ?key ?e' (ww_registry w)) w3 = (v, w4)"
          by (cases "save_registry (bt_insert ?key ?e' (ww_registry w)) w3")
        note sv' = saved_attachment [OF sv]
        have procs: "ww_procs w3 = ww_procs w" using mt'(2) opened(2) by simp
        have at': "r = (case v of Inl x \<Rightarrow> Inl x | Inr _ \<Rightarrow> Inr (path, Guard_Shell ?key (re_strategy e) p token))"
          "w1 = w4"
          using at op opened mt Inr sv True
          by (auto simp: attach_shared_def path_to_string_def wsio_defs split: sum.splits)
        have keeps: "recorded w ?e' q g" if "recorded w e q g" "running w q" for q g
          using recorded_pruned [OF that] by (cases g) auto
        show ?thesis
          unfolding at at'
          using sv' procs mt' opened Inr keeps procs_cong(1) [OF procs]
          by (cases v) (auto simp: attach_effect_def)
      qed
    qed
  qed
qed

text \<open>One attempt of a guard: the mount goes only when nobody alive is left in the entry.\<close>

lemma detach_does:
  assumes "detach_once env g w = (r, w1)" and "map_of (ww_registry w) (guard_key g) = Some e"
  shows "ww_procs w1 = ww_procs w"
    and "map_of (ww_registry w1) (guard_key g) = Some e \<or> map_of (ww_registry w1) (guard_key g) = Some (drop_attachment g e)"
    and "mounted i w \<Longrightarrow> has_live_attachments (alive_with_hint w) (drop_attachment g e) \<Longrightarrow> mounted i w1"
proof -
  let ?e = "drop_attachment g e"
  have "ww_procs w1 = ww_procs w \<and>
    (map_of (ww_registry w1) (guard_key g) = Some e \<or> map_of (ww_registry w1) (guard_key g) = Some ?e) \<and>
    (mounted i w \<longrightarrow> has_live_attachments (alive_with_hint w) ?e \<longrightarrow> mounted i w1)"
    using assms(1) [unfolded detach_once_def]
  proof (cases rule: read_registry_inv)
    case (failed x fs)
    then show ?thesis using assms(2) by simp
  next
    case (read fs)
    let ?w = "w\<lparr>ww_faults := fs\<rparr>"
    obtain v w2 where sv: "save_registry (bt_insert (guard_key g) ?e (ww_registry w)) ?w = (v, w2)"
      by (cases "save_registry (bt_insert (guard_key g) ?e (ww_registry w)) ?w")
    note sv' = saved_attachment [OF sv]
    show ?thesis
    proof (cases v)
      case (Inl x)
      with read sv sv' assms(2) show ?thesis by (auto simp: wsio_defs Let_def)
    next
      case (Inr u)
      obtain q w3 where rel: "release_mount env (guard_strategy g) (re_id ?e) w2 = (q, w3)"
        by (cases "release_mount env (guard_strategy g) (re_id ?e) w2")
      have rel': "ww_registry w3 = ww_registry w2" "ww_procs w3 = ww_procs w2"
        using quietD [OF quiet_mounts(5) rel] by simp_all
      show ?thesis
        using read sv sv' Inr assms(2) rel rel'
        by (cases "uses_image (guard_strategy g) \<and> \<not> has_live_attachments (alive_with_hint w) ?e")
          (auto simp: wsio_defs Let_def)
    qed
  qed
  then show "ww_procs w1 = ww_procs w"
    "map_of (ww_registry w1) (guard_key g) = Some e \<or> map_of (ww_registry w1) (guard_key g) = Some (drop_attachment g e)"
    "mounted i w \<Longrightarrow> has_live_attachments (alive_with_hint w) (drop_attachment g e) \<Longrightarrow> mounted i w1" by blast+
qed

lemma detach_no_entry:
  assumes "detach_once env g w = (r, w1)" and "map_of (ww_registry w) (guard_key g) = None"
  shows "ww_procs w1 = ww_procs w" and "ww_registry w1 = ww_registry w"
proof -
  have "ww_procs w1 = ww_procs w \<and> ww_registry w1 = ww_registry w"
    using assms(1) [unfolded detach_once_def]
    by (cases rule: read_registry_inv) (use assms(2) in \<open>auto simp: wsio_defs\<close>)
  then show "ww_procs w1 = ww_procs w" "ww_registry w1 = ww_registry w" by simp_all
qed

lemma status_does:
  assumes "status env w = (r, w1)"
  shows "ww_procs w1 = ww_procs w" and "mounted i w1 = mounted i w"
    and "map_of (ww_registry w1) (we_canon env) = map_of (ww_registry w) (we_canon env) \<or>
      (\<exists>e. map_of (ww_registry w) (we_canon env) = Some e \<and>
         map_of (ww_registry w1) (we_canon env) = Some (fst (prune_dead_attachments w e)))"
proof -
  let ?key = "we_canon env"
  have "ww_procs w1 = ww_procs w \<and> mounted i w1 = mounted i w \<and>
    (map_of (ww_registry w1) ?key = map_of (ww_registry w) ?key \<or>
      (\<exists>e. map_of (ww_registry w) ?key = Some e \<and> map_of (ww_registry w1) ?key = Some (fst (prune_dead_attachments w e))))"
  proof (cases "utf8_valid ?key")
    case False
    with assms show ?thesis by (auto simp: status_def path_to_string_def wsio_defs)
  next
    case True
    with assms have st: "follow_by (acquire_lock env) (and_then (load_registry env) (\<lambda>reg.
       case map_of reg ?key of
         None \<Rightarrow> ret \<lparr>ws_path = we_canon env, ws_locked = False, ws_attached_harness = None, ws_live_shells = 0,
                       ws_warnings = []\<rparr>
       | Some e0 \<Rightarrow>
           and_then get_world (\<lambda>w.
             let (e, pruned) = prune_dead_attachments w e0 in
             follow_by (if pruned then save_registry (bt_insert ?key e reg) else ret ())
               (ret \<lparr>ws_path = we_canon env, ws_locked = re_locked e,
                     ws_attached_harness = map_option at_harness_id (re_attached e),
                     ws_live_shells = length (re_secondary e),
                     ws_warnings = strategy_warning (re_strategy e) # re_warnings e\<rparr>)))) w = (r, w1)"
      by (simp add: status_def path_to_string_def and_then_def from_result_def)
    then show ?thesis
    proof (cases rule: read_registry_inv)
      case (read fs)
      show ?thesis
      proof (cases "map_of (ww_registry w) ?key")
        case (Some e)
        obtain e' pruned where e': "prune_dead_attachments w e = (e', pruned)" by (cases "prune_dead_attachments w e")
        obtain v w2 where sv: "save_registry (bt_insert ?key e' (ww_registry w)) (w\<lparr>ww_faults := fs\<rparr>) = (v, w2)"
          by (cases "save_registry (bt_insert ?key e' (ww_registry w)) (w\<lparr>ww_faults := fs\<rparr>)")
        note sv' = saved_attachment [OF sv]
        have w1: "w1 = (if pruned then w2 else w\<lparr>ww_faults := fs\<rparr>)"
          using read Some e' sv by (cases pruned; cases v) (simp_all add: wsio_defs Let_def)
        show ?thesis
        proof (cases "pruned \<and> \<not> isl v")
          case True
          then show ?thesis unfolding w1 using sv' e' Some by simp
        next
          case False
          then have "ww_registry w1 = ww_registry w" "ww_procs w1 = ww_procs w" "mounted i w1 = mounted i w"
            using sv' w1 by (simp_all split: if_splits)
          then show ?thesis by simp
        qed
      qed (use read in \<open>auto simp: wsio_defs\<close>)
    qed auto
  qed
  then show "ww_procs w1 = ww_procs w" "mounted i w1 = mounted i w"
    "map_of (ww_registry w1) (we_canon env) = map_of (ww_registry w) (we_canon env) \<or>
      (\<exists>e. map_of (ww_registry w) (we_canon env) = Some e \<and>
         map_of (ww_registry w1) (we_canon env) = Some (fst (prune_dead_attachments w e)))" by blast+
qed

lemma mark_does:
  assumes "mark_unlocking env key w = (r, w1)"
  shows "ww_procs w1 = ww_procs w" and "mounted i w1 = mounted i w"
    and "case r of
      Inl _ \<Rightarrow> map_of (ww_registry w1) key = map_of (ww_registry w) key
    | Inr e' \<Rightarrow> \<exists>e. map_of (ww_registry w) key = Some e \<and> e' = e\<lparr>re_unlocking := True\<rparr> \<and>
        map_of (ww_registry w1) key = Some e'"
proof -
  have "ww_procs w1 = ww_procs w \<and> mounted i w1 = mounted i w \<and>
    (case r of
      Inl _ \<Rightarrow> map_of (ww_registry w1) key = map_of (ww_registry w) key
    | Inr e' \<Rightarrow> \<exists>e. map_of (ww_registry w) key = Some e \<and> e' = e\<lparr>re_unlocking := True\<rparr> \<and>
        map_of (ww_registry w1) key = Some e')"
    using assms [unfolded mark_unlocking_def]
  proof (cases rule: read_registry_inv)
    case (read fs)
    show ?thesis
    proof (cases "map_of (ww_registry w) key")
      case (Some e)
      let ?e = "e\<lparr>re_unlocking := True\<rparr>"
      obtain v w2 where sv: "save_registry (bt_insert key ?e (ww_registry w)) (w\<lparr>ww_faults := fs\<rparr>) = (v, w2)"
        by (cases "save_registry (bt_insert key ?e (ww_registry w)) (w\<lparr>ww_faults := fs\<rparr>)")
      show ?thesis
        using read Some sv saved_attachment [OF sv] by (cases v) (auto simp: wsio_defs Let_def)
    qed (use read in \<open>auto simp: wsio_defs\<close>)
  qed auto
  then show "ww_procs w1 = ww_procs w" "mounted i w1 = mounted i w"
    "case r of
      Inl _ \<Rightarrow> map_of (ww_registry w1) key = map_of (ww_registry w) key
    | Inr e' \<Rightarrow> \<exists>e. map_of (ww_registry w) key = Some e \<and> e' = e\<lparr>re_unlocking := True\<rparr> \<and>
        map_of (ww_registry w1) key = Some e'" by blast+
qed

section \<open>The invariant\<close>

definition entry_of :: "ws_env \<Rightarrow> ws_world \<Rightarrow> registry_entry option" where
  "entry_of env w = map_of (ww_registry w) (we_canon env)"

definition holder_ok :: "ws_env \<Rightarrow> container_strategy \<Rightarrow> ws_world \<Rightarrow> u32 \<Rightarrow> guard \<Rightarrow> bool" where
  "holder_ok env k w p g =
     (running w p \<and> p \<noteq> 1 \<and> guard_key g = we_canon env \<and> guard_strategy g = k \<and>
      (case entry_of env w of Some e \<Rightarrow> recorded w e p g | None \<Rightarrow> False))"

text \<open>An unlock past its first step keeps everybody out; past its second there is nobody left.\<close>

definition stage_ok ::
  "string \<Rightarrow> container_strategy \<Rightarrow> ws_world \<Rightarrow> (u32 \<times> guard) list \<Rightarrow> u32 \<Rightarrow> unlock_stage \<Rightarrow> bool" where
  "stage_ok i k w holders u st =
     (case st of
        U_Marked e \<Rightarrow>
          re_id e = i \<and> re_strategy e = k \<and>
          (\<forall>(p, g)\<in>set holders. p \<noteq> u \<and> (p, start_hint w p) \<in> set (unlock_targets e))
      | U_Working e _ \<Rightarrow> re_id e = i \<and> holders = [])"

definition tokens_of :: "at_sys \<Rightarrow> string list" where
  "tokens_of s = map (\<lambda>h. guard_token (snd h)) (as_holders s) @ map (\<lambda>l. guard_token (fst l)) (as_leaving s)"

definition at_ok :: "ws_env \<Rightarrow> string \<Rightarrow> container_strategy \<Rightarrow> at_sys \<Rightarrow> bool" where
  "at_ok env i k s =
     ((\<forall>e. entry_of env (as_world s) = Some e \<longrightarrow>
         re_id e = i \<and> re_strategy e = k \<and> (as_unlocks s \<noteq> [] \<longrightarrow> re_unlocking e)) \<and>
      (\<forall>(p, g)\<in>set (as_holders s). holder_ok env k (as_world s) p g) \<and>
      (as_holders s \<noteq> [] \<longrightarrow> uses_image k \<longrightarrow> mounted i (as_world s)) \<and>
      distinct (tokens_of s) \<and> set (tokens_of s) \<subseteq> set (as_tokens s) \<and>
      (\<forall>(g, _)\<in>set (as_leaving s). guard_key g = we_canon env) \<and>
      (\<forall>(u, st)\<in>set (as_unlocks s). stage_ok i k (as_world s) (as_holders s) u st))"

lemma at_ok_parts:
  assumes "at_ok env i k s"
  shows "entry_of env (as_world s) = Some e \<Longrightarrow> re_id e = i \<and> re_strategy e = k \<and> (as_unlocks s \<noteq> [] \<longrightarrow> re_unlocking e)"
    and "(p, g) \<in> set (as_holders s) \<Longrightarrow> holder_ok env k (as_world s) p g"
    and "as_holders s \<noteq> [] \<Longrightarrow> uses_image k \<Longrightarrow> mounted i (as_world s)"
    and "distinct (tokens_of s)" and "set (tokens_of s) \<subseteq> set (as_tokens s)"
    and "(g, n) \<in> set (as_leaving s) \<Longrightarrow> guard_key g = we_canon env"
    and "(u, st) \<in> set (as_unlocks s) \<Longrightarrow> stage_ok i k (as_world s) (as_holders s) u st"
  using assms by (auto simp: at_ok_def)

lemma stage_cong:
  assumes "ww_procs w' = ww_procs w"
  shows "stage_ok i k w' hs u st = stage_ok i k w hs u st"
  using procs_cong(1) [OF assms] by (cases st) (simp_all add: stage_ok_def)

text \<open>The world changes, the lists do not.\<close>

lemma at_ok_world:
  assumes ok: "at_ok env i k s" and procs: "ww_procs w' = ww_procs (as_world s)"
    and entries: "\<And>e'. entry_of env w' = Some e' \<Longrightarrow>
      \<exists>e. entry_of env (as_world s) = Some e \<and> re_id e' = re_id e \<and> re_strategy e' = re_strategy e \<and>
        (re_unlocking e \<longrightarrow> re_unlocking e')"
    and records: "\<And>p g e. (p, g) \<in> set (as_holders s) \<Longrightarrow> entry_of env (as_world s) = Some e \<Longrightarrow>
      recorded (as_world s) e p g \<Longrightarrow> running (as_world s) p \<Longrightarrow>
      \<exists>e'. entry_of env w' = Some e' \<and> recorded (as_world s) e' p g"
    and mount: "as_holders s \<noteq> [] \<Longrightarrow> uses_image k \<Longrightarrow> mounted i (as_world s) \<Longrightarrow> mounted i w'"
  shows "at_ok env i k (s\<lparr>as_world := w'\<rparr>)"
  unfolding at_ok_def
proof (intro conjI)
  note same = procs_cong [OF procs] recorded_cong [OF procs]
  show "\<forall>e. entry_of env (as_world (s\<lparr>as_world := w'\<rparr>)) = Some e \<longrightarrow>
      re_id e = i \<and> re_strategy e = k \<and> (as_unlocks (s\<lparr>as_world := w'\<rparr>) \<noteq> [] \<longrightarrow> re_unlocking e)"
    using entries at_ok_parts(1) [OF ok] by fastforce
  show "\<forall>(p, g)\<in>set (as_holders (s\<lparr>as_world := w'\<rparr>)). holder_ok env k (as_world (s\<lparr>as_world := w'\<rparr>)) p g"
  proof clarify
    fix p g assume "(p, g) \<in> set (as_holders (s\<lparr>as_world := w'\<rparr>))"
    then have h: "(p, g) \<in> set (as_holders s)" by simp
    with at_ok_parts(2) [OF ok] records [OF h] show "holder_ok env k (as_world (s\<lparr>as_world := w'\<rparr>)) p g"
      by (fastforce simp: holder_ok_def same split: option.splits)
  qed
  show "as_holders (s\<lparr>as_world := w'\<rparr>) \<noteq> [] \<longrightarrow> uses_image k \<longrightarrow> mounted i (as_world (s\<lparr>as_world := w'\<rparr>))"
    using mount at_ok_parts(3) [OF ok] by simp
  show "\<forall>(u, st)\<in>set (as_unlocks (s\<lparr>as_world := w'\<rparr>)).
      stage_ok i k (as_world (s\<lparr>as_world := w'\<rparr>)) (as_holders (s\<lparr>as_world := w'\<rparr>)) u st"
    using at_ok_parts(7) [OF ok] by (auto simp: stage_cong [OF procs])
qed (use at_ok_parts(4-6) [OF ok] in \<open>auto simp: tokens_of_def\<close>)

lemma at_ok_same_entry:
  assumes ok: "at_ok env i k s" and procs: "ww_procs w' = ww_procs (as_world s)"
    and e: "entry_of env w' = entry_of env (as_world s)" and m: "mounted i (as_world s) \<Longrightarrow> mounted i w'"
  shows "at_ok env i k (s\<lparr>as_world := w'\<rparr>)"
proof (rule at_ok_world [OF ok procs])
  show "\<exists>e. entry_of env (as_world s) = Some e \<and> re_id e' = re_id e \<and> re_strategy e' = re_strategy e \<and>
      (re_unlocking e \<longrightarrow> re_unlocking e')" if "entry_of env w' = Some e'" for e'
    using that e by (intro exI [of _ e']) simp
qed (use e m in auto)

text \<open>Guards and unlocks that leave the lists.\<close>

lemma at_ok_lists:
  assumes "at_ok env i k s" and "set hs \<subseteq> set (as_holders s)" and "set us \<subseteq> set (as_unlocks s)"
    and "distinct (map (\<lambda>h. guard_token (snd h)) hs @ map (\<lambda>l. guard_token (fst l)) ls)"
    and "fst ` set ls \<subseteq> snd ` set (as_holders s) \<union> fst ` set (as_leaving s)"
  shows "at_ok env i k (s\<lparr>as_holders := hs, as_leaving := ls, as_unlocks := us\<rparr>)"
  unfolding at_ok_def
proof (intro conjI)
  let ?s = "s\<lparr>as_holders := hs, as_leaving := ls, as_unlocks := us\<rparr>"
  show "\<forall>e. entry_of env (as_world ?s) = Some e \<longrightarrow> re_id e = i \<and> re_strategy e = k \<and> (as_unlocks ?s \<noteq> [] \<longrightarrow> re_unlocking e)"
    using at_ok_parts(1) [OF assms(1)] assms(3) by auto
  show "\<forall>(p, g)\<in>set (as_holders ?s). holder_ok env k (as_world ?s) p g"
    using at_ok_parts(2) [OF assms(1)] assms(2) by auto
  show "as_holders ?s \<noteq> [] \<longrightarrow> uses_image k \<longrightarrow> mounted i (as_world ?s)"
    using at_ok_parts(3) [OF assms(1)] assms(2) by (cases "as_holders s = []") auto
  show "set (tokens_of ?s) \<subseteq> set (as_tokens ?s)"
  proof
    fix t assume "t \<in> set (tokens_of ?s)"
    then have "t \<in> guard_token ` (snd ` set hs \<union> fst ` set ls)" by (auto simp: tokens_of_def)
    then have "t \<in> set (tokens_of s)" using assms(2,5) by (auto simp: tokens_of_def image_iff) force+
    then show "t \<in> set (as_tokens ?s)" using at_ok_parts(5) [OF assms(1)] by auto
  qed
  show "\<forall>(g, _)\<in>set (as_leaving ?s). guard_key g = we_canon env"
  proof clarify
    fix g n assume "(g, n) \<in> set (as_leaving ?s)"
    then have "g \<in> snd ` set (as_holders s) \<union> fst ` set (as_leaving s)" using assms(5) by force
    then show "guard_key g = we_canon env"
      using at_ok_parts(2,6) [OF assms(1)] by (auto simp: holder_ok_def)
  qed
  show "\<forall>(u, st)\<in>set (as_unlocks ?s). stage_ok i k (as_world ?s) (as_holders ?s) u st"
    using at_ok_parts(7) [OF assms(1)] assms(2,3) by (fastforce simp: stage_ok_def split: unlock_stage.splits)
qed (use assms(4) in \<open>simp add: tokens_of_def\<close>)

text \<open>Processes come and go, the holders stay.\<close>

lemma at_ok_procs:
  assumes ok: "at_ok env i k s" and "ww_registry w' = ww_registry (as_world s)" and "ww_spaces w' = ww_spaces (as_world s)"
    and hold: "\<And>p g. (p, g) \<in> set (as_holders s) \<Longrightarrow> running w' p \<and> start_hint w' p = start_hint (as_world s) p"
  shows "at_ok env i k (s\<lparr>as_world := w'\<rparr>)"
proof -
  have e: "entry_of env w' = entry_of env (as_world s)" and m: "mounted i w' = mounted i (as_world s)"
    using assms(2,3) by (simp_all add: entry_of_def mounted_def space_of_def)
  have r: "recorded w' e p g = recorded (as_world s) e p g" if "(p, g) \<in> set (as_holders s)" for e p g
    using hold [OF that] by (cases g; cases "re_attached e") simp_all
  have "holder_ok env k w' p g" if "(p, g) \<in> set (as_holders s)" for p g
    using at_ok_parts(2) [OF ok that] hold [OF that] r [OF that]
    by (auto simp: holder_ok_def e split: option.splits)
  moreover have "stage_ok i k w' (as_holders s) u st" if "(u, st) \<in> set (as_unlocks s)" for u st
    using at_ok_parts(7) [OF ok that] hold by (cases st) (auto simp: stage_ok_def)
  ultimately show ?thesis
    using ok unfolding at_ok_def by (auto simp: e m tokens_of_def)
qed

lemma at_ok_add:
  assumes ok: "at_ok env i k s" and "as_unlocks s = []" and "holder_ok env k (as_world s) p g"
    and "guard_token g \<notin> set (as_tokens s)" and "uses_image k \<Longrightarrow> mounted i (as_world s)"
  shows "at_ok env i k (s\<lparr>as_tokens := guard_token g # as_tokens s, as_holders := as_holders s @ [(p, g)]\<rparr>)"
proof -
  have "guard_token g \<notin> set (tokens_of s)" using at_ok_parts(5) [OF ok] assms(4) by blast
  then show ?thesis
    using ok assms(2,3,5) unfolding at_ok_def by (auto simp: tokens_of_def)
qed

lemma at_ok_tokens: "at_ok env i k s \<Longrightarrow> at_ok env i k (s\<lparr>as_tokens := t # as_tokens s\<rparr>)"
  by (auto simp: at_ok_def tokens_of_def)

lemma at_ok_attached:
  assumes ok: "at_ok env i k s" and may: "may_attach p token s"
    and eff: "attach_effect env p token (with_faults fs s) rw"
  shows "at_ok env i k (attached p token rw s)"
proof -
  obtain r w' where rw: "rw = (r, w')" by (cases rw)
  let ?w = "as_world s"
  have procs: "ww_procs w' = ww_procs ?w" using eff rw by (simp add: attach_effect_def with_faults_def)
  have some: "\<exists>e. entry_of env ?w = Some e \<and> re_id e = i" if "as_holders s \<noteq> []"
    using that at_ok_parts(1,2) [OF ok] by (cases "as_holders s") (fastforce simp: holder_ok_def split: option.splits)+
  have rec_fs: "recorded (?w\<lparr>ww_faults := fs\<rparr>) = recorded ?w" by (rule recorded_cong) simp
  show ?thesis
  proof (cases r)
    case (Inl x)
    have e: "entry_of env w' = entry_of env ?w"
      and m: "\<And>e. entry_of env ?w = Some e \<Longrightarrow> mounted (re_id e) ?w \<Longrightarrow> mounted (re_id e) w'"
      using eff rw Inl by (auto simp: attach_effect_def with_faults_def entry_of_def)
    have "at_ok env i k (s\<lparr>as_world := w'\<rparr>)"
      by (rule at_ok_world [OF ok procs]) (use e m some in auto)
    from at_ok_tokens [OF this, of token] show ?thesis using rw Inl by (simp add: attached_def)
  next
    case (Inr x)
    obtain path g where x: "x = (path, g)" by (cases x)
    obtain e e' where e: "entry_of env ?w = Some e" "\<not> re_unlocking e" "entry_of env w' = Some e'"
      "re_id e' = re_id e" "re_strategy e' = re_strategy e" "\<not> re_unlocking e'"
      "\<And>q g'. recorded ?w e q g' \<Longrightarrow> running ?w q \<Longrightarrow> recorded ?w e' q g'" "recorded ?w e' p g"
      "guard_key g = we_canon env" "guard_strategy g = re_strategy e" "guard_token g = token"
      "uses_image (re_strategy e) \<Longrightarrow> mounted (re_id e) w'"
      using eff rw Inr x by (auto simp: attach_effect_def with_faults_def entry_of_def rec_fs)
    have ik: "re_id e = i" "re_strategy e = k" "as_unlocks s = []" using at_ok_parts(1) [OF ok e(1)] e(2) by auto
    have "at_ok env i k (s\<lparr>as_world := w'\<rparr>)"
      by (rule at_ok_world [OF ok procs]) (use e ik in auto)
    moreover have "holder_ok env k w' p g"
      using may e ik procs_cong(2) [OF procs] recorded_cong [OF procs] by (simp add: holder_ok_def may_attach_def)
    moreover have "guard_token g \<notin> set (as_tokens s)" using may e(11) by (simp add: may_attach_def)
    ultimately have "at_ok env i k (s\<lparr>as_world := w', as_tokens := guard_token g # as_tokens s,
        as_holders := as_holders s @ [(p, g)]\<rparr>)"
      using at_ok_add [of env i k "s\<lparr>as_world := w'\<rparr>" p g] ik e(12) by simp
    then show ?thesis using rw Inr x e(11) by (simp add: attached_def)
  qed
qed

lemma recorded_target: "recorded w e p g \<Longrightarrow> (p, start_hint w p) \<in> set (unlock_targets e)"
proof (cases g)
  case (Guard_Shell key k q t)
  assume "recorded w e p g"
  with Guard_Shell obtain s where s: "s \<in> set (re_secondary e)" "sa_pid s = p" "sa_start_hint s = start_hint w p"
    by (auto simp: list_ex_iff)
  then have "(p, start_hint w p) \<in> (\<lambda>a. (sa_pid a, sa_start_hint a)) ` set (re_secondary e)"
    by (intro image_eqI [of _ _ s]) simp_all
  then show ?thesis by (simp add: unlock_targets_def)
qed (auto simp: unlock_targets_def split: option.splits)

lemma remove_at_mset: "n < length xs \<Longrightarrow> set (remove_at n xs) \<subseteq> set xs \<and> xs ! n \<in> set xs"
  by (auto simp: remove_at_def dest: in_set_takeD in_set_dropD)

lemma remove_at_distinct:
  assumes "n < length xs" and "distinct (map f xs @ ys)"
  shows "distinct (map f (remove_at n xs) @ f (xs ! n) # ys)" "distinct (map f (remove_at n xs) @ ys)"
proof -
  have "map f xs = map f (take n xs) @ f (xs ! n) # map f (drop (Suc n) xs)"
    using id_take_nth_drop [OF assms(1)] by (metis list.simps(9) map_append)
  with assms(2) show "distinct (map f (remove_at n xs) @ f (xs ! n) # ys)" "distinct (map f (remove_at n xs) @ ys)"
    by (auto simp: remove_at_def)
qed

lemma distinct_sub: "distinct (xs @ ys) \<Longrightarrow> n < length ys \<Longrightarrow> distinct (xs @ remove_at n ys)"
  by (auto simp: remove_at_def distinct_append dest: in_set_takeD in_set_dropD set_take_disj_set_drop_if_distinct
      [of _ n "Suc n"])

lemma at_ok_detach:
  assumes ok: "at_ok env i k s" and g: "(g, n) \<in> set (as_leaving s)"
    and d: "detach_once env g (with_faults fs s) = (r, w')"
  shows "at_ok env i k (s\<lparr>as_world := w'\<rparr>)"
proof -
  let ?w = "as_world s"
  have key: "guard_key g = we_canon env" using at_ok_parts(6) [OF ok g] .
  have other: "guard_token g' \<noteq> guard_token g" if "(p, g') \<in> set (as_holders s)" for p g'
    using at_ok_parts(4) [OF ok] that g by (force simp: tokens_of_def)
  show ?thesis
  proof (cases "entry_of env ?w")
    case None
    then have "as_holders s = []"
      using at_ok_parts(2) [OF ok] by (cases "as_holders s") (auto simp: holder_ok_def)
    moreover have "ww_procs w' = ww_procs ?w" "ww_registry w' = ww_registry ?w"
      using detach_no_entry [OF d] None key by (simp_all add: entry_of_def with_faults_def)
    ultimately show ?thesis
      using None by (intro at_ok_world [OF ok]) (auto simp: entry_of_def)
  next
    case (Some e)
    then have e: "map_of (ww_registry (with_faults fs s)) (guard_key g) = Some e"
      using key by (simp add: entry_of_def with_faults_def)
    note does = detach_does [OF d e]
    have procs: "ww_procs w' = ww_procs ?w" using does(1) by (simp add: with_faults_def)
    have entry: "entry_of env w' = Some e \<or> entry_of env w' = Some (drop_attachment g e)"
      using does(2) key by (simp add: entry_of_def)
    have kept: "recorded ?w (drop_attachment g e) p g'"
      if "(p, g') \<in> set (as_holders s)" "recorded ?w e p g'" for p g'
      using recorded_drop [OF that(2) other [OF that(1)]] .
    have live: "has_live_attachments (alive_with_hint ?w) (drop_attachment g e)" if ne: "as_holders s \<noteq> []"
    proof -
      obtain p g' where h: "(p, g') \<in> set (as_holders s)" using ne by (cases "as_holders s") auto
      then have "recorded ?w e p g'" "running ?w p" using at_ok_parts(2) [OF ok h] Some by (simp_all add: holder_ok_def)
      then show ?thesis using recorded_live kept [OF h] by blast
    qed
    show ?thesis
    proof (rule at_ok_world [OF ok procs])
      show "\<exists>e0. entry_of env ?w = Some e0 \<and> re_id e' = re_id e0 \<and> re_strategy e' = re_strategy e0 \<and>
          (re_unlocking e0 \<longrightarrow> re_unlocking e')" if "entry_of env w' = Some e'" for e'
        using that entry Some by auto
      show "\<exists>e'. entry_of env w' = Some e' \<and> recorded ?w e' p g'"
        if "(p, g') \<in> set (as_holders s)" "entry_of env ?w = Some e0" "recorded ?w e0 p g'" for p g' e0
        using that entry Some kept by auto
      show "mounted i w'" if "as_holders s \<noteq> []" "mounted i ?w"
        using does(3) [of i] live [OF that(1)] that(2) by (simp add: with_faults_def)
    qed
  qed
qed

lemma at_ok_status:
  assumes ok: "at_ok env i k s" and "status env (with_faults fs s) = (r, w')"
  shows "at_ok env i k (s\<lparr>as_world := w'\<rparr>)"
proof -
  note does = status_does [OF assms(2), unfolded with_faults_def, simplified]
  from does(3) show ?thesis
  proof
    assume "map_of (ww_registry w') (we_canon env) = map_of (ww_registry (as_world s)) (we_canon env)"
    then show ?thesis by (intro at_ok_same_entry [OF ok does(1)]) (simp_all add: entry_of_def does(2))
  next
    assume "\<exists>e. map_of (ww_registry (as_world s)) (we_canon env) = Some e \<and>
      map_of (ww_registry w') (we_canon env) = Some (fst (prune_dead_attachments (as_world s) e))"
    then obtain e where e: "entry_of env (as_world s) = Some e"
      "entry_of env w' = Some (fst (prune_dead_attachments (as_world s) e))" by (auto simp: entry_of_def)
    show ?thesis
      by (rule at_ok_world [OF ok does(1)]) (use e does(2) recorded_pruned in auto)
  qed
qed

lemma at_ok_mark:
  assumes ok: "at_ok env i k s" and m: "mark_unlocking env (we_canon env) (with_faults fs s) = (r, w')"
    and u: "u \<notin> fst ` set (as_holders s)"
  shows "at_ok env i k (s\<lparr>as_world := w',
    as_unlocks := (case r of Inr e \<Rightarrow> (u, U_Marked e) # as_unlocks s | Inl _ \<Rightarrow> as_unlocks s)\<rparr>)"
proof -
  let ?w = "as_world s"
  note does = mark_does [OF m]
  have procs: "ww_procs w' = ww_procs ?w" and mount: "mounted i w' = mounted i ?w"
    using does(1) does(2) [of i] by (simp_all add: with_faults_def)
  show ?thesis
  proof (cases r)
    case (Inl x)
    then have "entry_of env w' = entry_of env ?w" using does(3) by (simp add: entry_of_def with_faults_def)
    then have "at_ok env i k (s\<lparr>as_world := w'\<rparr>)" by (intro at_ok_same_entry [OF ok procs]) (simp_all add: mount)
    then show ?thesis using Inl by simp
  next
    case (Inr e')
    then obtain e where e: "entry_of env ?w = Some e" "e' = e\<lparr>re_unlocking := True\<rparr>" "entry_of env w' = Some e'"
      using does(3) by (auto simp: entry_of_def with_faults_def)
    have rec: "recorded ?w e' p g = recorded ?w e p g" for p g using e(2) by (cases g) auto
    have s1: "at_ok env i k (s\<lparr>as_world := w'\<rparr>)"
      by (rule at_ok_world [OF ok procs]) (use e rec mount in auto)
    have "stage_ok i k w' (as_holders s) u (U_Marked e')"
      unfolding stage_ok_def
    proof (simp, intro conjI ballI)
      show "re_id e' = i" "re_strategy e' = k" using at_ok_parts(1) [OF ok e(1)] e(2) by simp_all
      fix h assume "h \<in> set (as_holders s)"
      then obtain p g where h: "h = (p, g)" "(p, g) \<in> set (as_holders s)" by (metis surj_pair)
      have "recorded ?w e' p g" using at_ok_parts(2) [OF ok h(2)] e(1) rec by (simp add: holder_ok_def)
      then have "(p, start_hint w' p) \<in> set (unlock_targets e')"
        using recorded_target procs_cong(1) [OF procs] by metis
      moreover have "p \<noteq> u" using u h(2) by force
      ultimately show "case h of (p, g) \<Rightarrow> p \<noteq> u \<and> (p, start_hint w' p) \<in> set (unlock_targets e')" using h(1) by simp
    qed
    then show ?thesis using s1 Inr e unfolding at_ok_def by (auto simp: tokens_of_def)
  qed
qed

text \<open>Stopping the attached processes: a success leaves no holder.\<close>

lemma terminate_start:
  assumes "running (terminate env pid hint w) q"
  shows "running w q \<and> start_hint (terminate env pid hint w) q = start_hint w q"
  using assms
  by (cases "we_signalled env pid"; cases "q = pid")
    (auto simp: terminate_def running_def alive_def start_hint_def delete_conv' update_conv'
      split: option.splits if_splits)

lemma fold_terminate_start:
  "running (fold (\<lambda>(pid, hint). terminate env pid hint) ts w) q \<Longrightarrow>
     running w q \<and> start_hint (fold (\<lambda>(pid, hint). terminate env pid hint) ts w) q = start_hint w q"
proof (induction ts arbitrary: w)
  case (Cons t ts)
  obtain pid hint where t: "t = (pid, hint)" by (cases t)
  from Cons.IH [of "terminate env pid hint w"] Cons.prems t terminate_start [of env pid hint w q] show ?case by simp
qed simp

lemma stop_attached_does:
  assumes "stop_attached env e w = (r, w')"
  shows "ww_registry w' = ww_registry w" and "ww_spaces w' = ww_spaces w"
    and "running w' q \<Longrightarrow> running w q \<and> start_hint w' q = start_hint w q"
    and "\<not> isl r \<Longrightarrow> (q, start_hint w q) \<in> set (unlock_targets e) \<Longrightarrow> \<not> is_protected env q \<Longrightarrow> \<not> running w' q"
proof -
  let ?w = "fold (\<lambda>(pid, hint). terminate env pid hint) (unlock_targets e) w"
  have w': "w' = ?w" and r: "isl r \<longleftrightarrow> survivors env (unlock_targets e) ?w \<noteq> []"
    using assms by (auto simp: stop_attached_def wsio_defs Let_def split: if_splits)
  show "ww_registry w' = ww_registry w" "ww_spaces w' = ww_spaces w"
    unfolding w' using fold_terminate_fields by auto
  show start: "running w' q \<Longrightarrow> running w q \<and> start_hint w' q = start_hint w q" for q
    unfolding w' by (rule fold_terminate_start)
  show "\<not> running w' q" if "\<not> isl r" "(q, start_hint w q) \<in> set (unlock_targets e)" "\<not> is_protected env q"
  proof
    assume run: "running w' q"
    then have "identity_matches w' q (start_hint w q)" using start by (simp add: identity_matches_def Let_def)
    then have "(q, start_hint w q) \<in> set (filter (\<lambda>(pid, hint). \<not> is_protected env pid \<and> running w' pid \<and>
        identity_matches w' pid hint) (unlock_targets e))"
      using that run by simp
    then have "q \<in> set (survivors env (unlock_targets e) w')"
      unfolding survivors_def set_map by (rule image_eqI [rotated]) simp
    with r that(1) show False unfolding w' by auto
  qed
qed

lemma at_ok_stop:
  assumes ok: "at_ok env i k s" and n: "n < length (as_unlocks s)" "as_unlocks s ! n = (u, U_Marked e)"
    and st: "stop_attached (env\<lparr>we_pid := u\<rparr>) e (as_world s) = (r, w')"
  shows "at_ok env i k (s\<lparr>as_world := w', as_holders := filter (\<lambda>h. running w' (fst h)) (as_holders s),
    as_unlocks := (if isl r then remove_at n (as_unlocks s) else (as_unlocks s)[n := (u, U_Working e 0)])\<rparr>)"
proof -
  note does = stop_attached_does [OF st]
  let ?hs = "filter (\<lambda>h. running w' (fst h)) (as_holders s)"
  have mem: "(u, U_Marked e) \<in> set (as_unlocks s)" using n nth_mem by fastforce
  note stage = at_ok_parts(7) [OF ok mem, unfolded stage_ok_def, simplified]
  have tok: "distinct (map (\<lambda>h. guard_token (snd h)) ?hs @ map (\<lambda>l. guard_token (fst l)) (as_leaving s))"
    using at_ok_parts(4) [OF ok] by (auto simp: tokens_of_def distinct_map_filter)
  have "at_ok env i k (s\<lparr>as_holders := ?hs, as_leaving := as_leaving s, as_unlocks := as_unlocks s\<rparr>)"
    by (rule at_ok_lists [OF ok _ _ tok]) auto
  then have "at_ok env i k (s\<lparr>as_holders := ?hs\<rparr>)" by simp
  then have s1: "at_ok env i k (s\<lparr>as_holders := ?hs, as_world := w'\<rparr>)"
    using does(1-3) by (intro at_ok_procs) auto
  show ?thesis
  proof (cases "isl r")
    case True
    have "at_ok env i k (s\<lparr>as_holders := ?hs, as_world := w', as_holders := ?hs, as_leaving := as_leaving s,
        as_unlocks := remove_at n (as_unlocks s)\<rparr>)"
      by (rule at_ok_lists [OF s1]) (use tok remove_at_mset [OF n(1)] in auto)
    then show ?thesis using True by simp
  next
    case False
    have "?hs = []"
    proof (rule ccontr)
      assume "?hs \<noteq> []"
      then obtain p g where h: "(p, g) \<in> set (as_holders s)" "running w' p" by (auto simp: filter_empty_conv)
      have "p \<noteq> u \<and> (p, start_hint (as_world s) p) \<in> set (unlock_targets e)" using stage h(1) by auto
      moreover have "p \<noteq> 0" "p \<noteq> 1" using at_ok_parts(2) [OF ok h(1)] by (auto simp: holder_ok_def running_def alive_def)
      ultimately show False using does(4) [OF False] h(2) by (simp add: is_protected_def)
    qed
    moreover have "set ((as_unlocks s)[n := (u, U_Working e 0)]) \<subseteq> insert (u, U_Working e 0) (set (as_unlocks s))"
      by (rule set_update_subset_insert)
    moreover have "as_unlocks s \<noteq> []" using n(1) by auto
    ultimately show ?thesis
      using s1 False stage unfolding at_ok_def by (auto simp: tokens_of_def stage_ok_def split: unlock_stage.splits)
  qed
qed

text \<open>The file work of an unlock adds no entry.\<close>

lemma rollback_does:
  assumes "rollback_entry env key j w = (r, w')"
  shows "ww_procs w' = ww_procs w"
    and "map_of (ww_registry w') key' = Some e \<Longrightarrow> map_of (ww_registry w) key' = Some e"
proof -
  have "map_of (bt_remove k m) = (map_of m)(k := None)" for k and m :: "(string \<times> registry_entry) list"
    by (induction m) (auto simp: bt_remove_def fun_eq_iff)
  then have rem: "map_of (bt_remove k m) key' = Some e \<Longrightarrow> map_of m key' = Some e"
    for k and m :: "(string \<times> registry_entry) list" by (simp split: if_splits)
  have "ww_procs w' = ww_procs w \<and> (map_of (ww_registry w') key' = Some e \<longrightarrow> map_of (ww_registry w) key' = Some e)"
    using assms [unfolded rollback_entry_def]
  proof (cases rule: read_registry_inv)
    case (read fs)
    show ?thesis
    proof (cases "case map_of (ww_registry w) key of Some e \<Rightarrow> re_id e = j | None \<Rightarrow> False")
      case True
      with read have sv: "save_registry (bt_remove key (ww_registry w)) (w\<lparr>ww_faults := fs\<rparr>) = (r, w')" by simp
      show ?thesis using save_registry_inv [OF sv] rem by (auto split: if_splits)
    qed (use read in \<open>auto simp: ret_def\<close>)
  qed simp
  then show "ww_procs w' = ww_procs w" "map_of (ww_registry w') key' = Some e \<Longrightarrow> map_of (ww_registry w) key' = Some e"
    by blast+
qed

lemma work_does:
  assumes "m \<in> set (unlock_work env key e0)" and "m w = (r, w')"
  shows "ww_procs w' = ww_procs w"
    and "map_of (ww_registry w') key' = Some e \<Longrightarrow> map_of (ww_registry w) key' = Some e"
proof -
  have "quiet (follow_by (make_report env (re_id e0)) (ret ()))"
    by (rule quiet_follow_by [OF quiet_report quiet_basic(1)])
  moreover have "quiet (only_if P (ignoring (remove_space (re_id e0))))" for P
    by (intro quiet_only_if quiet_compose quiet_basic)
  ultimately consider "m = rollback_entry env key (re_id e0)" | "quiet m"
    using assms(1) quiet_basic(5) quiet_restore [of env e0] quiet_dirs(2,3)
      quiet_compose(3) [OF quiet_mounts(5)] quiet_compose(3) [OF quiet_dirs(2)]
    unfolding unlock_work_def Let_def in_step_def by auto
  then have "ww_procs w' = ww_procs w \<and> (map_of (ww_registry w') key' = Some e \<longrightarrow> map_of (ww_registry w) key' = Some e)"
    using assms(2) rollback_does quietD by cases fastforce+
  then show "ww_procs w' = ww_procs w" "map_of (ww_registry w') key' = Some e \<Longrightarrow> map_of (ww_registry w) key' = Some e"
    by blast+
qed

lemma at_ok_work:
  assumes ok: "at_ok env i k s" and n: "n < length (as_unlocks s)" "as_unlocks s ! n = (u, U_Working e m)"
    and w: "f \<in> set (unlock_work env (we_canon env) e)" "f (with_faults fs s) = (r, w')"
    and us: "us = remove_at n (as_unlocks s) \<or> us = (as_unlocks s)[n := (u, U_Working e m')]"
  shows "at_ok env i k (s\<lparr>as_world := w', as_unlocks := us\<rparr>)"
proof -
  have mem: "(u, U_Working e m) \<in> set (as_unlocks s)" using n nth_mem by fastforce
  have none: "re_id e = i" "as_holders s = []" using at_ok_parts(7) [OF ok mem] by (simp_all add: stage_ok_def)
  note does = work_does [OF w]
  have procs: "ww_procs w' = ww_procs (as_world s)" using does(1) by (simp add: with_faults_def)
  have entries: "entry_of env (as_world s) = Some e'" if "entry_of env w' = Some e'" for e'
    using does(2) that by (simp add: with_faults_def entry_of_def)
  have s1: "at_ok env i k (s\<lparr>as_world := w'\<rparr>)"
    by (rule at_ok_world [OF ok procs]) (use entries none in auto)
  have "set us \<subseteq> insert (u, U_Working e m') (set (as_unlocks s))"
    using us remove_at_mset [OF n(1)] set_update_subset_insert by fastforce
  moreover have "as_unlocks s \<noteq> []" using n(1) by auto
  ultimately show ?thesis
    using s1 none unfolding at_ok_def by (auto simp: tokens_of_def stage_ok_def split: unlock_stage.splits)
qed

lemma at_ok_step:
  assumes ok: "at_ok env i k s" and "at_step env s s'"
  shows "at_ok env i k s'"
proof -
  obtain a where run: "at_exec env a s = Some s'" using assms(2) by (rule at_stepE)
  show ?thesis
  proof (cases a)
    case (AA_Attach p harness_id token fs)
    with run show ?thesis using at_ok_attached [OF ok _ attach_does] by (auto split: if_splits)
  next
    case (AA_Shell p token fs)
    with run show ?thesis using at_ok_attached [OF ok _ attach_shared_does] by (auto split: if_splits)
  next
    case (AA_Leave n)
    with run have n: "n < length (as_holders s)"
      and s': "s' = s\<lparr>as_holders := remove_at n (as_holders s),
        as_leaving := (snd (as_holders s ! n), DETACH_ATTEMPTS) # as_leaving s, as_unlocks := as_unlocks s\<rparr>"
      by (auto split: if_splits)
    show ?thesis
      unfolding s'
      by (rule at_ok_lists [OF ok])
        (use remove_at_mset [OF n] remove_at_distinct(1) [OF n at_ok_parts(4) [OF ok, unfolded tokens_of_def]] in auto)
  next
    case (AA_Detach n fs)
    obtain g left where g: "as_leaving s ! n = (g, left)" by (cases "as_leaving s ! n")
    obtain r w' where d: "detach_once env g (with_faults fs s) = (r, w')" by (cases "detach_once env g (with_faults fs s)")
    define ls where "ls = (if isl r \<and> left > 1 then (as_leaving s)[n := (g, left - 1)] else remove_at n (as_leaving s))"
    have n: "n < length (as_leaving s)" and s': "s' = s\<lparr>as_world := w', as_leaving := ls\<rparr>"
      using run AA_Detach g d by (auto simp: ls_def split: if_splits)
    have mem: "(g, left) \<in> set (as_leaving s)" using n g nth_mem by fastforce
    have "set ls \<subseteq> insert (g, left - 1) (set (as_leaving s))"
      using remove_at_mset [OF n] set_update_subset_insert [of "as_leaving s" n "(g, left - 1)"]
      by (auto simp: ls_def)
    then have "fst ` set ls \<subseteq> fst ` set (as_leaving s)" using mem by force
    moreover have "distinct (map (\<lambda>h. guard_token (snd h)) (as_holders s) @ map (\<lambda>l. guard_token (fst l)) ls)"
    proof -
      have "map (\<lambda>l. guard_token (fst l)) ((as_leaving s)[n := (g, left - 1)]) = map (\<lambda>l. guard_token (fst l)) (as_leaving s)"
        using g n by (simp add: map_update list_update_same_conv)
      moreover have "map (\<lambda>l. guard_token (fst l)) (remove_at n (as_leaving s)) = remove_at n (map (\<lambda>l. guard_token (fst l)) (as_leaving s))"
        by (simp add: remove_at_def take_map drop_map)
      ultimately have "map (\<lambda>l. guard_token (fst l)) ls = map (\<lambda>l. guard_token (fst l)) (as_leaving s) \<or>
          map (\<lambda>l. guard_token (fst l)) ls = remove_at n (map (\<lambda>l. guard_token (fst l)) (as_leaving s))"
        unfolding ls_def by simp
      moreover have "distinct (map (\<lambda>h. guard_token (snd h)) (as_holders s) @ map (\<lambda>l. guard_token (fst l)) (as_leaving s))"
        using at_ok_parts(4) [OF ok] by (simp only: tokens_of_def)
      ultimately show ?thesis using distinct_sub n by (metis length_map)
    qed
    ultimately have "at_ok env i k (s\<lparr>as_world := w', as_holders := as_holders s, as_leaving := ls, as_unlocks := as_unlocks s\<rparr>)"
      by (intro at_ok_lists [OF at_ok_detach [OF ok mem d]]) auto
    then show ?thesis by (simp add: s')
  next
    case (AA_Status fs)
    with run show ?thesis using at_ok_status [OF ok, of fs] by (cases "status env (with_faults fs s)") auto
  next
    case (AA_Begin p start)
    with run have p: "map_of (ww_procs (as_world s)) p = None"
      and s': "s' = s\<lparr>as_world := (as_world s)\<lparr>ww_procs := AList.update p \<lparr>pr_start = start, pr_zombie = False\<rparr> (ww_procs (as_world s))\<rparr>\<rparr>"
      by (auto split: if_splits)
    show ?thesis
      unfolding s'
    proof (rule at_ok_procs [OF ok], goal_cases)
      case (3 q g)
      then have "running (as_world s) q" using at_ok_parts(2) [OF ok] by (simp add: holder_ok_def)
      moreover from this have "q \<noteq> p" using p by (auto simp: running_def alive_def)
      ultimately show ?case by (simp add: running_def alive_def start_hint_def update_conv')
    qed simp_all
  next
    case (AA_End p)
    define hs where "hs = filter (\<lambda>h. fst h \<noteq> p) (as_holders s)"
    define us where "us = filter (\<lambda>u. fst u \<noteq> p) (as_unlocks s)"
    define w' where "w' = (as_world s)\<lparr>ww_procs := AList.delete p (ww_procs (as_world s))\<rparr>"
    have s': "s' = s\<lparr>as_world := w', as_holders := hs, as_unlocks := us\<rparr>"
      using run AA_End by (simp add: hs_def us_def w'_def)
    have s1: "at_ok env i k (s\<lparr>as_holders := hs, as_leaving := as_leaving s, as_unlocks := us\<rparr>)"
      by (rule at_ok_lists [OF ok])
        (use at_ok_parts(4) [OF ok] in \<open>auto simp: hs_def us_def tokens_of_def distinct_map_filter\<close>)
    have "at_ok env i k (s\<lparr>as_holders := hs, as_leaving := as_leaving s, as_unlocks := us, as_world := w'\<rparr>)"
    proof (rule at_ok_procs [OF s1], goal_cases)
      case (3 q g)
      then have "q \<noteq> p" "running (as_world s) q" using at_ok_parts(2) [OF ok] by (auto simp: hs_def holder_ok_def)
      then show ?case by (simp add: w'_def running_def alive_def start_hint_def delete_conv')
    qed (simp_all add: w'_def)
    then show ?thesis unfolding s' by (cases s) simp
  next
    case (AA_Mark p fs)
    obtain r w' where m: "mark_unlocking env (we_canon env) (with_faults fs s) = (r, w')"
      by (cases "mark_unlocking env (we_canon env) (with_faults fs s)")
    with run AA_Mark show ?thesis using at_ok_mark [OF ok m, of p] by (auto split: if_splits)
  next
    case (AA_Stop n)
    with run obtain u e where n: "n < length (as_unlocks s)" "as_unlocks s ! n = (u, U_Marked e)"
      by (auto split: if_splits prod.splits unlock_stage.splits)
    obtain r w' where st: "stop_attached (env\<lparr>we_pid := u\<rparr>) e (as_world s) = (r, w')"
      by (cases "stop_attached (env\<lparr>we_pid := u\<rparr>) e (as_world s)")
    with run AA_Stop n show ?thesis using at_ok_stop [OF ok n st] by auto
  next
    case (AA_Work n fs)
    with run obtain u e m where n: "n < length (as_unlocks s)" "as_unlocks s ! n = (u, U_Working e m)"
      "m < length (unlock_work env (we_canon env) e)"
      by (auto simp: Let_def split: if_splits prod.splits unlock_stage.splits)
    obtain r w' where w: "(unlock_work env (we_canon env) e ! m) (with_faults fs s) = (r, w')"
      by (cases "(unlock_work env (we_canon env) e ! m) (with_faults fs s)")
    from at_ok_work [OF ok n(1,2) nth_mem [OF n(3)] w] run AA_Work n w show ?thesis
      by (auto simp: Let_def split: if_splits)
  qed
qed

interpretation attach_machine: invariant_system "at_step env" "at_ok env i k"
  by unfold_locales (rule at_ok_step)

section \<open>The mount outlives nobody\<close>

fun is_harness :: "guard \<Rightarrow> bool" where
  "is_harness (Guard_Harness _ _ _) = True"
| "is_harness (Guard_Shell _ _ _ _) = False"

lemma at_ok_start:
  assumes "entry_of env w = Some e"
  shows "at_ok env (re_id e) (re_strategy e) (at_start w)"
  using assms by (simp add: at_ok_def at_start_def tokens_of_def)

lemma one_harness:
  assumes ok: "at_ok env i k s"
  shows "length (filter (\<lambda>h. is_harness (snd h)) (as_holders s)) \<le> 1"
proof -
  let ?hs = "filter (\<lambda>h. is_harness (snd h)) (as_holders s)"
  have dist: "distinct (map (\<lambda>h. guard_token (snd h)) ?hs)"
    using at_ok_parts(4) [OF ok] by (auto simp: tokens_of_def distinct_map_filter)
  have "\<exists>t. \<forall>h\<in>set ?hs. guard_token (snd h) = t"
  proof (cases "entry_of env (as_world s)")
    case (Some e)
    have "guard_token (snd h) = at_token (the (re_attached e))" if "h \<in> set ?hs" for h
    proof -
      obtain p g where h: "h = (p, g)" by (cases h)
      with that have "holder_ok env k (as_world s) p g" "is_harness g" using at_ok_parts(2) [OF ok] by auto
      with Some h show ?thesis by (cases g) (auto simp: holder_ok_def split: option.splits)
    qed
    then show ?thesis by blast
  next
    case None
    then have "?hs = []" using at_ok_parts(2) [OF ok] by (auto simp: holder_ok_def filter_empty_conv)
    then show ?thesis by simp
  qed
  then obtain t where t: "\<forall>h\<in>set ?hs. guard_token (snd h) = t" by blast
  then have "set (map (\<lambda>h. guard_token (snd h)) ?hs) \<subseteq> {t}" unfolding set_map by blast
  then have "card (set (map (\<lambda>h. guard_token (snd h)) ?hs)) \<le> card {t}" by (intro card_mono) simp_all
  with distinct_card [OF dist] show ?thesis by simp
qed


section \<open>A sample run\<close>

fun at_run :: "ws_env \<Rightarrow> at_action list \<Rightarrow> at_sys \<Rightarrow> at_sys option" where
  "at_run env [] s = Some s"
| "at_run env (a # as) s = (case at_exec env a s of None \<Rightarrow> None | Some s1 \<Rightarrow> at_run env as s1)"

lemma at_run_reach: "at_run env as s = Some t \<Longrightarrow> reach_by (at_step env) s0 s \<Longrightarrow> reach_by (at_step env) s0 t"
proof (induction "as" arbitrary: s)
  case (Cons a "as")
  then obtain s1 where s1: "at_exec env a s = Some s1" "at_run env as s1 = Some t" by (auto split: option.splits)
  with Cons.prems(2) have "reach_by (at_step env) s0 s1" by (blast intro: reach_step at_step.intros)
  with Cons.IH s1(2) show ?case by blast
qed simp

definition share_env :: ws_env where
  "share_env =
     \<lparr>we_fs = \<lparr>fe_same_device = True, fe_follow = (\<lambda>_. False), fe_dir_mode = 0x1ED\<rparr>,
      we_canon = ''/work'', we_state = ''/state'', we_root = ''/state/workspaces'', we_linux = True, we_volume = [],
      we_pid = 9, we_signalled = (\<lambda>_. Exits), we_sha256 = (\<lambda>b. b), we_ser = (\<lambda>_. ''manifest''),
      we_de = (\<lambda>_. Inr []), we_unified = (\<lambda>a b. a @ b)\<rparr>"

definition share_entry :: registry_entry where
  "share_entry = new_entry ''id'' Ext4Fuse"

definition share_world :: ws_world where
  "share_world =
     \<lparr>ww_dir = [], ww_mode = 0x16D, ww_registry = [(''/work'', share_entry)],
      ww_spaces = [(''id'', empty_space\<lparr>sp_image := Some []\<rparr>)],
      ww_procs = [(5, \<lparr>pr_start = ''Mon'', pr_zombie = False\<rparr>), (6, \<lparr>pr_start = ''Tue'', pr_zombie = False\<rparr>)],
      ww_faults = []\<rparr>"

definition share_run :: "at_action list" where
  "share_run =
     [AA_Attach 5 ''h1'' ''t1'' [], AA_Attach 6 ''h2'' ''t2'' [], AA_Shell 6 ''t3'' [], AA_Leave 0, AA_Detach 0 []]"


end
