(* ===== verification/Silo_Lockfile.thy ===== *)
theory Silo_Lockfile
  imports Silo_Core
begin

text \<open>
  The lock file of the workspace registry (\<open>silo-workspace/src/registry.rs\<close>: \<open>acquire_lock_with\<close>,
  \<open>remove_if_stale\<close> and the drop of \<open>RegistryLock\<close>) as processes use it concurrently. Every system
  call is one action: creating the file exclusively, writing the holder into it, reading it and
  judging the holder, reading it again, and removing the path. A file is its inode number and its
  content, so that a process that writes after its file was removed writes into no visible file.
  A process is its number; the holder record in the file names it, with a start time that tells it
  from a later process with the same pid.
\<close>

section \<open>Processes and the file\<close>

datatype lock_content = LC_Unreadable | LC_Holder nat

datatype lock_stage =
    LS_Out
  | LS_Try nat
  | LS_Blocked nat
  | LS_Stale nat lock_content
  | LS_Confirmed nat
  | LS_Created nat
  | LS_Holding
  | LS_TimedOut

record lock_sys =
  lk_file :: "(nat \<times> lock_content) option"
  lk_next_ino :: nat
  lk_stage :: "lock_stage list"
  lk_dead :: "nat list"

definition lock_start :: "nat \<Rightarrow> lock_sys" where
  "lock_start n = \<lparr>lk_file = None, lk_next_ino = 0, lk_stage = replicate n LS_Out, lk_dead = []\<rparr>"

text \<open>
  Whether the content of the file makes it stale: its holder has died, or it is unreadable and its
  age, an argument, is beyond the limit.
\<close>

definition stale :: "bool \<Rightarrow> lock_sys \<Rightarrow> lock_content \<Rightarrow> bool" where
  "stale old s c = (case c of LC_Holder j \<Rightarrow> j \<in> set (lk_dead s) | LC_Unreadable \<Rightarrow> old)"

definition set_stage :: "nat \<Rightarrow> lock_stage \<Rightarrow> lock_sys \<Rightarrow> lock_sys" where
  "set_stage i st s = s\<lparr>lk_stage := (lk_stage s)[i := st]\<rparr>"

text \<open>An attempt was used up; the last one gives up.\<close>

definition next_attempt :: "nat \<Rightarrow> lock_stage" where
  "next_attempt n = (if n \<le> 1 then LS_TimedOut else LS_Try (n - 1))"

text \<open>The loop begins with all its attempts; with none it gives up at once.\<close>

definition first_attempt :: "nat \<Rightarrow> lock_stage" where
  "first_attempt n = (if n = 0 then LS_TimedOut else LS_Try n)"

section \<open>Actions\<close>

datatype lock_action =
    LA_Acquire nat nat
  | LA_Create nat
  | LA_Write nat bool
  | LA_Inspect nat bool
  | LA_Reread nat
  | LA_Remove nat
  | LA_Release nat
  | LA_Die nat

fun lock_act :: "lock_action \<Rightarrow> lock_stage \<Rightarrow> lock_sys \<Rightarrow> lock_sys option" where
  "lock_act (LA_Acquire i n) LS_Out s =
     Some (set_stage i (first_attempt n) s)"
| "lock_act (LA_Acquire i n) LS_TimedOut s =
     Some (set_stage i (first_attempt n) s)"
| "lock_act (LA_Create i) (LS_Try n) s =
     (case lk_file s of
        None \<Rightarrow>
          Some (set_stage i (LS_Created (lk_next_ino s))
                 (s\<lparr>lk_file := Some (lk_next_ino s, LC_Unreadable),
                    lk_next_ino := Suc (lk_next_ino s)\<rparr>))
      | Some _ \<Rightarrow> Some (set_stage i (LS_Blocked n) s))"
| "lock_act (LA_Write i written) (LS_Created ino) s =
     (let s1 = set_stage i LS_Holding s in
      case lk_file s of
        Some (k, _) \<Rightarrow>
          Some (if k = ino \<and> written then s1\<lparr>lk_file := Some (k, LC_Holder i)\<rparr> else s1)
      | None \<Rightarrow> Some s1)"
| "lock_act (LA_Inspect i old) (LS_Blocked n) s =
     (case lk_file s of
        None \<Rightarrow> Some (set_stage i (next_attempt n) s)
      | Some (_, c) \<Rightarrow> Some (set_stage i (if stale old s c then LS_Stale n c else next_attempt n) s))"
| "lock_act (LA_Reread i) (LS_Stale n c) s =
     Some (set_stage i (case lk_file s of
                          Some (_, c') \<Rightarrow> if c' = c then LS_Confirmed n else next_attempt n
                        | None \<Rightarrow> next_attempt n) s)"
| "lock_act (LA_Remove i) (LS_Confirmed n) s = Some (set_stage i (next_attempt n) (s\<lparr>lk_file := None\<rparr>))"
| "lock_act (LA_Release i) LS_Holding s = Some (set_stage i LS_Out (s\<lparr>lk_file := None\<rparr>))"
| "lock_act (LA_Die i) _ s = Some (s\<lparr>lk_dead := i # lk_dead s\<rparr>)"
| "lock_act _ _ s = None"

fun lock_actor :: "lock_action \<Rightarrow> nat" where
  "lock_actor (LA_Acquire i _) = i"
| "lock_actor (LA_Create i) = i"
| "lock_actor (LA_Write i _) = i"
| "lock_actor (LA_Inspect i _) = i"
| "lock_actor (LA_Reread i) = i"
| "lock_actor (LA_Remove i) = i"
| "lock_actor (LA_Release i) = i"
| "lock_actor (LA_Die i) = i"

definition lock_exec :: "lock_action \<Rightarrow> lock_sys \<Rightarrow> lock_sys option" where
  "lock_exec a s =
     (let i = lock_actor a in
      if i < length (lk_stage s) \<and> i \<notin> set (lk_dead s) then lock_act a (lk_stage s ! i) s else None)"

fun lock_run :: "lock_action list \<Rightarrow> lock_sys \<Rightarrow> lock_sys option" where
  "lock_run [] s = Some s"
| "lock_run (a # as) s = (case lock_exec a s of None \<Rightarrow> None | Some s1 \<Rightarrow> lock_run as s1)"

definition holds :: "lock_sys \<Rightarrow> nat \<Rightarrow> bool" where
  "holds s i = (i < length (lk_stage s) \<and> i \<notin> set (lk_dead s) \<and> lk_stage s ! i = LS_Holding)"

inductive lock_step :: "lock_sys \<Rightarrow> lock_sys \<Rightarrow> bool" where
  "lock_exec a s = Some s' \<Longrightarrow> lock_step s s'"

text \<open>Steps in which nobody dies and no unreadable file is taken for stale.\<close>

fun orderly :: "lock_action \<Rightarrow> bool" where
  "orderly (LA_Die _) = False"
| "orderly (LA_Inspect _ old) = (\<not> old)"
| "orderly _ = True"

inductive orderly_step :: "lock_sys \<Rightarrow> lock_sys \<Rightarrow> bool" where
  "orderly a \<Longrightarrow> lock_exec a s = Some s' \<Longrightarrow> orderly_step s s'"

inductive_cases orderly_stepE: "orderly_step s s'"

section \<open>Mutual exclusion without crashes\<close>

text \<open>At most one process is past the creation, the file is its own, and nobody finds it stale.\<close>

fun inside :: "lock_stage \<Rightarrow> bool" where
  "inside (LS_Created _) = True"
| "inside LS_Holding = True"
| "inside _ = False"

fun calm :: "lock_stage \<Rightarrow> bool" where
  "calm (LS_Stale _ _) = False"
| "calm (LS_Confirmed _) = False"
| "calm _ = True"

definition lock_ok :: "lock_sys \<Rightarrow> bool" where
  "lock_ok s =
     (lk_dead s = [] \<and> list_all calm (lk_stage s) \<and>
      (lk_file s = None \<longrightarrow> list_all (\<lambda>st. \<not> inside st) (lk_stage s)) \<and>
      length (filter inside (lk_stage s)) \<le> 1)"

lemma lock_ok_start: "lock_ok (lock_start n)"
  by (simp add: lock_ok_def lock_start_def list_all_iff)

lemma set_stage_simps [simp]:
  "lk_file (set_stage i st s) = lk_file s" "lk_dead (set_stage i st s) = lk_dead s"
  "lk_stage (set_stage i st s) = (lk_stage s)[i := st]"
  by (simp_all add: set_stage_def)

lemma filter_update_count:
  "k < length xs \<Longrightarrow>
     length (filter P (xs[k := x])) + (if P (xs ! k) then 1 else 0) = length (filter P xs) + (if P x then 1 else 0)"
proof (induction xs arbitrary: k)
  case (Cons y ys)
  then show ?case by (cases k) simp_all
qed simp

lemma list_all_update: "list_all P xs \<Longrightarrow> P x \<Longrightarrow> list_all P (xs[k := x])"
  by (auto simp: list_all_iff dest!: set_mp [OF set_update_subset_insert])

lemma none_inside: "list_all (\<lambda>st. \<not> P st) xs \<longleftrightarrow> length (filter P xs) = 0"
  by (auto simp: list_all_iff filter_empty_conv)

lemma attempt_plain [simp]:
  "calm (next_attempt n)" "\<not> inside (next_attempt n)" "calm (first_attempt n)" "\<not> inside (first_attempt n)"
  by (simp_all add: next_attempt_def first_attempt_def)

text \<open>A process changes its stage: what becomes of the invariant.\<close>

lemma lock_ok_stage:
  assumes "lock_ok s" and "i < length (lk_stage s)" and "calm st"
    and "inside st \<Longrightarrow> f \<noteq> None \<and> (inside (lk_stage s ! i) \<or> lk_file s = None)"
    and "f = None \<Longrightarrow> lk_file s = None \<or> inside (lk_stage s ! i)"
    and "lk_file s' = f" "lk_dead s' = lk_dead s" "lk_stage s' = (lk_stage s)[i := st]"
  shows "lock_ok s'"
proof -
  note count = filter_update_count [OF assms(2), of inside st]
  have "list_all calm (lk_stage s')" using assms(1,3,8) by (simp add: lock_ok_def list_all_update)
  moreover have "length (filter inside (lk_stage s')) \<le> 1"
    using assms(1,4,8) count by (auto simp: lock_ok_def none_inside split: if_splits)
  moreover have "length (filter inside (lk_stage s')) = 0" if "f = None"
  proof -
    have "\<not> inside st" using assms(4) that by blast
    moreover have "length (filter inside (lk_stage s)) \<le> (if inside (lk_stage s ! i) then 1 else 0)"
      using assms(1,5) that by (auto simp: lock_ok_def none_inside)
    ultimately show ?thesis using count unfolding assms(8) by (simp split: if_splits del: length_0_conv)
  qed
  ultimately show ?thesis using assms(1,6,7) unfolding lock_ok_def none_inside by simp
qed

lemma lock_ok_orderly:
  assumes "lock_ok s" and "orderly_step s s'"
  shows "lock_ok s'"
proof -
  obtain a where a: "orderly a" "lock_exec a s = Some s'" using assms(2) by (rule orderly_stepE)
  let ?i = "lock_actor a" and ?st = "lk_stage s ! lock_actor a"
  have i: "?i < length (lk_stage s)" and act: "lock_act a ?st s = Some s'"
    using a(2) by (auto simp: lock_exec_def Let_def split: if_splits)
  have calm: "calm ?st" using assms(1) i by (simp add: lock_ok_def list_all_length)
  have dead: "lk_dead s = []" using assms(1) by (simp add: lock_ok_def)
  show ?thesis
  proof (cases "(a, ?st, s)" rule: lock_act.cases)
    case (1 j n t)
    with act i show ?thesis by (intro lock_ok_stage [OF assms(1) i, of "lk_stage s' ! lock_actor a" "lk_file s'"]) auto
  next
    case (2 j n t)
    with act i show ?thesis by (intro lock_ok_stage [OF assms(1) i, of "lk_stage s' ! lock_actor a" "lk_file s'"]) auto
  next
    case (3 j n t)
    with act i show ?thesis
      by (cases "lk_file s") (auto intro!: lock_ok_stage [OF assms(1) i, of "lk_stage s' ! lock_actor a" "lk_file s'"])
  next
    case (4 j written ino t)
    then have "lk_file s \<noteq> None"
      using assms(1) i by (auto simp: lock_ok_def list_all_length dest!: spec [of _ j])
    with act i 4 show ?thesis
      by (intro lock_ok_stage [OF assms(1) i, of "lk_stage s' ! lock_actor a" "lk_file s'"]) (auto simp: Let_def split: option.splits if_splits)
  next
    case (5 j old n t)
    with act i a(1) dead show ?thesis
      by (intro lock_ok_stage [OF assms(1) i, of "lk_stage s' ! lock_actor a" "lk_file s'"])
        (auto simp: stale_def split: option.splits lock_content.splits if_splits)
  next
    case (8 j t)
    with act i show ?thesis by (intro lock_ok_stage [OF assms(1) i, of "lk_stage s' ! lock_actor a" "lk_file s'"]) auto
  qed (use act calm a(1) in auto)
qed

interpretation orderly_lock: invariant_system orderly_step lock_ok
  by unfold_locales (rule lock_ok_orderly)

lemma two_inside:
  assumes "i < length xs" "j < length xs" "i \<noteq> j" "P (xs ! i)" "P (xs ! j)"
  shows "length (filter P xs) \<ge> 2"
proof -
  have "card {k. k < length xs \<and> P (xs ! k)} \<ge> card {i, j}"
    using assms by (intro card_mono) auto
  with assms(3) show ?thesis by (simp add: length_filter_conv_card)
qed

text \<open>
  C31: as long as no process dies and no fresh file is mistaken for an old unreadable one, at most
  one process holds the registry lock, whatever the order of the system calls.
\<close>

theorem lock_mutual_exclusion:
  assumes "reach_by orderly_step (lock_start n) s" and "holds s i" and "holds s j"
  shows "i = j"
proof (rule ccontr)
  assume "i \<noteq> j"
  with assms(2,3) have "length (filter inside (lk_stage s)) \<ge> 2"
    by (intro two_inside [of i _ j]) (auto simp: holds_def)
  moreover have "lock_ok s" by (rule orderly_lock.inv_reachable [OF assms(1) lock_ok_start])
  ultimately show False by (simp add: lock_ok_def)
qed

section \<open>Two holders after a crash\<close>

lemma lock_run_reach: "lock_run as s = Some t \<Longrightarrow> reach_by lock_step s0 s \<Longrightarrow> reach_by lock_step s0 t"
proof (induction "as" arbitrary: s)
  case (Cons a "as")
  then obtain s1 where s1: "lock_exec a s = Some s1" "lock_run as s1 = Some t" by (auto split: option.splits)
  with Cons.prems(2) have "reach_by lock_step s0 s1" by (blast intro: reach_step lock_step.intros)
  with Cons.IH s1(2) show ?case by blast
qed simp

lemma orderly_run_reach:
  "lock_run as s = Some t \<Longrightarrow> list_all orderly as \<Longrightarrow> reach_by orderly_step s0 s \<Longrightarrow>
     reach_by orderly_step s0 t"
proof (induction "as" arbitrary: s)
  case (Cons a "as")
  then obtain s1 where s1: "lock_exec a s = Some s1" "lock_run as s1 = Some t" by (auto split: option.splits)
  with Cons.prems(2,3) have "reach_by orderly_step s0 s1"
    by (auto intro: reach_step orderly_step.intros)
  with Cons.IH s1(2) Cons.prems(2) show ?case by simp
qed simp

definition stale_race :: "lock_action list" where
  "stale_race =
     [LA_Acquire 0 600, LA_Create 0, LA_Write 0 True, LA_Die 0,
      LA_Acquire 1 600, LA_Create 1, LA_Inspect 1 False, LA_Reread 1,
      LA_Acquire 2 600, LA_Create 2, LA_Inspect 2 False, LA_Reread 2, LA_Remove 2, LA_Create 2, LA_Write 2 True,
      LA_Remove 1, LA_Create 1, LA_Write 1 True]"

text \<open>
  C32: after a holder crashed, two live processes can hold the registry lock at the same time. The
  second reading of the file does not protect its removal: between the two another waiter may remove
  the stale file and take the lock, and it is that new lock which is then removed.
\<close>

theorem stale_removal_breaks_lock:
  "\<exists>s. reach_by lock_step (lock_start 3) s \<and> holds s 1 \<and> holds s 2"
proof -
  have "case lock_run stale_race (lock_start 3) of None \<Rightarrow> False | Some s \<Rightarrow> holds s 1 \<and> holds s 2"
    by (simp add: stale_race_def lock_start_def lock_exec_def holds_def set_stage_def stale_def
        next_attempt_def first_attempt_def numeral_eq_Suc)
  then show ?thesis using lock_run_reach [OF _ reach_refl] by (auto split: option.splits)
qed

definition orderly_run :: "lock_action list" where
  "orderly_run =
     [LA_Acquire 0 2, LA_Create 0, LA_Acquire 1 2, LA_Create 1, LA_Inspect 1 False, LA_Write 0 True,
      LA_Create 1, LA_Inspect 1 False]"

theorem lock_mutual_exclusion_witness:
  "\<exists>s. lock_run orderly_run (lock_start 2) = Some s \<and> holds s 0 \<and> lk_stage s ! 1 = LS_TimedOut \<and>
     (\<forall>j. holds s j = (j = 0))"
proof -
  have run: "case lock_run orderly_run (lock_start 2) of None \<Rightarrow> False
    | Some s \<Rightarrow> holds s 0 \<and> lk_stage s ! 1 = LS_TimedOut"
    by code_simp
  then obtain s where s: "lock_run orderly_run (lock_start 2) = Some s" "holds s 0" "lk_stage s ! 1 = LS_TimedOut"
    by (auto split: option.splits)
  have "list_all orderly orderly_run" by code_simp
  then have "reach_by orderly_step (lock_start 2) s" using orderly_run_reach [OF s(1) _ reach_refl] by blast
  from lock_mutual_exclusion [OF this s(2)] have "holds s j \<Longrightarrow> j = 0" for j by metis
  with s show ?thesis by blast
qed

end
