(* ===== verification/Silo_Helper.thy ===== *)
theory Silo_Helper
  imports Silo_Core "HOL-Library.AList"
begin

text \<open>
  The helper process inside the sandbox: its protocol (\<open>silo-core/src/helper.rs\<close>), the operations on
  files and processes (\<open>silo-helper/src/ops.rs\<close>) and the HTTP fetch (\<open>silo-helper/src/fetch.rs\<close>).

  The file system is a list of nodes by absolute path; \<open>he_locate\<close> stands for the operating system's
  resolution of a path text to such a path. A system call that may fail consumes one entry of
  \<open>hf_faults\<close>: \<open>None\<close> when it succeeds, otherwise the error and how far it got, zero when it changed
  nothing; an empty list means that no further call fails. Base64, the HTTP client and what a process
  does are other code, fields of \<open>helper_env\<close> or arguments.
\<close>

section \<open>The protocol\<close>

type_synonym i32 = "32 word"

datatype helper_op =
    Op_Hello
  | Op_Exec string "string option" "(string \<times> string) list" u64
  | Op_ReadFile string "u64 option" "u64 option"
  | Op_WriteFile string string bool
  | Op_EditFile string string string bool
  | Op_ListDir string
  | Op_Cancel u64
  | Op_Fetch string string "(string \<times> string) list" "string option" u64
  | Op_Shutdown

record dir_entry =
  de_name :: string
  de_is_dir :: bool
  de_size :: u64

datatype helper_payload =
    Pl_Hello string u32
  | Pl_Exec (pe_exit_code: i32) (pe_stdout: string) (pe_stderr: string) (pe_timed_out: bool)
      (pe_truncated: bool) (pe_cancelled: bool)
  | Pl_File string bool
  | Pl_Written u64
  | Pl_Edited u64
  | Pl_Dir "dir_entry list"
  | Pl_Fetched u16 "(string \<times> string) list" string bool
  | Pl_Ack

record helper_request =
  hq_id :: u64
  hq_op :: helper_op

record helper_response =
  hr_id :: u64
  hr_result :: "string + helper_payload"

section \<open>Surroundings\<close>

text \<open>
  A response of the HTTP client: status, headers, and the body as the chunks it arrives in, ended by
  an error when the transfer fails.
\<close>

record http_answer =
  ha_status :: u16
  ha_headers :: "(string \<times> string) list"
  ha_chunks :: "string list"
  ha_failure :: "string option"

record http_request =
  hx_method :: string
  hx_url :: string
  hx_headers :: "(string \<times> string) list"
  hx_body :: "string option"

record fetch_config =
  fc_proxy_url :: "string option"
  fc_ca_cert_path :: "string option"

record 'w helper_env =
  he_encode :: "string \<Rightarrow> string"
  he_decode :: "string \<Rightarrow> string + string"
  he_version :: string
  he_pid :: u32
  he_locate :: "string \<Rightarrow> string"
  he_dir_size :: "string \<Rightarrow> u64"
  he_proxy :: "string \<Rightarrow> string option"
  he_certificate :: "string \<Rightarrow> string option"
  he_client :: "string option"
  he_method :: "string \<Rightarrow> bool"
  he_header_name :: "string \<Rightarrow> bool"
  he_header_value :: "string \<Rightarrow> bool"
  he_send :: "http_request \<Rightarrow> 'w \<Rightarrow> (string + http_answer) \<times> 'w"

definition b64 :: "'w helper_env \<Rightarrow> string \<Rightarrow> string" where
  "b64 env bytes = he_encode env bytes"

definition unb64 :: "'w helper_env \<Rightarrow> string \<Rightarrow> string + string" where
  "unb64 env s = (case he_decode env s of Inl e \<Rightarrow> Inl (''invalid base64: '' @ e) | Inr b \<Rightarrow> Inr b)"

section \<open>Paths\<close>

text \<open>\<open>Path::parent\<close>: trailing separators and \<open>.\<close> components are ignored.\<close>

function trim_path_end :: "string \<Rightarrow> string" where
  "trim_path_end s =
     (if s \<noteq> ''/'' \<and> s \<noteq> [] \<and> (last s = CHR ''/'' \<or> suffix ''/.'' s) then trim_path_end (butlast s) else s)"
  by auto
termination
  by (relation "measure length") auto

declare trim_path_end.simps [simp del]

definition path_parent :: "string \<Rightarrow> string option" where
  "path_parent s =
     (let t = trim_path_end s in
      if t = [] \<or> t = ''/'' then None
      else Some (trim_path_end (rev (dropWhile (\<lambda>c. c \<noteq> CHR ''/'') (rev t)))))"

definition path_name :: "string \<Rightarrow> string" where
  "path_name s = rev (takeWhile (\<lambda>c. c \<noteq> CHR ''/'') (rev (trim_path_end s)))"

lemma trim_path_end_step:
  "s \<noteq> ''/'' \<Longrightarrow> s \<noteq> [] \<Longrightarrow> last s = CHR ''/'' \<or> suffix ''/.'' s \<Longrightarrow> trim_path_end s = trim_path_end (butlast s)"
  using trim_path_end.simps [of s] by argo

lemma trim_path_end_stop:
  "\<not> (s \<noteq> ''/'' \<and> s \<noteq> [] \<and> (last s = CHR ''/'' \<or> suffix ''/.'' s)) \<Longrightarrow> trim_path_end s = s"
  using trim_path_end.simps [of s] by argo

lemma trim_path_end_length: "length (trim_path_end s) \<le> length s"
proof (induction s rule: trim_path_end.induct)
  case (1 s)
  show ?case
  proof (cases "s \<noteq> ''/'' \<and> s \<noteq> [] \<and> (last s = CHR ''/'' \<or> suffix ''/.'' s)")
    case True
    with 1(1) [OF True] trim_path_end_step [of s] show ?thesis by simp
  next
    case False
    then show ?thesis by (simp add: trim_path_end_stop)
  qed
qed

lemma trim_path_end_no_slash:
  "trim_path_end s \<noteq> ''/'' \<Longrightarrow> trim_path_end s \<noteq> [] \<Longrightarrow> last (trim_path_end s) \<noteq> CHR ''/''"
proof (induction s rule: trim_path_end.induct)
  case (1 s)
  show ?case
  proof (cases "s \<noteq> ''/'' \<and> s \<noteq> [] \<and> (last s = CHR ''/'' \<or> suffix ''/.'' s)")
    case True
    then have "trim_path_end s = trim_path_end (butlast s)" by (intro trim_path_end_step) auto
    with 1(1) [OF True] 1(2,3) show ?thesis by simp
  next
    case False
    then have "trim_path_end s = s" by (rule trim_path_end_stop)
    with False 1(2,3) show ?thesis by auto
  qed
qed

lemma length_dropWhile_less: "xs \<noteq> [] \<Longrightarrow> P (hd xs) \<Longrightarrow> length (dropWhile P xs) < length xs"
  using length_dropWhile_le [of P "tl xs"] by (cases xs) auto

lemma path_parent_shorter: "path_parent s = Some p \<Longrightarrow> length p < length s"
proof -
  assume *: "path_parent s = Some p"
  let ?t = "trim_path_end s"
  from * have t: "?t \<noteq> []" "?t \<noteq> ''/''" and p: "p = trim_path_end (rev (dropWhile (\<lambda>c. c \<noteq> CHR ''/'') (rev ?t)))"
    by (auto simp: path_parent_def Let_def split: if_splits)
  from t have "last ?t \<noteq> CHR ''/''" by (rule trim_path_end_no_slash [rotated])
  with t have "length (dropWhile (\<lambda>c. c \<noteq> CHR ''/'') (rev ?t)) < length (rev ?t)"
    by (intro length_dropWhile_less) (simp_all add: hd_rev)
  with trim_path_end_length [of "rev (dropWhile (\<lambda>c. c \<noteq> CHR ''/'') (rev ?t))"] trim_path_end_length [of s] p
  show ?thesis by simp
qed

section \<open>System calls on files\<close>

datatype fnode = FN_File string | FN_Dir

type_synonym call_faults = "(nat \<times> io_error) option list"

record helper_fs =
  hf_nodes :: "(string \<times> fnode) list"
  hf_faults :: call_faults

definition E_NOENT :: io_error where "E_NOENT = ''No such file or directory (os error 2)''"
definition E_EXIST :: io_error where "E_EXIST = ''File exists (os error 17)''"
definition E_NOTDIR :: io_error where "E_NOTDIR = ''Not a directory (os error 20)''"
definition E_ISDIR :: io_error where "E_ISDIR = ''Is a directory (os error 21)''"
definition E_INVAL :: io_error where "E_INVAL = ''Invalid argument (os error 22)''"

definition take_fault :: "helper_fs \<Rightarrow> (nat \<times> io_error) option \<times> helper_fs" where
  "take_fault fs =
     (case hf_faults fs of [] \<Rightarrow> (None, fs) | f # rest \<Rightarrow> (f, fs\<lparr>hf_faults := rest\<rparr>))"

definition fnode_at :: "'w helper_env \<Rightarrow> string \<Rightarrow> helper_fs \<Rightarrow> fnode option" where
  "fnode_at env path fs = map_of (hf_nodes fs) (he_locate env path)"

definition set_node :: "'w helper_env \<Rightarrow> string \<Rightarrow> fnode \<Rightarrow> helper_fs \<Rightarrow> helper_fs" where
  "set_node env path n fs = fs\<lparr>hf_nodes := AList.update (he_locate env path) n (hf_nodes fs)\<rparr>"

text \<open>What stands in the way of creating an entry at the path.\<close>

definition parent_error :: "'w helper_env \<Rightarrow> string \<Rightarrow> helper_fs \<Rightarrow> io_error option" where
  "parent_error env path fs =
     (case path_parent (he_locate env path) of
        None \<Rightarrow> None
      | Some p \<Rightarrow>
          (case map_of (hf_nodes fs) p of
             Some FN_Dir \<Rightarrow> None
           | Some (FN_File _) \<Rightarrow> Some E_NOTDIR
           | None \<Rightarrow> Some E_NOENT))"

text \<open>Opening for reading gives the bytes; reading from a directory fails later.\<close>

definition fs_open :: "'w helper_env \<Rightarrow> string \<Rightarrow> helper_fs \<Rightarrow> (io_error + fnode) \<times> helper_fs" where
  "fs_open env path fs =
     (case take_fault fs of
        (Some (_, e), fs1) \<Rightarrow> (Inl e, fs1)
      | (None, fs1) \<Rightarrow> ((case fnode_at env path fs1 of None \<Rightarrow> Inl E_NOENT | Some n \<Rightarrow> Inr n), fs1))"

definition fs_read_bytes :: "fnode \<Rightarrow> helper_fs \<Rightarrow> (io_error + string) \<times> helper_fs" where
  "fs_read_bytes n fs =
     (case take_fault fs of
        (Some (_, e), fs1) \<Rightarrow> (Inl e, fs1)
      | (None, fs1) \<Rightarrow> ((case n of FN_Dir \<Rightarrow> Inl E_ISDIR | FN_File b \<Rightarrow> Inr b), fs1))"

text \<open>\<open>std::fs::read\<close>.\<close>

definition fs_read :: "'w helper_env \<Rightarrow> string \<Rightarrow> helper_fs \<Rightarrow> (io_error + string) \<times> helper_fs" where
  "fs_read env path fs =
     (case fs_open env path fs of
        (Inl e, fs1) \<Rightarrow> (Inl e, fs1)
      | (Inr n, fs1) \<Rightarrow> fs_read_bytes n fs1)"

text \<open>
  Opening for writing or appending creates the file; \<open>old\<close> is what the file keeps of its content.
  A write that fails leaves what had been written.
\<close>

definition fs_open_write ::
  "'w helper_env \<Rightarrow> bool \<Rightarrow> string \<Rightarrow> helper_fs \<Rightarrow> (io_error + string) \<times> helper_fs" where
  "fs_open_write env appending path fs =
     (case take_fault fs of
        (Some (_, e), fs1) \<Rightarrow> (Inl e, fs1)
      | (None, fs1) \<Rightarrow>
          (case fnode_at env path fs1 of
             Some FN_Dir \<Rightarrow> (Inl E_ISDIR, fs1)
           | Some (FN_File b) \<Rightarrow>
               (let kept = (if appending then b else []) in (Inr kept, set_node env path (FN_File kept) fs1))
           | None \<Rightarrow>
               (case parent_error env path fs1 of
                  Some e \<Rightarrow> (Inl e, fs1)
                | None \<Rightarrow> (Inr [], set_node env path (FN_File []) fs1))))"

definition fs_write_all ::
  "'w helper_env \<Rightarrow> string \<Rightarrow> string \<Rightarrow> string \<Rightarrow> helper_fs \<Rightarrow> (io_error + unit) \<times> helper_fs" where
  "fs_write_all env path kept bytes fs =
     (case take_fault fs of
        (Some (n, e), fs1) \<Rightarrow> (Inl e, set_node env path (FN_File (kept @ take n bytes)) fs1)
      | (None, fs1) \<Rightarrow> (Inr (), set_node env path (FN_File (kept @ bytes)) fs1))"

text \<open>\<open>std::fs::write\<close>.\<close>

definition fs_write ::
  "'w helper_env \<Rightarrow> string \<Rightarrow> string \<Rightarrow> helper_fs \<Rightarrow> (io_error + unit) \<times> helper_fs" where
  "fs_write env path bytes fs =
     (case fs_open_write env False path fs of
        (Inl e, fs1) \<Rightarrow> (Inl e, fs1)
      | (Inr kept, fs1) \<Rightarrow> fs_write_all env path kept bytes fs1)"

definition fs_mkdir :: "'w helper_env \<Rightarrow> string \<Rightarrow> helper_fs \<Rightarrow> (io_error + unit) \<times> helper_fs" where
  "fs_mkdir env path fs =
     (case take_fault fs of
        (Some (_, e), fs1) \<Rightarrow> (Inl e, fs1)
      | (None, fs1) \<Rightarrow>
          (case fnode_at env path fs1 of
             Some _ \<Rightarrow> (Inl E_EXIST, fs1)
           | None \<Rightarrow>
               (case parent_error env path fs1 of
                  Some e \<Rightarrow> (Inl e, fs1)
                | None \<Rightarrow> (Inr (), set_node env path FN_Dir fs1))))"

definition is_dir_at :: "'w helper_env \<Rightarrow> string \<Rightarrow> helper_fs \<Rightarrow> bool" where
  "is_dir_at env path fs = (fnode_at env path fs = Some FN_Dir)"

text \<open>\<open>std::fs::create_dir_all\<close>.\<close>

function create_dir_all :: "'w helper_env \<Rightarrow> string \<Rightarrow> helper_fs \<Rightarrow> (io_error + unit) \<times> helper_fs" where
  "create_dir_all env path fs =
     (if path = [] then (Inr (), fs)
      else case fs_mkdir env path fs of
        (Inr _, fs1) \<Rightarrow> (Inr (), fs1)
      | (Inl e, fs1) \<Rightarrow>
          if e = E_NOENT then
            (case path_parent path of
               None \<Rightarrow> (Inl ''failed to create whole tree'', fs1)
             | Some p \<Rightarrow>
                 (case create_dir_all env p fs1 of
                    (Inl e2, fs2) \<Rightarrow> (Inl e2, fs2)
                  | (Inr _, fs2) \<Rightarrow>
                      (case fs_mkdir env path fs2 of
                         (Inr _, fs3) \<Rightarrow> (Inr (), fs3)
                       | (Inl e3, fs3) \<Rightarrow> if is_dir_at env path fs3 then (Inr (), fs3) else (Inl e3, fs3))))
          else if is_dir_at env path fs1 then (Inr (), fs1) else (Inl e, fs1))"
  by auto
termination
  by (relation "measure (\<lambda>(env, path, fs). length path)") (auto dest: path_parent_shorter)

declare create_dir_all.simps [simp del]

section \<open>Captured output\<close>

record capped_buffer =
  cb_data :: string
  cb_cap :: nat
  cb_truncated :: bool

definition capped_new :: "nat \<Rightarrow> capped_buffer" where
  "capped_new cap = \<lparr>cb_data = [], cb_cap = cap, cb_truncated = False\<rparr>"

definition capped_push :: "string \<Rightarrow> capped_buffer \<Rightarrow> capped_buffer" where
  "capped_push chunk b =
     (let room = cb_cap b - length (cb_data b); n = min room (length chunk) in
      b\<lparr>cb_data := cb_data b @ take n chunk, cb_truncated := cb_truncated b \<or> n < length chunk\<rparr>)"

text \<open>The chunks the pipe yields before it ends, fails, or the grace period is over.\<close>

definition drain_pipe :: "string list \<Rightarrow> capped_buffer \<Rightarrow> capped_buffer" where
  "drain_pipe chunks b = fold capped_push chunks b"

definition buffer_contents :: "capped_buffer \<Rightarrow> string \<times> bool" where
  "buffer_contents b = (from_utf8_lossy (cb_data b), cb_truncated b)"

section \<open>Running a command\<close>

definition EXEC_OUTPUT_CAP :: nat where
  "EXEC_OUTPUT_CAP = 1024 * 1024"

text \<open>
  What the surroundings decide of a command: whether the shell starts, what it prints and does to the
  files, and which branch of the \<open>select!\<close> ends the wait for it.
\<close>

datatype exec_end =
    EE_Cancelled
  | EE_Exited "i32 option"
  | EE_WaitFailed io_error
  | EE_TimedOut

record exec_run =
  er_spawn :: "io_error option"
  er_stdio :: bool
  er_stdout :: "string list"
  er_stderr :: "string list"
  er_end :: exec_end
  er_effect :: "helper_fs \<Rightarrow> helper_fs"

fun exec_status :: "exec_end \<Rightarrow> string + (i32 \<times> bool \<times> bool)" where
  "exec_status EE_Cancelled = Inr (-1, False, True)"
| "exec_status (EE_Exited code) = Inr (case code of Some c \<Rightarrow> c | None \<Rightarrow> -1, False, False)"
| "exec_status (EE_WaitFailed e) = Inl (''wait for child failed: '' @ e)"
| "exec_status EE_TimedOut = Inr (-1, True, False)"

definition exec_result :: "exec_run \<Rightarrow> string + helper_payload" where
  "exec_result r =
     (case er_spawn r of
        Some e \<Rightarrow> Inl (''cannot spawn shell: '' @ e)
      | None \<Rightarrow>
          if \<not> er_stdio r then Inl ''child stdio unavailable''
          else case exec_status (er_end r) of
            Inl e \<Rightarrow> Inl e
          | Inr (exit_code, timed_out, cancelled) \<Rightarrow>
              (let (out, out_truncated) = buffer_contents (drain_pipe (er_stdout r) (capped_new EXEC_OUTPUT_CAP));
                   (err, err_truncated) = buffer_contents (drain_pipe (er_stderr r) (capped_new EXEC_OUTPUT_CAP)) in
               Inr (Pl_Exec exit_code out err timed_out (out_truncated \<or> err_truncated) cancelled)))"

section \<open>File operations\<close>

definition READ_FILE_CAP :: u64 where
  "READ_FILE_CAP = 5 * 1024 * 1024"

definition helper_read_file ::
  "'w helper_env \<Rightarrow> string \<Rightarrow> u64 option \<Rightarrow> u64 option \<Rightarrow> helper_fs \<Rightarrow> (string + helper_payload) \<times> helper_fs" where
  "helper_read_file env path offset limit fs =
     (case fs_open env path fs of
        (Inl e, fs1) \<Rightarrow> (Inl (''cannot open '' @ path @ '': '' @ e), fs1)
      | (Inr n, fs1) \<Rightarrow>
          (let start = (case offset of Some k \<Rightarrow> k | None \<Rightarrow> 0);
               (sought, fs2) =
                 (if start > 0 then
                    (case take_fault fs1 of
                       (Some (_, e), f) \<Rightarrow> (Some e, f)
                     | (None, f) \<Rightarrow> (if start \<ge> 2 ^ 63 then Some E_INVAL else None, f))
                  else (None, fs1)) in
           case sought of
             Some e \<Rightarrow> (Inl (''cannot seek in '' @ path @ '': '' @ e), fs2)
           | None \<Rightarrow>
               (let cap = (case limit of None \<Rightarrow> READ_FILE_CAP | Some l \<Rightarrow> min l READ_FILE_CAP) in
                case fs_read_bytes n fs2 of
                  (Inl e, fs3) \<Rightarrow> (Inl (''cannot read '' @ path @ '': '' @ e), fs3)
                | (Inr bytes, fs3) \<Rightarrow>
                    (let content = take (unat (cap + 1)) (drop (unat start) bytes);
                         truncated = length content > unat cap in
                     (Inr (Pl_File (b64 env (if truncated then take (unat cap) content else content)) truncated), fs3)))))"

definition helper_write_file ::
  "'w helper_env \<Rightarrow> string \<Rightarrow> string \<Rightarrow> bool \<Rightarrow> helper_fs \<Rightarrow> (string + helper_payload) \<times> helper_fs" where
  "helper_write_file env path content_b64 appending fs =
     (case unb64 env content_b64 of
        Inl e \<Rightarrow> (Inl e, fs)
      | Inr content \<Rightarrow>
          (let (made, fs1) =
                 (case path_parent path of
                    None \<Rightarrow> (Inr (), fs)
                  | Some p \<Rightarrow>
                      if p = [] then (Inr (), fs)
                      else (case create_dir_all env p fs of
                              (Inl e, f) \<Rightarrow> (Inl (''cannot create directory '' @ p @ '': '' @ e), f)
                            | (Inr _, f) \<Rightarrow> (Inr (), f)));
               written = Inr (Pl_Written (of_nat (length content))) in
           case made of
             Inl e \<Rightarrow> (Inl e, fs1)
           | Inr _ \<Rightarrow>
               if appending then
                 (case fs_open_write env True path fs1 of
                    (Inl e, fs2) \<Rightarrow> (Inl (''cannot open '' @ path @ '' for appending: '' @ e), fs2)
                  | (Inr kept, fs2) \<Rightarrow>
                      (case fs_write_all env path kept content fs2 of
                         (Inl e, fs3) \<Rightarrow> (Inl (''cannot write '' @ path @ '': '' @ e), fs3)
                       | (Inr _, fs3) \<Rightarrow> (written, fs3)))
               else
                 (case fs_write env path content fs1 of
                    (Inl e, fs2) \<Rightarrow> (Inl (''cannot write '' @ path @ '': '' @ e), fs2)
                  | (Inr _, fs2) \<Rightarrow> (written, fs2))))"

text \<open>\<open>matches(pat).count()\<close> and \<open>replacen(pat, by, 1)\<close>.\<close>

function count_matches :: "string \<Rightarrow> string \<Rightarrow> nat" where
  "count_matches pat [] = 0"
| "count_matches pat (c # cs) =
     (if pat \<noteq> [] \<and> prefix pat (c # cs) then Suc (count_matches pat (drop (length pat) (c # cs)))
      else count_matches pat cs)"
  by pat_completeness auto
termination
  by (relation "measure (\<lambda>(pat, s). length s)") (auto simp: neq_Nil_conv)

fun replace_first :: "string \<Rightarrow> string \<Rightarrow> string \<Rightarrow> string" where
  "replace_first pat by_s [] = []"
| "replace_first pat by_s (c # cs) =
     (if prefix pat (c # cs) then by_s @ drop (length pat) (c # cs) else c # replace_first pat by_s cs)"

definition helper_edit_file ::
  "'w helper_env \<Rightarrow> string \<Rightarrow> string \<Rightarrow> string \<Rightarrow> bool \<Rightarrow> helper_fs \<Rightarrow> (string + helper_payload) \<times> helper_fs" where
  "helper_edit_file env path old new replace_all fs =
     (if old = [] then (Inl ''old string is empty'', fs)
      else case fs_read env path fs of
        (Inl e, fs1) \<Rightarrow> (Inl (''cannot read '' @ path @ '': '' @ e), fs1)
      | (Inr bytes, fs1) \<Rightarrow>
          (case from_utf8 bytes of
             None \<Rightarrow> (Inl (path @ '' is not valid UTF-8 text''), fs1)
           | Some content \<Rightarrow>
               (let count = of_nat (count_matches old content) :: u64 in
                if count = 0 then (Inl ''old string not found'', fs1)
                else if count > 1 \<and> \<not> replace_all then
                  (Inl (''old string matches '' @ nat_to_string (unat count) @
                     '' times; set replace_all to change every occurrence''), fs1)
                else
                  (let (updated, replacements) =
                         (if replace_all then (str_replace old new content, count) else (replace_first old new content, 1)) in
                   case fs_write env path updated fs1 of
                     (Inl e, fs2) \<Rightarrow> (Inl (''cannot write '' @ path @ '': '' @ e), fs2)
                   | (Inr _, fs2) \<Rightarrow> (Inr (Pl_Edited replacements), fs2)))))"

text \<open>
  The entries of a directory in the order the file system lists them; an entry whose metadata cannot
  be read counts as an empty file.
\<close>

fun list_entries ::
  "'w helper_env \<Rightarrow> string \<Rightarrow> (string \<times> fnode) list \<Rightarrow> helper_fs \<Rightarrow> (string + dir_entry list) \<times> helper_fs" where
  "list_entries env path [] fs =
     (case take_fault fs of
        (Some (_, e), fs1) \<Rightarrow> (Inl (''cannot list '' @ path @ '': '' @ e), fs1)
      | (None, fs1) \<Rightarrow> (Inr [], fs1))"
| "list_entries env path ((p, n) # rest) fs =
     (case take_fault fs of
        (Some (_, e), fs1) \<Rightarrow> (Inl (''cannot list '' @ path @ '': '' @ e), fs1)
      | (None, fs1) \<Rightarrow>
          (let (stat, fs2) = take_fault fs1;
               entry = (case (stat, n) of
                   (Some _, _) \<Rightarrow> \<lparr>de_name = from_utf8_lossy (path_name p), de_is_dir = False, de_size = 0\<rparr>
                 | (None, FN_File b) \<Rightarrow>
                     \<lparr>de_name = from_utf8_lossy (path_name p), de_is_dir = False, de_size = of_nat (length b)\<rparr>
                 | (None, FN_Dir) \<Rightarrow>
                     \<lparr>de_name = from_utf8_lossy (path_name p), de_is_dir = True, de_size = he_dir_size env p\<rparr>) in
           case list_entries env path rest fs2 of
             (Inl e, fs3) \<Rightarrow> (Inl e, fs3)
           | (Inr es, fs3) \<Rightarrow> (Inr (entry # es), fs3)))"

definition helper_list_dir ::
  "'w helper_env \<Rightarrow> string \<Rightarrow> helper_fs \<Rightarrow> (string + helper_payload) \<times> helper_fs" where
  "helper_list_dir env path fs =
     (case take_fault fs of
        (Some (_, e), fs1) \<Rightarrow> (Inl (''cannot list '' @ path @ '': '' @ e), fs1)
      | (None, fs1) \<Rightarrow>
          (case fnode_at env path fs1 of
             None \<Rightarrow> (Inl (''cannot list '' @ path @ '': '' @ E_NOENT), fs1)
           | Some (FN_File _) \<Rightarrow> (Inl (''cannot list '' @ path @ '': '' @ E_NOTDIR), fs1)
           | Some FN_Dir \<Rightarrow>
               (case list_entries env path
                       (filter (\<lambda>(p, _). path_parent p = Some (he_locate env path)) (hf_nodes fs1)) fs1 of
                  (Inl e, fs2) \<Rightarrow> (Inl e, fs2)
                | (Inr es, fs2) \<Rightarrow> (Inr (Pl_Dir (sort_key de_name es)), fs2))))"

section \<open>Fetching\<close>

definition build_client :: "'w helper_env \<Rightarrow> fetch_config \<Rightarrow> helper_fs \<Rightarrow> (string + unit) \<times> helper_fs" where
  "build_client env config fs =
     (case (case fc_proxy_url config of
              Some url \<Rightarrow> map_option (\<lambda>e. ''invalid proxy URL '' @ debug_str url @ '': '' @ e) (he_proxy env url)
            | None \<Rightarrow> None) of
        Some e \<Rightarrow> (Inl e, fs)
      | None \<Rightarrow>
          (let (trusted, fs1) =
                 (case fc_ca_cert_path config of
                    None \<Rightarrow> (Inr (), fs)
                  | Some path \<Rightarrow>
                      (case fs_read env path fs of
                         (Inl e, f) \<Rightarrow> (Inl (''cannot read CA certificate '' @ path @ '': '' @ e), f)
                       | (Inr pem, f) \<Rightarrow>
                           (case he_certificate env pem of
                              Some e \<Rightarrow> (Inl (''invalid CA certificate '' @ path @ '': '' @ e), f)
                            | None \<Rightarrow> (Inr (), f)))) in
           case trusted of
             Inl e \<Rightarrow> (Inl e, fs1)
           | Inr _ \<Rightarrow>
               (case he_client env of
                  Some e \<Rightarrow> (Inl (''cannot build HTTP client: '' @ e), fs1)
                | None \<Rightarrow> (Inr (), fs1))))"

fun check_headers :: "'w helper_env \<Rightarrow> (string \<times> string) list \<Rightarrow> string option" where
  "check_headers env [] = None"
| "check_headers env ((name, v) # hs) =
     (if \<not> he_header_name env name then Some (''invalid header name '' @ debug_str name)
      else if \<not> he_header_value env v then Some (''invalid value for header '' @ debug_str name)
      else check_headers env hs)"

text \<open>The body up to the cap; the chunk that goes beyond it ends the reading.\<close>

fun read_body :: "nat \<Rightarrow> string \<Rightarrow> string list \<Rightarrow> string option \<Rightarrow> string + (string \<times> bool)" where
  "read_body cap body [] failure =
     (case failure of Some e \<Rightarrow> Inl (''fetch body failed: '' @ e) | None \<Rightarrow> Inr (body, False))"
| "read_body cap body (chunk # chunks) failure =
     (let room = cap - length body in
      if length chunk > room then Inr (body @ take room chunk, True)
      else read_body cap (body @ chunk) chunks failure)"

record 'w helper_state =
  hs_fs :: helper_fs
  hs_client :: bool
  hs_net :: 'w

text \<open>The client is built at most once; a failure to build it is tried again by the next request.\<close>

definition fetch ::
  "'w helper_env \<Rightarrow> fetch_config \<Rightarrow> string \<Rightarrow> string \<Rightarrow> (string \<times> string) list \<Rightarrow> string option \<Rightarrow> u64 \<Rightarrow>
   'w helper_state \<Rightarrow> (string + helper_payload) \<times> 'w helper_state" where
  "fetch env config url meth headers body_b64 max_bytes st =
     (let (built, st1) =
            (if hs_client st then (Inr (), st)
             else case build_client env config (hs_fs st) of
               (Inl e, f) \<Rightarrow> (Inl e, st\<lparr>hs_fs := f\<rparr>)
             | (Inr _, f) \<Rightarrow> (Inr (), st\<lparr>hs_fs := f, hs_client := True\<rparr>)) in
      case built of
        Inl e \<Rightarrow> (Inl e, st1)
      | Inr _ \<Rightarrow>
          if \<not> he_method env meth then (Inl (''invalid HTTP method '' @ debug_str meth), st1)
          else case check_headers env headers of
            Some e \<Rightarrow> (Inl e, st1)
          | None \<Rightarrow>
              (case (case body_b64 of None \<Rightarrow> Inr None
                     | Some b \<Rightarrow> (case unb64 env b of Inl e \<Rightarrow> Inl e | Inr bytes \<Rightarrow> Inr (Some bytes))) of
                 Inl e \<Rightarrow> (Inl e, st1)
               | Inr body \<Rightarrow>
                   (case he_send env \<lparr>hx_method = meth, hx_url = url, hx_headers = headers, hx_body = body\<rparr> (hs_net st1) of
                      (Inl e, w) \<Rightarrow> (Inl (''fetch failed: '' @ e), st1\<lparr>hs_net := w\<rparr>)
                    | (Inr a, w) \<Rightarrow>
                        (case read_body (unat max_bytes) [] (ha_chunks a) (ha_failure a) of
                           Inl e \<Rightarrow> (Inl e, st1\<lparr>hs_net := w\<rparr>)
                         | Inr (bytes, truncated) \<Rightarrow>
                             (Inr (Pl_Fetched (ha_status a)
                                (map (\<lambda>(name, v). (name, from_utf8_lossy v)) (ha_headers a))
                                (b64 env bytes) truncated), st1\<lparr>hs_net := w\<rparr>)))))"

section \<open>One operation\<close>

text \<open>
  \<open>handle_op\<close> for a request that runs to its end without another in between. \<open>run\<close> is what the command
  of an \<open>Exec\<close> does; the cancellation of a request that is still running is in the session theory, and
  here the target of a \<open>Cancel\<close> has always finished.
\<close>

definition on_files ::
  "(helper_fs \<Rightarrow> 'r \<times> helper_fs) \<Rightarrow> 'w helper_state \<Rightarrow> 'r \<times> 'w helper_state" where
  "on_files f st = (case f (hs_fs st) of (r, fs) \<Rightarrow> (r, st\<lparr>hs_fs := fs\<rparr>))"

fun handle_op ::
  "'w helper_env \<Rightarrow> fetch_config \<Rightarrow> exec_run \<Rightarrow> helper_op \<Rightarrow> 'w helper_state \<Rightarrow>
   (string + helper_payload) \<times> 'w helper_state" where
  "handle_op env config run Op_Hello st = (Inr (Pl_Hello (he_version env) (he_pid env)), st)"
| "handle_op env config run (Op_Exec command cwd vars timeout_ms) st =
     (exec_result run, if er_spawn run = None then st\<lparr>hs_fs := er_effect run (hs_fs st)\<rparr> else st)"
| "handle_op env config run (Op_Cancel target) st =
     (Inl (''no cancellable request with id '' @ nat_to_string (unat target)), st)"
| "handle_op env config run (Op_ReadFile path offset limit) st = on_files (helper_read_file env path offset limit) st"
| "handle_op env config run (Op_WriteFile path content appending) st =
     on_files (helper_write_file env path content appending) st"
| "handle_op env config run (Op_EditFile path old new replace_all) st =
     on_files (helper_edit_file env path old new replace_all) st"
| "handle_op env config run (Op_ListDir path) st = on_files (helper_list_dir env path) st"
| "handle_op env config run (Op_Fetch url meth headers body max_bytes) st =
     fetch env config url meth headers body max_bytes st"
| "handle_op env config run Op_Shutdown st = (Inr Pl_Ack, st)"

end
