(* ===== verification/Silo_Edit.thy ===== *)
theory Silo_Edit
  imports Silo_Helper
begin

text \<open>
  Properties of the helper's operations: an edit replaces exactly the occurrences a left-to-right
  search finds, and the captured output of a command, the body of a fetched page and a read file are
  cut exactly at their caps.
\<close>

section \<open>Splitting at occurrences\<close>

text \<open>
  The text between the occurrences a search from the left finds. A part ends where the pattern first
  occurs: it does not occur earlier in the part followed by the pattern.
\<close>

function split_on :: "string \<Rightarrow> string \<Rightarrow> string list" where
  "split_on pat [] = [[]]"
| "split_on pat (c # cs) =
     (if pat \<noteq> [] \<and> prefix pat (c # cs) then [] # split_on pat (drop (length pat) (c # cs))
      else (case split_on pat cs of [] \<Rightarrow> [[c]] | l # ls \<Rightarrow> (c # l) # ls))"
  by pat_completeness auto
termination
  by (relation "measure (\<lambda>(pat, s). length s)") (auto simp: neq_Nil_conv)

definition ends_at_first :: "string \<Rightarrow> string \<Rightarrow> bool" where
  "ends_at_first pat p = (\<forall>k<length p. \<not> prefix pat (drop k (p @ pat)))"

lemma split_on_not_Nil [simp]: "split_on pat s \<noteq> []"
  by (induction pat s rule: split_on.induct) (auto split: list.splits)

lemma join_split_on: "join_with pat (split_on pat s) = s"
proof (induction pat s rule: split_on.induct)
  case (2 pat c cs)
  show ?case
  proof (cases "pat \<noteq> [] \<and> prefix pat (c # cs)")
    case True
    let ?r = "drop (length pat) (c # cs)"
    have r: "c # cs = pat @ ?r" using True by (metis prefix_def append_eq_conv_conj)
    obtain l ls where l: "split_on pat ?r = l # ls" by (cases "split_on pat ?r") auto
    have "join_with pat (split_on pat (c # cs)) = pat @ join_with pat (split_on pat ?r)"
      using True l by simp
    with 2(1) [OF True] r show ?thesis by simp
  next
    case False
    obtain l ls where l: "split_on pat cs = l # ls" by (cases "split_on pat cs") auto
    with False 2(2) show ?thesis by (cases ls) auto
  qed
qed simp

lemma split_on_count: "length (split_on pat s) = Suc (count_matches pat s)"
  by (induction pat s rule: split_on.induct) (auto split: list.splits)

lemma str_replace_split_on: "str_replace pat v s = join_with v (split_on pat s)"
proof (induction pat s rule: split_on.induct)
  case (2 pat c cs)
  show ?case
  proof (cases "pat \<noteq> [] \<and> prefix pat (c # cs)")
    case True
    obtain l ls where "split_on pat (drop (length pat) (c # cs)) = l # ls"
      by (cases "split_on pat (drop (length pat) (c # cs))") auto
    with True 2(1) show ?thesis by simp
  next
    case False
    obtain l ls where l: "split_on pat cs = l # ls" by (cases "split_on pat cs") auto
    with False 2(2) show ?thesis by (cases ls) auto
  qed
qed simp

lemma replace_first_split_on:
  assumes "pat \<noteq> []" and "split_on pat s = p # q # qs"
  shows "replace_first pat v s = p @ v @ join_with pat (q # qs)"
  using assms
proof (induction pat s arbitrary: p rule: split_on.induct)
  case (2 pat c cs)
  show ?case
  proof (cases "prefix pat (c # cs)")
    case True
    with 2(3,4) have "p = []" "split_on pat (drop (length pat) (c # cs)) = q # qs" by auto
    with True join_split_on [of pat "drop (length pat) (c # cs)"] show ?thesis by simp
  next
    case False
    with 2(3,4) obtain l where "p = c # l" "split_on pat cs = l # q # qs"
      by (auto split: list.splits)
    with False 2(2) [of l] 2(3) show ?thesis by simp
  qed
qed simp

lemma split_on_leftmost:
  assumes "pat \<noteq> []"
  shows "(\<forall>p\<in>set (butlast (split_on pat s)). ends_at_first pat p) \<and> \<not> sublist pat (last (split_on pat s))"
  using assms
proof (induction pat s rule: split_on.induct)
  case (2 pat c cs)
  show ?case
  proof (cases "prefix pat (c # cs)")
    case True
    with 2(1,3) show ?thesis by (auto simp: ends_at_first_def)
  next
    case False
    obtain l ls where l: "split_on pat cs = l # ls" by (cases "split_on pat cs") auto
    have cs: "cs = join_with pat (l # ls)" using join_split_on [of pat cs] l by simp
    have IH: "(\<forall>p\<in>set (butlast (l # ls)). ends_at_first pat p) \<and> \<not> sublist pat (last (l # ls))"
      using 2(2,3) False l by simp
    show ?thesis
    proof (cases ls)
      case Nil
      with False l cs IH show ?thesis by (simp add: sublist_Cons_right)
    next
      case (Cons m ms)
      have "\<not> prefix pat (c # l @ pat)"
      proof
        assume "prefix pat (c # l @ pat)"
        moreover have "prefix (c # l @ pat) (c # cs)" using cs Cons by (auto simp: prefix_def)
        ultimately show False using False prefix_order.trans by blast
      qed
      with IH Cons have "ends_at_first pat (c # l)"
        by (auto simp: ends_at_first_def less_Suc_eq_0_disj)
      with False l IH Cons show ?thesis by auto
    qed
  qed
qed simp

section \<open>Edits\<close>

lemma set_node_twice [simp]: "set_node env path n (set_node env path m fs) = set_node env path n fs"
proof -
  have "AList.update k n (AList.update k m xs) = AList.update k n xs" for k xs by (induction xs) auto
  then show ?thesis by (simp add: set_node_def)
qed

lemma fnode_at_set_node [simp]: "fnode_at env path (set_node env path n fs) = Some n"
  by (simp add: fnode_at_def set_node_def update_conv')

lemma set_node_faults [simp]: "hf_faults (set_node env path n fs) = hf_faults fs"
  by (simp add: set_node_def)

lemma take_fault_none [simp]: "hf_faults fs = [] \<Longrightarrow> take_fault fs = (None, fs)"
  by (simp add: take_fault_def)

lemma fs_read_clean:
  "hf_faults fs = [] \<Longrightarrow> fnode_at env path fs = Some (FN_File b) \<Longrightarrow> fs_read env path fs = (Inr b, fs)"
  by (simp add: fs_read_def fs_open_def fs_read_bytes_def)

lemma fs_write_clean:
  "hf_faults fs = [] \<Longrightarrow> fnode_at env path fs = Some (FN_File b) \<Longrightarrow>
   fs_write env path bytes fs = (Inr (), set_node env path (FN_File bytes) fs)"
  by (simp add: fs_write_def fs_open_write_def fs_write_all_def)

lemma count_matches_le: "count_matches pat s \<le> length s"
proof (induction pat s rule: count_matches.induct)
  case (2 pat c cs)
  show ?case
  proof (cases "pat \<noteq> [] \<and> prefix pat (c # cs)")
    case True
    then have "length (drop (length pat) (c # cs)) \<le> length cs" by (cases pat) auto
    with True 2(1) show ?thesis by simp
  next
    case False
    then show ?thesis using 2(2) [OF False] unfolding count_matches.simps if_not_P [OF False] by simp
  qed
qed simp

lemma edit_file_clean:
  assumes "hf_faults fs = []" and "fnode_at env path fs = Some (FN_File b)" and "old \<noteq> []"
    and "length b < 2 ^ 64"
  shows "helper_edit_file env path old new replace_all fs =
      (let parts = split_on old b; n = length parts - 1 in
       if \<not> utf8_valid b then (Inl (path @ '' is not valid UTF-8 text''), fs)
       else if n = 0 then (Inl ''old string not found'', fs)
       else if n > 1 \<and> \<not> replace_all then
         (Inl (''old string matches '' @ nat_to_string n @ '' times; set replace_all to change every occurrence''), fs)
       else (Inr (Pl_Edited (of_nat n)), set_node env path (FN_File (join_with new parts)) fs))"
proof -
  let ?n = "count_matches old b"
  have bound: "?n < 2 ^ 64" using count_matches_le [of old b] assms(4) by simp
  then have u: "unat (of_nat ?n :: u64) = ?n" by (rule unat_of_nat_u64)
  have zero: "(of_nat ?n :: u64) = 0 \<longleftrightarrow> ?n = 0" by (simp add: unat_eq_0 [symmetric] u)
  have one: "(of_nat ?n :: u64) > 1 \<longleftrightarrow> ?n > 1" by (simp add: word_less_nat_alt u)
  have single: "replace_first old new b = join_with new (split_on old b)" if one_match: "?n = 1"
  proof -
    from one_match split_on_count [of old b] obtain p q where "split_on old b = [p, q]"
      by (auto simp: length_Suc_conv)
    with replace_first_split_on [OF assms(3), of b p q "[]" new] show ?thesis by simp
  qed
  have edited: "(if replace_all then (str_replace old new b, of_nat ?n) else (replace_first old new b, 1)) =
      (join_with new (split_on old b), of_nat ?n :: u64)" if "\<not> (?n > 1 \<and> \<not> replace_all)" "?n \<noteq> 0"
  proof (cases replace_all)
    case False
    with that have "?n = 1" by linarith
    with False single show ?thesis by simp
  qed (simp add: str_replace_split_on)
  show ?thesis
    using assms(3) edited
    by (simp add: helper_edit_file_def fs_read_clean [OF assms(1,2)] fs_write_clean [OF assms(1,2)] from_utf8_def
        Let_def zero one u split_beta split_on_count)
qed

text \<open>
  C36: An edit of a text file when no system call fails. Let the parts be the text between the occurrences
  a search from the left finds; joined with the old string they are the file, each but the last ends
  where the old string first occurs, and the last has no occurrence. Without an occurrence, or with
  several and \<open>replace_all\<close> not set, the edit is refused and the file is left alone; otherwise the file
  becomes the parts joined with the new string, and the number of replacements is reported.
\<close>

theorem edit_file_exact:
  assumes "hf_faults fs = []" and "fnode_at env path fs = Some (FN_File b)" and "old \<noteq> []"
    and "length b < 2 ^ 64"
  shows "let parts = split_on old b; n = length parts - 1 in
    join_with old parts = b \<and> (\<forall>p\<in>set (butlast parts). ends_at_first old p) \<and> \<not> sublist old (last parts) \<and>
    helper_edit_file env path old new replace_all fs =
      (if \<not> utf8_valid b then (Inl (path @ '' is not valid UTF-8 text''), fs)
       else if n = 0 then (Inl ''old string not found'', fs)
       else if n > 1 \<and> \<not> replace_all then
         (Inl (''old string matches '' @ nat_to_string n @ '' times; set replace_all to change every occurrence''), fs)
       else (Inr (Pl_Edited (of_nat n)), set_node env path (FN_File (join_with new parts)) fs))"
  using split_on_leftmost [OF assms(3), of b]
  by (simp add: edit_file_clean [OF assms] Let_def join_split_on)

definition demo_env :: "unit helper_env" where
  "demo_env =
     \<lparr>he_encode = (\<lambda>b. ''b64:'' @ b), he_decode = (\<lambda>s. case strip_prefix ''b64:'' s of Some b \<Rightarrow> Inr b | None \<Rightarrow> Inl ''bad''),
      he_version = ''1'', he_pid = 7, he_locate = (\<lambda>p. p), he_dir_size = (\<lambda>_. 4096), he_proxy = (\<lambda>_. None),
      he_certificate = (\<lambda>_. None), he_client = None, he_method = (\<lambda>_. True), he_header_name = (\<lambda>_. True),
      he_header_value = (\<lambda>_. True),
      he_send = (\<lambda>_ w. (Inr \<lparr>ha_status = 200, ha_headers = [], ha_chunks = [''pa'', ''ge''], ha_failure = None\<rparr>, w))\<rparr>"

definition demo_fs :: helper_fs where
  "demo_fs = \<lparr>hf_nodes = [(''/'', FN_Dir), (''/w'', FN_Dir), (''/w/a'', FN_File ''aXbXc'')], hf_faults = []\<rparr>"

theorem edit_file_exact_witness:
  "helper_edit_file demo_env ''/w/a'' ''X'' ''--'' True demo_fs =
     (Inr (Pl_Edited 2), set_node demo_env ''/w/a'' (FN_File ''a--b--c'') demo_fs) \<and>
   helper_edit_file demo_env ''/w/a'' ''X'' ''--'' False demo_fs =
     (Inl ''old string matches 2 times; set replace_all to change every occurrence'', demo_fs)"
proof -
  have split: "split_on ''X'' ''aXbXc'' = [''a'', ''b'', ''c'']" by code_simp
  have v: "utf8_valid ''aXbXc''" by code_simp
  have two: "nat_to_string (Suc (Suc 0)) = ''2''" by code_simp
  have at: "fnode_at demo_env ''/w/a'' demo_fs = Some (FN_File ''aXbXc'')"
    by (simp add: fnode_at_def demo_env_def demo_fs_def)
  have ok: "hf_faults demo_fs = []" by (simp add: demo_fs_def)
  note edit = edit_file_exact [OF ok at, of "''X''" "''--''", unfolded split Let_def]
  show ?thesis using edit [of True] edit [of False] v two by simp
qed

section \<open>Caps\<close>

text \<open>The buffer after the bytes \<open>xs\<close>, however they were cut into chunks.\<close>

definition capped_at :: "nat \<Rightarrow> string \<Rightarrow> capped_buffer" where
  "capped_at cap xs = \<lparr>cb_data = take cap xs, cb_cap = cap, cb_truncated = (length xs > cap)\<rparr>"

lemma capped_push_at: "capped_push chunk (capped_at cap xs) = capped_at cap (xs @ chunk)"
  by (auto simp: capped_push_def capped_at_def Let_def min_def)

lemma drain_pipe_at: "drain_pipe chunks (capped_at cap xs) = capped_at cap (xs @ concat chunks)"
  unfolding drain_pipe_def by (induction chunks arbitrary: xs) (simp_all add: capped_push_at)

lemma drain_pipe_new: "drain_pipe chunks (capped_new cap) = capped_at cap (concat chunks)"
  using drain_pipe_at [of chunks cap "[]"] by (simp add: capped_at_def capped_new_def)

lemma read_body_exact:
  "length body \<le> cap \<Longrightarrow>
   read_body cap body chunks failure =
     (let whole = body @ concat chunks in
      if length whole > cap then Inr (take cap whole, True)
      else case failure of Some e \<Rightarrow> Inl (''fetch body failed: '' @ e) | None \<Rightarrow> Inr (whole, False))"
proof (induction chunks arbitrary: body)
  case (Cons chunk chunks)
  show ?case
  proof (cases "length chunk > cap - length body")
    case True
    with Cons.prems show ?thesis by (auto simp: Let_def)
  next
    case False
    with Cons show ?thesis by (auto simp: Let_def split: option.splits)
  qed
qed simp

lemma cap_plus_one: "cap \<le> READ_FILE_CAP \<Longrightarrow> unat (cap + 1) = Suc (unat cap)"
proof -
  assume "cap \<le> READ_FILE_CAP"
  then have "unat cap \<le> unat READ_FILE_CAP" by (simp add: word_le_nat_alt)
  then have "unat cap + 1 < 2 ^ 64" by (simp add: READ_FILE_CAP_def)
  then show ?thesis by (simp add: unat_word_ariths)
qed

text \<open>
  What comes back from the sandbox is cut exactly at its cap. A command's standard output and error
  are the first mebibyte of what it wrote, whatever chunks the pipes delivered, and the result is
  marked truncated exactly when one of them was longer. A fetched body is what arrived up to the
  requested number of bytes, and a transfer that fails is an error only when the cap was not exceeded
  before. Reading a file gives the bytes from the offset up to the smaller of the limit and five
  mebibytes, marked truncated exactly when bytes are left.
\<close>

theorem results_cut_at_caps:
  fixes max_bytes :: u64
  assumes "er_spawn r = None" and "er_stdio r" and "exec_status (er_end r) = Inr (code, timed_out, cancelled)"
    and "hf_faults fs = []" and "fnode_at env path fs = Some (FN_File b)" and "start < 2 ^ 63"
  shows "exec_result r =
      Inr (Pl_Exec code (from_utf8_lossy (take EXEC_OUTPUT_CAP (concat (er_stdout r))))
        (from_utf8_lossy (take EXEC_OUTPUT_CAP (concat (er_stderr r)))) timed_out
        (length (concat (er_stdout r)) > EXEC_OUTPUT_CAP \<or> length (concat (er_stderr r)) > EXEC_OUTPUT_CAP) cancelled) \<and>
    read_body (unat max_bytes) [] chunks failure =
      (if length (concat chunks) > unat max_bytes then Inr (take (unat max_bytes) (concat chunks), True)
       else case failure of Some e \<Rightarrow> Inl (''fetch body failed: '' @ e) | None \<Rightarrow> Inr (concat chunks, False)) \<and>
    helper_read_file env path (Some start) (Some limit) fs =
      (let cap = unat (min limit READ_FILE_CAP) in
       (Inr (Pl_File (b64 env (take cap (drop (unat start) b))) (length b > unat start + cap)), fs))"
proof (intro conjI)
  show "exec_result r =
      Inr (Pl_Exec code (from_utf8_lossy (take EXEC_OUTPUT_CAP (concat (er_stdout r))))
        (from_utf8_lossy (take EXEC_OUTPUT_CAP (concat (er_stderr r)))) timed_out
        (length (concat (er_stdout r)) > EXEC_OUTPUT_CAP \<or> length (concat (er_stderr r)) > EXEC_OUTPUT_CAP) cancelled)"
    using assms(1-3) by (simp add: exec_result_def drain_pipe_new buffer_contents_def capped_at_def)
  show "read_body (unat max_bytes) [] chunks failure =
      (if length (concat chunks) > unat max_bytes then Inr (take (unat max_bytes) (concat chunks), True)
       else case failure of Some e \<Rightarrow> Inl (''fetch body failed: '' @ e) | None \<Rightarrow> Inr (concat chunks, False))"
    using read_body_exact [of "[]"] by (simp add: Let_def)
  have cap: "unat (min limit READ_FILE_CAP + 1) = Suc (unat (min limit READ_FILE_CAP))"
    by (rule cap_plus_one) simp
  have low: "\<not> start \<ge> 2 ^ 63" using assms(6) by (simp add: not_le)
  have read: "helper_read_file env path (Some start) (Some limit) fs =
      (let cap = min limit READ_FILE_CAP; content = take (unat (cap + 1)) (drop (unat start) b);
           truncated = length content > unat cap in
       (Inr (Pl_File (b64 env (if truncated then take (unat cap) content else content)) truncated), fs))"
    using assms(4,5) low by (simp add: helper_read_file_def fs_open_def fs_read_bytes_def Let_def)
  show "helper_read_file env path (Some start) (Some limit) fs =
      (let cap = unat (min limit READ_FILE_CAP) in
       (Inr (Pl_File (b64 env (take cap (drop (unat start) b))) (length b > unat start + cap)), fs))"
    unfolding read Let_def cap by (auto simp: min_def)
qed

theorem results_cut_at_caps_witness:
  "let r = \<lparr>er_spawn = None, er_stdio = True, er_stdout = [''o'', ''k''], er_stderr = [], er_end = EE_Exited (Some 3),
            er_effect = (\<lambda>f. f)\<rparr> in
   exec_result r = Inr (Pl_Exec 3 ''ok'' [] False False False) \<and>
   helper_read_file demo_env ''/w/a'' (Some 1) (Some 2) demo_fs = (Inr (Pl_File ''b64:Xb'' True), demo_fs) \<and>
   read_body (unat (3::u64)) [] [''pa'', ''ge''] None = Inr (''pag'', True)"
proof -
  let ?r = "\<lparr>er_spawn = None, er_stdio = True, er_stdout = [''o'', ''k''], er_stderr = [], er_end = EE_Exited (Some 3),
            er_effect = (\<lambda>f. f)\<rparr>"
  have at: "fnode_at demo_env ''/w/a'' demo_fs = Some (FN_File ''aXbXc'')" and ok: "hf_faults demo_fs = []"
    by (simp_all add: fnode_at_def demo_env_def demo_fs_def)
  have st: "er_spawn ?r = None" "er_stdio ?r" "exec_status (er_end ?r) = Inr (3, False, False)" by simp_all
  have "(1::u64) < 2 ^ 63" by simp
  note all = results_cut_at_caps [OF st ok at this, of 3 "[''pa'', ''ge'']" None 2]
  have lossy: "from_utf8_lossy ''ok'' = ''ok''" "from_utf8_lossy [] = []" by code_simp+
  have cap: "min (2::u64) READ_FILE_CAP = 2" by (simp add: READ_FILE_CAP_def min_def)
  have enc: "b64 demo_env x = ''b64:'' @ x" for x by (simp add: b64_def demo_env_def)
  show ?thesis using all lossy cap enc by (simp add: EXEC_OUTPUT_CAP_def del: read_body.simps)
qed

end
