(* ===== verification/Silo_Tools.thy ===== *)
theory Silo_Tools
  imports Silo_Edit
begin

text \<open>
  The sandbox tools of the model (\<open>silo-sandbox/src/toolimpl.rs\<close>): Read, Write, Edit, Bash, WebFetch and
  WebSearch turn a tool call into an operation of the helper and its answer into a tool output; and
  the search page and the query encoding of WebSearch (\<open>silo-sandbox/src/search.rs\<close>).

  The session with the helper is the function \<open>te_request\<close> on a state of an arbitrary type; the last
  section puts the helper itself there. The derived \<open>Debug\<close> form of a payload is \<open>te_show\<close>.
\<close>

section \<open>Search pages\<close>

text \<open>\<open>str::find\<close>: the offset of the first occurrence.\<close>

fun find_str :: "string \<Rightarrow> string \<Rightarrow> nat option" where
  "find_str pat [] = (if pat = [] then Some 0 else None)"
| "find_str pat (c # cs) = (if prefix pat (c # cs) then Some 0 else map_option Suc (find_str pat cs))"

lemma find_str_bound: "find_str pat s = Some i \<Longrightarrow> i + length pat \<le> length s"
proof (induction s arbitrary: i)
  case (Cons c cs)
  then show ?case by (auto split: if_splits dest: prefix_length_le)
qed (simp split: if_splits)

lemma find_str_prefix: "find_str pat s = Some i \<Longrightarrow> prefix pat (drop i s)"
proof (induction s arbitrary: i)
  case (Cons c cs)
  then show ?case by (auto split: if_splits)
qed (simp split: if_splits)

text \<open>\<open>str::rfind\<close> of a character.\<close>

definition rfind_char :: "char \<Rightarrow> string \<Rightarrow> nat option" where
  "rfind_char c s =
     (case position (\<lambda>x. x = c) (rev s) of None \<Rightarrow> None | Some i \<Rightarrow> Some (length s - Suc i))"

definition find_from :: "string \<Rightarrow> nat \<Rightarrow> string \<Rightarrow> nat option" where
  "find_from s start pat = map_option (\<lambda>i. start + i) (find_str pat (drop start s))"

definition str_slice :: "string \<Rightarrow> nat \<Rightarrow> nat \<Rightarrow> string" where
  "str_slice s a b = take (b - a) (drop a s)"

lemma find_from_bound:
  "find_from s start pat = Some i \<Longrightarrow> pat \<noteq> [] \<Longrightarrow> start \<le> i \<and> i + length pat \<le> length s"
  using find_str_bound [of pat "drop start s"] by (cases pat) (auto simp: find_from_def)

record class_tag =
  ct_class_at :: nat
  ct_tag_start :: nat

definition word_char :: "char \<Rightarrow> bool" where
  "word_char c =
     (let n = of_char c :: nat in
      48 \<le> n \<and> n \<le> 57 \<or> 65 \<le> n \<and> n \<le> 90 \<or> 97 \<le> n \<and> n \<le> 122 \<or> c = CHR ''_'' \<or> c = CHR ''-'')"

text \<open>The class names searched for are not empty; with an empty one the search of the code would not advance.\<close>

function find_class_tag :: "string \<Rightarrow> nat \<Rightarrow> string \<Rightarrow> class_tag option" where
  "find_class_tag html start cls =
     (if cls = [] then None
      else case find_from html start cls of
        None \<Rightarrow> None
      | Some class_at \<Rightarrow>
          (let after = drop (class_at + length cls) html;
               is_word_end = (case after of [] \<Rightarrow> True | c # _ \<Rightarrow> \<not> word_char c);
               found = (if is_word_end
                        then (case rfind_char (CHR ''<'') (take class_at html) of
                                Some tag_start \<Rightarrow>
                                  if CHR ''>'' \<in> set (str_slice html tag_start class_at) then None
                                  else Some \<lparr>ct_class_at = class_at, ct_tag_start = tag_start\<rparr>
                              | None \<Rightarrow> None)
                        else None) in
           case found of
             Some t \<Rightarrow> Some t
           | None \<Rightarrow> find_class_tag html (class_at + length cls) cls))"
  by auto
termination
proof (relation "measure (\<lambda>(html, start, cls). length html - start)", goal_cases)
  case (2 html start cls class_at)
  with find_from_bound [of html start cls class_at] show ?case by (cases cls) auto
qed simp

declare find_class_tag.simps [simp del]

definition decode_entities :: "string \<Rightarrow> string" where
  "decode_entities s =
     str_replace ''&amp;'' ''&'' (str_replace ''&nbsp;'' '' '' (str_replace ''&#39;'' [CHR 0x27]
       (str_replace ''&#x27;'' [CHR 0x27] (str_replace ''&quot;'' [CHR 0x22]
         (str_replace ''&gt;'' ''>'' (str_replace ''&lt;'' ''<'' s))))))"

fun strip_tags :: "bool \<Rightarrow> string \<Rightarrow> string" where
  "strip_tags in_tag [] = []"
| "strip_tags in_tag (c # cs) =
     (if c = CHR ''<'' then strip_tags True cs
      else if c = CHR ''>'' \<and> in_tag then strip_tags False cs
      else if \<not> in_tag then c # strip_tags in_tag cs
      else strip_tags in_tag cs)"

definition clean_text :: "string \<Rightarrow> string" where
  "clean_text fragment = join_with '' '' (split_whitespace (decode_entities (strip_tags False fragment)))"

definition attr_value :: "string \<Rightarrow> string \<Rightarrow> string option" where
  "attr_value tag name =
     (let marker = name @ [CHR ''='', CHR 0x22] in
      case find_str marker tag of
        None \<Rightarrow> None
      | Some i \<Rightarrow>
          (let start = i + length marker in
           case find_from tag start [CHR 0x22] of
             None \<Rightarrow> None
           | Some stop \<Rightarrow> Some (decode_entities (str_slice tag start stop))))"

definition hex_value :: "char \<Rightarrow> nat option" where
  "hex_value c =
     (let n = of_char c :: nat in
      if 48 \<le> n \<and> n \<le> 57 then Some (n - 48)
      else if 97 \<le> n \<and> n \<le> 102 then Some (n - 87)
      else if 65 \<le> n \<and> n \<le> 70 then Some (n - 55)
      else None)"

fun decode_percent :: "string \<Rightarrow> string" where
  "decode_percent [] = []"
| "decode_percent (c # cs) =
     (if c = CHR ''%'' then
        (case cs of
           h # l # rest \<Rightarrow>
             (case (hex_value h, hex_value l) of
                (Some hi, Some lo) \<Rightarrow> char_of (hi * 16 + lo) # decode_percent rest
              | _ \<Rightarrow> c # decode_percent cs)
         | _ \<Rightarrow> c # decode_percent cs)
      else c # decode_percent cs)"

definition percent_decode :: "string \<Rightarrow> string" where
  "percent_decode s = from_utf8_lossy (decode_percent s)"

definition upper_hex :: "nat \<Rightarrow> char" where
  "upper_hex d = (if d < 10 then char_of (48 + d) else char_of (55 + d))"

definition unreserved :: "char \<Rightarrow> bool" where
  "unreserved c =
     (let n = of_char c :: nat in
      65 \<le> n \<and> n \<le> 90 \<or> 97 \<le> n \<and> n \<le> 122 \<or> 48 \<le> n \<and> n \<le> 57 \<or>
      c \<in> {CHR ''-'', CHR ''_'', CHR ''.'', CHR ''~''})"

definition encode_byte :: "char \<Rightarrow> string" where
  "encode_byte c =
     (if unreserved c then [c]
      else [CHR ''%'', upper_hex (of_char c div 16), upper_hex (of_char c mod 16)])"

definition percent_encode :: "string \<Rightarrow> string" where
  "percent_encode s = concat (map encode_byte s)"

definition result_url :: "string \<Rightarrow> string" where
  "result_url href =
     (case find_str ''uddg='' href of
        Some i \<Rightarrow>
          (let v = drop (i + 5) href; stop = (case find_str ''&'' v of Some j \<Rightarrow> j | None \<Rightarrow> length v) in
           percent_decode (take stop v))
      | None \<Rightarrow>
          (case strip_prefix ''//'' href of Some rest \<Rightarrow> ''https://'' @ rest | None \<Rightarrow> href))"

record search_result =
  sr_title :: string
  sr_url :: string
  sr_snippet :: string

definition MAX_RESULTS :: nat where
  "MAX_RESULTS = 10"

definition min_option :: "nat option list \<Rightarrow> nat option" where
  "min_option xs = (case List.map_filter (\<lambda>x. x) xs of [] \<Rightarrow> None | y # ys \<Rightarrow> Some (fold min ys y))"

definition find_snippet :: "string \<Rightarrow> nat \<Rightarrow> string" where
  "find_snippet html after_anchor =
     (let next_anchor_at = (case find_class_tag html after_anchor ''result__a'' of
                              Some a \<Rightarrow> ct_class_at a | None \<Rightarrow> length html) in
      case find_class_tag html after_anchor ''result__snippet'' of
        None \<Rightarrow> []
      | Some t \<Rightarrow>
          if ct_class_at t < next_anchor_at then
            (case find_from html (ct_tag_start t) ''>'' of
               None \<Rightarrow> []
             | Some i \<Rightarrow>
                 (case min_option (map (find_from html (Suc i)) [''</a>'', ''</div>'', ''</td>'', ''</span>'', ''</p>'']) of
                    None \<Rightarrow> []
                  | Some stop \<Rightarrow> clean_text (str_slice html (Suc i) stop)))
          else [])"

text \<open>A found class name lies inside its tag, so the next round starts further on.\<close>

lemma find_class_tag_inside:
  "find_class_tag html start cls = Some t \<Longrightarrow>
     start \<le> ct_class_at t \<and> ct_class_at t \<le> length html \<and> ct_tag_start t < ct_class_at t \<and>
     CHR ''>'' \<notin> set (str_slice html (ct_tag_start t) (ct_class_at t))"
proof (induction html start cls rule: find_class_tag.induct)
  case (1 html start cls)
  have ne: "cls \<noteq> []" using 1(2) by (subst (asm) find_class_tag.simps) (auto split: if_splits)
  then obtain k where k: "find_from html start cls = Some k"
    using 1(2) by (subst (asm) find_class_tag.simps) (auto split: option.splits)
  note bound = find_from_bound [OF k ne]
  have rf: "i < k" if "rfind_char c (take k html) = Some i" for c i
    using that bound by (auto simp: rfind_char_def position_Some_iff split: option.splits)
  let ?found = "if (case drop (k + length cls) html of [] \<Rightarrow> True | c # _ \<Rightarrow> \<not> word_char c)
                then (case rfind_char (CHR ''<'') (take k html) of
                        Some i \<Rightarrow> if CHR ''>'' \<in> set (str_slice html i k) then None
                                  else Some \<lparr>ct_class_at = k, ct_tag_start = i\<rparr>
                      | None \<Rightarrow> None)
                else None"
  have step: "find_class_tag html start cls =
      (case ?found of Some t \<Rightarrow> Some t | None \<Rightarrow> find_class_tag html (k + length cls) cls)"
    using ne k by (subst find_class_tag.simps) (simp add: Let_def)
  show ?case
  proof (cases ?found)
    case None
    then have "find_class_tag html (k + length cls) cls = Some t" using step 1(2) by simp
    with 1(1) [OF ne k refl refl refl None] bound show ?thesis by simp
  next
    case (Some u)
    with step 1(2) have "u = t" by simp
    with Some bound rf show ?thesis by (auto split: if_splits option.splits)
  qed
qed

lemma find_char_after:
  assumes "find_from html a [c] = Some i" and "c \<notin> set (str_slice html a b)" and "b \<le> length html"
  shows "b \<le> i"
proof (rule ccontr)
  assume "\<not> b \<le> i"
  from find_from_bound [OF assms(1)] have i: "a \<le> i" "i < length html" by auto
  from assms(1) have "find_str [c] (drop a html) = Some (i - a)" by (auto simp: find_from_def)
  from find_str_prefix [OF this] i have "prefix [c] (drop i html)" by simp
  then have "html ! i = c" using i by (cases "drop i html") (auto simp: Cons_nth_drop_Suc [symmetric])
  moreover have "str_slice html a b ! (i - a) = html ! i" and "i - a < length (str_slice html a b)"
    using i \<open>\<not> b \<le> i\<close> assms(3) by (simp_all add: str_slice_def)
  ultimately show False using assms(2) nth_mem by metis
qed

function extract_from :: "string \<Rightarrow> nat \<Rightarrow> search_result list \<Rightarrow> search_result list" where
  "extract_from html cursor results =
     (if length results < MAX_RESULTS then
        (case find_class_tag html cursor ''result__a'' of
           None \<Rightarrow> results
         | Some anchor \<Rightarrow>
             (case find_from html (ct_tag_start anchor) ''>'' of
                None \<Rightarrow> results
              | Some i \<Rightarrow>
                  (case find_from html (Suc i) ''</a>'' of
                     None \<Rightarrow> results
                   | Some close \<Rightarrow>
                       (let title = clean_text (str_slice html (Suc i) close);
                            url = (case attr_value (str_slice html (ct_tag_start anchor) (Suc i)) ''href'' of
                                     Some href \<Rightarrow> result_url href | None \<Rightarrow> []);
                            after_anchor = close + 4;
                            snippet = find_snippet html after_anchor in
                        extract_from html after_anchor
                          (if title \<noteq> [] \<and> url \<noteq> []
                           then results @ [\<lparr>sr_title = title, sr_url = url, sr_snippet = snippet\<rparr>] else results)))))
      else results)"
  by auto
termination
proof (relation "measure (\<lambda>(html, cursor, results). length html - cursor)", goal_cases)
  case (2 html cursor results anchor i close title url after snippet)
  note t = find_class_tag_inside [OF 2(2)]
  have "ct_class_at anchor \<le> i" by (rule find_char_after [OF 2(3)]) (use t in auto)
  moreover have "Suc i \<le> close \<and> close + 4 \<le> length html" using find_from_bound [OF 2(4)] by simp
  ultimately show ?case using t 2(7) by auto
qed simp

declare extract_from.simps [simp del]

definition extract_results :: "string \<Rightarrow> search_result list" where
  "extract_results html = extract_from html 0 []"

definition format_result :: "nat \<Rightarrow> search_result \<Rightarrow> string" where
  "format_result index r =
     nat_to_string (index + 1) @ ''. '' @ sr_title r @ [CHR 0x0A] @ ''   '' @ sr_url r @
     (if sr_snippet r \<noteq> [] then [CHR 0x0A] @ ''   '' @ sr_snippet r else [])"

definition parse_results :: "string \<Rightarrow> string" where
  "parse_results html =
     (let results = extract_results html in
      if results = [] then ''No results.''
      else join_with [CHR 0x0A, CHR 0x0A] (map (\<lambda>(i, r). format_result i r) (enumerate 0 results)))"

section \<open>The tools\<close>

definition DEFAULT_BASH_TIMEOUT_MS :: u64 where
  "DEFAULT_BASH_TIMEOUT_MS = 120000"

definition MAX_BASH_TIMEOUT_MS :: u64 where
  "MAX_BASH_TIMEOUT_MS = 600000"

definition DEFAULT_FETCH_MAX_BYTES :: u64 where
  "DEFAULT_FETCH_MAX_BYTES = 1048576"

definition SEARCH_MAX_BYTES :: u64 where
  "SEARCH_MAX_BYTES = 2 * 1048576"

record 's tool_env =
  te_request :: "helper_op \<Rightarrow> 's \<Rightarrow> (sandbox_error + helper_payload) \<times> 's"
  te_b64 :: "string \<Rightarrow> string"
  te_unb64 :: "string \<Rightarrow> string + string"
  te_mount :: string
  te_home :: string
  te_tmp :: string
  te_show :: "helper_payload \<Rightarrow> string"

type_synonym 's tool_run = "'s \<Rightarrow> (sandbox_error + tool_output) \<times> 's"

text \<open>
  The operation is sent; a failure the helper reports is the tool's output, any other failure is the
  session's. \<open>k\<close> reads the payload.
\<close>

definition helper_call ::
  "'s tool_env \<Rightarrow> helper_op \<Rightarrow> (helper_payload \<Rightarrow> sandbox_error + tool_output) \<Rightarrow> 's tool_run" where
  "helper_call te op k s =
     (case te_request te op s of
        (Inr payload, s1) \<Rightarrow> (k payload, s1)
      | (Inl (Sb_Helper m), s1) \<Rightarrow> (Inr (output_error m), s1)
      | (Inl e, s1) \<Rightarrow> (Inl e, s1))"

definition unexpected_payload :: "'s tool_env \<Rightarrow> string \<Rightarrow> helper_payload \<Rightarrow> sandbox_error + tool_output" where
  "unexpected_payload te tool payload =
     Inl (Sb_Helper (''unexpected helper payload for '' @ tool @ '': '' @ te_show te payload))"

definition str_field :: "tool_call \<Rightarrow> string \<Rightarrow> tool_output + string" where
  "str_field call key =
     (case json_get (tc_input call) key of
        Some (JString v) \<Rightarrow> Inr v
      | _ \<Rightarrow> Inl (output_error (tc_name call @ '': missing required string field '' @ debug_str key)))"

definition u64_field :: "tool_call \<Rightarrow> string \<Rightarrow> tool_output + u64 option" where
  "u64_field call key =
     (case json_get (tc_input call) key of
        None \<Rightarrow> Inr None
      | Some JNull \<Rightarrow> Inr None
      | Some v \<Rightarrow>
          (case json_as_u64 v of
             Some n \<Rightarrow> Inr (Some n)
           | None \<Rightarrow> Inl (output_error (tc_name call @ '': field '' @ debug_str key @ '' must be a non-negative integer''))))"

definition bool_field :: "tool_call \<Rightarrow> string \<Rightarrow> bool" where
  "bool_field call key = (case json_get (tc_input call) key of Some (JBool b) \<Rightarrow> b | _ \<Rightarrow> False)"

text \<open>\<open>Path::join\<close> of a relative path, and \<open>Path::display\<close>.\<close>

definition path_join :: "string \<Rightarrow> string \<Rightarrow> string" where
  "path_join base path =
     (if prefix ''/'' path then path
      else if base = [] \<or> last base = CHR ''/'' then base @ path
      else base @ ''/'' @ path)"

definition resolve_path :: "string \<Rightarrow> string \<Rightarrow> string" where
  "resolve_path mount path = (if prefix ''/'' path then path else from_utf8_lossy (path_join mount path))"

text \<open>A field that is missing or malformed ends the call with an output.\<close>

definition with_field :: "tool_output + 'a \<Rightarrow> ('a \<Rightarrow> 's tool_run) \<Rightarrow> 's tool_run" where
  "with_field r k s = (case r of Inl out \<Rightarrow> (Inr out, s) | Inr v \<Rightarrow> k v s)"

definition mark_truncated :: "string \<Rightarrow> string" where
  "mark_truncated content =
     (if suffix [CHR 0x0A] content then content else content @ [CHR 0x0A]) @ ''[truncated]''"

definition read_tool :: "'s tool_env \<Rightarrow> tool_call \<Rightarrow> 's tool_run" where
  "read_tool te call =
     with_field (str_field call ''path'') (\<lambda>path.
     with_field (u64_field call ''offset'') (\<lambda>offset.
     with_field (u64_field call ''limit'') (\<lambda>limit.
       helper_call te (Op_ReadFile (resolve_path (te_mount te) path) offset limit) (\<lambda>payload.
         case payload of
           Pl_File content_b64 truncated \<Rightarrow>
             (case te_unb64 te content_b64 of
                Inl e \<Rightarrow> Inl (Sb_Helper e)
              | Inr bytes \<Rightarrow>
                  (let content = from_utf8_lossy bytes in
                   Inr (output_ok (if truncated then mark_truncated content else content))))
         | _ \<Rightarrow> unexpected_payload te ''Read'' payload))))"

definition write_content :: "'s tool_env \<Rightarrow> tool_call \<Rightarrow> tool_output + string" where
  "write_content te call =
     (case json_get (tc_input call) ''content_b64'' of
        Some v \<Rightarrow>
          if json_get (tc_input call) ''content'' \<noteq> None
          then Inl (output_error ''Write: the content and content_b64 fields are mutually exclusive'')
          else (case json_as_str v of
                  Some encoded \<Rightarrow>
                    (case te_unb64 te encoded of Inr _ \<Rightarrow> Inr encoded | Inl e \<Rightarrow> Inl (output_error e))
                | None \<Rightarrow> Inl (output_error ''the content_b64 field must be a base64 string''))
      | None \<Rightarrow>
          (case str_field call ''content'' of Inl out \<Rightarrow> Inl out | Inr content \<Rightarrow> Inr (te_b64 te content)))"

definition write_tool :: "'s tool_env \<Rightarrow> tool_call \<Rightarrow> 's tool_run" where
  "write_tool te call =
     with_field (str_field call ''path'') (\<lambda>path.
     with_field (write_content te call) (\<lambda>content_b64.
       let appending = bool_field call ''append'' in
       helper_call te (Op_WriteFile (resolve_path (te_mount te) path) content_b64 appending) (\<lambda>payload.
         case payload of
           Pl_Written n \<Rightarrow>
             Inr (output_ok ((if appending then ''Appended'' else ''Wrote'') @ '' '' @ nat_to_string (unat n) @
               '' bytes to '' @ path))
         | _ \<Rightarrow> unexpected_payload te ''Write'' payload)))"

definition edit_tool :: "'s tool_env \<Rightarrow> tool_call \<Rightarrow> 's tool_run" where
  "edit_tool te call =
     with_field (str_field call ''path'') (\<lambda>path.
     with_field (str_field call ''old_string'') (\<lambda>old.
     with_field (str_field call ''new_string'') (\<lambda>new.
       helper_call te (Op_EditFile (resolve_path (te_mount te) path) old new (bool_field call ''replace_all'')) (\<lambda>payload.
         case payload of
           Pl_Edited n \<Rightarrow>
             Inr (output_ok (''Replaced '' @ nat_to_string (unat n) @ '' '' @
               (if n = 1 then ''occurrence'' else ''occurrences'') @ '' in '' @ path))
         | _ \<Rightarrow> unexpected_payload te ''Edit'' payload))))"

definition show_i32 :: "i32 \<Rightarrow> string" where
  "show_i32 n = (if sint n < 0 then ''-'' @ nat_to_string (nat (- sint n)) else nat_to_string (nat (sint n)))"

definition bash_output :: "i32 \<Rightarrow> string \<Rightarrow> string \<Rightarrow> bool \<Rightarrow> bool \<Rightarrow> bool \<Rightarrow> tool_output" where
  "bash_output exit_code out err timed_out truncated cancelled =
     (let o1 = trim_end_matches (CHR 0x0A) out; e1 = trim_end_matches (CHR 0x0A) err;
          sections = (if o1 \<noteq> [] then [o1] else []) @
            (if e1 \<noteq> [] then [''--- stderr ---'' @ [CHR 0x0A] @ e1] else []) @
            (if truncated then [''[output truncated]''] else []) @
            (if cancelled then [''(cancelled)'']
             else if timed_out then [''(timed out)'']
             else if exit_code \<noteq> 0 then [''(exit code '' @ show_i32 exit_code @ '')'']
             else []);
          content = join_with [CHR 0x0A] sections in
      if cancelled \<or> timed_out \<or> exit_code \<noteq> 0 then output_error content else output_ok content)"

definition bash_tool :: "'s tool_env \<Rightarrow> tool_call \<Rightarrow> 's tool_run" where
  "bash_tool te call =
     with_field (str_field call ''command'') (\<lambda>command.
     with_field (u64_field call ''timeout_ms'') (\<lambda>timeout.
       let timeout_ms = min (case timeout of Some t \<Rightarrow> t | None \<Rightarrow> DEFAULT_BASH_TIMEOUT_MS) MAX_BASH_TIMEOUT_MS in
       helper_call te (Op_Exec command (Some (from_utf8_lossy (te_mount te)))
           [(''HOME'', from_utf8_lossy (te_home te)), (''TMPDIR'', from_utf8_lossy (te_tmp te))] timeout_ms) (\<lambda>payload.
         case payload of
           Pl_Exec exit_code out err timed_out truncated cancelled \<Rightarrow>
             Inr (bash_output exit_code out err timed_out truncated cancelled)
         | _ \<Rightarrow> unexpected_payload te ''Bash'' payload)))"

definition web_fetch_tool :: "'s tool_env \<Rightarrow> tool_call \<Rightarrow> 's tool_run" where
  "web_fetch_tool te call =
     with_field (str_field call ''url'') (\<lambda>url.
     with_field (u64_field call ''max_bytes'') (\<lambda>max_bytes.
       helper_call te (Op_Fetch url ''GET'' [] None (case max_bytes of Some m \<Rightarrow> m | None \<Rightarrow> DEFAULT_FETCH_MAX_BYTES))
         (\<lambda>payload.
         case payload of
           Pl_Fetched st _ body_b64 truncated \<Rightarrow>
             (case te_unb64 te body_b64 of
                Inl e \<Rightarrow> Inl (Sb_Helper e)
              | Inr body \<Rightarrow>
                  (let content = ''HTTP '' @ nat_to_string (unat st) @ [CHR 0x0A] @ from_utf8_lossy body;
                       marked = (if truncated then mark_truncated content else content) in
                   Inr (if st \<ge> 400 then output_error marked else output_ok marked)))
         | _ \<Rightarrow> unexpected_payload te ''WebFetch'' payload)))"

definition web_search_tool :: "'s tool_env \<Rightarrow> tool_call \<Rightarrow> 's tool_run" where
  "web_search_tool te call =
     with_field (str_field call ''query'') (\<lambda>query.
       helper_call te (Op_Fetch (''https://html.duckduckgo.com/html/?q='' @ percent_encode query) ''GET''
           [(''User-Agent'', ''Mozilla/5.0 (compatible; llmdevsilo)'')] None SEARCH_MAX_BYTES) (\<lambda>payload.
         case payload of
           Pl_Fetched st _ body_b64 _ \<Rightarrow>
             if st \<noteq> 200 then Inr (output_error (''search failed: HTTP '' @ nat_to_string (unat st)))
             else (case te_unb64 te body_b64 of
                     Inl e \<Rightarrow> Inl (Sb_Helper e)
                   | Inr body \<Rightarrow> Inr (output_ok (parse_results (from_utf8_lossy body))))
         | _ \<Rightarrow> unexpected_payload te ''WebSearch'' payload))"

definition run_sandbox_call :: "'s tool_env \<Rightarrow> tool_call \<Rightarrow> 's tool_run" where
  "run_sandbox_call te call =
     (if tc_name call = ''Read'' then read_tool te call
      else if tc_name call = ''Write'' then write_tool te call
      else if tc_name call = ''Edit'' then edit_tool te call
      else if tc_name call = ''Bash'' then bash_tool te call
      else if tc_name call = ''WebFetch'' then web_fetch_tool te call
      else if tc_name call = ''WebSearch'' then web_search_tool te call
      else (\<lambda>s. (Inl (Sb_Rejected (''unknown sandbox tool '' @ debug_str (tc_name call))), s)))"

section \<open>The tools on the helper\<close>

text \<open>
  The helper behind a session that matches every answer to its request: a per-request failure becomes
  \<open>SandboxError::Helper\<close>. The result of each command is the next of \<open>ds_runs\<close>.
\<close>

record 'w direct_state =
  ds_helper :: "'w helper_state"
  ds_runs :: "exec_run list"

definition idle_run :: exec_run where
  "idle_run = \<lparr>er_spawn = None, er_stdio = True, er_stdout = [], er_stderr = [], er_end = EE_Exited (Some 0),
               er_effect = (\<lambda>f. f)\<rparr>"

definition direct_request ::
  "'w helper_env \<Rightarrow> fetch_config \<Rightarrow> helper_op \<Rightarrow> 'w direct_state \<Rightarrow>
   (sandbox_error + helper_payload) \<times> 'w direct_state" where
  "direct_request env config op s =
     (let (run, rest) = (case (op, ds_runs s) of (Op_Exec _ _ _ _, r # rs) \<Rightarrow> (r, rs) | _ \<Rightarrow> (idle_run, ds_runs s)) in
      case handle_op env config run op (ds_helper s) of
        (Inl m, h) \<Rightarrow> (Inl (Sb_Helper m), \<lparr>ds_helper = h, ds_runs = rest\<rparr>)
      | (Inr p, h) \<Rightarrow> (Inr p, \<lparr>ds_helper = h, ds_runs = rest\<rparr>))"

definition direct_tools ::
  "'w helper_env \<Rightarrow> fetch_config \<Rightarrow> string \<Rightarrow> string \<Rightarrow> string \<Rightarrow> (helper_payload \<Rightarrow> string) \<Rightarrow>
   'w direct_state tool_env" where
  "direct_tools env config mount home tmp show_payload =
     \<lparr>te_request = direct_request env config, te_b64 = b64 env, te_unb64 = unb64 env, te_mount = mount,
      te_home = home, te_tmp = tmp, te_show = show_payload\<rparr>"

end
