(* ===== verification/Silo_Sandbox.thy ===== *)
theory Silo_Sandbox
  imports Silo_Tools
begin

text \<open>
  Properties of the sandbox tools: whatever fails inside the sandbox, a tool call gives an output for the
  model and not an error that would end the session; what a Write stores and an Edit changes is what
  a Read returns; and the query of a search survives its encoding.
\<close>

section \<open>The service the tools rely on\<close>

text \<open>
  What a tool expects of a session: failures are those the helper reports, and an operation is answered
  with its own kind of payload. Then no tool call fails, as long as base64 decodes what it encodes.
\<close>

locale helper_service =
  fixes te :: "'s tool_env"
  assumes helper_failures: "te_request te op s = (Inl e, s1) \<Longrightarrow> \<exists>m. e = Sb_Helper m"
    and read_payload: "te_request te (Op_ReadFile path offset limit) s = (Inr p, s1) \<Longrightarrow> \<exists>x t. p = Pl_File (te_b64 te x) t"
    and write_payload: "te_request te (Op_WriteFile path c a) s = (Inr p, s1) \<Longrightarrow> \<exists>n. p = Pl_Written n"
    and edit_payload: "te_request te (Op_EditFile path old new a) s = (Inr p, s1) \<Longrightarrow> \<exists>n. p = Pl_Edited n"
    and exec_payload: "te_request te (Op_Exec cmd cwd vars t) s = (Inr p, s1) \<Longrightarrow> \<exists>c x y a b d. p = Pl_Exec c x y a b d"
    and fetch_payload: "te_request te (Op_Fetch url m hs b n) s = (Inr p, s1) \<Longrightarrow> \<exists>st h x t. p = Pl_Fetched st h (te_b64 te x) t"
begin

lemma call_total:
  assumes "\<And>p s1. te_request te op s = (Inr p, s1) \<Longrightarrow> \<exists>out. k p = Inr out"
  shows "\<exists>out. fst (helper_call te op k s) = Inr out"
proof (cases "te_request te op s")
  case (Pair r s1)
  show ?thesis
  proof (cases r)
    case (Inl e)
    with helper_failures [of op s e s1] Pair obtain m where "e = Sb_Helper m" by blast
    with Inl Pair show ?thesis by (simp add: helper_call_def)
  next
    case (Inr p)
    with assms [of p s1] Pair show ?thesis by (auto simp: helper_call_def)
  qed
qed

lemma field_total: "(\<And>v. \<exists>out. fst (k v s) = Inr out) \<Longrightarrow> \<exists>out. fst (with_field r k s) = Inr out"
  by (cases r) (auto simp: with_field_def)

lemma run_total:
  assumes codec: "\<And>x. te_unb64 te (te_b64 te x) = Inr x"
    and name: "tc_name call \<in> {''Read'', ''Write'', ''Edit'', ''Bash'', ''WebFetch'', ''WebSearch''}"
  shows "\<exists>out. fst (run_sandbox_call te call s) = Inr out"
proof -
  have "\<exists>out. fst (read_tool te call s) = Inr out"
    unfolding read_tool_def by (intro field_total call_total) (auto dest!: read_payload simp: codec Let_def)
  moreover have "\<exists>out. fst (write_tool te call s) = Inr out"
    unfolding write_tool_def Let_def by (intro field_total call_total) (auto dest!: write_payload)
  moreover have "\<exists>out. fst (edit_tool te call s) = Inr out"
    unfolding edit_tool_def by (intro field_total call_total) (auto dest!: edit_payload)
  moreover have "\<exists>out. fst (bash_tool te call s) = Inr out"
    unfolding bash_tool_def Let_def by (intro field_total call_total) (auto dest!: exec_payload)
  moreover have "\<exists>out. fst (web_fetch_tool te call s) = Inr out"
    unfolding web_fetch_tool_def by (intro field_total call_total) (auto dest!: fetch_payload simp: codec Let_def)
  moreover have "\<exists>out. fst (web_search_tool te call s) = Inr out"
    unfolding web_search_tool_def by (intro field_total call_total) (auto dest!: fetch_payload simp: codec)
  ultimately show ?thesis using name by (auto simp: run_sandbox_call_def)
qed

end

section \<open>The helper provides the service\<close>

lemma read_file_shape:
  "helper_read_file env path offset limit fs = (Inr p, fs1) \<Longrightarrow> \<exists>x t. p = Pl_File (b64 env x) t"
  by (auto simp: helper_read_file_def Let_def split: prod.splits sum.splits option.splits if_splits)

lemma write_file_shape:
  "helper_write_file env path c a fs = (Inr p, fs1) \<Longrightarrow> \<exists>n. p = Pl_Written n"
  by (auto simp: helper_write_file_def Let_def split: prod.splits sum.splits option.splits if_splits)

lemma edit_file_shape:
  "helper_edit_file env path old new a fs = (Inr p, fs1) \<Longrightarrow> \<exists>n. p = Pl_Edited n"
  by (auto simp: helper_edit_file_def Let_def split: prod.splits sum.splits option.splits if_splits)

lemma exec_shape: "exec_result r = Inr p \<Longrightarrow> \<exists>c x y a b d. p = Pl_Exec c x y a b d"
  by (auto simp: exec_result_def split: prod.splits sum.splits option.splits if_splits)

lemma fetch_shape:
  "fetch env config url m hs b n st = (Inr p, st1) \<Longrightarrow> \<exists>s h x t. p = Pl_Fetched s h (b64 env x) t"
  by (auto simp: fetch_def Let_def split: prod.splits sum.splits option.splits if_splits)

lemma direct_request_Inl: "direct_request env config op s = (Inl e, s1) \<Longrightarrow> \<exists>m. e = Sb_Helper m"
  by (auto simp: direct_request_def Let_def split: prod.splits sum.splits)

lemma direct_request_Inr:
  "direct_request env config op s = (Inr p, s1) \<Longrightarrow> \<exists>run h. handle_op env config run op (ds_helper s) = (Inr p, h)"
  by (auto simp: direct_request_def Let_def split: prod.splits sum.splits)

lemma on_files_Inr: "on_files f st = (Inr p, st1) \<Longrightarrow> \<exists>fs. f (hs_fs st) = (Inr p, fs)"
  by (auto simp: on_files_def split: prod.splits)

interpretation direct: helper_service "direct_tools env config mount home tmp sh"
  for env :: "'w helper_env" and config mount home tmp sh
  by unfold_locales
    (auto simp: direct_tools_def dest!: direct_request_Inl direct_request_Inr on_files_Inr read_file_shape
      write_file_shape edit_file_shape exec_shape fetch_shape)


definition demo_tools :: "unit direct_state tool_env" where
  "demo_tools = direct_tools demo_env \<lparr>fc_proxy_url = None, fc_ca_cert_path = None\<rparr> ''/w'' ''/h'' ''/t'' (\<lambda>_. ''payload'')"

definition demo_state :: "unit direct_state" where
  "demo_state = \<lparr>ds_helper = \<lparr>hs_fs = demo_fs\<lparr>hf_faults := [Some (0, ''EIO'')]\<rparr>, hs_client = False, hs_net = ()\<rparr>, ds_runs = []\<rparr>"

lemma demo_codec: "he_decode demo_env (he_encode demo_env x) = Inr x"
  by (simp add: demo_env_def strip_prefix_def)


section \<open>Search\<close>

lemma high_digit_small: "of_char c div 16 < (16::nat)"
proof -
  have "(of_char c :: nat) mod 256 = of_char c" by (rule of_char_mod_256)
  then have "(of_char c :: nat) < 16 * 16" using mod_less_divisor [of 256 "of_char c :: nat"] by simp
  then show ?thesis by (rule less_mult_imp_div_less)
qed

lemma hex_value_upper: "d < 16 \<Longrightarrow> hex_value (upper_hex d) = Some d"
  by (auto simp: hex_value_def upper_hex_def Let_def)

lemma decode_encode_byte: "decode_percent (encode_byte c @ rest) = c # decode_percent rest"
proof (cases "unreserved c")
  case True
  then have "c \<noteq> CHR ''%''" by (auto simp: unreserved_def)
  with True show ?thesis by (simp add: encode_byte_def)
next
  case False
  then show ?thesis by (simp add: encode_byte_def hex_value_upper high_digit_small)
qed

lemma decode_percent_encode: "decode_percent (percent_encode s) = s"
  by (induction s) (simp_all add: percent_encode_def decode_encode_byte del: decode_percent.simps(2))

lemma percent_encode_chars: "c \<in> set (percent_encode s) \<Longrightarrow> unreserved c \<or> c = CHR ''%''"
proof -
  have hex: "unreserved (upper_hex d)" if "d < 16" for d
    using that by (auto simp: unreserved_def upper_hex_def Let_def)
  assume "c \<in> set (percent_encode s)"
  then obtain x where "c \<in> set (encode_byte x)" by (auto simp: percent_encode_def)
  then show ?thesis using hex high_digit_small [of x] by (auto simp: encode_byte_def split: if_splits)
qed

lemma extract_from_bounded:
  "length results \<le> MAX_RESULTS \<Longrightarrow> (\<forall>r\<in>set results. sr_title r \<noteq> [] \<and> sr_url r \<noteq> []) \<Longrightarrow>
   length (extract_from html cursor results) \<le> MAX_RESULTS \<and>
   (\<forall>r\<in>set (extract_from html cursor results). sr_title r \<noteq> [] \<and> sr_url r \<noteq> [])"
proof (induction html cursor results rule: extract_from.induct)
  case (1 html cursor results)
  show ?case
  proof (cases "length results < MAX_RESULTS")
    case False
    with 1(2,3) show ?thesis by (subst (1 2) extract_from.simps) auto
  next
    case True
    show ?thesis
    proof (cases "\<exists>anchor i close. find_class_tag html cursor ''result__a'' = Some anchor \<and>
        find_from html (ct_tag_start anchor) ''>'' = Some i \<and> find_from html (Suc i) ''</a>'' = Some close")
      case False
      with 1(2,3) True have "extract_from html cursor results = results"
        by (subst extract_from.simps) (auto split: option.splits)
      with 1(2,3) show ?thesis by simp
    next
      case more: True
      then obtain anchor i close where f: "find_class_tag html cursor ''result__a'' = Some anchor"
        "find_from html (ct_tag_start anchor) ''>'' = Some i" "find_from html (Suc i) ''</a>'' = Some close" by blast
      show ?thesis
        using 1(2,3) True
        by (subst (1 2) extract_from.simps) (simp only: f True option.case if_True Let_def, rule 1(1) [OF True f refl refl refl refl], use True in auto)
    qed
  qed
qed

text \<open>
  The query of a search arrives as it was written: decoding its encoded form gives it back, and the
  encoded form has only unreserved characters and percent signs, so a query cannot add parameters to
  the URL. At most ten results are listed, each with a title and an address.
\<close>

theorem search_query_safe:
  assumes "utf8_valid query"
  shows "percent_decode (percent_encode query) = query \<and>
    (\<forall>c\<in>set (percent_encode query). unreserved c \<or> c = CHR ''%'') \<and>
    length (extract_results html) \<le> MAX_RESULTS \<and>
    (\<forall>r\<in>set (extract_results html). sr_title r \<noteq> [] \<and> sr_url r \<noteq> [])"
proof (intro conjI)
  show "percent_decode (percent_encode query) = query"
    using assms by (simp add: percent_decode_def decode_percent_encode from_utf8_lossy_valid)
  show "\<forall>c\<in>set (percent_encode query). unreserved c \<or> c = CHR ''%''" using percent_encode_chars by blast
qed (use extract_from_bounded [of "[]" html 0] in \<open>simp_all add: extract_results_def\<close>)

theorem search_query_safe_witness:
  "percent_encode ''a b&c'' = ''a%20b%26c'' \<and> percent_decode ''a%20b%26c'' = ''a b&c'' \<and>
   length (extract_results ''<a class=x>'') \<le> MAX_RESULTS"
proof -
  have v: "utf8_valid ''a b&c''" by code_simp
  have e: "percent_encode ''a b&c'' = ''a%20b%26c''" by code_simp
  show ?thesis using search_query_safe [OF v, of "''<a class=x>''"] e by simp
qed

section \<open>Files through the tools\<close>

lemma utf8_parts:
  assumes "utf8_valid old" and "old \<noteq> []"
  shows "utf8_valid (join_with old parts) \<Longrightarrow> list_all utf8_valid parts"
proof (induction parts rule: induct_list012)
  case (3 x y ys)
  then have valid: "utf8_valid (x @ old @ join_with old (y # ys))" by simp
  have "\<not> utf8_cont (hd (old @ join_with old (y # ys)))" using assms utf8_valid_head [of old] by simp
  with valid have x: "utf8_valid x" by (blast intro: utf8_valid_cut)
  with valid assms(1) have "utf8_valid (join_with old (y # ys))" by (simp add: utf8_valid_append_iff)
  with 3 x show ?case by simp
qed simp_all

lemma utf8_join:
  assumes "utf8_valid new"
  shows "list_all utf8_valid parts \<Longrightarrow> utf8_valid (join_with new parts)"
proof (induction parts rule: induct_list012)
  case (3 x y ys)
  then show ?case using assms by (simp add: utf8_valid_append_iff)
qed simp_all

lemma edited_text_valid:
  "utf8_valid b \<Longrightarrow> utf8_valid old \<Longrightarrow> old \<noteq> [] \<Longrightarrow> utf8_valid new \<Longrightarrow> utf8_valid (join_with new (split_on old b))"
  by (metis utf8_join utf8_parts join_split_on)

text \<open>Whether writing the file can succeed: its directory is there and it is not a directory itself.\<close>

definition writable_at :: "'w helper_env \<Rightarrow> string \<Rightarrow> helper_fs \<Rightarrow> bool" where
  "writable_at env path fs =
     ((case path_parent path of None \<Rightarrow> True | Some p \<Rightarrow> p = [] \<or> is_dir_at env p fs) \<and>
      (case fnode_at env path fs of
         Some FN_Dir \<Rightarrow> False | Some (FN_File _) \<Rightarrow> True | None \<Rightarrow> parent_error env path fs = None))"

lemma create_dir_all_exists:
  "hf_faults fs = [] \<Longrightarrow> is_dir_at env p fs \<Longrightarrow> create_dir_all env p fs = (Inr (), fs)"
  by (subst create_dir_all.simps)
     (auto simp: fs_mkdir_def is_dir_at_def E_EXIST_def E_NOENT_def)

lemma fs_write_writable:
  "hf_faults fs = [] \<Longrightarrow> writable_at env path fs \<Longrightarrow>
   fs_write env path bytes fs = (Inr (), set_node env path (FN_File bytes) fs)"
  by (auto simp: fs_write_def fs_open_write_def fs_write_all_def writable_at_def Let_def
      split: option.splits fnode.splits)

lemma write_file_clean:
  assumes "hf_faults fs = []" and "writable_at env path fs" and "unb64 env c = Inr bytes"
  shows "helper_write_file env path c False fs =
    (Inr (Pl_Written (of_nat (length bytes))), set_node env path (FN_File bytes) fs)"
  using assms create_dir_all_exists [OF assms(1), of env] fs_write_writable [OF assms(1,2)]
  by (auto simp: helper_write_file_def writable_at_def Let_def split: option.splits)

lemma read_file_clean:
  assumes "hf_faults fs = []" and "fnode_at env path fs = Some (FN_File b)" and "length b \<le> unat READ_FILE_CAP"
  shows "helper_read_file env path None None fs = (Inr (Pl_File (b64 env b) False), fs)"
proof -
  have "unat (READ_FILE_CAP + 1) = Suc (unat READ_FILE_CAP)" by (rule cap_plus_one) simp
  with assms show ?thesis by (simp add: helper_read_file_def fs_open_def fs_read_bytes_def Let_def)
qed

lemma edit_writes:
  assumes "hf_faults fs = []" and "fnode_at env path fs = Some (FN_File b)"
    and "utf8_valid b" and "length b < 2 ^ 64" and "old \<noteq> []"
    and "length (split_on old b) = 2 \<or> replace_all \<and> 2 \<le> length (split_on old b)"
  shows "helper_edit_file env path old new replace_all fs =
    (Inr (Pl_Edited (of_nat (length (split_on old b) - 1))),
     set_node env path (FN_File (join_with new (split_on old b))) fs)"
  using assms(3,6) by (auto simp: edit_file_clean [OF assms(1,2,5,4)] Let_def)

definition write_call :: "string \<Rightarrow> string \<Rightarrow> tool_call" where
  "write_call path content =
     \<lparr>tc_id = [], tc_name = ''Write'', tc_input = JObject [(''content'', JString content), (''path'', JString path)]\<rparr>"

definition edit_call :: "string \<Rightarrow> string \<Rightarrow> string \<Rightarrow> bool \<Rightarrow> tool_call" where
  "edit_call path old new replace_all =
     \<lparr>tc_id = [], tc_name = ''Edit'',
      tc_input = JObject [(''new_string'', JString new), (''old_string'', JString old), (''path'', JString path),
        (''replace_all'', JBool replace_all)]\<rparr>"

definition read_call :: "string \<Rightarrow> tool_call" where
  "read_call path = \<lparr>tc_id = [], tc_name = ''Read'', tc_input = JObject [(''path'', JString path)]\<rparr>"

definition put_file :: "'w helper_env \<Rightarrow> string \<Rightarrow> string \<Rightarrow> 'w direct_state \<Rightarrow> 'w direct_state" where
  "put_file env path bytes s =
     s\<lparr>ds_helper := (ds_helper s)\<lparr>hs_fs := set_node env path (FN_File bytes) (hs_fs (ds_helper s))\<rparr>\<rparr>"

lemmas tool_defs = run_sandbox_call_def with_field_def helper_call_def str_field_def u64_field_def bool_field_def
  json_get_def obj_get_def direct_tools_def direct_request_def on_files_def

lemma run_write:
  assumes "hf_faults (hs_fs (ds_helper s)) = []" and "writable_at env (resolve_path mount path) (hs_fs (ds_helper s))"
    and "he_decode env (he_encode env content) = Inr content" and "length content < 2 ^ 64"
  shows "run_sandbox_call (direct_tools env config mount home tmp sh) (write_call path content) s =
    (Inr (output_ok (''Wrote '' @ nat_to_string (length content) @ '' bytes to '' @ path)),
     put_file env (resolve_path mount path) content s)"
proof -
  have "unb64 env (b64 env content) = Inr content" using assms(3) by (simp add: unb64_def b64_def)
  note w = write_file_clean [OF assms(1,2) this]
  show ?thesis
    using assms(4) w
    by (simp add: tool_defs write_tool_def write_content_def write_call_def put_file_def unat_of_nat_u64 json_as_str_def)
qed

lemma run_edit:
  assumes "hf_faults (hs_fs (ds_helper s)) = []" and "fnode_at env (resolve_path mount path) (hs_fs (ds_helper s)) = Some (FN_File b)"
    and "utf8_valid b" and "length b < 2 ^ 64" and "old \<noteq> []"
    and "length (split_on old b) = 2 \<or> replace_all \<and> 2 \<le> length (split_on old b)"
  shows "\<exists>out. run_sandbox_call (direct_tools env config mount home tmp sh) (edit_call path old new replace_all) s =
    (Inr (output_ok out), put_file env (resolve_path mount path) (join_with new (split_on old b)) s)"
  using edit_writes [OF assms, of new] by (simp add: tool_defs edit_tool_def edit_call_def put_file_def) blast

lemma run_read:
  assumes "hf_faults (hs_fs (ds_helper s)) = []" and "fnode_at env (resolve_path mount path) (hs_fs (ds_helper s)) = Some (FN_File b)"
    and "length b \<le> unat READ_FILE_CAP" and "utf8_valid b" and "he_decode env (he_encode env b) = Inr b"
  shows "run_sandbox_call (direct_tools env config mount home tmp sh) (read_call path) s = (Inr (output_ok b), s)"
proof -
  have "unb64 env (b64 env b) = Inr b" using assms(5) by (simp add: unb64_def b64_def)
  with read_file_clean [OF assms(1-3)] from_utf8_lossy_valid [OF assms(4)] show ?thesis
    by (simp add: tool_defs read_tool_def read_call_def)
qed

text \<open>
  What the model writes is what it reads. In a state where no system call fails and the file can be
  written, a Write reports the number of bytes, an Edit whose old string is found once (or with
  \<open>replace_all\<close>) succeeds, and a Read then returns exactly the written text with the occurrences
  replaced, as long as it is within the cap. Written text stays valid UTF-8 through the edit.
\<close>

theorem write_edit_read:
  fixes env :: "'w helper_env" and mount path content old new home tmp :: string and config sh
  defines "te \<equiv> direct_tools env config mount home tmp sh" and "p \<equiv> resolve_path mount path"
    and "edited \<equiv> join_with new (split_on old content)"
  assumes codec: "\<And>x. he_decode env (he_encode env x) = Inr x"
    and calm: "hf_faults (hs_fs (ds_helper s)) = []" and writable: "writable_at env p (hs_fs (ds_helper s))"
    and strings: "utf8_valid content" "utf8_valid old" "utf8_valid new" "old \<noteq> []"
    and found: "length (split_on old content) = 2 \<or> replace_all \<and> 2 \<le> length (split_on old content)"
    and small: "length content < 2 ^ 64" "length edited \<le> unat READ_FILE_CAP"
  shows "\<exists>s1 s2 out.
    run_sandbox_call te (write_call path content) s =
      (Inr (output_ok (''Wrote '' @ nat_to_string (length content) @ '' bytes to '' @ path)), s1) \<and>
    run_sandbox_call te (edit_call path old new replace_all) s1 = (Inr (output_ok out), s2) \<and>
    run_sandbox_call te (read_call path) s2 = (Inr (output_ok edited), s2) \<and>
    fnode_at env p (hs_fs (ds_helper s2)) = Some (FN_File edited) \<and> utf8_valid edited"
proof -
  have put: "hf_faults (hs_fs (ds_helper (put_file env p x t))) = hf_faults (hs_fs (ds_helper t))"
    "fnode_at env p (hs_fs (ds_helper (put_file env p x t))) = Some (FN_File x)" for x and t :: "'w direct_state"
    by (simp_all add: put_file_def)
  let ?s1 = "put_file env p content s" and ?s2 = "put_file env p edited (put_file env p content s)"
  have valid: "utf8_valid edited" unfolding edited_def by (rule edited_text_valid) fact+
  have w: "run_sandbox_call te (write_call path content) s =
      (Inr (output_ok (''Wrote '' @ nat_to_string (length content) @ '' bytes to '' @ path)), ?s1)"
    unfolding te_def p_def by (rule run_write) (use calm writable codec small in \<open>simp_all add: p_def\<close>)
  have "\<exists>out. run_sandbox_call te (edit_call path old new replace_all) ?s1 = (Inr (output_ok out), ?s2)"
    unfolding te_def p_def edited_def
    by (rule run_edit) (use calm put strings small found in \<open>simp_all add: p_def\<close>)
  moreover have "run_sandbox_call te (read_call path) ?s2 = (Inr (output_ok edited), ?s2)"
    unfolding te_def by (rule run_read) (use calm put valid small codec in \<open>simp_all add: p_def\<close>)
  ultimately show ?thesis using w put valid by blast
qed

definition calm_state :: "unit direct_state" where
  "calm_state = \<lparr>ds_helper = \<lparr>hs_fs = demo_fs, hs_client = False, hs_net = ()\<rparr>, ds_runs = []\<rparr>"

theorem write_edit_read_witness:
  "\<exists>s1 s2 out.
    run_sandbox_call demo_tools (write_call ''b'' ''one two'') calm_state = (Inr (output_ok ''Wrote 7 bytes to b''), s1) \<and>
    run_sandbox_call demo_tools (edit_call ''b'' ''two'' ''three'' False) s1 = (Inr (output_ok out), s2) \<and>
    run_sandbox_call demo_tools (read_call ''b'') s2 = (Inr (output_ok ''one three''), s2)"
proof -
  have p: "resolve_path ''/w'' ''b'' = ''/w/b''" by code_simp
  have w: "writable_at demo_env ''/w/b'' (hs_fs (ds_helper calm_state))" by code_simp
  have sp: "split_on ''two'' ''one two'' = [''one '', []]" by code_simp
  have seven: "nat_to_string (length ''one two'') = ''7''" by code_simp
  have calm: "hf_faults (hs_fs (ds_helper calm_state)) = []" by (simp add: calm_state_def demo_fs_def)
  have valid: "utf8_valid ''one two''" "utf8_valid ''two''" "utf8_valid ''three''" by code_simp+
  have cap: "length (join_with ''three'' [''one '', []]) \<le> unat READ_FILE_CAP" by (simp add: READ_FILE_CAP_def)
  show ?thesis
    using write_edit_read [where env = demo_env and mount = "''/w''" and path = "''b''" and content = "''one two''"
      and old = "''two''" and new = "''three''" and replace_all = False and s = calm_state
      and config = "\<lparr>fc_proxy_url = None, fc_ca_cert_path = None\<rparr>" and home = "''/h''" and tmp = "''/t''"
      and sh = "\<lambda>_. ''payload''", OF demo_codec calm] w valid cap
    unfolding p sp seven demo_tools_def [symmetric] by simp blast
qed

end
