(* ===== verification/Silo_Session.thy ===== *)
theory Silo_Session
  imports Silo_Helper
begin

text \<open>
  The session between the harness and the helper (\<open>silo-sandbox/src/session.rs\<close>, and the serve loop of
  \<open>silo-helper/src/lib.rs\<close> with the cancellation registry of \<open>ops.rs\<close>) as one machine of interleaved
  tasks. A call of \<open>request\<close> is its number; what it does under one lock is one action: taking an id and
  registering its waiter, recording itself as in flight, handing its request to the writer, and
  returning. The reader and writer tasks of both sides, the serve loop and the tasks it spawns take
  their own actions, and the two directions of the stream are queues. \<open>HA_Forge\<close> lets the helper,
  which is not trusted, send any response at any time. What a task of the helper computes is the
  argument of its last action.

  \<open>se_delivered\<close> records which response completed which call; it is not part of the code.
\<close>

section \<open>State\<close>

definition closed_error :: sandbox_error where
  "closed_error = Sb_Unavailable ''helper connection closed''"

type_synonym call_result = "sandbox_error + helper_payload"

datatype call_stage =
    CS_New
  | CS_Marked
  | CS_Sent
  | CS_Returned call_result
  | CS_Dropped

record call =
  cl_id :: u64
  cl_op :: helper_op
  cl_stage :: call_stage
  cl_slot :: "call_result option"

record helper_task =
  tk_id :: u64
  tk_op :: helper_op
  tk_signal :: bool
  tk_result :: "(string + helper_payload) option"

record session_sys =
  se_next :: u64
  se_calls :: "call list"
  se_pending :: "(u64 \<times> nat) list option"
  se_inflight :: "u64 list"
  se_cancels :: "(u64 list \<times> nat option) list"
  se_queue :: "helper_request list"
  se_writer :: bool
  se_wire :: "helper_request list"
  se_reading :: bool
  se_tasks :: "helper_task list"
  se_execs :: "(u64 \<times> nat) list"
  se_out :: "helper_response list"
  se_out_writer :: bool
  se_back :: "helper_response list"
  se_delivered :: "(nat \<times> helper_response) list"

definition session_start :: session_sys where
  "session_start =
     \<lparr>se_next = 0, se_calls = [], se_pending = Some [], se_inflight = [], se_cancels = [], se_queue = [],
      se_writer = True, se_wire = [], se_reading = True, se_tasks = [], se_execs = [], se_out = [],
      se_out_writer = True, se_back = [], se_delivered = []\<rparr>"

section \<open>The harness side\<close>

definition QUEUE_LEN :: nat where
  "QUEUE_LEN = 64"

fun is_exec :: "helper_op \<Rightarrow> bool" where
  "is_exec (Op_Exec _ _ _ _) = True"
| "is_exec _ = False"

definition response_result :: "helper_response \<Rightarrow> call_result" where
  "response_result r = (case hr_result r of Inl m \<Rightarrow> Inl (Sb_Helper m) | Inr p \<Rightarrow> Inr p)"

definition set_call :: "nat \<Rightarrow> (call \<Rightarrow> call) \<Rightarrow> session_sys \<Rightarrow> session_sys" where
  "set_call k f s = s\<lparr>se_calls := (se_calls s)[k := f (se_calls s ! k)]\<rparr>"

text \<open>The id is taken and the waiter registered, unless the connection is closed.\<close>

definition request_begin :: "helper_op \<Rightarrow> session_sys \<Rightarrow> session_sys" where
  "request_begin op s =
     (let i = se_next s; k = length (se_calls s); s1 = s\<lparr>se_next := i + 1\<rparr> in
      case se_pending s of
        Some m \<Rightarrow>
          s1\<lparr>se_calls := se_calls s @ [\<lparr>cl_id = i, cl_op = op, cl_stage = CS_New, cl_slot = None\<rparr>],
             se_pending := Some (AList.update i k m)\<rparr>
      | None \<Rightarrow>
          s1\<lparr>se_calls := se_calls s @
               [\<lparr>cl_id = i, cl_op = op, cl_stage = CS_Returned (Inl closed_error), cl_slot = None\<rparr>]\<rparr>)"

definition request_mark :: "nat \<Rightarrow> session_sys \<Rightarrow> session_sys" where
  "request_mark k s =
     (let c = se_calls s ! k; s1 = set_call k (\<lambda>c. c\<lparr>cl_stage := CS_Marked\<rparr>) s in
      if is_exec (cl_op c) then s1\<lparr>se_inflight := List.insert (cl_id c) (se_inflight s)\<rparr> else s1)"

definition unregister :: "call \<Rightarrow> session_sys \<Rightarrow> session_sys" where
  "unregister c s = (if is_exec (cl_op c) then s\<lparr>se_inflight := removeAll (cl_id c) (se_inflight s)\<rparr> else s)"

definition finish_call :: "nat \<Rightarrow> call_result \<Rightarrow> session_sys \<Rightarrow> session_sys" where
  "finish_call k r s = unregister (se_calls s ! k) (set_call k (\<lambda>c. c\<lparr>cl_stage := CS_Returned r\<rparr>) s)"

text \<open>The channel to the writer is full, open with room, or closed.\<close>

definition request_send :: "nat \<Rightarrow> session_sys \<Rightarrow> session_sys option" where
  "request_send k s =
     (let c = se_calls s ! k in
      if \<not> se_writer s then
        Some (finish_call k (Inl closed_error)
               (s\<lparr>se_pending := map_option (AList.delete (cl_id c)) (se_pending s)\<rparr>))
      else if length (se_queue s) < QUEUE_LEN then
        Some (set_call k (\<lambda>c. c\<lparr>cl_stage := CS_Sent\<rparr>)
               (s\<lparr>se_queue := se_queue s @ [\<lparr>hq_id = cl_id c, hq_op = cl_op c\<rparr>]\<rparr>))
      else None)"

definition read_response :: "helper_response \<Rightarrow> session_sys \<Rightarrow> session_sys" where
  "read_response r s =
     (case se_pending s of
        None \<Rightarrow> s
      | Some m \<Rightarrow>
          (case map_of m (hr_id r) of
             None \<Rightarrow> s
           | Some k \<Rightarrow>
               set_call k (\<lambda>c. c\<lparr>cl_slot := Some (response_result r)\<rparr>)
                 (s\<lparr>se_pending := Some (AList.delete (hr_id r) m), se_delivered := (k, r) # se_delivered s\<rparr>)))"

text \<open>The reader ends: the session is marked closed and every waiter fails.\<close>

definition close_reader :: "session_sys \<Rightarrow> session_sys" where
  "close_reader s =
     (case se_pending s of
        None \<Rightarrow> s
      | Some m \<Rightarrow>
          fold (\<lambda>(_, k). set_call k (\<lambda>c. c\<lparr>cl_slot := Some (Inl closed_error)\<rparr>)) m (s\<lparr>se_pending := None\<rparr>))"

text \<open>The handshake of \<open>from_stream\<close> and the reply to a shutdown.\<close>

definition handshake_result :: "(helper_payload \<Rightarrow> string) \<Rightarrow> call_result \<Rightarrow> sandbox_error + (string \<times> u32)" where
  "handshake_result show_payload r =
     (case r of
        Inl e \<Rightarrow> Inl e
      | Inr (Pl_Hello version pid) \<Rightarrow> Inr (version, pid)
      | Inr p \<Rightarrow> Inl (Sb_Setup (''unexpected handshake reply from helper: '' @ show_payload p)))"

definition shutdown_result :: "(helper_payload \<Rightarrow> string) \<Rightarrow> call_result \<Rightarrow> sandbox_error + unit" where
  "shutdown_result show_payload r =
     (case r of
        Inl e \<Rightarrow> Inl e
      | Inr Pl_Ack \<Rightarrow> Inr ()
      | Inr p \<Rightarrow> Inl (Sb_Helper (''unexpected reply to shutdown: '' @ show_payload p)))"

section \<open>The helper side\<close>

definition set_task :: "nat \<Rightarrow> (helper_task \<Rightarrow> helper_task) \<Rightarrow> session_sys \<Rightarrow> session_sys" where
  "set_task t f s = s\<lparr>se_tasks := (se_tasks s)[t := f (se_tasks s ! t)]\<rparr>"

text \<open>A sender leaves the registry: its receiver is woken, whether a value was sent or the sender dropped.\<close>

definition take_sender :: "u64 \<Rightarrow> session_sys \<Rightarrow> session_sys" where
  "take_sender i s =
     (case map_of (se_execs s) i of
        None \<Rightarrow> s
      | Some t \<Rightarrow>
          set_task t (\<lambda>x. x\<lparr>tk_signal := True\<rparr>) (s\<lparr>se_execs := AList.delete i (se_execs s)\<rparr>))"

definition register_exec :: "u64 \<Rightarrow> nat \<Rightarrow> session_sys \<Rightarrow> session_sys" where
  "register_exec i t s = (let s1 = take_sender i s in s1\<lparr>se_execs := AList.update i t (se_execs s1)\<rparr>)"

text \<open>The end of an execution: the registration is removed without regard to whose it is.\<close>

definition unregister_exec :: "u64 \<Rightarrow> session_sys \<Rightarrow> session_sys" where
  "unregister_exec i s = take_sender i s"

definition respond :: "nat \<Rightarrow> string + helper_payload \<Rightarrow> session_sys \<Rightarrow> session_sys" where
  "respond t r s =
     (let s1 = set_task t (\<lambda>x. x\<lparr>tk_result := Some r\<rparr>) s in
      s1\<lparr>se_out := se_out s1 @ [\<lparr>hr_id = tk_id (se_tasks s ! t), hr_result = r\<rparr>]\<rparr>)"

definition serve_request :: "helper_request \<Rightarrow> session_sys \<Rightarrow> session_sys" where
  "serve_request q s =
     (if hq_op q = Op_Shutdown then
        s\<lparr>se_out := se_out s @ [\<lparr>hr_id = hq_id q, hr_result = Inr Pl_Ack\<rparr>], se_reading := False\<rparr>
      else
        (let t = length (se_tasks s);
             s1 = s\<lparr>se_tasks := se_tasks s @ [\<lparr>tk_id = hq_id q, tk_op = hq_op q, tk_signal = False, tk_result = None\<rparr>]\<rparr> in
         if is_exec (hq_op q) then register_exec (hq_id q) t s1 else s1))"

definition handle_cancel :: "nat \<Rightarrow> u64 \<Rightarrow> session_sys \<Rightarrow> session_sys" where
  "handle_cancel t target s =
     (case map_of (se_execs s) target of
        Some _ \<Rightarrow> respond t (Inr Pl_Ack) (take_sender target s)
      | None \<Rightarrow> respond t (Inl (''no cancellable request with id '' @ nat_to_string (unat target))) s)"

text \<open>An execution reports that it was cancelled only after its channel woke it.\<close>

definition may_finish :: "helper_task \<Rightarrow> string + helper_payload \<Rightarrow> bool" where
  "may_finish x r = (case r of Inr (Pl_Exec _ _ _ _ _ cancelled) \<Rightarrow> cancelled \<longrightarrow> tk_signal x | _ \<Rightarrow> True)"

definition finish_task :: "nat \<Rightarrow> string + helper_payload \<Rightarrow> session_sys \<Rightarrow> session_sys" where
  "finish_task t r s =
     (let x = se_tasks s ! t in
      respond t r (if is_exec (tk_op x) then unregister_exec (tk_id x) s else s))"

section \<open>The machine\<close>

datatype session_action =
    SA_Request helper_op
  | SA_Mark nat
  | SA_Send nat
  | SA_Return nat
  | SA_Drop nat
  | SA_Write bool
  | SA_Read
  | SA_Close
  | SA_CancelInflight
  | SA_CancelNext nat
  | HA_Serve
  | HA_Cancel nat
  | HA_Finish nat "string + helper_payload"
  | HA_Write bool
  | HA_Forge helper_response

definition stage_of :: "nat \<Rightarrow> session_sys \<Rightarrow> call_stage option" where
  "stage_of k s = (if k < length (se_calls s) then Some (cl_stage (se_calls s ! k)) else None)"

text \<open>\<open>cancel_inflight\<close> waits for the answer to one \<open>Cancel\<close> before it sends the next.\<close>

definition returned :: "nat option \<Rightarrow> session_sys \<Rightarrow> bool" where
  "returned ko s =
     (case ko of None \<Rightarrow> True
      | Some k \<Rightarrow> (case stage_of k s of Some (CS_Returned _) \<Rightarrow> True | _ \<Rightarrow> False))"

fun session_exec :: "session_action \<Rightarrow> session_sys \<Rightarrow> session_sys option" where
  "session_exec (SA_Request op) s = Some (request_begin op s)"
| "session_exec (SA_Mark k) s = (if stage_of k s = Some CS_New then Some (request_mark k s) else None)"
| "session_exec (SA_Send k) s = (if stage_of k s = Some CS_Marked then request_send k s else None)"
| "session_exec (SA_Return k) s =
     (if stage_of k s = Some CS_Sent
      then (case cl_slot (se_calls s ! k) of Some r \<Rightarrow> Some (finish_call k r s) | None \<Rightarrow> None)
      else None)"
| "session_exec (SA_Drop k) s =
     (case stage_of k s of
        None \<Rightarrow> None
      | Some (CS_Returned _) \<Rightarrow> None
      | Some _ \<Rightarrow> Some (set_call k (\<lambda>c. c\<lparr>cl_stage := CS_Dropped\<rparr>) s))"
| "session_exec (SA_Write ok) s =
     (case se_queue s of
        q # qs \<Rightarrow>
          if \<not> se_writer s then None
          else if ok then Some (s\<lparr>se_queue := qs, se_wire := se_wire s @ [q]\<rparr>)
          else Some (s\<lparr>se_queue := [], se_writer := False\<rparr>)
      | [] \<Rightarrow> None)"
| "session_exec SA_Read s =
     (case (se_back s, se_pending s) of
        (r # rs, Some _) \<Rightarrow> Some (read_response r (s\<lparr>se_back := rs\<rparr>))
      | _ \<Rightarrow> None)"
| "session_exec SA_Close s = Some (close_reader s)"
| "session_exec SA_CancelInflight s = Some (s\<lparr>se_cancels := se_cancels s @ [(se_inflight s, None)]\<rparr>)"
| "session_exec (SA_CancelNext n) s =
     (if n < length (se_cancels s)
      then (case se_cancels s ! n of
              (i # rest, waiting) \<Rightarrow>
                if returned waiting s
                then Some (request_begin (Op_Cancel i)
                       (s\<lparr>se_cancels := (se_cancels s)[n := (rest, Some (length (se_calls s)))]\<rparr>))
                else None
            | _ \<Rightarrow> None)
      else None)"
| "session_exec HA_Serve s =
     (case se_wire s of
        q # qs \<Rightarrow> if se_reading s then Some (serve_request q (s\<lparr>se_wire := qs\<rparr>)) else None
      | [] \<Rightarrow> None)"
| "session_exec (HA_Cancel t) s =
     (if t < length (se_tasks s) \<and> tk_result (se_tasks s ! t) = None
      then (case tk_op (se_tasks s ! t) of Op_Cancel target \<Rightarrow> Some (handle_cancel t target s) | _ \<Rightarrow> None)
      else None)"
| "session_exec (HA_Finish t r) s =
     (if t < length (se_tasks s) \<and> tk_result (se_tasks s ! t) = None \<and> may_finish (se_tasks s ! t) r
      then (case tk_op (se_tasks s ! t) of Op_Cancel _ \<Rightarrow> None | _ \<Rightarrow> Some (finish_task t r s))
      else None)"
| "session_exec (HA_Write ok) s =
     (case se_out s of
        r # rs \<Rightarrow>
          if \<not> se_out_writer s then None
          else if ok then Some (s\<lparr>se_out := rs, se_back := se_back s @ [r]\<rparr>)
          else Some (s\<lparr>se_out := rs, se_out_writer := False\<rparr>)
      | [] \<Rightarrow> None)"
| "session_exec (HA_Forge r) s = Some (s\<lparr>se_back := se_back s @ [r]\<rparr>)"

inductive session_any_step :: "session_sys \<Rightarrow> session_sys \<Rightarrow> bool" where
  "session_exec a s = Some s' \<Longrightarrow> session_any_step s s'"

text \<open>The helper sends only the responses of its tasks.\<close>

fun honest :: "session_action \<Rightarrow> bool" where
  "honest (HA_Forge _) = False"
| "honest _ = True"

inductive session_honest_step :: "session_sys \<Rightarrow> session_sys \<Rightarrow> bool" where
  "honest a \<Longrightarrow> session_exec a s = Some s' \<Longrightarrow> session_honest_step s s'"

inductive_cases session_any_stepE: "session_any_step s s'"
inductive_cases session_honest_stepE: "session_honest_step s s'"

end
