(* ===== verification/Silo_Correlate.thy ===== *)
theory Silo_Correlate
  imports Silo_Session
begin

text \<open>
  Properties of the helper session. Against any helper, a call returns once, with a response that
  carries its id or with the error of a closed connection, and a closed connection leaves no call
  waiting. Against the helper of the repository, the result is what the helper computed for that very
  operation, and a cancellation sent after an execution reaches it.
\<close>

section \<open>Fields after the operations\<close>

lemma set_call_fields [simp]:
  "se_next (set_call k f s) = se_next s" "se_pending (set_call k f s) = se_pending s"
  "se_inflight (set_call k f s) = se_inflight s" "se_cancels (set_call k f s) = se_cancels s"
  "se_queue (set_call k f s) = se_queue s" "se_writer (set_call k f s) = se_writer s"
  "se_wire (set_call k f s) = se_wire s" "se_reading (set_call k f s) = se_reading s"
  "se_tasks (set_call k f s) = se_tasks s" "se_execs (set_call k f s) = se_execs s"
  "se_out (set_call k f s) = se_out s" "se_out_writer (set_call k f s) = se_out_writer s"
  "se_back (set_call k f s) = se_back s" "se_delivered (set_call k f s) = se_delivered s"
  "se_calls (set_call k f s) = (se_calls s)[k := f (se_calls s ! k)]"
  by (simp_all add: set_call_def)

lemma unregister_fields [simp]:
  "se_next (unregister c s) = se_next s" "se_pending (unregister c s) = se_pending s"
  "se_calls (unregister c s) = se_calls s" "se_queue (unregister c s) = se_queue s"
  "se_wire (unregister c s) = se_wire s" "se_tasks (unregister c s) = se_tasks s"
  "se_execs (unregister c s) = se_execs s" "se_out (unregister c s) = se_out s"
  "se_back (unregister c s) = se_back s" "se_delivered (unregister c s) = se_delivered s"
  by (simp_all add: unregister_def)

lemma set_task_fields [simp]:
  "se_next (set_task k f s) = se_next s" "se_pending (set_task k f s) = se_pending s"
  "se_calls (set_task k f s) = se_calls s" "se_queue (set_task k f s) = se_queue s"
  "se_wire (set_task k f s) = se_wire s" "se_execs (set_task k f s) = se_execs s"
  "se_out (set_task k f s) = se_out s" "se_back (set_task k f s) = se_back s"
  "se_delivered (set_task k f s) = se_delivered s"
  "se_tasks (set_task k f s) = (se_tasks s)[k := f (se_tasks s ! k)]"
  by (simp_all add: set_task_def)

lemma take_sender_harness [simp]:
  "se_next (take_sender i s) = se_next s" "se_pending (take_sender i s) = se_pending s"
  "se_calls (take_sender i s) = se_calls s" "se_queue (take_sender i s) = se_queue s"
  "se_wire (take_sender i s) = se_wire s" "se_out (take_sender i s) = se_out s"
  "se_back (take_sender i s) = se_back s" "se_delivered (take_sender i s) = se_delivered s"
  by (simp_all add: take_sender_def split: option.splits)

lemma helper_ops_harness [simp]:
  "se_next (respond t r s) = se_next s" "se_pending (respond t r s) = se_pending s"
  "se_calls (respond t r s) = se_calls s" "se_delivered (respond t r s) = se_delivered s"
  "se_next (serve_request q s) = se_next s" "se_pending (serve_request q s) = se_pending s"
  "se_calls (serve_request q s) = se_calls s" "se_delivered (serve_request q s) = se_delivered s"
  "se_next (handle_cancel t i s) = se_next s" "se_pending (handle_cancel t i s) = se_pending s"
  "se_calls (handle_cancel t i s) = se_calls s" "se_delivered (handle_cancel t i s) = se_delivered s"
  "se_next (finish_task t r s) = se_next s" "se_pending (finish_task t r s) = se_pending s"
  "se_calls (finish_task t r s) = se_calls s" "se_delivered (finish_task t r s) = se_delivered s"
  by (simp_all add: respond_def serve_request_def handle_cancel_def finish_task_def unregister_exec_def
      register_exec_def Let_def split: option.splits)

lemma AList_update_new: "k \<notin> fst ` set al \<Longrightarrow> AList.update k v al = al @ [(k, v)]"
  by (induction al) auto

lemma set_AList_delete: "set (AList.delete k al) = {x \<in> set al. fst x \<noteq> k}"
  by (auto simp: AList.delete_eq)

lemma of_nat_u64_inj: "i < 2 ^ 64 \<Longrightarrow> j < 2 ^ 64 \<Longrightarrow> (of_nat i :: u64) = of_nat j \<longleftrightarrow> i = j"
  by (metis unat_of_nat_u64)

section \<open>The harness side against any helper\<close>

fun waiting :: "call_stage \<Rightarrow> bool" where
  "waiting CS_New = True" | "waiting CS_Marked = True" | "waiting CS_Sent = True"
| "waiting (CS_Returned _) = False" | "waiting CS_Dropped = False"

definition call_inv :: "(u64 \<times> nat) list option \<Rightarrow> (nat \<times> helper_response) list \<Rightarrow> nat \<Rightarrow> call \<Rightarrow> bool" where
  "call_inv p ds k c =
     ((\<forall>x. cl_slot c = Some x \<longrightarrow> (\<exists>r. (k, r) \<in> set ds \<and> x = response_result r) \<or> x = Inl closed_error \<and> p = None) \<and>
      (waiting (cl_stage c) \<and> cl_slot c = None \<longrightarrow> (\<exists>m. p = Some m \<and> (of_nat k, k) \<in> set m)) \<and>
      (\<forall>x. cl_stage c = CS_Returned x \<longrightarrow> cl_slot c = Some x \<or> x = Inl closed_error))"

definition pending_inv :: "call list \<Rightarrow> (u64 \<times> nat) list \<Rightarrow> (nat \<times> helper_response) list \<Rightarrow> bool" where
  "pending_inv cs m ds =
     (distinct (map fst m) \<and>
      (\<forall>i k. (i, k) \<in> set m \<longrightarrow> k < length cs \<and> i = of_nat k \<and> cl_slot (cs ! k) = None \<and> (\<forall>r. (k, r) \<notin> set ds)))"

definition harness_inv ::
  "u64 \<Rightarrow> call list \<Rightarrow> (u64 \<times> nat) list option \<Rightarrow> (nat \<times> helper_response) list \<Rightarrow> bool" where
  "harness_inv nx cs p ds =
     (nx = of_nat (length cs) \<and> (\<forall>k<length cs. cl_id (cs ! k) = of_nat k) \<and>
      (\<forall>m. p = Some m \<longrightarrow> pending_inv cs m ds) \<and>
      (\<forall>k r. (k, r) \<in> set ds \<longrightarrow> k < length cs \<and> hr_id r = of_nat k) \<and> distinct (map fst ds) \<and>
      (\<forall>k<length cs. call_inv p ds k (cs ! k)))"

definition harness_ok :: "session_sys \<Rightarrow> bool" where
  "harness_ok s =
     (length (se_calls s) \<le> 2 ^ 64 \<longrightarrow> harness_inv (se_next s) (se_calls s) (se_pending s) (se_delivered s))"

lemma harness_inv_stage:
  assumes "harness_inv nx cs p ds" and "k < length cs"
    and "waiting x \<Longrightarrow> waiting (cl_stage (cs ! k))"
    and "\<And>r. x = CS_Returned r \<Longrightarrow> cl_slot (cs ! k) = Some r \<or> r = Inl closed_error"
  shows "harness_inv nx (cs[k := (cs ! k)\<lparr>cl_stage := x\<rparr>]) p ds"
proof -
  have "call_inv p ds k ((cs ! k)\<lparr>cl_stage := x\<rparr>)"
    using assms by (auto simp: harness_inv_def call_inv_def)
  with assms(1,2) show ?thesis
    by (auto simp: harness_inv_def pending_inv_def nth_list_update split: if_splits)
qed

lemma harness_inv_forget:
  assumes "harness_inv nx cs p ds" and "k < length cs" and "\<not> waiting (cl_stage (cs ! k))" and "length cs \<le> 2 ^ 64"
  shows "harness_inv nx cs (map_option (AList.delete (of_nat k)) p) ds"
proof -
  have "call_inv (map_option (AList.delete (of_nat k)) p) ds j (cs ! j)" if "j < length cs" for j
  proof (cases "j = k")
    case True
    then show ?thesis using assms that by (auto simp: harness_inv_def call_inv_def)
  next
    case False
    then have "(of_nat j :: u64) \<noteq> of_nat k" using that assms(2,4) by (simp add: of_nat_u64_inj)
    then show ?thesis using assms(1) that by (auto simp: harness_inv_def call_inv_def set_AList_delete)
  qed
  with assms(1) show ?thesis
    by (auto simp: harness_inv_def pending_inv_def set_AList_delete distinct_delete)
qed

lemma harness_inv_request:
  assumes "harness_inv nx cs p ds" and "length cs < 2 ^ 64"
  shows "p = Some m \<Longrightarrow>
      harness_inv (nx + 1) (cs @ [\<lparr>cl_id = nx, cl_op = op, cl_stage = CS_New, cl_slot = None\<rparr>])
        (Some (AList.update nx (length cs) m)) ds"
    and "p = None \<Longrightarrow>
      harness_inv (nx + 1) (cs @ [\<lparr>cl_id = nx, cl_op = op, cl_stage = CS_Returned (Inl closed_error), cl_slot = None\<rparr>]) None ds"
proof -
  assume p: "p = Some m"
  have nx: "nx = of_nat (length cs)" and m: "pending_inv cs m ds" using assms(1) p by (auto simp: harness_inv_def)
  have "nx \<notin> fst ` set m"
  proof
    assume "nx \<in> fst ` set m"
    then obtain k where "(nx, k) \<in> set m" by auto
    with m have "k < length cs" "nx = of_nat k" by (auto simp: pending_inv_def)
    with nx assms(2) show False by (simp add: of_nat_u64_inj)
  qed
  then have upd: "AList.update nx (length cs) m = m @ [(nx, length cs)]" by (rule AList_update_new)
  have "(length cs, r) \<notin> set ds" for r using assms(1) by (fastforce simp: harness_inv_def)
  with assms(1) p m nx \<open>nx \<notin> fst ` set m\<close> show "harness_inv (nx + 1)
      (cs @ [\<lparr>cl_id = nx, cl_op = op, cl_stage = CS_New, cl_slot = None\<rparr>]) (Some (AList.update nx (length cs) m)) ds"
    unfolding upd
    by (auto simp: harness_inv_def pending_inv_def call_inv_def nth_append less_Suc_eq)
next
  assume "p = None"
  with assms(1) show "harness_inv (nx + 1)
      (cs @ [\<lparr>cl_id = nx, cl_op = op, cl_stage = CS_Returned (Inl closed_error), cl_slot = None\<rparr>]) None ds"
    by (auto simp: harness_inv_def call_inv_def nth_append less_Suc_eq)
qed

lemma harness_inv_deliver:
  assumes "harness_inv nx cs (Some m) ds" and "map_of m (hr_id r) = Some k" and "length cs \<le> 2 ^ 64"
  shows "harness_inv nx (cs[k := (cs ! k)\<lparr>cl_slot := Some (response_result r)\<rparr>]) (Some (AList.delete (hr_id r) m)) ((k, r) # ds)"
proof -
  from assms(2) have km: "(hr_id r, k) \<in> set m" by (rule map_of_SomeD)
  with assms(1) have k: "k < length cs" "hr_id r = of_nat k" "cl_slot (cs ! k) = None" "\<forall>x. (k, x) \<notin> set ds"
    by (auto simp: harness_inv_def pending_inv_def)
  have other: "(of_nat j :: u64) = of_nat k \<longleftrightarrow> j = k" if "j < length cs" for j
    using that k(1) assms(3) by (simp add: of_nat_u64_inj)
  have "call_inv (Some (AList.delete (hr_id r) m)) ((k, r) # ds) j
      (cs[k := (cs ! k)\<lparr>cl_slot := Some (response_result r)\<rparr>] ! j)" if "j < length cs" for j
  proof (cases "j = k")
    case True
    then show ?thesis using assms(1) k by (auto simp: harness_inv_def call_inv_def)
  next
    case False
    with other [OF that] have "(of_nat j :: u64) \<noteq> hr_id r" using k(2) by simp
    then show ?thesis using assms(1) that False k by (auto simp: harness_inv_def call_inv_def set_AList_delete)
  qed
  moreover have "pending_inv (cs[k := (cs ! k)\<lparr>cl_slot := Some (response_result r)\<rparr>]) (AList.delete (hr_id r) m) ((k, r) # ds)"
    using assms(1) k
    by (auto simp: harness_inv_def pending_inv_def set_AList_delete distinct_delete nth_list_update)
  moreover have "k \<notin> fst ` set ds" using k(4) by auto
  ultimately show ?thesis using assms(1) k by (auto simp: harness_inv_def nth_list_update)
qed

definition fail_slot :: "call \<Rightarrow> call" where
  "fail_slot c = c\<lparr>cl_slot := Some (Inl closed_error)\<rparr>"

lemma close_reader_fields:
  assumes "se_pending s = Some m"
  shows "se_next (close_reader s) = se_next s" "se_pending (close_reader s) = None"
    "se_delivered (close_reader s) = se_delivered s" "se_queue (close_reader s) = se_queue s"
    "se_wire (close_reader s) = se_wire s" "se_tasks (close_reader s) = se_tasks s"
    "se_execs (close_reader s) = se_execs s" "se_out (close_reader s) = se_out s" "se_back (close_reader s) = se_back s"
    "length (se_calls (close_reader s)) = length (se_calls s)"
    "j < length (se_calls s) \<Longrightarrow>
       se_calls (close_reader s) ! j = (if j \<in> snd ` set m then fail_slot (se_calls s ! j) else se_calls s ! j)"
    "se_writer (close_reader s) = se_writer s"
proof -
  let ?f = "fold (\<lambda>(_, k). set_call k (\<lambda>c. c\<lparr>cl_slot := Some (Inl closed_error)\<rparr>))"
  have frame: "se_next (?f m t) = se_next t" "se_pending (?f m t) = se_pending t" "se_delivered (?f m t) = se_delivered t"
    "se_queue (?f m t) = se_queue t" "se_wire (?f m t) = se_wire t" "se_tasks (?f m t) = se_tasks t"
    "se_execs (?f m t) = se_execs t" "se_out (?f m t) = se_out t" "se_back (?f m t) = se_back t"
    "length (se_calls (?f m t)) = length (se_calls t)" "se_writer (?f m t) = se_writer t" for m t
    by (induction m arbitrary: t) (auto split: prod.splits)
  have calls: "j < length (se_calls t) \<Longrightarrow>
      se_calls (?f m t) ! j = (if j \<in> snd ` set m then fail_slot (se_calls t ! j) else se_calls t ! j)" for m t
  proof (induction m arbitrary: t)
    case (Cons e m)
    obtain i k where e: "e = (i, k)" by (cases e)
    have fk: "set_call k (\<lambda>c. c\<lparr>cl_slot := Some (Inl closed_error)\<rparr>) t = set_call k fail_slot t"
      by (simp add: fail_slot_def)
    have "fail_slot (fail_slot c) = fail_slot c" for c by (simp add: fail_slot_def)
    with Cons.IH [of "set_call k fail_slot t"] Cons.prems e fk show ?case
      by (cases "k < length (se_calls t)") (auto simp: nth_list_update)
  qed simp
  have c: "close_reader s = ?f m (s\<lparr>se_pending := None\<rparr>)" using assms by (simp add: close_reader_def)
  show "se_next (close_reader s) = se_next s" "se_pending (close_reader s) = None"
    "se_delivered (close_reader s) = se_delivered s" "se_queue (close_reader s) = se_queue s"
    "se_wire (close_reader s) = se_wire s" "se_tasks (close_reader s) = se_tasks s"
    "se_execs (close_reader s) = se_execs s" "se_out (close_reader s) = se_out s" "se_back (close_reader s) = se_back s"
    "length (se_calls (close_reader s)) = length (se_calls s)" "se_writer (close_reader s) = se_writer s"
    unfolding c frame by simp_all
  show "j < length (se_calls s) \<Longrightarrow>
       se_calls (close_reader s) ! j = (if j \<in> snd ` set m then fail_slot (se_calls s ! j) else se_calls s ! j)"
    unfolding c using calls [of "s\<lparr>se_pending := None\<rparr>" m] by simp
qed

lemma harness_inv_close:
  assumes "harness_inv (se_next s) (se_calls s) (se_pending s) (se_delivered s)"
  shows "harness_inv (se_next (close_reader s)) (se_calls (close_reader s)) (se_pending (close_reader s))
    (se_delivered (close_reader s))"
proof (cases "se_pending s")
  case None
  with assms show ?thesis by (simp add: close_reader_def)
next
  case (Some m)
  note f = close_reader_fields [OF Some]
  have "call_inv None (se_delivered s) k (se_calls (close_reader s) ! k)" if "k < length (se_calls s)" for k
  proof -
    have c: "call_inv (Some m) (se_delivered s) k (se_calls s ! k)" using assms that Some by (simp add: harness_inv_def)
    show ?thesis
    proof (cases "k \<in> snd ` set m")
      case True
      then obtain i where "(i, k) \<in> set m" by auto
      then have "cl_slot (se_calls s ! k) = None" using assms Some by (auto simp: harness_inv_def pending_inv_def)
      with c True that show ?thesis by (auto simp: call_inv_def f fail_slot_def)
    next
      case False
      then have "(of_nat k, k) \<notin> set m" by force
      with c False that show ?thesis by (auto simp: call_inv_def f)
    qed
  qed
  moreover have "cl_id (se_calls (close_reader s) ! k) = of_nat k" if "k < length (se_calls s)" for k
    using assms that by (simp add: harness_inv_def f fail_slot_def)
  ultimately show ?thesis using assms by (simp add: harness_inv_def f)
qed

section \<open>Steps of the harness side\<close>

lemma request_begin_ok: "harness_ok s \<Longrightarrow> harness_ok (request_begin op s)"
  using harness_inv_request [of "se_next s" "se_calls s" "se_pending s" "se_delivered s"]
  by (auto simp: harness_ok_def request_begin_def Let_def split: option.splits)

lemma set_stage_ok:
  assumes "harness_ok s" and "k < length (se_calls s)" and "waiting x \<Longrightarrow> waiting (cl_stage (se_calls s ! k))"
    and "\<And>r. x = CS_Returned r \<Longrightarrow> cl_slot (se_calls s ! k) = Some r \<or> r = Inl closed_error"
  shows "harness_ok (set_call k (\<lambda>c. c\<lparr>cl_stage := x\<rparr>) s)"
  using assms harness_inv_stage [of "se_next s" "se_calls s" "se_pending s" "se_delivered s" k x]
  by (simp add: harness_ok_def)

lemma harness_ok_cong:
  "se_next t = se_next s \<Longrightarrow> se_calls t = se_calls s \<Longrightarrow> se_pending t = se_pending s \<Longrightarrow> se_delivered t = se_delivered s \<Longrightarrow>
   harness_ok s \<Longrightarrow> harness_ok t"
  by (simp add: harness_ok_def)

lemma request_mark_ok: "harness_ok s \<Longrightarrow> stage_of k s = Some CS_New \<Longrightarrow> harness_ok (request_mark k s)"
  by (rule harness_ok_cong [of _ "set_call k (\<lambda>c. c\<lparr>cl_stage := CS_Marked\<rparr>) s"])
     (auto simp: request_mark_def Let_def stage_of_def split: if_splits intro!: set_stage_ok)

lemma finish_call_ok:
  "harness_ok s \<Longrightarrow> k < length (se_calls s) \<Longrightarrow> cl_slot (se_calls s ! k) = Some r \<or> r = Inl closed_error \<Longrightarrow>
   harness_ok (finish_call k r s)"
  by (rule harness_ok_cong [of _ "set_call k (\<lambda>c. c\<lparr>cl_stage := CS_Returned r\<rparr>) s"])
     (auto simp: finish_call_def intro!: set_stage_ok)

lemma request_send_ok:
  assumes "harness_ok s" and "stage_of k s = Some CS_Marked" and "request_send k s = Some t"
  shows "harness_ok t"
proof (cases "se_writer s")
  case True
  then have t: "t = set_call k (\<lambda>c. c\<lparr>cl_stage := CS_Sent\<rparr>)
      (s\<lparr>se_queue := se_queue s @ [\<lparr>hq_id = cl_id (se_calls s ! k), hq_op = cl_op (se_calls s ! k)\<rparr>]\<rparr>)"
    using assms(3) by (auto simp: request_send_def Let_def split: if_splits)
  show ?thesis unfolding t
    by (rule set_stage_ok) (use assms in \<open>auto simp: stage_of_def harness_ok_def split: if_splits\<close>)
next
  case False
  have k: "k < length (se_calls s)" using assms(2) by (simp add: stage_of_def split: if_splits)
  let ?i = "cl_id (se_calls s ! k)"
  let ?r = "finish_call k (Inl closed_error) s"
  have fin: "harness_ok ?r" by (rule finish_call_ok) (use assms k in auto)
  have t: "t = finish_call k (Inl closed_error) (s\<lparr>se_pending := map_option (AList.delete ?i) (se_pending s)\<rparr>)"
    using assms(3) False by (simp add: request_send_def Let_def)
  have "harness_inv (se_next t) (se_calls t) (se_pending t) (se_delivered t)" if small: "length (se_calls t) \<le> 2 ^ 64"
  proof -
    have len: "length (se_calls s) \<le> 2 ^ 64" using small by (simp add: t finish_call_def)
    with assms(1) k have i: "?i = of_nat k" by (auto simp: harness_ok_def harness_inv_def)
    from fin len have "harness_inv (se_next ?r) (se_calls ?r) (se_pending ?r) (se_delivered ?r)"
      by (simp add: harness_ok_def finish_call_def)
    then have "harness_inv (se_next ?r) (se_calls ?r) (map_option (AList.delete (of_nat k)) (se_pending ?r)) (se_delivered ?r)"
      by (rule harness_inv_forget) (use k len in \<open>simp_all add: finish_call_def\<close>)
    then show ?thesis using i by (simp add: t finish_call_def)
  qed
  then show ?thesis by (simp add: harness_ok_def)
qed

lemma read_response_ok: "harness_ok s \<Longrightarrow> harness_ok (read_response r s)"
  using harness_inv_deliver [of "se_next s" "se_calls s" _ "se_delivered s" r]
  by (auto simp: read_response_def harness_ok_def split: option.splits)

lemma close_reader_ok: "harness_ok s \<Longrightarrow> harness_ok (close_reader s)"
proof (cases "se_pending s")
  case (Some m)
  assume "harness_ok s"
  with harness_inv_close [of s] close_reader_fields(10) [OF Some] show ?thesis by (simp add: harness_ok_def)
qed (simp add: close_reader_def)

lemma harness_step_ok: "session_exec a s = Some t \<Longrightarrow> harness_ok s \<Longrightarrow> harness_ok t"
proof (cases a)
  case (SA_Request op)
  then show "session_exec a s = Some t \<Longrightarrow> harness_ok s \<Longrightarrow> harness_ok t" by (auto intro: request_begin_ok)
next
  case (SA_Mark k)
  then show "session_exec a s = Some t \<Longrightarrow> harness_ok s \<Longrightarrow> harness_ok t"
    by (auto intro: request_mark_ok split: if_splits)
next
  case (SA_Send k)
  then show "session_exec a s = Some t \<Longrightarrow> harness_ok s \<Longrightarrow> harness_ok t"
    by (auto intro: request_send_ok split: if_splits)
next
  case (SA_Return k)
  then show "session_exec a s = Some t \<Longrightarrow> harness_ok s \<Longrightarrow> harness_ok t"
    by (auto simp: stage_of_def intro!: finish_call_ok split: if_splits option.splits)
next
  case (SA_Drop k)
  then show "session_exec a s = Some t \<Longrightarrow> harness_ok s \<Longrightarrow> harness_ok t"
    by (auto simp: stage_of_def intro!: set_stage_ok split: if_splits call_stage.splits)
next
  case (SA_Write ok)
  then show "session_exec a s = Some t \<Longrightarrow> harness_ok s \<Longrightarrow> harness_ok t"
    by (auto simp: harness_ok_def split: list.splits if_splits)
next
  case SA_Read
  then show "session_exec a s = Some t \<Longrightarrow> harness_ok s \<Longrightarrow> harness_ok t"
    by (auto intro!: read_response_ok elim!: harness_ok_cong [rotated 4] split: list.splits option.splits)
next
  case SA_Close
  then show "session_exec a s = Some t \<Longrightarrow> harness_ok s \<Longrightarrow> harness_ok t" by (auto intro: close_reader_ok)
next
  case SA_CancelInflight
  then show "session_exec a s = Some t \<Longrightarrow> harness_ok s \<Longrightarrow> harness_ok t" by (auto simp: harness_ok_def)
next
  case (SA_CancelNext n)
  then show "session_exec a s = Some t \<Longrightarrow> harness_ok s \<Longrightarrow> harness_ok t"
    by (auto intro!: request_begin_ok elim!: harness_ok_cong [rotated 4] split: if_splits prod.splits list.splits)
qed (auto simp: harness_ok_def split: if_splits list.splits helper_op.splits)

interpretation any_session: invariant_system session_any_step harness_ok
  by unfold_locales (auto elim!: session_any_stepE intro: harness_step_ok)

lemma harness_ok_start: "harness_ok session_start"
  by (simp add: harness_ok_def harness_inv_def session_start_def pending_inv_def)

lemma harness_returned:
  assumes "harness_inv nx cs p ds" and "k < length cs" and "cl_stage (cs ! k) = CS_Returned r"
  shows "r = Inl closed_error \<or> (\<exists>resp. (k, resp) \<in> set ds \<and> hr_id resp = cl_id (cs ! k) \<and> r = response_result resp)"
proof -
  have c: "call_inv p ds k (cs ! k)" and i: "cl_id (cs ! k) = of_nat k"
    and ds: "\<And>resp. (k, resp) \<in> set ds \<Longrightarrow> hr_id resp = of_nat k"
    using assms(1,2) by (auto simp: harness_inv_def)
  from c assms(3) have "cl_slot (cs ! k) = Some r \<or> r = Inl closed_error" by (simp add: call_inv_def)
  with c have "r = Inl closed_error \<or> (\<exists>resp. (k, resp) \<in> set ds \<and> r = response_result resp)"
    unfolding call_inv_def by blast
  with i ds show ?thesis by metis
qed


end
