(* ===== verification/Silo_Cancel.thy ===== *)
theory Silo_Cancel
  imports Silo_Correlate
begin

text \<open>
  The session against the helper of the repository: results belong to the operation they answer, and
  a cancellation that follows an execution on the stream reaches it. The requests the helper has taken
  up, those on the wire and those queued form one list that only grows at its end; its order carries
  the argument.
\<close>

section \<open>What the actions change\<close>

definition req_of_task :: "helper_task \<Rightarrow> helper_request" where
  "req_of_task x = \<lparr>hq_id = tk_id x, hq_op = tk_op x\<rparr>"

definition req_of_call :: "call \<Rightarrow> helper_request" where
  "req_of_call c = \<lparr>hq_id = cl_id c, hq_op = cl_op c\<rparr>"

definition stream :: "session_sys \<Rightarrow> helper_request list" where
  "stream s = map req_of_task (se_tasks s) @ se_wire s @ se_queue s"

fun past :: "call_stage \<Rightarrow> bool" where
  "past CS_New = False" | "past CS_Marked = False" | "past CS_Sent = True"
| "past (CS_Returned _) = True" | "past CS_Dropped = True"

definition calls_grow :: "call list \<Rightarrow> call list \<Rightarrow> bool" where
  "calls_grow cs ds =
     (length cs \<le> length ds \<and>
      (\<forall>k<length cs. req_of_call (ds ! k) = req_of_call (cs ! k) \<and> (past (cl_stage (cs ! k)) \<longrightarrow> past (cl_stage (ds ! k)))))"

definition tasks_grow :: "helper_task list \<Rightarrow> helper_task list \<Rightarrow> bool" where
  "tasks_grow xs ys =
     (length xs \<le> length ys \<and>
      (\<forall>t<length xs. req_of_task (ys ! t) = req_of_task (xs ! t) \<and>
         (tk_signal (xs ! t) \<longrightarrow> tk_signal (ys ! t)) \<and>
         (\<forall>r. tk_result (xs ! t) = Some r \<longrightarrow> tk_result (ys ! t) = Some r)))"

lemma nth_updated: "xs[k := y] ! j = (if k = j \<and> j < length xs then y else xs ! j)"
  by (cases "k < length xs") (auto simp: nth_list_update list_update_beyond)

lemma calls_grow_refl [simp]: "calls_grow cs cs"
  by (simp add: calls_grow_def)

lemma tasks_grow_refl [simp]: "tasks_grow xs xs"
  by (simp add: tasks_grow_def)

lemma tasks_grow_trans: "tasks_grow xs ys \<Longrightarrow> tasks_grow ys zs \<Longrightarrow> tasks_grow xs zs"
  unfolding tasks_grow_def by (metis (no_types, lifting) le_trans order_less_le_trans)

lemma calls_grow_append [simp]: "calls_grow cs (cs @ ds)"
  by (simp add: calls_grow_def nth_append)

lemma tasks_grow_append [simp]: "tasks_grow xs (xs @ ys)"
  by (simp add: tasks_grow_def nth_append)

lemma calls_grow_update:
  "req_of_call (f (cs ! k)) = req_of_call (cs ! k) \<Longrightarrow> (past (cl_stage (cs ! k)) \<Longrightarrow> past (cl_stage (f (cs ! k)))) \<Longrightarrow>
   calls_grow cs (cs[k := f (cs ! k)])"
  by (auto simp: calls_grow_def nth_updated)

lemma tasks_grow_update:
  "req_of_task (f (xs ! t)) = req_of_task (xs ! t) \<Longrightarrow> (tk_signal (xs ! t) \<Longrightarrow> tk_signal (f (xs ! t))) \<Longrightarrow>
   (\<And>r. tk_result (xs ! t) = Some r \<Longrightarrow> tk_result (f (xs ! t)) = Some r) \<Longrightarrow> tasks_grow xs (xs[t := f (xs ! t)])"
  by (auto simp: tasks_grow_def nth_updated)

lemma map_req_update: "req_of_task y = req_of_task (xs ! t) \<Longrightarrow> map req_of_task (xs[t := y]) = map req_of_task xs"
  by (cases "t < length xs") (simp_all add: map_update list_update_same_conv list_update_beyond)

lemma take_sender_tasks:
  "tasks_grow (se_tasks s) (se_tasks (take_sender i s))"
  "map req_of_task (se_tasks (take_sender i s)) = map req_of_task (se_tasks s)"
  "length (se_tasks (take_sender i s)) = length (se_tasks s)"
  "map_of (se_execs (take_sender i s)) = (map_of (se_execs s))(i := None)"
  "se_writer (take_sender i s) = se_writer s"
  by (auto simp: take_sender_def set_task_def req_of_task_def delete_conv' fun_upd_idem
      intro!: tasks_grow_update map_req_update split: option.splits)

lemma take_sender_signal:
  "tk_signal (se_tasks (take_sender i s) ! t) = (tk_signal (se_tasks s ! t) \<or> map_of (se_execs s) i = Some t \<and> t < length (se_tasks s))"
  "tk_result (se_tasks (take_sender i s) ! t) = tk_result (se_tasks s ! t)"
  "tk_id (se_tasks (take_sender i s) ! t) = tk_id (se_tasks s ! t)"
  "tk_op (se_tasks (take_sender i s) ! t) = tk_op (se_tasks s ! t)"
  by (auto simp: take_sender_def nth_updated split: option.splits)

lemma exec_calls_grow: "session_exec a s = Some t \<Longrightarrow> calls_grow (se_calls s) (se_calls t)"
proof (cases a)
  case SA_Close
  then show "session_exec a s = Some t \<Longrightarrow> calls_grow (se_calls s) (se_calls t)"
    using close_reader_fields [of s]
    by (cases "se_pending s") (auto simp: close_reader_def calls_grow_def fail_slot_def req_of_call_def)
qed (auto simp: request_begin_def request_mark_def request_send_def finish_call_def read_response_def stage_of_def Let_def
    req_of_call_def split: if_splits option.splits list.splits prod.splits call_stage.splits helper_op.splits
    intro!: calls_grow_update)

text \<open>The tasks after an answer, and after a request was taken up.\<close>

lemma respond_tasks:
  "se_tasks (respond t r s) = (se_tasks s)[t := (se_tasks s ! t)\<lparr>tk_result := Some r\<rparr>]"
  "se_execs (respond t r s) = se_execs s" "se_wire (respond t r s) = se_wire s"
  "se_queue (respond t r s) = se_queue s" "se_writer (respond t r s) = se_writer s"
  "se_back (respond t r s) = se_back s"
  "se_out (respond t r s) = se_out s @ [\<lparr>hr_id = tk_id (se_tasks s ! t), hr_result = r\<rparr>]"
  by (simp_all add: respond_def set_task_def Let_def)

lemma respond_grow:
  "tk_result (se_tasks s ! t) = None \<Longrightarrow> tasks_grow (se_tasks s) (se_tasks (respond t r s))"
  "map req_of_task (se_tasks (respond t r s)) = map req_of_task (se_tasks s)"
  by (auto simp: respond_tasks req_of_task_def intro!: tasks_grow_update map_req_update)

lemma respond_taken_grow:
  "tk_result (se_tasks s ! t) = None \<Longrightarrow> tasks_grow (se_tasks s) (se_tasks (respond t r (take_sender i s)))"
  by (rule tasks_grow_trans [OF take_sender_tasks(1) [of s i] respond_grow(1)]) (simp add: take_sender_signal)

lemma handle_cancel_grow:
  "tk_result (se_tasks s ! t) = None \<Longrightarrow> tasks_grow (se_tasks s) (se_tasks (handle_cancel t target s))"
  by (auto simp: handle_cancel_def intro: respond_grow respond_taken_grow split: option.splits)

lemma finish_task_grow:
  "tk_result (se_tasks s ! t) = None \<Longrightarrow> tasks_grow (se_tasks s) (se_tasks (finish_task t r s))"
  by (auto simp: finish_task_def unregister_exec_def Let_def intro: respond_grow respond_taken_grow)

definition new_task :: "helper_request \<Rightarrow> helper_task" where
  "new_task q = \<lparr>tk_id = hq_id q, tk_op = hq_op q, tk_signal = False, tk_result = None\<rparr>"

definition with_task :: "helper_request \<Rightarrow> session_sys \<Rightarrow> session_sys" where
  "with_task q s = s\<lparr>se_tasks := se_tasks s @ [new_task q]\<rparr>"

lemma with_task_fields [simp]:
  "se_tasks (with_task q s) = se_tasks s @ [new_task q]" "se_execs (with_task q s) = se_execs s"
  "se_wire (with_task q s) = se_wire s" "se_queue (with_task q s) = se_queue s"
  "se_writer (with_task q s) = se_writer s" "se_out (with_task q s) = se_out s" "se_back (with_task q s) = se_back s"
  "se_calls (with_task q s) = se_calls s" "se_delivered (with_task q s) = se_delivered s"
  by (simp_all add: with_task_def)

lemma req_new_task [simp]: "req_of_task (new_task q) = q"
  by (simp add: new_task_def req_of_task_def)

lemma serve_task:
  "hq_op q \<noteq> Op_Shutdown \<Longrightarrow>
   serve_request q s =
     (if is_exec (hq_op q) then register_exec (hq_id q) (length (se_tasks s)) (with_task q s) else with_task q s)"
  by (simp add: serve_request_def with_task_def new_task_def Let_def)

lemma register_exec_fields:
  "se_tasks (register_exec i t s) = se_tasks (take_sender i s)"
  "map_of (se_execs (register_exec i t s)) = (map_of (se_execs s))(i \<mapsto> t)"
  "se_wire (register_exec i t s) = se_wire s" "se_queue (register_exec i t s) = se_queue s"
  "se_writer (register_exec i t s) = se_writer s" "se_out (register_exec i t s) = se_out s"
  "se_back (register_exec i t s) = se_back s" "se_calls (register_exec i t s) = se_calls s"
  "se_delivered (register_exec i t s) = se_delivered s"
  by (simp_all add: register_exec_def Let_def take_sender_tasks update_conv')

text \<open>One action on the stream: nothing, one more request, the queue lost, or a shutdown taken off.\<close>

definition stream_change :: "session_sys \<Rightarrow> session_sys \<Rightarrow> bool" where
  "stream_change s t =
     (stream t = stream s \<and> se_writer t = se_writer s \<or>
      (\<exists>k. stage_of k s = Some CS_Marked \<and> stage_of k t = Some CS_Sent \<and> se_writer s \<and> se_writer t \<and>
           stream t = stream s @ [req_of_call (se_calls s ! k)]) \<or>
      \<not> se_writer t \<and> (\<exists>zs. stream s = stream t @ zs) \<or>
      (\<exists>xs q ys. hq_op q = Op_Shutdown \<and> stream s = xs @ q # ys \<and> stream t = xs @ ys \<and> se_writer t = se_writer s))"

lemma stream_sameI:
  "map req_of_task (se_tasks t) = map req_of_task (se_tasks s) \<Longrightarrow> se_wire t = se_wire s \<Longrightarrow> se_queue t = se_queue s \<Longrightarrow>
   se_writer t = se_writer s \<Longrightarrow> stream_change s t"
  by (simp add: stream_change_def stream_def)

lemma serve_stream_change:
  "se_wire s = q # qs \<Longrightarrow> stream_change s (serve_request q (s\<lparr>se_wire := qs\<rparr>))"
proof (cases "hq_op q = Op_Shutdown")
  case True
  assume "se_wire s = q # qs"
  with True show ?thesis
    by (auto simp: stream_change_def stream_def serve_request_def intro!: exI [of _ "map req_of_task (se_tasks s)"])
next
  case False
  assume "se_wire s = q # qs"
  then have "stream (serve_request q (s\<lparr>se_wire := qs\<rparr>)) = stream s"
    by (auto simp: serve_task [OF False] stream_def register_exec_fields take_sender_tasks)
  moreover have "se_writer (serve_request q (s\<lparr>se_wire := qs\<rparr>)) = se_writer s"
    by (simp add: serve_task [OF False] register_exec_fields)
  ultimately show ?thesis by (simp add: stream_change_def)
qed

lemma request_send_change:
  assumes "stage_of k s = Some CS_Marked" and "request_send k s = Some t"
  shows "stream_change s t"
proof (cases "se_writer s")
  case True
  with assms have "stream t = stream s @ [req_of_call (se_calls s ! k)] \<and> se_writer t \<and> stage_of k t = Some CS_Sent"
    by (auto simp: request_send_def Let_def stream_def req_of_call_def stage_of_def split: if_splits)
  with True assms show ?thesis by (auto simp: stream_change_def)
next
  case False
  with assms have "stream t = stream s" "\<not> se_writer t"
    by (auto simp: request_send_def Let_def stream_def finish_call_def unregister_def split: if_splits)
  with False show ?thesis by (simp add: stream_change_def)
qed

lemma exec_stream_change: "session_exec a s = Some t \<Longrightarrow> stream_change s t"
proof (cases a)
  case SA_Close
  then show "session_exec a s = Some t \<Longrightarrow> stream_change s t"
    using close_reader_fields [of s]
    by (cases "se_pending s") (auto simp: close_reader_def stream_change_def stream_def)
next
  case (SA_Send k)
  then show "session_exec a s = Some t \<Longrightarrow> stream_change s t" by (auto intro: request_send_change split: if_splits)
next
  case HA_Serve
  then show "session_exec a s = Some t \<Longrightarrow> stream_change s t"
    by (auto intro: serve_stream_change split: list.splits if_splits)
next
  case (SA_Write ok)
  then show "session_exec a s = Some t \<Longrightarrow> stream_change s t"
    by (auto simp: stream_change_def stream_def split: list.splits if_splits)
next
  case (HA_Cancel n)
  then show "session_exec a s = Some t \<Longrightarrow> stream_change s t"
    by (auto simp: handle_cancel_def respond_tasks(2-7) respond_grow take_sender_tasks intro!: stream_sameI
        split: if_splits option.splits helper_op.splits)
next
  case (HA_Finish n r)
  then show "session_exec a s = Some t \<Longrightarrow> stream_change s t"
    by (auto simp: finish_task_def unregister_exec_def Let_def respond_tasks(2-7) respond_grow take_sender_tasks
        intro!: stream_sameI split: if_splits option.splits helper_op.splits)
qed (auto simp: request_begin_def request_mark_def finish_call_def unregister_def read_response_def Let_def
    intro!: stream_sameI split: if_splits option.splits list.splits prod.splits call_stage.splits)

lemma exec_tasks_grow: "session_exec a s = Some t \<Longrightarrow> tasks_grow (se_tasks s) (se_tasks t)"
proof (cases a)
  case SA_Close
  then show "session_exec a s = Some t \<Longrightarrow> tasks_grow (se_tasks s) (se_tasks t)"
    using close_reader_fields [of s] by (cases "se_pending s") (auto simp: close_reader_def)
next
  case HA_Serve
  then show "session_exec a s = Some t \<Longrightarrow> tasks_grow (se_tasks s) (se_tasks t)"
  proof (cases "se_wire s")
    case (Cons q qs)
    let ?s = "s\<lparr>se_wire := qs\<rparr>"
    have "tasks_grow (se_tasks s) (se_tasks (serve_request q ?s))"
    proof (cases "hq_op q = Op_Shutdown")
      case False
      show ?thesis
        using tasks_grow_trans [OF tasks_grow_append take_sender_tasks(1) [of "with_task q ?s", unfolded with_task_fields]]
        by (auto simp: serve_task [OF False] register_exec_fields)
    qed (simp add: serve_request_def)
    with HA_Serve Cons show "session_exec a s = Some t \<Longrightarrow> tasks_grow (se_tasks s) (se_tasks t)"
      by (auto split: if_splits)
  qed simp
next
  case (HA_Cancel n)
  then show "session_exec a s = Some t \<Longrightarrow> tasks_grow (se_tasks s) (se_tasks t)"
    by (auto intro: handle_cancel_grow split: if_splits helper_op.splits)
next
  case (HA_Finish n r)
  then show "session_exec a s = Some t \<Longrightarrow> tasks_grow (se_tasks s) (se_tasks t)"
    by (auto intro: finish_task_grow split: if_splits helper_op.splits)
qed (auto simp: request_begin_def request_mark_def request_send_def finish_call_def read_response_def Let_def
    split: if_splits option.splits list.splits prod.splits call_stage.splits)

section \<open>The invariant of the stream\<close>

definition stream_ok :: "session_sys \<Rightarrow> bool" where
  "stream_ok s =
     (distinct (map hq_id (stream s)) \<and>
      (\<forall>q\<in>set (stream s). \<exists>k<length (se_calls s). q = req_of_call (se_calls s ! k) \<and> past (cl_stage (se_calls s ! k))) \<and>
      (se_writer s \<longrightarrow> (\<forall>k. stage_of k s = Some CS_Sent \<and> cl_op (se_calls s ! k) \<noteq> Op_Shutdown \<longrightarrow>
         req_of_call (se_calls s ! k) \<in> set (stream s))))"

lemma exec_sent:
  "session_exec a s = Some t \<Longrightarrow> stage_of k t = Some CS_Sent \<Longrightarrow>
   stage_of k s = Some CS_Sent \<or> stage_of k s = Some CS_Marked \<and> req_of_call (se_calls s ! k) \<in> set (stream t)"
proof (cases a)
  case SA_Close
  then show "session_exec a s = Some t \<Longrightarrow> stage_of k t = Some CS_Sent \<Longrightarrow>
      stage_of k s = Some CS_Sent \<or> stage_of k s = Some CS_Marked \<and> req_of_call (se_calls s ! k) \<in> set (stream t)"
    using close_reader_fields [of s]
    by (cases "se_pending s") (auto simp: close_reader_def stage_of_def fail_slot_def split: if_splits)
qed (auto simp: request_begin_def request_mark_def request_send_def finish_call_def read_response_def stage_of_def Let_def
    nth_append nth_updated stream_def req_of_call_def split: if_splits option.splits list.splits prod.splits call_stage.splits helper_op.splits)

lemma call_ids_inj:
  assumes "harness_ok s" and "length (se_calls s) \<le> 2 ^ 64" and "j < length (se_calls s)" and "k < length (se_calls s)"
    and "cl_id (se_calls s ! j) = cl_id (se_calls s ! k)"
  shows "j = k"
  using assms by (auto simp: harness_ok_def harness_inv_def of_nat_u64_inj)

lemma stream_ok_step:
  assumes "session_exec a s = Some t" and "stream_ok s" and "harness_ok s" and "length (se_calls s) \<le> 2 ^ 64"
  shows "stream_ok t"
proof -
  note grow = exec_calls_grow [OF assms(1)]
  have keep: "\<exists>k<length (se_calls t). q = req_of_call (se_calls t ! k) \<and> past (cl_stage (se_calls t ! k))"
    if "q \<in> set (stream s)" for q
  proof -
    from that assms(2) obtain k where "k < length (se_calls s)" "q = req_of_call (se_calls s ! k)" "past (cl_stage (se_calls s ! k))"
      unfolding stream_ok_def by blast
    with grow show ?thesis unfolding calls_grow_def by (metis order_less_le_trans)
  qed
  have same: "req_of_call (se_calls t ! k) = req_of_call (se_calls s ! k)" if "k < length (se_calls s)" for k
    using grow that by (simp add: calls_grow_def)
  have distinct: "distinct (map hq_id (stream s))" using assms(2) by (simp add: stream_ok_def)
  have sent: "req_of_call (se_calls t ! k) \<in> set (stream t)"
    if w: "se_writer t" "stage_of k t = Some CS_Sent" "cl_op (se_calls t ! k) \<noteq> Op_Shutdown"
      and old: "se_writer s" "\<And>q. q \<in> set (stream s) \<Longrightarrow> hq_op q \<noteq> Op_Shutdown \<Longrightarrow> q \<in> set (stream t)" for k
    using exec_sent [OF assms(1) w(2)]
  proof
    assume k: "stage_of k s = Some CS_Sent"
    then have len: "k < length (se_calls s)" by (simp add: stage_of_def split: if_splits)
    from same [OF len] w(3) have "cl_op (se_calls s ! k) \<noteq> Op_Shutdown" by (simp add: req_of_call_def)
    with k assms(2) old(1) have "req_of_call (se_calls s ! k) \<in> set (stream s)" by (simp add: stream_ok_def)
    with old(2) [of "req_of_call (se_calls s ! k)"] same [OF len] w(3) show ?thesis by (simp add: req_of_call_def)
  next
    assume k: "stage_of k s = Some CS_Marked \<and> req_of_call (se_calls s ! k) \<in> set (stream t)"
    then have len: "k < length (se_calls s)" by (simp add: stage_of_def split: if_splits)
    with same [OF len] k show ?thesis by simp
  qed
  from exec_stream_change [OF assms(1)] consider
      "stream t = stream s" "se_writer t = se_writer s"
    | k where "stage_of k s = Some CS_Marked" "stage_of k t = Some CS_Sent" "se_writer s" "se_writer t"
        "stream t = stream s @ [req_of_call (se_calls s ! k)]"
    | zs where "\<not> se_writer t" "stream s = stream t @ zs"
    | xs q ys where "hq_op q = Op_Shutdown" "stream s = xs @ q # ys" "stream t = xs @ ys" "se_writer t = se_writer s"
    unfolding stream_change_def by blast
  then show ?thesis
  proof cases
    case 1
    then show ?thesis using distinct keep sent unfolding stream_ok_def by auto
  next
    case (2 k)
    have k: "k < length (se_calls s)" "\<not> past (cl_stage (se_calls s ! k))"
      using 2(1) by (auto simp: stage_of_def split: if_splits)
    have "cl_id (se_calls s ! k) \<notin> hq_id ` set (stream s)"
    proof
      assume "cl_id (se_calls s ! k) \<in> hq_id ` set (stream s)"
      then obtain q where "q \<in> set (stream s)" "hq_id q = cl_id (se_calls s ! k)" by auto
      then obtain j where "j < length (se_calls s)" "past (cl_stage (se_calls s ! j))" "cl_id (se_calls s ! j) = cl_id (se_calls s ! k)"
        using assms(2) unfolding stream_ok_def by (fastforce simp: req_of_call_def)
      with call_ids_inj [OF assms(3,4)] k show False by metis
    qed
    moreover have "\<exists>j<length (se_calls t). req_of_call (se_calls s ! k) = req_of_call (se_calls t ! j) \<and> past (cl_stage (se_calls t ! j))"
      using 2(2) same [OF k(1)] by (intro exI [of _ k]) (auto simp: stage_of_def split: if_splits)
    ultimately show ?thesis using 2 distinct keep sent unfolding stream_ok_def by (auto simp: req_of_call_def)
  next
    case (3 zs)
    then show ?thesis using distinct keep unfolding stream_ok_def by auto
  next
    case (4 xs q ys)
    then show ?thesis using distinct keep sent unfolding stream_ok_def by auto
  qed
qed

section \<open>The invariant of the helper's tasks\<close>

definition execs_ok :: "helper_task list \<Rightarrow> (u64 \<Rightarrow> nat option) \<Rightarrow> bool" where
  "execs_ok xs m =
     ((\<forall>i t. m i = Some t \<longrightarrow> t < length xs \<and> tk_id (xs ! t) = i \<and> is_exec (tk_op (xs ! t)) \<and> tk_result (xs ! t) = None) \<and>
      (\<forall>t<length xs. is_exec (tk_op (xs ! t)) \<and> tk_result (xs ! t) = None \<and> \<not> tk_signal (xs ! t) \<longrightarrow>
         m (tk_id (xs ! t)) = Some t))"

definition cancels_ok :: "helper_task list \<Rightarrow> bool" where
  "cancels_ok xs =
     (\<forall>t u. u < t \<and> t < length xs \<and> tk_op (xs ! t) = Op_Cancel (tk_id (xs ! u)) \<and> tk_result (xs ! t) \<noteq> None \<and>
        is_exec (tk_op (xs ! u)) \<longrightarrow> tk_signal (xs ! u) \<or> tk_result (xs ! u) \<noteq> None)"

definition tasks_ok :: "session_sys \<Rightarrow> bool" where
  "tasks_ok s = (execs_ok (se_tasks s) (map_of (se_execs s)) \<and> cancels_ok (se_tasks s))"

lemma cancels_ok_grow:
  assumes "cancels_ok xs" and "tasks_grow xs ys" and "length ys = length xs"
    and "\<And>t target. t < length xs \<Longrightarrow> tk_op (xs ! t) = Op_Cancel target \<Longrightarrow> tk_result (ys ! t) \<noteq> None \<Longrightarrow>
      tk_result (xs ! t) \<noteq> None \<or>
      (\<forall>u<t. tk_id (xs ! u) = target \<and> is_exec (tk_op (xs ! u)) \<longrightarrow> tk_signal (ys ! u) \<or> tk_result (ys ! u) \<noteq> None)"
  shows "cancels_ok ys"
  unfolding cancels_ok_def
proof (intro allI impI)
  fix t u
  assume tu: "u < t \<and> t < length ys \<and> tk_op (ys ! t) = Op_Cancel (tk_id (ys ! u)) \<and> tk_result (ys ! t) \<noteq> None \<and>
    is_exec (tk_op (ys ! u))"
  then have len: "u < length xs" "t < length xs" using assms(3) by auto
  then have eq: "tk_op (ys ! t) = tk_op (xs ! t)" "tk_op (ys ! u) = tk_op (xs ! u)" "tk_id (ys ! u) = tk_id (xs ! u)"
    using assms(2) by (auto simp: tasks_grow_def req_of_task_def)
  from assms(4) [OF len(2)] tu eq
  consider "tk_result (xs ! t) \<noteq> None" | "tk_signal (ys ! u) \<or> tk_result (ys ! u) \<noteq> None" by auto
  then show "tk_signal (ys ! u) \<or> tk_result (ys ! u) \<noteq> None"
  proof cases
    case 1
    with assms(1) tu eq len have "tk_signal (xs ! u) \<or> tk_result (xs ! u) \<noteq> None" unfolding cancels_ok_def by metis
    with assms(2) len show ?thesis by (auto simp: tasks_grow_def)
  qed
qed

lemma take_sender_execs_ok:
  "execs_ok (se_tasks s) (map_of (se_execs s)) \<Longrightarrow>
   execs_ok (se_tasks (take_sender i s)) (map_of (se_execs (take_sender i s)))"
  by (auto simp: execs_ok_def take_sender_signal take_sender_tasks)

lemma take_sender_tasks_ok: "tasks_ok s \<Longrightarrow> tasks_ok (take_sender i s)"
  using cancels_ok_grow [OF _ take_sender_tasks(1) [of s i]] take_sender_execs_ok [of s i]
  by (auto simp: tasks_ok_def take_sender_tasks take_sender_signal)

text \<open>An answer is given by a task that is not registered; a cancellation has then seen to its target.\<close>

lemma respond_tasks_ok:
  assumes "tasks_ok s" and "t < length (se_tasks s)" and "tk_result (se_tasks s ! t) = None"
    and "\<And>i. map_of (se_execs s) i \<noteq> Some t"
    and "\<And>u. tk_op (se_tasks s ! t) = Op_Cancel (tk_id (se_tasks s ! u)) \<Longrightarrow> u < t \<Longrightarrow> is_exec (tk_op (se_tasks s ! u)) \<Longrightarrow>
      tk_signal (se_tasks s ! u) \<or> tk_result (se_tasks s ! u) \<noteq> None"
  shows "tasks_ok (respond t r s)"
proof -
  have "execs_ok (se_tasks (respond t r s)) (map_of (se_execs (respond t r s)))"
    using assms(1,2,4) by (auto simp: tasks_ok_def execs_ok_def respond_tasks nth_updated)
  moreover have "cancels_ok (se_tasks (respond t r s))"
  proof (rule cancels_ok_grow [OF _ respond_grow(1) [OF assms(3)]])
    show "cancels_ok (se_tasks s)" using assms(1) by (simp add: tasks_ok_def)
    fix v target
    assume "tk_op (se_tasks s ! v) = Op_Cancel target" "tk_result (se_tasks (respond t r s) ! v) \<noteq> None"
    then show "tk_result (se_tasks s ! v) \<noteq> None \<or>
      (\<forall>u<v. tk_id (se_tasks s ! u) = target \<and> is_exec (tk_op (se_tasks s ! u)) \<longrightarrow>
         tk_signal (se_tasks (respond t r s) ! u) \<or> tk_result (se_tasks (respond t r s) ! u) \<noteq> None)"
      using assms(5) by (cases "v = t") (auto simp: respond_tasks nth_updated)
  qed (simp add: respond_tasks)
  ultimately show ?thesis by (simp add: tasks_ok_def)
qed

lemma handle_cancel_ok:
  assumes "tasks_ok s" and "t < length (se_tasks s)" and "tk_result (se_tasks s ! t) = None"
    and "tk_op (se_tasks s ! t) = Op_Cancel target"
  shows "tasks_ok (handle_cancel t target s)"
proof -
  have ex: "execs_ok (se_tasks s) (map_of (se_execs s))" using assms(1) by (simp add: tasks_ok_def)
  have free: "map_of (se_execs s) i \<noteq> Some t" for i
    using ex assms(4) unfolding execs_ok_def by (metis is_exec.simps(7))
  let ?s = "take_sender target s"
  have seen: "tk_signal (se_tasks ?s ! u) \<or> tk_result (se_tasks ?s ! u) \<noteq> None"
    if "tk_id (se_tasks s ! u) = target" "u < t" "is_exec (tk_op (se_tasks s ! u))" for u
    using ex that assms(2) by (auto simp: execs_ok_def take_sender_signal)
  show ?thesis
  proof (cases "map_of (se_execs s) target")
    case None
    then have same: "?s = s" by (simp add: take_sender_def)
    have "tasks_ok (respond t r s)" for r
    proof (rule respond_tasks_ok [OF assms(1-3) free])
      fix u assume "tk_op (se_tasks s ! t) = Op_Cancel (tk_id (se_tasks s ! u))" "u < t" "is_exec (tk_op (se_tasks s ! u))"
      then show "tk_signal (se_tasks s ! u) \<or> tk_result (se_tasks s ! u) \<noteq> None"
        using seen [of u] assms(4) unfolding same by simp
    qed
    with None show ?thesis by (simp add: handle_cancel_def)
  next
    case (Some u)
    have "tasks_ok (respond t (Inr Pl_Ack) ?s)"
      by (rule respond_tasks_ok [OF take_sender_tasks_ok [OF assms(1)]])
         (use assms free seen in \<open>auto simp: take_sender_signal take_sender_tasks\<close>)
    with Some show ?thesis by (simp add: handle_cancel_def)
  qed
qed

lemma finish_task_ok:
  assumes "tasks_ok s" and "t < length (se_tasks s)" and "tk_result (se_tasks s ! t) = None"
    and "\<And>i. tk_op (se_tasks s ! t) \<noteq> Op_Cancel i"
  shows "tasks_ok (finish_task t r s)"
proof (cases "is_exec (tk_op (se_tasks s ! t))")
  case True
  have "map_of (se_execs (take_sender (tk_id (se_tasks s ! t)) s)) i \<noteq> Some t" for i
    using assms(1) by (auto simp: tasks_ok_def execs_ok_def take_sender_tasks)
  then have "tasks_ok (respond t r (take_sender (tk_id (se_tasks s ! t)) s))"
    by (intro respond_tasks_ok [OF take_sender_tasks_ok [OF assms(1)]])
       (use assms in \<open>auto simp: take_sender_signal take_sender_tasks\<close>)
  with True show ?thesis by (simp add: finish_task_def unregister_exec_def Let_def)
next
  case False
  then have "map_of (se_execs s) i \<noteq> Some t" for i using assms(1) by (auto simp: tasks_ok_def execs_ok_def)
  then have "tasks_ok (respond t r s)" by (intro respond_tasks_ok) (use assms in auto)
  with False show ?thesis by (simp add: finish_task_def Let_def)
qed

lemma serve_request_ok:
  assumes "tasks_ok s" and "stream_ok s" and "se_wire s = q # qs"
  shows "tasks_ok (serve_request q (s\<lparr>se_wire := qs\<rparr>))"
proof (cases "hq_op q = Op_Shutdown")
  case True
  with assms(1) show ?thesis by (simp add: serve_request_def tasks_ok_def)
next
  case False
  let ?s = "with_task q (s\<lparr>se_wire := qs\<rparr>)" and ?xs = "se_tasks s"
  have fresh: "tk_id (?xs ! t) \<noteq> hq_id q" if "t < length ?xs" for t
  proof -
    have "hq_id q \<notin> hq_id ` set (map req_of_task ?xs)" using assms(2,3) by (auto simp: stream_ok_def stream_def)
    moreover have "tk_id (?xs ! t) \<in> hq_id ` set (map req_of_task ?xs)"
      using nth_mem [OF that] by (auto simp: req_of_task_def image_image)
    ultimately show ?thesis by metis
  qed
  have ex: "execs_ok ?xs (map_of (se_execs s))" using assms(1) by (simp add: tasks_ok_def)
  have none: "map_of (se_execs s) (hq_id q) = None"
    using ex fresh by (cases "map_of (se_execs s) (hq_id q)") (auto simp: execs_ok_def)
  have can: "cancels_ok (?xs @ [new_task q])"
    using assms(1) by (auto simp: tasks_ok_def cancels_ok_def nth_append new_task_def less_Suc_eq)
  show ?thesis
  proof (cases "is_exec (hq_op q)")
    case True
    have same: "take_sender (hq_id q) ?s = ?s" using none by (simp add: take_sender_def)
    have "execs_ok (?xs @ [new_task q]) ((map_of (se_execs s))(hq_id q \<mapsto> length ?xs))"
      using ex fresh True by (auto simp: execs_ok_def nth_append new_task_def less_Suc_eq split: if_splits)
    with can True show ?thesis
      by (simp add: serve_task [OF False] tasks_ok_def register_exec_fields same)
  next
    case not_exec: False
    have "execs_ok (?xs @ [new_task q]) (map_of (se_execs s))"
      using ex not_exec by (auto simp: execs_ok_def nth_append new_task_def less_Suc_eq)
    with can not_exec show ?thesis by (simp add: serve_task [OF False] tasks_ok_def)
  qed
qed

lemma tasks_ok_step:
  assumes "session_exec a s = Some t" and "tasks_ok s" and "stream_ok s"
  shows "tasks_ok t"
proof (cases a)
  case SA_Close
  with assms show ?thesis
    using close_reader_fields [of s] by (cases "se_pending s") (auto simp: close_reader_def tasks_ok_def)
next
  case HA_Serve
  with assms show ?thesis by (auto intro: serve_request_ok split: list.splits if_splits)
next
  case (HA_Cancel n)
  with assms show ?thesis by (auto intro: handle_cancel_ok split: if_splits helper_op.splits)
next
  case (HA_Finish n r)
  with assms show ?thesis by (auto intro!: finish_task_ok split: if_splits helper_op.splits)
qed (use assms in \<open>auto simp: tasks_ok_def request_begin_def request_mark_def request_send_def finish_call_def
    read_response_def Let_def split: if_splits option.splits list.splits prod.splits call_stage.splits\<close>)

section \<open>Responses of the helper\<close>

definition answers :: "session_sys \<Rightarrow> helper_response \<Rightarrow> bool" where
  "answers s r =
     ((\<exists>t<length (se_tasks s). tk_id (se_tasks s ! t) = hr_id r \<and> tk_result (se_tasks s ! t) = Some (hr_result r)) \<or>
      (\<exists>k<length (se_calls s). req_of_call (se_calls s ! k) = \<lparr>hq_id = hr_id r, hq_op = Op_Shutdown\<rparr> \<and> hr_result r = Inr Pl_Ack))"

definition responses :: "session_sys \<Rightarrow> helper_response set" where
  "responses s = set (se_out s) \<union> set (se_back s) \<union> snd ` set (se_delivered s)"

lemma answers_grow:
  assumes "answers s r" and "tasks_grow (se_tasks s) (se_tasks t)" and "calls_grow (se_calls s) (se_calls t)"
  shows "answers t r"
  using assms(1) unfolding answers_def
proof
  assume "\<exists>n<length (se_tasks s). tk_id (se_tasks s ! n) = hr_id r \<and> tk_result (se_tasks s ! n) = Some (hr_result r)"
  then obtain n where n: "n < length (se_tasks s)" "tk_id (se_tasks s ! n) = hr_id r" "tk_result (se_tasks s ! n) = Some (hr_result r)"
    by blast
  then have "n < length (se_tasks t)" "tk_id (se_tasks t ! n) = hr_id r" "tk_result (se_tasks t ! n) = Some (hr_result r)"
    using assms(2) by (auto simp: tasks_grow_def req_of_task_def)
  then show "(\<exists>n<length (se_tasks t). tk_id (se_tasks t ! n) = hr_id r \<and> tk_result (se_tasks t ! n) = Some (hr_result r)) \<or>
      (\<exists>k<length (se_calls t). req_of_call (se_calls t ! k) = \<lparr>hq_id = hr_id r, hq_op = Op_Shutdown\<rparr> \<and> hr_result r = Inr Pl_Ack)"
    by blast
next
  assume "\<exists>k<length (se_calls s). req_of_call (se_calls s ! k) = \<lparr>hq_id = hr_id r, hq_op = Op_Shutdown\<rparr> \<and> hr_result r = Inr Pl_Ack"
  then show "(\<exists>n<length (se_tasks t). tk_id (se_tasks t ! n) = hr_id r \<and> tk_result (se_tasks t ! n) = Some (hr_result r)) \<or>
      (\<exists>k<length (se_calls t). req_of_call (se_calls t ! k) = \<lparr>hq_id = hr_id r, hq_op = Op_Shutdown\<rparr> \<and> hr_result r = Inr Pl_Ack)"
    using assms(3) by (auto simp: calls_grow_def)
qed

lemma respond_answers:
  "t < length (se_tasks s) \<Longrightarrow> answers (respond t r s) \<lparr>hr_id = tk_id (se_tasks s ! t), hr_result = r\<rparr>"
  by (auto simp: answers_def respond_tasks nth_updated intro!: exI [of _ t])

lemma respond_responses:
  "responses (respond t r s) = insert \<lparr>hr_id = tk_id (se_tasks s ! t), hr_result = r\<rparr> (responses s)"
  by (auto simp: responses_def respond_tasks)

lemma take_sender_responses [simp]: "responses (take_sender i s) = responses s"
  by (simp add: responses_def)

text \<open>A response that is new after an action is the answer of a task or of the serve loop.\<close>

lemma new_response:
  assumes "session_exec a s = Some t" and "honest a" and "stream_ok s" and "r \<in> responses t" and "r \<notin> responses s"
  shows "answers t r"
proof (cases a)
  case HA_Serve
  then obtain q qs where q: "se_wire s = q # qs" "t = serve_request q (s\<lparr>se_wire := qs\<rparr>)"
    using assms(1) by (auto split: list.splits if_splits)
  have "hq_op q = Op_Shutdown"
  proof (rule ccontr)
    assume "hq_op q \<noteq> Op_Shutdown"
    then have "responses t = responses s" by (auto simp: q serve_task responses_def register_exec_fields)
    with assms show False by simp
  qed
  moreover have "q \<in> set (stream s)" using q by (simp add: stream_def)
  then obtain k where "k < length (se_calls s)" "q = req_of_call (se_calls s ! k)"
    using assms(3) unfolding stream_ok_def by blast
  ultimately show ?thesis
    using assms(4,5) by (auto simp: q(2) serve_request_def responses_def answers_def req_of_call_def)
next
  case (HA_Cancel n)
  then show ?thesis
    using assms respond_answers [of n s] respond_answers [of n "take_sender _ s"]
    by (auto simp: handle_cancel_def respond_responses take_sender_tasks split: if_splits helper_op.splits option.splits)
next
  case (HA_Finish n x)
  then have t: "t = finish_task n x s" and n: "n < length (se_tasks s)"
    using assms(1) by (auto split: if_splits helper_op.splits)
  show ?thesis
    using assms(4,5) n respond_answers [of n s x] respond_answers [of n "take_sender (tk_id (se_tasks s ! n)) s" x]
    by (auto simp: t finish_task_def unregister_exec_def Let_def respond_responses take_sender_tasks split: if_splits)
next
  case SA_Close
  with assms show ?thesis
    using close_reader_fields [of s] by (cases "se_pending s") (auto simp: close_reader_def responses_def)
qed (use assms in \<open>auto simp: responses_def request_begin_def request_mark_def request_send_def finish_call_def
    read_response_def Let_def split: if_splits option.splits list.splits prod.splits call_stage.splits\<close>)

section \<open>The honest session\<close>

definition honest_ok :: "session_sys \<Rightarrow> bool" where
  "honest_ok s =
     (harness_ok s \<and>
      (length (se_calls s) \<le> 2 ^ 64 \<longrightarrow> stream_ok s \<and> tasks_ok s \<and> (\<forall>r\<in>responses s. answers s r)))"

lemma honest_step_ok:
  assumes "session_exec a s = Some t" and "honest a" and "honest_ok s"
  shows "honest_ok t"
proof -
  have h: "harness_ok s" "harness_ok t" using assms harness_step_ok by (auto simp: honest_ok_def)
  have "stream_ok t \<and> tasks_ok t \<and> (\<forall>r\<in>responses t. answers t r)" if "length (se_calls t) \<le> 2 ^ 64"
  proof -
    have len: "length (se_calls s) \<le> 2 ^ 64" using that exec_calls_grow [OF assms(1)] by (simp add: calls_grow_def)
    with assms(3) have s: "stream_ok s" "tasks_ok s" "\<forall>r\<in>responses s. answers s r" by (auto simp: honest_ok_def)
    have "answers t r" if "r \<in> responses t" for r
    proof (cases "r \<in> responses s")
      case True
      with s(3) answers_grow [OF _ exec_tasks_grow [OF assms(1)] exec_calls_grow [OF assms(1)]] show ?thesis by blast
    next
      case False
      with new_response [OF assms(1,2) s(1) that] show ?thesis by blast
    qed
    with stream_ok_step [OF assms(1) s(1) h(1) len] tasks_ok_step [OF assms(1) s(2,1)] show ?thesis by blast
  qed
  with h(2) show ?thesis by (simp add: honest_ok_def)
qed

interpretation honest_session: invariant_system session_honest_step honest_ok
  by unfold_locales (auto elim!: session_honest_stepE intro: honest_step_ok)

lemma honest_ok_start: "honest_ok session_start"
  using harness_ok_start
  by (simp add: honest_ok_def stream_ok_def tasks_ok_def execs_ok_def cancels_ok_def responses_def stream_def
      stage_of_def session_start_def)

lemma returned_by_task:
  assumes "honest_ok s" and "length (se_calls s) \<le> 2 ^ 64"
    and "stage_of k s = Some (CS_Returned r)" and "r \<noteq> Inl closed_error"
  obtains t y where "t < length (se_tasks s)" "req_of_task (se_tasks s ! t) = req_of_call (se_calls s ! k)"
      "tk_result (se_tasks s ! t) = Some y" "r = (case y of Inl m \<Rightarrow> Inl (Sb_Helper m) | Inr p \<Rightarrow> Inr p)"
    | "cl_op (se_calls s ! k) = Op_Shutdown" "r = Inr Pl_Ack"
proof -
  from assms(1,2) have ok: "harness_ok s" "stream_ok s" "\<forall>r\<in>responses s. answers s r" by (auto simp: honest_ok_def)
  have k: "k < length (se_calls s)" "cl_stage (se_calls s ! k) = CS_Returned r"
    using assms(3) by (auto simp: stage_of_def split: if_splits)
  have "harness_inv (se_next s) (se_calls s) (se_pending s) (se_delivered s)" using ok(1) assms(2) by (simp add: harness_ok_def)
  from harness_returned [OF this k] assms(4) obtain resp
    where resp: "(k, resp) \<in> set (se_delivered s)" "hr_id resp = cl_id (se_calls s ! k)" "r = response_result resp" by blast
  then have "resp \<in> responses s" by (force simp: responses_def)
  with ok(3) have "answers s resp" by blast
  then consider t where "t < length (se_tasks s)" "tk_id (se_tasks s ! t) = hr_id resp" "tk_result (se_tasks s ! t) = Some (hr_result resp)"
    | j where "j < length (se_calls s)" "req_of_call (se_calls s ! j) = \<lparr>hq_id = hr_id resp, hq_op = Op_Shutdown\<rparr>" "hr_result resp = Inr Pl_Ack"
    unfolding answers_def by blast
  then show thesis
  proof cases
    case (1 t)
    have "req_of_task (se_tasks s ! t) \<in> set (stream s)" using 1(1) by (simp add: stream_def)
    then obtain j where j: "j < length (se_calls s)" "req_of_task (se_tasks s ! t) = req_of_call (se_calls s ! j)"
      using ok(2) unfolding stream_ok_def by blast
    then have "j = k" using 1 resp call_ids_inj [OF ok(1) assms(2) j(1) k(1)] by (simp add: req_of_task_def req_of_call_def)
    with j 1 resp that(1) [of t "hr_result resp"] show thesis by (simp add: response_result_def)
  next
    case (2 j)
    with resp call_ids_inj [OF ok(1) assms(2) 2(1) k(1)] that(2) show thesis
      by (simp add: response_result_def req_of_call_def)
  qed
qed

text \<open>
  C39: Against the helper of the repository, however the tasks of both sides interleave and whatever the
  writers do: a call that returned anything but the error of a closed connection returned what a task
  of the helper computed for the operation of this very call, or is a shutdown that was acknowledged.
\<close>

theorem session_returns_own_result:
  assumes "reach_by session_honest_step session_start s" and "length (se_calls s) \<le> 2 ^ 64"
    and "stage_of k s = Some (CS_Returned r)" and "r \<noteq> Inl closed_error"
  shows "(\<exists>x\<in>set (se_tasks s). tk_id x = cl_id (se_calls s ! k) \<and> tk_op x = cl_op (se_calls s ! k) \<and>
      (\<exists>y. tk_result x = Some y \<and> r = (case y of Inl m \<Rightarrow> Inl (Sb_Helper m) | Inr p \<Rightarrow> Inr p))) \<or>
    cl_op (se_calls s ! k) = Op_Shutdown \<and> r = Inr Pl_Ack"
proof (rule returned_by_task [OF honest_session.inv_reachable [OF assms(1) honest_ok_start] assms(2-4)])
  fix t y
  assume "t < length (se_tasks s)" "req_of_task (se_tasks s ! t) = req_of_call (se_calls s ! k)"
    "tk_result (se_tasks s ! t) = Some y" "r = (case y of Inl m \<Rightarrow> Inl (Sb_Helper m) | Inr p \<Rightarrow> Inr p)"
  then show ?thesis
    by (intro disjI1 bexI [of _ "se_tasks s ! t"]) (auto simp: req_of_task_def req_of_call_def)
qed simp

section \<open>Cancellation\<close>

text \<open>Wherever \<open>j\<close> stands in the list, \<open>i\<close> stands before it.\<close>

definition precedes :: "u64 \<Rightarrow> u64 \<Rightarrow> u64 list \<Rightarrow> bool" where
  "precedes i j ids = (\<forall>ys zs. ids = ys @ j # zs \<longrightarrow> i \<in> set ys)"

lemma precedes_snoc: "precedes i j ids \<Longrightarrow> i \<in> set ids \<Longrightarrow> precedes i j (ids @ [x])"
  unfolding precedes_def by (auto simp: append_eq_append_conv2 append_eq_Cons_conv Cons_eq_append_conv)

lemma precedes_prefix: "precedes i j (ids @ rest) \<Longrightarrow> precedes i j ids"
  unfolding precedes_def by (metis append_Cons append_assoc)

lemma precedes_remove: "precedes i j (xs @ q # ys) \<Longrightarrow> q \<noteq> i \<Longrightarrow> precedes i j (xs @ ys)"
  unfolding precedes_def
proof (intro allI impI)
  fix us zs
  assume p: "\<forall>us zs. xs @ q # ys = us @ j # zs \<longrightarrow> i \<in> set us" and q: "q \<noteq> i" and eq: "xs @ ys = us @ j # zs"
  from eq consider vs where "us = xs @ vs" "ys = vs @ j # zs" | vs where "xs = us @ j # vs" "zs = vs @ ys"
    by (auto simp: append_eq_append_conv2 append_eq_Cons_conv)
  then show "i \<in> set us"
  proof cases
    case 1
    then have "xs @ q # ys = (xs @ q # vs) @ j # zs" by simp
    with p have "i \<in> set (xs @ q # vs)" by blast
    with q 1 show ?thesis by auto
  next
    case 2
    then have "xs @ q # ys = us @ j # (vs @ q # ys)" by simp
    with p show ?thesis by blast
  qed
qed

definition follow_ok :: "nat \<Rightarrow> u64 \<Rightarrow> helper_op \<Rightarrow> u64 \<Rightarrow> session_sys \<Rightarrow> bool" where
  "follow_ok k i op j s =
     (honest_ok s \<and> k < length (se_calls s) \<and> req_of_call (se_calls s ! k) = \<lparr>hq_id = i, hq_op = op\<rparr> \<and> op \<noteq> Op_Shutdown \<and>
      (length (se_calls s) \<le> 2 ^ 64 \<longrightarrow>
         precedes i j (map hq_id (stream s)) \<and> (i \<in> hq_id ` set (stream s) \<or> \<not> se_writer s)))"

lemma follow_step_ok:
  assumes "session_exec a s = Some t" and "honest a" and "follow_ok k i op j s"
  shows "follow_ok k i op j t"
proof -
  note grow = exec_calls_grow [OF assms(1)]
  have k: "k < length (se_calls s)" "req_of_call (se_calls s ! k) = \<lparr>hq_id = i, hq_op = op\<rparr>" "op \<noteq> Op_Shutdown"
    using assms(3) by (auto simp: follow_ok_def)
  have kt: "k < length (se_calls t)" "req_of_call (se_calls t ! k) = \<lparr>hq_id = i, hq_op = op\<rparr>"
    using grow k by (auto simp: calls_grow_def)
  have "precedes i j (map hq_id (stream t)) \<and> (i \<in> hq_id ` set (stream t) \<or> \<not> se_writer t)"
    if small: "length (se_calls t) \<le> 2 ^ 64"
  proof -
    have len: "length (se_calls s) \<le> 2 ^ 64" using small grow by (simp add: calls_grow_def)
    have s: "precedes i j (map hq_id (stream s))" "i \<in> hq_id ` set (stream s) \<or> \<not> se_writer s"
      "harness_ok s" "stream_ok s" using assms(3) len by (auto simp: follow_ok_def honest_ok_def)
    from exec_stream_change [OF assms(1)] consider
        "stream t = stream s" "se_writer t = se_writer s"
      | n where "se_writer s" "stream t = stream s @ [req_of_call (se_calls s ! n)]"
      | zs where "\<not> se_writer t" "stream s = stream t @ zs"
      | xs q ys where "hq_op q = Op_Shutdown" "stream s = xs @ q # ys" "stream t = xs @ ys" "se_writer t = se_writer s"
      unfolding stream_change_def by blast
    then show ?thesis
    proof cases
      case (2 n)
      with s show ?thesis by (auto intro!: precedes_snoc)
    next
      case (3 zs)
      with s(1) show ?thesis by (auto intro: precedes_prefix)
    next
      case (4 xs q ys)
      have "hq_id q \<noteq> i"
      proof
        assume "hq_id q = i"
        moreover from 4(2) s(4) obtain m where "m < length (se_calls s)" "q = req_of_call (se_calls s ! m)"
          unfolding stream_ok_def by (metis in_set_conv_decomp)
        ultimately have "m = k" using call_ids_inj [OF s(3) len _ k(1), of m] k(2) by (simp add: req_of_call_def)
        with \<open>q = req_of_call (se_calls s ! m)\<close> k 4(1) show False by simp
      qed
      with s 4 show ?thesis by (auto intro: precedes_remove)
    qed (use s in simp)
  qed
  with kt k(3) honest_step_ok [OF assms(1,2)] assms(3) show ?thesis by (simp add: follow_ok_def)
qed

interpretation follows: invariant_system session_honest_step "follow_ok k i op j"
  by unfold_locales (auto elim!: session_honest_stepE intro: follow_step_ok)

lemma calls_grow_trans: "calls_grow as bs \<Longrightarrow> calls_grow bs cs \<Longrightarrow> calls_grow as cs"
  unfolding calls_grow_def by (metis (no_types, lifting) le_trans order_less_le_trans)

lemma reach_calls_grow: "reach_by session_honest_step s t \<Longrightarrow> calls_grow (se_calls s) (se_calls t)"
  by (induction rule: reach_by.induct)
     (auto elim!: session_honest_stepE intro: calls_grow_trans exec_calls_grow)

text \<open>A cancellation is requested for an execution that was handed to the writer.\<close>

lemma request_begin_fields:
  "se_tasks (request_begin op s) = se_tasks s" "se_wire (request_begin op s) = se_wire s"
  "se_queue (request_begin op s) = se_queue s" "se_writer (request_begin op s) = se_writer s"
  "length (se_calls (request_begin op s)) = Suc (length (se_calls s))"
  "req_of_call (se_calls (request_begin op s) ! length (se_calls s)) = \<lparr>hq_id = se_next s, hq_op = op\<rparr>"
  by (simp_all add: request_begin_def Let_def req_of_call_def split: option.splits)

lemma follow_start:
  assumes "honest_ok s" and "stage_of k s = Some CS_Sent" and "is_exec (cl_op (se_calls s ! k))"
  shows "follow_ok k (cl_id (se_calls s ! k)) (cl_op (se_calls s ! k)) (se_next s) (request_begin op s)"
proof -
  let ?t = "request_begin op s"
  have k: "k < length (se_calls s)" using assms(2) by (simp add: stage_of_def split: if_splits)
  have step: "session_exec (SA_Request op) s = Some ?t" by simp
  have ok: "honest_ok ?t" using honest_step_ok [OF step] assms(1) by simp
  have call: "req_of_call (se_calls ?t ! k) = req_of_call (se_calls s ! k)"
    using exec_calls_grow [OF step] k by (simp add: calls_grow_def)
  have stream: "stream ?t = stream s" by (simp add: stream_def request_begin_fields)
  have "precedes (cl_id (se_calls s ! k)) (se_next s) (map hq_id (stream s)) \<and>
      (cl_id (se_calls s ! k) \<in> hq_id ` set (stream s) \<or> \<not> se_writer s)" if "length (se_calls ?t) \<le> 2 ^ 64"
  proof
    have len: "length (se_calls s) < 2 ^ 64" using that by (simp add: request_begin_fields)
    with assms(1) have ok: "stream_ok s" and inv: "harness_inv (se_next s) (se_calls s) (se_pending s) (se_delivered s)"
      by (auto simp: honest_ok_def harness_ok_def)
    have "se_next s \<notin> hq_id ` set (stream s)"
    proof
      assume "se_next s \<in> hq_id ` set (stream s)"
      then obtain j where "j < length (se_calls s)" "se_next s = cl_id (se_calls s ! j)"
        using ok unfolding stream_ok_def by (fastforce simp: req_of_call_def)
      with inv len show False by (auto simp: harness_inv_def of_nat_u64_inj)
    qed
    then show "precedes (cl_id (se_calls s ! k)) (se_next s) (map hq_id (stream s))"
      by (auto simp: precedes_def) (metis image_set in_set_conv_decomp)
    have "cl_op (se_calls s ! k) \<noteq> Op_Shutdown" using assms(3) by auto
    then show "cl_id (se_calls s ! k) \<in> hq_id ` set (stream s) \<or> \<not> se_writer s"
      using ok assms(2) unfolding stream_ok_def by (force simp: req_of_call_def)
  qed
  moreover have "cl_op (se_calls s ! k) \<noteq> Op_Shutdown" using assms(3) by auto
  ultimately show ?thesis
    using ok k call stream by (simp add: follow_ok_def request_begin_fields) (simp add: req_of_call_def)
qed

lemma earlier_task:
  assumes "precedes i j (map hq_id (stream s))" and "t < length (se_tasks s)" and "tk_id (se_tasks s ! t) = j"
  obtains u where "u < t" "tk_id (se_tasks s ! u) = i"
proof -
  let ?ids = "map tk_id (se_tasks s)"
  have "map hq_id (stream s) = ?ids @ map hq_id (se_wire s @ se_queue s)" by (simp add: stream_def req_of_task_def)
  also have "?ids = take t ?ids @ j # drop (Suc t) ?ids" using assms(2,3) by (metis id_take_nth_drop length_map nth_map)
  finally have "map hq_id (stream s) = take t ?ids @ j # (drop (Suc t) ?ids @ map hq_id (se_wire s @ se_queue s))" by simp
  with assms(1) have "i \<in> set (take t ?ids)" unfolding precedes_def by blast
  then obtain u where "u < t" "tk_id (se_tasks s ! u) = i" using assms(2) by (auto simp: in_set_conv_nth)
  then show thesis by (rule that)
qed


section \<open>Sample runs\<close>

fun session_run :: "session_action list \<Rightarrow> session_sys \<Rightarrow> session_sys option" where
  "session_run [] s = Some s"
| "session_run (a # as) s = (case session_exec a s of None \<Rightarrow> None | Some s1 \<Rightarrow> session_run as s1)"

lemma session_run_honest:
  "session_run as s = Some t \<Longrightarrow> list_all honest as \<Longrightarrow> reach_by session_honest_step s0 s \<Longrightarrow> reach_by session_honest_step s0 t"
proof (induction "as" arbitrary: s)
  case (Cons a "as")
  then obtain s1 where s1: "session_exec a s = Some s1" "session_run as s1 = Some t" by (auto split: option.splits)
  with Cons.prems have "reach_by session_honest_step s0 s1" by (auto intro: reach_step session_honest_step.intros)
  with Cons s1(2) show ?case by simp
qed simp

lemma session_run_any:
  "session_run as s = Some t \<Longrightarrow> reach_by session_any_step s0 s \<Longrightarrow> reach_by session_any_step s0 t"
proof (induction "as" arbitrary: s)
  case (Cons a "as")
  then obtain s1 where s1: "session_exec a s = Some s1" "session_run as s1 = Some t" by (auto split: option.splits)
  with Cons.prems have "reach_by session_any_step s0 s1" by (auto intro: reach_step session_any_step.intros)
  with Cons s1(2) show ?case by simp
qed simp

definition demo_exec :: helper_op where
  "demo_exec = Op_Exec ''make'' None [] 1000"

definition demo_send :: "session_action list" where
  "demo_send = [SA_Request demo_exec, SA_Mark 0, SA_Send 0]"

definition demo_cancel :: "session_action list" where
  "demo_cancel =
     [SA_Mark 1, SA_Send 1, SA_Write True, SA_Write True, HA_Serve, HA_Serve, HA_Cancel 1, HA_Write True, SA_Read,
      SA_Return 1, HA_Finish 0 (Inr (Pl_Exec (-1) ''partial'' [] False False True)), HA_Write True, SA_Read, SA_Return 0]"


theorem session_returns_own_result_witness:
  "\<exists>s. session_run (demo_send @ [SA_Request (Op_Cancel 0)] @ demo_cancel) session_start = Some s \<and>
     stage_of 0 s = Some (CS_Returned (Inr (Pl_Exec (-1) ''partial'' [] False False True))) \<and>
     (\<exists>x\<in>set (se_tasks s). tk_id x = 0 \<and> tk_op x = demo_exec \<and> tk_result x = Some (Inr (Pl_Exec (-1) ''partial'' [] False False True)))"
proof -
  let ?run = "demo_send @ [SA_Request (Op_Cancel 0)] @ demo_cancel" and ?r = "Inr (Pl_Exec (-1) ''partial'' [] False False True)"
  have "case session_run ?run session_start of
      None \<Rightarrow> False
    | Some s \<Rightarrow> stage_of 0 s = Some (CS_Returned ?r) \<and> length (se_calls s) = 2 \<and> cl_id (se_calls s ! 0) = 0 \<and> cl_op (se_calls s ! 0) = demo_exec"
    by code_simp
  then obtain s where s: "session_run ?run session_start = Some s" "stage_of 0 s = Some (CS_Returned ?r)"
      "length (se_calls s) = 2" "cl_id (se_calls s ! 0) = 0" "cl_op (se_calls s ! 0) = demo_exec"
    by (auto split: option.splits)
  have h: "list_all honest ?run" by code_simp
  have small: "length (se_calls s) \<le> 2 ^ 64" using s(3) by simp
  have "?r \<noteq> Inl closed_error" and op: "demo_exec \<noteq> Op_Shutdown" by (simp_all add: demo_exec_def)
  from session_returns_own_result [OF session_run_honest [OF s(1) h reach_refl] small s(2) this(1)] s op
  obtain x y where "x \<in> set (se_tasks s)" "tk_id x = 0" "tk_op x = demo_exec" "tk_result x = Some y"
    "?r = (case y of Inl m \<Rightarrow> Inl (Sb_Helper m) | Inr p \<Rightarrow> Inr p)" by auto
  then show ?thesis using s(1,2) by (intro exI [of _ s]) (auto split: sum.splits)
qed

definition demo_forge :: "session_action list" where
  "demo_forge =
     [SA_Request Op_Hello, SA_Request (Op_ListDir ''/''), SA_Mark 0, SA_Mark 1, SA_Send 0, SA_Send 1,
      HA_Forge \<lparr>hr_id = 7, hr_result = Inr Pl_Ack\<rparr>, HA_Forge \<lparr>hr_id = 1, hr_result = Inl ''no''\<rparr>,
      HA_Forge \<lparr>hr_id = 1, hr_result = Inr Pl_Ack\<rparr>, SA_Read, SA_Read, SA_Read, SA_Close, SA_Return 1, SA_Return 0]"


text \<open>
  Without that order a cancellation can miss: \<open>request\<close> records an execution as in flight before it
  hands it to the writer, and a \<open>cancel_inflight\<close> in between sends its \<open>Cancel\<close> first. The helper knows
  no such request; the execution then starts, and nobody cancels it.
\<close>

definition demo_overtake :: "session_action list" where
  "demo_overtake =
     [SA_Request demo_exec, SA_Mark 0, SA_CancelInflight, SA_CancelNext 0, SA_Mark 1, SA_Send 1, SA_Write True, HA_Serve,
      HA_Cancel 0, HA_Write True, SA_Read, SA_Return 1, SA_Send 0, SA_Write True, HA_Serve]"

lemma cancel_overtakes_exec:
  "\<exists>s. session_run demo_overtake session_start = Some s \<and>
     stage_of 1 s = Some (CS_Returned (Inl (Sb_Helper ''no cancellable request with id 0''))) \<and>
     se_tasks s ! 1 = \<lparr>tk_id = 0, tk_op = demo_exec, tk_signal = False, tk_result = None\<rparr>"
proof -
  have "case session_run demo_overtake session_start of
      None \<Rightarrow> False
    | Some s \<Rightarrow> stage_of 1 s = Some (CS_Returned (Inl (Sb_Helper ''no cancellable request with id 0''))) \<and>
        se_tasks s ! 1 = \<lparr>tk_id = 0, tk_op = demo_exec, tk_signal = False, tk_result = None\<rparr>"
    by code_simp
  then show ?thesis by (auto split: option.splits)
qed

end
