(* ===== verification/Silo_Wire.thy ===== *)
theory Silo_Wire
  imports Silo_Core
begin

text \<open>
  The network backends of \<open>silo-llm\<close>: what \<open>common.rs\<close> shares (the tool definitions, the price
  list, the retry loop) and the four wire formats, \<open>anthropic.rs\<close>, \<open>openai_responses.rs\<close>,
  \<open>openai_ws.rs\<close> and \<open>local.rs\<close>, with the dispatch of \<open>lib.rs\<close>.

  The other side is given by a record of parameters: the answer the HTTP client gives to its call
  number \<open>n\<close>, the connection the WebSocket client gets at its attempt number \<open>n\<close>, the environment
  variables, and \<open>serde_json\<close> as a parser, a printer and a derived decoder. Every operation returns
  the list of its actions on the network, in order, beside its result.
\<close>

section \<open>Values\<close>

text \<open>\<open>json!\<close> on an object literal, the accessors of \<open>Value\<close>, and \<open>Value::pointer\<close> by tokens.\<close>

definition json_obj :: "(string \<times> json) list \<Rightarrow> json" where
  "json_obj kvs = JObject (foldl (\<lambda>m kv. obj_insert (fst kv) (snd kv) m) [] kvs)"

fun json_insert :: "string \<Rightarrow> json \<Rightarrow> json \<Rightarrow> json" where
  "json_insert k v (JObject m) = JObject (obj_insert k v m)"
| "json_insert k v u = u"

fun json_as_array :: "json \<Rightarrow> json list option" where
  "json_as_array (JArray xs) = Some xs"
| "json_as_array _ = None"

definition json_nat :: "nat \<Rightarrow> json" where
  "json_nat n = JNumber (PosInt (of_nat n))"

definition array_index :: "string \<Rightarrow> nat option" where
  "array_index t =
     (if prefix ''+'' t \<or> prefix ''0'' t \<and> length t \<noteq> 1 then None else parse_uint 64 t)"

fun json_pointer :: "string list \<Rightarrow> json \<Rightarrow> json option" where
  "json_pointer [] v = Some v"
| "json_pointer (t # ts) (JObject m) = Option.bind (obj_get m t) (json_pointer ts)"
| "json_pointer (t # ts) (JArray xs) =
     (case array_index t of
        Some i \<Rightarrow> if i < length xs then json_pointer ts (xs ! i) else None
      | None \<Rightarrow> None)"
| "json_pointer (t # ts) _ = None"

definition pointer_u64 :: "string list \<Rightarrow> json \<Rightarrow> u64" where
  "pointer_u64 ts v =
     (case Option.bind (json_pointer ts v) json_as_u64 of Some n \<Rightarrow> n | None \<Rightarrow> 0)"

definition array_field :: "json \<Rightarrow> string \<Rightarrow> json list" where
  "array_field v k =
     (case Option.bind (json_get v k) json_as_array of Some xs \<Rightarrow> xs | None \<Rightarrow> [])"

section \<open>Configuration and the outside\<close>

datatype llm_backend_kind =
  LB_Anthropic | LB_OpenaiResponses | LB_OpenaiWebsocket | LB_Local | LB_Mock

record llm_config =
  lc_backend :: llm_backend_kind
  lc_model :: string
  lc_api_key_env :: "string option"
  lc_base_url :: "string option"
  lc_local_server_command :: "string option"
  lc_max_tokens :: u32
  lc_pricing :: "pricing option"
  lc_quota :: quota_config
  lc_system_prompt :: "string option"

text \<open>The content blocks of an Anthropic response as \<open>serde\<close> decodes them.\<close>

datatype wire_content_block =
    WC_Text string
  | WC_ToolUse string string json
  | WC_Unknown

record wire_usage =
  wu_input_tokens :: u64
  wu_output_tokens :: u64

record wire_response =
  wr_content :: "wire_content_block list"
  wr_stop_reason :: "string option"
  wr_usage :: wire_usage

text \<open>
  What a call of the HTTP client comes to: a failure to send, a status with a body, or a status and
  a failure to read the body.
\<close>

datatype http_reply = Net_Failed string | Net_Answer nat string | Net_Broken nat string

datatype ws_message = WS_Text string | WS_Close | WS_Other

text \<open>
  A WebSocket connection: the frames that arrive, ending with the end of the stream, and the error
  of the \<open>k\<close>th send, if it has one.
\<close>

record ws_link =
  wl_frames :: "(string + ws_message) list"
  wl_send_error :: "nat \<Rightarrow> string option"

datatype net_action =
    NA_Post string "(string \<times> string) list" json
  | NA_Sleep nat
  | NA_Connect string "(string \<times> string) list"
  | NA_Send json
  | NA_Recv
  | NA_Get string
  | NA_Kill

record llm_net =
  ln_http :: "nat \<Rightarrow> string \<Rightarrow> json \<Rightarrow> http_reply"
  ln_connect :: "nat \<Rightarrow> string \<Rightarrow> string + ws_link"
  ln_bad_url :: "string \<Rightarrow> string option"
  ln_header_value :: "string \<Rightarrow> bool"
  ln_timeout :: "nat option"
  ln_client_error :: "string option"
  ln_env :: "string \<Rightarrow> string option"
  ln_parse :: "string \<Rightarrow> string + json"
  ln_print :: "json \<Rightarrow> string"
  ln_decode :: "string \<Rightarrow> string + wire_response"

section \<open>Shared by the backends\<close>

definition agent_tool_def :: tool_def where
  "agent_tool_def =
     \<lparr>def_name = ''Agent'',
      def_description = ''Launch a subagent to handle a self-contained task. The subagent runs ''
        @ ''in the same sandbox and workspace, receives the prompt as its task ''
        @ ''description, and works autonomously (it cannot ask the user questions). ''
        @ ''This call returns immediately with the subagent'' @ [CHR 0x27] @ ''s id; the subagent runs ''
        @ ''in the background. Collect its final report with AwaitAgent. Launch ''
        @ ''several subagents, then await them, to run work in parallel.'',
      def_input_schema = json_obj
        [(''type'', JString ''object''),
         (''properties'', json_obj
            [(''prompt'', json_obj
                [(''type'', JString ''string''),
                 (''description'', JString ''Complete, self-contained task description for the subagent.'')]),
             (''name'', json_obj
                [(''type'', JString ''string''),
                 (''description'', JString ''Optional short display name for the subagent.'')])]),
         (''required'', JArray [JString ''prompt''])],
      def_availability = Both\<rparr>"

definition await_agent_tool_def :: tool_def where
  "await_agent_tool_def =
     \<lparr>def_name = ''AwaitAgent'',
      def_description = ''Wait for a subagent launched with Agent to finish and collect its final ''
        @ ''report. With no input, waits for the first of your still-running ''
        @ ''subagents to finish. With an '' @ [CHR 0x27] @ ''agent'' @ [CHR 0x27]
        @ '' id, waits for that specific ''
        @ ''subagent. Returns the subagent'' @ [CHR 0x27] @ ''s id, display name, and final report (or ''
        @ ''its error output if it failed). Each subagent is collected once.'',
      def_input_schema = json_obj
        [(''type'', JString ''object''),
         (''properties'', json_obj
            [(''agent'', json_obj
                [(''type'', JString ''string''),
                 (''description'', JString (''Optional id of a specific subagent to wait for, as returned ''
                    @ ''by the Agent tool. Omit to wait for the first of your ''
                    @ ''running subagents to finish.''))])])],
      def_availability = Both\<rparr>"

text \<open>The price list; the prices are written as the bits of their \<open>f64\<close> values.\<close>

definition price_table :: "(string \<times> f64 \<times> f64) list" where
  "price_table =
     [(''claude-opus'', 0x402E000000000000, 0x4052C00000000000),
      (''claude-sonnet'', 0x4008000000000000, 0x402E000000000000),
      (''claude-haiku'', 0x3FE999999999999A, 0x4010000000000000),
      (''gpt-4o-mini'', 0x3FC3333333333333, 0x3FE3333333333333),
      (''gpt-4o'', 0x4004000000000000, 0x4024000000000000),
      (''gpt-4.1-mini'', 0x3FD999999999999A, 0x3FF999999999999A),
      (''gpt-4.1'', 0x4000000000000000, 0x4020000000000000),
      (''gpt-5'', 0x3FF4000000000000, 0x4024000000000000),
      (''o3'', 0x4000000000000000, 0x4020000000000000)]"

definition default_pricing_for_model :: "string \<Rightarrow> pricing option" where
  "default_pricing_for_model model =
     map_option (\<lambda>(_, input, output).
         \<lparr>usd_per_million_input_tokens = input, usd_per_million_output_tokens = output\<rparr>)
       (find (\<lambda>(needle, _, _). str_contains needle model) price_table)"

definition pricing_default :: pricing where
  "pricing_default = \<lparr>usd_per_million_input_tokens = 0, usd_per_million_output_tokens = 0\<rparr>"

definition config_pricing :: "llm_config \<Rightarrow> pricing" where
  "config_pricing cfg =
     (case lc_pricing cfg of
        Some p \<Rightarrow> p
      | None \<Rightarrow> (case default_pricing_for_model (lc_model cfg) of
                   Some p \<Rightarrow> p
                 | None \<Rightarrow> pricing_default))"

fun is_retryable :: "llm_error \<Rightarrow> bool" where
  "is_retryable (Llm_Transport _) = True"
| "is_retryable (Llm_Api m) =
     (prefix ''status 429'' m \<or> prefix ''status 5'' m \<or> str_contains ''overloaded'' m)"
| "is_retryable _ = False"

text \<open>
  The loop that calls \<open>attempt\<close>. The attempt number \<open>n\<close> gives its result and its actions; a retry
  sleeps first, twice as long each time. The counter stays below \<open>max_attempts\<close>, so it does not
  overflow.
\<close>

function retry_loop ::
    "nat \<Rightarrow> (nat \<Rightarrow> (llm_error + 'a) \<times> net_action list) \<Rightarrow> nat \<Rightarrow> nat
      \<Rightarrow> (llm_error + 'a) \<times> net_action list" where
  "retry_loop max_attempts attempt tries delay =
     (case attempt tries of
        (Inr x, acts) \<Rightarrow> (Inr x, acts)
      | (Inl e, acts) \<Rightarrow>
          if Suc tries < max_attempts \<and> is_retryable e
          then (let (r, more) = retry_loop max_attempts attempt (Suc tries) (2 * delay)
                in (r, acts @ NA_Sleep delay # more))
          else (Inl e, acts))"
  by pat_completeness auto
termination
  by (relation "measure (\<lambda>(mx, _, tries, _). mx - tries)") auto

declare retry_loop.simps [simp del]

definition retry_with_backoff ::
    "nat \<Rightarrow> nat \<Rightarrow> (nat \<Rightarrow> (llm_error + 'a) \<times> net_action list)
      \<Rightarrow> (llm_error + 'a) \<times> net_action list" where
  "retry_with_backoff max_attempts base_delay attempt = retry_loop max_attempts attempt 0 base_delay"

definition RETRY_ATTEMPTS :: nat where "RETRY_ATTEMPTS = 3"
definition RETRY_BASE_DELAY :: nat where "RETRY_BASE_DELAY = 250"

text \<open>\<open>status.is_success()\<close>, and reading the key from the environment.\<close>

definition status_success :: "nat \<Rightarrow> bool" where
  "status_success st = (200 \<le> st \<and> st < 300)"

definition env_key :: "llm_net \<Rightarrow> string \<Rightarrow> llm_error + string" where
  "env_key net nm =
     (case ln_env net nm of
        Some v \<Rightarrow> if v \<noteq> [] then Inr v
                  else Inl (Llm_Config (''environment variable '' @ nm @ '' is not set''))
      | None \<Rightarrow> Inl (Llm_Config (''environment variable '' @ nm @ '' is not set'')))"

definition llm_http_client :: "llm_net \<Rightarrow> llm_error + unit" where
  "llm_http_client net =
     (case ln_client_error net of
        Some e \<Rightarrow> Inl (Llm_Config (''failed to build http client: '' @ e))
      | None \<Rightarrow> Inr ())"

text \<open>The first 500 characters of a text, as \<open>chars().take(500)\<close> counts them.\<close>

fun utf8_take :: "nat \<Rightarrow> string \<Rightarrow> string" where
  "utf8_take 0 s = []"
| "utf8_take (Suc n) [] = []"
| "utf8_take (Suc n) (c # s) =
     c # takeWhile utf8_cont s @ utf8_take n (dropWhile utf8_cont s)"

definition excerpt :: "string \<Rightarrow> string" where
  "excerpt body = utf8_take 500 (trim body)"

definition is_char_boundary :: "string \<Rightarrow> nat \<Rightarrow> bool" where
  "is_char_boundary s i =
     (i = 0 \<or> i = length s \<or> i < length s \<and> \<not> utf8_cont (s ! i))"

fun boundary_below :: "string \<Rightarrow> nat \<Rightarrow> nat" where
  "boundary_below s 0 = 0"
| "boundary_below s (Suc n) = (if is_char_boundary s (Suc n) then Suc n else boundary_below s n)"

definition ERROR_BODY_SNIPPET_BYTES :: nat where "ERROR_BODY_SNIPPET_BYTES = 600"

definition snippet :: "string \<Rightarrow> string" where
  "snippet s =
     (let trimmed = trim s in
      if length trimmed \<le> ERROR_BODY_SNIPPET_BYTES then trimmed
      else take (boundary_below trimmed ERROR_BODY_SNIPPET_BYTES) trimmed @ '' [truncated]'')"

section \<open>Anthropic Messages\<close>

record anthropic_backend =
  ab_base_url :: string
  ab_api_key :: string
  ab_model :: string
  ab_max_tokens :: u32
  ab_meter :: usage_meter

definition anthropic_create :: "llm_net \<Rightarrow> llm_config \<Rightarrow> llm_error + anthropic_backend" where
  "anthropic_create net cfg =
     (case env_key net (case lc_api_key_env cfg of Some k \<Rightarrow> k | None \<Rightarrow> ''ANTHROPIC_API_KEY'') of
        Inl e \<Rightarrow> Inl e
      | Inr key \<Rightarrow>
          (case llm_http_client net of
             Inl e \<Rightarrow> Inl e
           | Inr _ \<Rightarrow>
               Inr \<lparr>ab_base_url = trim_end_matches (CHR ''/'')
                      (case lc_base_url cfg of Some u \<Rightarrow> u | None \<Rightarrow> ''https://api.anthropic.com''),
                    ab_api_key = key, ab_model = lc_model cfg, ab_max_tokens = lc_max_tokens cfg,
                    ab_meter = usage_meter_new (config_pricing cfg) (lc_quota cfg)\<rparr>))"

fun block_to_wire :: "content_block \<Rightarrow> json" where
  "block_to_wire (CB_Text t) = json_obj [(''type'', JString ''text''), (''text'', JString t)]"
| "block_to_wire (CB_ToolUse i n inp) =
     json_obj [(''type'', JString ''tool_use''), (''id'', JString i), (''name'', JString n),
               (''input'', inp)]"
| "block_to_wire (CB_ToolResult i c er) =
     json_obj [(''type'', JString ''tool_result''), (''tool_use_id'', JString i),
               (''content'', JString c), (''is_error'', JBool er)]"

definition message_to_wire :: "message \<Rightarrow> json" where
  "message_to_wire m =
     json_obj [(''role'', JString (case msg_role m of User \<Rightarrow> ''user'' | Assistant \<Rightarrow> ''assistant'')),
               (''content'', JArray (map block_to_wire (msg_content m)))]"

definition anthropic_body :: "string \<Rightarrow> u32 \<Rightarrow> completion_request \<Rightarrow> json" where
  "anthropic_body model default_max_tokens req =
     (let max_tokens = (if req_max_tokens req > 0 then req_max_tokens req else default_max_tokens);
          body = json_obj [(''model'', JString model), (''max_tokens'', json_nat (unat max_tokens)),
                           (''messages'', JArray (map message_to_wire (req_messages req)))];
          body = (if req_system req \<noteq> [] then json_insert ''system'' (JString (req_system req)) body
                  else body)
      in if req_tools req \<noteq> []
         then json_insert ''tools'' (JArray (map (\<lambda>t.
                json_obj [(''name'', JString (def_name t)),
                          (''description'', JString (def_description t)),
                          (''input_schema'', def_input_schema t)]) (req_tools req))) body
         else body)"

fun map_stop_reason :: "string option \<Rightarrow> stop_reason" where
  "map_stop_reason None = SR_Other ''(none)''"
| "map_stop_reason (Some r) =
     (if r = ''end_turn'' then SR_EndTurn
      else if r = ''tool_use'' then SR_ToolUse
      else if r = ''max_tokens'' then SR_MaxTokens
      else SR_Other r)"

fun wire_block :: "wire_content_block \<Rightarrow> content_block option" where
  "wire_block (WC_Text t) = Some (CB_Text t)"
| "wire_block (WC_ToolUse i n inp) = Some (CB_ToolUse i n inp)"
| "wire_block WC_Unknown = None"

definition anthropic_parse :: "llm_net \<Rightarrow> string \<Rightarrow> llm_error + completion_response" where
  "anthropic_parse net body =
     (case ln_decode net body of
        Inl e \<Rightarrow> Inl (Llm_Malformed (''invalid response JSON: '' @ e))
      | Inr w \<Rightarrow>
          Inr \<lparr>resp_content = List.map_filter wire_block (wr_content w),
               resp_stop_reason = map_stop_reason (wr_stop_reason w),
               resp_usage = \<lparr>td_input_tokens = wu_input_tokens (wr_usage w),
                             td_output_tokens = wu_output_tokens (wr_usage w)\<rparr>\<rparr>)"

text \<open>One POST; \<open>handle\<close> is what the caller does with a successful body.\<close>

definition http_once ::
    "llm_net \<Rightarrow> (string \<Rightarrow> string) \<Rightarrow> (string \<Rightarrow> llm_error + 'a) \<Rightarrow> string \<Rightarrow> (string \<times> string) list
      \<Rightarrow> json \<Rightarrow> nat \<Rightarrow> (llm_error + 'a) \<times> net_action list" where
  "http_once net shorten handle url hs body n =
     ((case ln_http net n url body of
         Net_Failed e \<Rightarrow> Inl (Llm_Transport e)
       | Net_Broken st e \<Rightarrow> Inl (Llm_Transport e)
       | Net_Answer st content \<Rightarrow>
           if \<not> status_success st
           then Inl (Llm_Api (''status '' @ nat_to_string st @ '': '' @ shorten content))
           else handle content),
      [NA_Post url hs body])"

definition anthropic_complete ::
    "f64_ops \<Rightarrow> llm_net \<Rightarrow> completion_request \<Rightarrow> anthropic_backend
      \<Rightarrow> (llm_error + completion_response) \<times> net_action list \<times> anthropic_backend" where
  "anthropic_complete fo net req b =
     (case check_quota fo (ab_meter b) of
        Inl e \<Rightarrow> (Inl e, [], b)
      | Inr _ \<Rightarrow>
          (let url = ab_base_url b @ ''/v1/messages'';
               body = anthropic_body (ab_model b) (ab_max_tokens b) req;
               hs = [(''x-api-key'', ab_api_key b), (''anthropic-version'', ''2023-06-01''),
                     (''content-type'', ''application/json'')]
           in case retry_with_backoff RETRY_ATTEMPTS RETRY_BASE_DELAY
                     (http_once net excerpt (anthropic_parse net) url hs body) of
                (Inl e, acts) \<Rightarrow> (Inl e, acts, b)
              | (Inr resp, acts) \<Rightarrow>
                  (Inr resp, acts, b\<lparr>ab_meter := record_usage (resp_usage resp) (ab_meter b)\<rparr>)))"

section \<open>OpenAI Responses\<close>

record responses_backend =
  rb_model :: string
  rb_base_url :: string
  rb_api_key :: string
  rb_meter :: usage_meter

text \<open>The two OpenAI backends read the key by the same function.\<close>

definition resolve_api_key :: "llm_net \<Rightarrow> llm_config \<Rightarrow> llm_error + string" where
  "resolve_api_key net cfg =
     env_key net (case lc_api_key_env cfg of Some k \<Rightarrow> k | None \<Rightarrow> ''OPENAI_API_KEY'')"

definition responses_create :: "llm_net \<Rightarrow> llm_config \<Rightarrow> llm_error + responses_backend" where
  "responses_create net cfg =
     (case llm_http_client net of
        Inl e \<Rightarrow> Inl e
      | Inr _ \<Rightarrow>
          (case resolve_api_key net cfg of
             Inl e \<Rightarrow> Inl e
           | Inr key \<Rightarrow>
               Inr \<lparr>rb_model = lc_model cfg,
                    rb_base_url = trim_end_matches (CHR ''/'')
                      (case lc_base_url cfg of Some u \<Rightarrow> u | None \<Rightarrow> ''https://api.openai.com''),
                    rb_api_key = key,
                    rb_meter = usage_meter_new (config_pricing cfg) (lc_quota cfg)\<rparr>))"

definition responses_tool :: "tool_def \<Rightarrow> json" where
  "responses_tool t =
     json_obj [(''type'', JString ''function''), (''name'', JString (def_name t)),
               (''description'', JString (def_description t)),
               (''parameters'', def_input_schema t), (''strict'', JBool False)]"

text \<open>
  One item per content block. The Realtime backend has the same function with another type for the
  text of the assistant, which is the argument \<open>said\<close>.
\<close>

definition item_of :: "(json \<Rightarrow> string) \<Rightarrow> string \<Rightarrow> role \<Rightarrow> content_block \<Rightarrow> json" where
  "item_of print said rl b =
     (case b of
        CB_Text t \<Rightarrow>
          json_obj [(''type'', JString ''message''),
                    (''role'', JString (case rl of User \<Rightarrow> ''user'' | Assistant \<Rightarrow> ''assistant'')),
                    (''content'', JArray [json_obj
                       [(''type'', JString (case rl of User \<Rightarrow> ''input_text'' | Assistant \<Rightarrow> said)),
                        (''text'', JString t)]])]
      | CB_ToolUse i n inp \<Rightarrow>
          json_obj [(''type'', JString ''function_call''), (''call_id'', JString i),
                    (''name'', JString n), (''arguments'', JString (print inp))]
      | CB_ToolResult i c _ \<Rightarrow>
          json_obj [(''type'', JString ''function_call_output''), (''call_id'', JString i),
                    (''output'', JString c)])"

definition build_input :: "(json \<Rightarrow> string) \<Rightarrow> message list \<Rightarrow> json list" where
  "build_input print ms =
     concat (map (\<lambda>m. map (item_of print ''output_text'' (msg_role m)) (msg_content m)) ms)"

definition responses_body :: "(json \<Rightarrow> string) \<Rightarrow> string \<Rightarrow> completion_request \<Rightarrow> json" where
  "responses_body print model req =
     json_obj [(''model'', JString model), (''instructions'', JString (req_system req)),
               (''store'', JBool False),
               (''max_output_tokens'', json_nat (unat (req_max_tokens req))),
               (''tools'', JArray (map responses_tool (req_tools req))),
               (''input'', JArray (build_input print (req_messages req)))]"

text \<open>A field that must be a string; \<open>what\<close> is the message when it is not.\<close>

definition str_or :: "string \<Rightarrow> json option \<Rightarrow> llm_error + string" where
  "str_or what v =
     (case Option.bind v json_as_str of Some s \<Rightarrow> Inr s | None \<Rightarrow> Inl (Llm_Malformed what))"

text \<open>
  A call from its three strings, in the order the code looks at them: identifier, name, arguments.
\<close>

definition call_block ::
    "(string \<Rightarrow> string + json) \<Rightarrow> string \<Rightarrow> llm_error + string \<Rightarrow> llm_error + string
      \<Rightarrow> llm_error + string \<Rightarrow> llm_error + content_block" where
  "call_block parse bad i n args =
     (case i of
        Inl e \<Rightarrow> Inl e
      | Inr id' \<Rightarrow>
          (case n of
             Inl e \<Rightarrow> Inl e
           | Inr nm \<Rightarrow>
               (case args of
                  Inl e \<Rightarrow> Inl e
                | Inr a \<Rightarrow>
                    (case parse a of
                       Inl e \<Rightarrow> Inl (Llm_Malformed (bad @ e))
                     | Inr inp \<Rightarrow> Inr (CB_ToolUse id' nm inp)))))"

definition parse_function_call :: "(string \<Rightarrow> string + json) \<Rightarrow> json \<Rightarrow> llm_error + content_block" where
  "parse_function_call parse item =
     call_block parse ''function_call arguments are not valid JSON: ''
       (str_or ''function_call item has no call_id'' (json_get item ''call_id''))
       (str_or ''function_call item has no name'' (json_get item ''name''))
       (str_or ''function_call item has no arguments string'' (json_get item ''arguments''))"

text \<open>
  The loops over the parts of a message and over the items. \<open>texts\<close> are the part types that are
  read, \<open>bad\<close> the message for a part without text, \<open>call\<close> reads a function call; the result is the
  content and whether a call was seen.
\<close>

fun message_parts ::
    "string list \<Rightarrow> string \<Rightarrow> json list \<Rightarrow> content_block list \<Rightarrow> llm_error + content_block list" where
  "message_parts texts bad [] acc = Inr acc"
| "message_parts texts bad (p # ps) acc =
     (case json_get_str p ''type'' of
        Some ty \<Rightarrow>
          if ty \<in> set texts
          then (case str_or bad (json_get p ''text'') of
                  Inl e \<Rightarrow> Inl e
                | Inr t \<Rightarrow> message_parts texts bad ps (acc @ [CB_Text t]))
          else message_parts texts bad ps acc
      | None \<Rightarrow> message_parts texts bad ps acc)"

fun output_items ::
    "string list \<Rightarrow> string \<Rightarrow> (json \<Rightarrow> llm_error + content_block) \<Rightarrow> json list
      \<Rightarrow> content_block list \<Rightarrow> bool \<Rightarrow> llm_error + content_block list \<times> bool" where
  "output_items texts bad call [] acc saw = Inr (acc, saw)"
| "output_items texts bad call (x # xs) acc saw =
     (case json_get_str x ''type'' of
        Some ty \<Rightarrow>
          if ty = ''message'' then
            (case message_parts texts bad (array_field x ''content'') acc of
               Inl e \<Rightarrow> Inl e
             | Inr acc' \<Rightarrow> output_items texts bad call xs acc' saw)
          else if ty = ''function_call'' then
            (case call x of
               Inl e \<Rightarrow> Inl e
             | Inr b \<Rightarrow> output_items texts bad call xs (acc @ [b]) True)
          else output_items texts bad call xs acc saw
      | None \<Rightarrow> output_items texts bad call xs acc saw)"

definition openai_stop :: "bool \<Rightarrow> string list \<Rightarrow> json \<Rightarrow> stop_reason" where
  "openai_stop saw_function_call reason v =
     (if saw_function_call then SR_ToolUse
      else if json_get_str v ''status'' = Some ''incomplete'' \<and>
              Option.bind (json_pointer reason v) json_as_str = Some ''max_output_tokens''
      then SR_MaxTokens
      else SR_EndTurn)"

definition usage_of :: "string \<Rightarrow> string \<Rightarrow> json \<Rightarrow> token_delta" where
  "usage_of input output v =
     \<lparr>td_input_tokens = pointer_u64 [''usage'', input] v,
      td_output_tokens = pointer_u64 [''usage'', output] v\<rparr>"

definition responses_parse :: "(string \<Rightarrow> string + json) \<Rightarrow> json \<Rightarrow> llm_error + completion_response" where
  "responses_parse parse v =
     (case Option.bind (json_get v ''output'') json_as_array of
        None \<Rightarrow> Inl (Llm_Malformed ''response has no output array'')
      | Some items \<Rightarrow>
          (case output_items [''output_text''] ''output_text part has no text string''
                  (parse_function_call parse) items [] False of
             Inl e \<Rightarrow> Inl e
           | Inr (content, saw) \<Rightarrow>
               Inr \<lparr>resp_content = content,
                    resp_stop_reason = openai_stop saw [''incomplete_details'', ''reason''] v,
                    resp_usage = usage_of ''input_tokens'' ''output_tokens'' v\<rparr>))"

text \<open>\<open>send_once\<close> of the two backends that parse the body to a \<open>Value\<close> inside the attempt.\<close>

definition body_value :: "llm_net \<Rightarrow> string \<Rightarrow> llm_error + json" where
  "body_value net content =
     (case ln_parse net content of
        Inl e \<Rightarrow> Inl (Llm_Malformed (''response body is not valid JSON: '' @ e))
      | Inr v \<Rightarrow> Inr v)"

definition responses_send_once ::
    "llm_net \<Rightarrow> string \<Rightarrow> string \<Rightarrow> json \<Rightarrow> nat \<Rightarrow> (llm_error + json) \<times> net_action list" where
  "responses_send_once net key url body n =
     http_once net snippet (body_value net) url [(''authorization'', ''Bearer '' @ key)] body n"

definition responses_complete ::
    "f64_ops \<Rightarrow> llm_net \<Rightarrow> completion_request \<Rightarrow> responses_backend
      \<Rightarrow> (llm_error + completion_response) \<times> net_action list \<times> responses_backend" where
  "responses_complete fo net req b =
     (case check_quota fo (rb_meter b) of
        Inl e \<Rightarrow> (Inl e, [], b)
      | Inr _ \<Rightarrow>
          (let url = rb_base_url b @ ''/v1/responses'';
               body = responses_body (ln_print net) (rb_model b) req
           in case retry_with_backoff RETRY_ATTEMPTS RETRY_BASE_DELAY
                     (responses_send_once net (rb_api_key b) url body) of
                (Inl e, acts) \<Rightarrow> (Inl e, acts, b)
              | (Inr v, acts) \<Rightarrow>
                  (case responses_parse (ln_parse net) v of
                     Inl e \<Rightarrow> (Inl e, acts, b)
                   | Inr resp \<Rightarrow>
                       (Inr resp, acts, b\<lparr>rb_meter := record_usage (resp_usage resp) (rb_meter b)\<rparr>))))"

section \<open>OpenAI Realtime\<close>

record ws_backend =
  wb_model :: string
  wb_base_url :: string
  wb_api_key :: string
  wb_meter :: usage_meter

definition websocket_base_url :: "llm_config \<Rightarrow> llm_error + string" where
  "websocket_base_url cfg =
     (let raw = (case lc_base_url cfg of Some u \<Rightarrow> u | None \<Rightarrow> ''wss://api.openai.com'');
          trimmed = trim_end_matches (CHR ''/'') raw
      in if prefix ''ws://'' trimmed \<or> prefix ''wss://'' trimmed then Inr trimmed
         else case strip_prefix ''https://'' trimmed of
                Some rest \<Rightarrow> Inr (''wss://'' @ rest)
              | None \<Rightarrow>
                  (case strip_prefix ''http://'' trimmed of
                     Some rest \<Rightarrow> Inr (''ws://'' @ rest)
                   | None \<Rightarrow>
                       Inl (Llm_Config (''base_url '' @ debug_str trimmed
                              @ '' must use the ws:// or wss:// scheme''))))"

definition ws_create :: "llm_net \<Rightarrow> llm_config \<Rightarrow> llm_error + ws_backend" where
  "ws_create net cfg =
     (case websocket_base_url cfg of
        Inl e \<Rightarrow> Inl e
      | Inr url \<Rightarrow>
          (case resolve_api_key net cfg of
             Inl e \<Rightarrow> Inl e
           | Inr key \<Rightarrow>
               Inr \<lparr>wb_model = lc_model cfg, wb_base_url = url, wb_api_key = key,
                    wb_meter = usage_meter_new (config_pricing cfg) (lc_quota cfg)\<rparr>))"

definition connect :: "llm_net \<Rightarrow> ws_backend \<Rightarrow> nat \<Rightarrow> (llm_error + ws_link) \<times> net_action list" where
  "connect net b n =
     (let url = wb_base_url b @ ''/v1/realtime?model='' @ wb_model b;
          auth = ''Bearer '' @ wb_api_key b
      in case ln_bad_url net url of
           Some e \<Rightarrow> (Inl (Llm_Config (''invalid realtime url '' @ debug_str url @ '': '' @ e)), [])
         | None \<Rightarrow>
             if \<not> ln_header_value net auth
             then (Inl (Llm_Config ''api key is not a valid header value''), [])
             else ((case ln_connect net n url of
                      Inl e \<Rightarrow> Inl (Llm_Transport e)
                    | Inr link \<Rightarrow> Inr link),
                   [NA_Connect url [(''authorization'', auth), (''openai-beta'', ''realtime=v1'')]]))"

text \<open>The next event, the frames left after it, and how many reads it took.\<close>

fun next_event ::
    "llm_net \<Rightarrow> (string + ws_message) list
      \<Rightarrow> (llm_error + json) \<times> (string + ws_message) list \<times> nat" where
  "next_event net [] = (Inl (Llm_Transport ''connection closed before response.done''), [], 1)"
| "next_event net (Inl e # fs) = (Inl (Llm_Transport e), fs, 1)"
| "next_event net (Inr (WS_Text t) # fs) =
     ((case ln_parse net t of
         Inl e \<Rightarrow> Inl (Llm_Malformed (''server event is not valid JSON: '' @ e))
       | Inr v \<Rightarrow> Inr v), fs, 1)"
| "next_event net (Inr WS_Close # fs) =
     (Inl (Llm_Transport ''connection closed before response.done''), fs, 1)"
| "next_event net (Inr WS_Other # fs) =
     (let (r, fs', k) = next_event net fs in (r, fs', Suc k))"

definition api_error :: "llm_net \<Rightarrow> json \<Rightarrow> llm_error" where
  "api_error net event =
     Llm_Api (''realtime error: '' @
       (case Option.bind (json_pointer [''error'', ''message''] event) json_as_str of
          Some m \<Rightarrow> m
        | None \<Rightarrow> ln_print net event))"

lemma next_event_shorter:
  "next_event net fs = (Inr v, fs', k) \<Longrightarrow> length fs' < length fs"
  by (induction fs arbitrary: k rule: next_event.induct) (auto split: prod.splits sum.splits)

text \<open>
  The two loops of a session: events are read until one of the type \<open>ty\<close>, an \<open>error\<close> event ends
  the session, others are passed over.
\<close>

function await_event ::
    "llm_net \<Rightarrow> string \<Rightarrow> (string + ws_message) list
      \<Rightarrow> (llm_error + json) \<times> (string + ws_message) list \<times> nat" where
  "await_event net ty fs =
     (case next_event net fs of
        (Inl e, fs', k) \<Rightarrow> (Inl e, fs', k)
      | (Inr event, fs', k) \<Rightarrow>
          if json_get_str event ''type'' = Some ty then (Inr event, fs', k)
          else if json_get_str event ''type'' = Some ''error'' then (Inl (api_error net event), fs', k)
          else (let (r, fs2, k') = await_event net ty fs' in (r, fs2, k + k')))"
  by pat_completeness auto
termination
  by (relation "measure (\<lambda>(_, _, fs). length fs)") (auto dest: next_event_shorter [OF sym])

declare await_event.simps [simp del]

definition session_update :: "string \<Rightarrow> tool_def list \<Rightarrow> json" where
  "session_update system tools =
     json_obj [(''type'', JString ''session.update''),
       (''session'', json_obj
          [(''modalities'', JArray [JString ''text'']), (''instructions'', JString system),
           (''tools'', JArray (map (\<lambda>t. json_obj
              [(''type'', JString ''function''), (''name'', JString (def_name t)),
               (''description'', JString (def_description t)),
               (''parameters'', def_input_schema t)]) tools)),
           (''tool_choice'', JString ''auto''), (''turn_detection'', JNull)])]"

definition conversation_items :: "(json \<Rightarrow> string) \<Rightarrow> message list \<Rightarrow> json list" where
  "conversation_items print ms =
     concat (map (\<lambda>m. map (item_of print ''text'' (msg_role m)) (msg_content m)) ms)"

text \<open>The events of one request, in the order the session sends them.\<close>

definition session_events :: "(json \<Rightarrow> string) \<Rightarrow> completion_request \<Rightarrow> json list" where
  "session_events print req =
     session_update (req_system req) (req_tools req)
     # map (\<lambda>item. json_obj [(''type'', JString ''conversation.item.create''), (''item'', item)])
         (conversation_items print (req_messages req))
     @ [json_obj [(''type'', JString ''response.create''),
                  (''response'', json_obj [(''modalities'', JArray [JString ''text''])])]]"

fun send_events :: "(nat \<Rightarrow> string option) \<Rightarrow> nat \<Rightarrow> json list \<Rightarrow> (llm_error + unit) \<times> net_action list" where
  "send_events fails k [] = (Inr (), [])"
| "send_events fails k (ev # evs) =
     (case fails k of
        Some e \<Rightarrow> (Inl (Llm_Transport e), [NA_Send ev])
      | None \<Rightarrow> (let (r, acts) = send_events fails (Suc k) evs in (r, NA_Send ev # acts)))"

definition ws_function_call :: "(string \<Rightarrow> string + json) \<Rightarrow> json \<Rightarrow> llm_error + content_block" where
  "ws_function_call parse item =
     call_block parse ''function_call arguments are not valid JSON: ''
       (str_or ''function_call has no call_id'' (json_get item ''call_id''))
       (str_or ''function_call has no name'' (json_get item ''name''))
       (str_or ''function_call has no arguments string'' (json_get item ''arguments''))"

definition parse_response_done :: "(string \<Rightarrow> string + json) \<Rightarrow> json \<Rightarrow> llm_error + completion_response" where
  "parse_response_done parse event =
     (case json_get event ''response'' of
        None \<Rightarrow> Inl (Llm_Malformed ''response.done event has no response object'')
      | Some response \<Rightarrow>
          (case Option.bind (json_get response ''output'') json_as_array of
             None \<Rightarrow> Inl (Llm_Malformed ''response.done has no output array'')
           | Some items \<Rightarrow>
               (case output_items [''text'', ''output_text''] ''text part has no text string''
                       (ws_function_call parse) items [] False of
                  Inl e \<Rightarrow> Inl e
                | Inr (content, saw) \<Rightarrow>
                    Inr \<lparr>resp_content = content,
                         resp_stop_reason = openai_stop saw [''status_details'', ''reason''] response,
                         resp_usage = usage_of ''input_tokens'' ''output_tokens'' response\<rparr>)))"

definition run_session ::
    "llm_net \<Rightarrow> completion_request \<Rightarrow> ws_backend \<Rightarrow> nat
      \<Rightarrow> (llm_error + completion_response) \<times> net_action list" where
  "run_session net req b n =
     (case connect net b n of
        (Inl e, acts) \<Rightarrow> (Inl e, acts)
      | (Inr link, acts) \<Rightarrow>
          (case await_event net ''session.created'' (wl_frames link) of
             (Inl e, _, k) \<Rightarrow> (Inl e, acts @ replicate k NA_Recv)
           | (Inr _, fs, k) \<Rightarrow>
               (case send_events (wl_send_error link) 0 (session_events (ln_print net) req) of
                  (Inl e, sends) \<Rightarrow> (Inl e, acts @ replicate k NA_Recv @ sends)
                | (Inr _, sends) \<Rightarrow>
                    (case await_event net ''response.done'' fs of
                       (Inl e, _, k') \<Rightarrow>
                         (Inl e, acts @ replicate k NA_Recv @ sends @ replicate k' NA_Recv)
                     | (Inr event, _, k') \<Rightarrow>
                         (parse_response_done (ln_parse net) event,
                          acts @ replicate k NA_Recv @ sends @ replicate k' NA_Recv)))))"

text \<open>
  The time limit over all attempts: \<open>ln_timeout = Some k\<close> says that it runs out when \<open>k\<close> actions
  have been done, if the attempts are not over by then.
\<close>

definition ws_complete ::
    "f64_ops \<Rightarrow> llm_net \<Rightarrow> completion_request \<Rightarrow> ws_backend
      \<Rightarrow> (llm_error + completion_response) \<times> net_action list \<times> ws_backend" where
  "ws_complete fo net req b =
     (case check_quota fo (wb_meter b) of
        Inl e \<Rightarrow> (Inl e, [], b)
      | Inr _ \<Rightarrow>
          (let (r, acts) = retry_with_backoff RETRY_ATTEMPTS RETRY_BASE_DELAY (run_session net req b)
           in case ln_timeout net of
                Some k \<Rightarrow>
                  if k < length acts then (Inl (Llm_Transport ''timed out''), take k acts, b)
                  else (case r of
                          Inl e \<Rightarrow> (Inl e, acts, b)
                        | Inr resp \<Rightarrow>
                            (Inr resp, acts, b\<lparr>wb_meter := record_usage (resp_usage resp) (wb_meter b)\<rparr>))
              | None \<Rightarrow>
                  (case r of
                     Inl e \<Rightarrow> (Inl e, acts, b)
                   | Inr resp \<Rightarrow>
                       (Inr resp, acts, b\<lparr>wb_meter := record_usage (resp_usage resp) (wb_meter b)\<rparr>))))"

section \<open>Local server\<close>

record local_backend =
  lo_model :: string
  lo_base_url :: string
  lo_meter :: usage_meter
  lo_child :: bool

text \<open>
  The managed server process at the polls of the start-up loop, numbered from 0: what the probes of
  a URL answer, what \<open>try_wait\<close> reports (success and display of the exit status), and the clock in
  milliseconds; \<open>ps_start\<close> is the reading the deadline is computed from, \<open>ps_stderr\<close> what the
  reader task got from its error output, read by read.
\<close>

record server_process =
  ps_spawn_error :: "string option"
  ps_probe :: "nat \<Rightarrow> string \<Rightarrow> nat option"
  ps_exit :: "nat \<Rightarrow> (bool \<times> string) option"
  ps_now :: "nat \<Rightarrow> nat"
  ps_start :: nat
  ps_stderr :: "string list"

definition STARTUP_TIMEOUT :: nat where "STARTUP_TIMEOUT = 60000"
definition STARTUP_POLL_INTERVAL :: nat where "STARTUP_POLL_INTERVAL = 250"
definition STDERR_TAIL_BYTES :: nat where "STDERR_TAIL_BYTES = 4096"

definition push_tail :: "string \<Rightarrow> string \<Rightarrow> string" where
  "push_tail tail chunk =
     (let t = tail @ chunk in
      if length t > STDERR_TAIL_BYTES then drop (length t - STDERR_TAIL_BYTES) t else t)"

fun probe_paths :: "(string \<Rightarrow> nat option) \<Rightarrow> string \<Rightarrow> string list \<Rightarrow> bool \<times> net_action list" where
  "probe_paths ask base [] = (False, [])"
| "probe_paths ask base (p # ps) =
     (case ask (base @ p) of
        Some st \<Rightarrow>
          if status_success st then (True, [NA_Get (base @ p)])
          else (let (r, acts) = probe_paths ask base ps in (r, NA_Get (base @ p) # acts))
      | None \<Rightarrow> (let (r, acts) = probe_paths ask base ps in (r, NA_Get (base @ p) # acts)))"

definition probe :: "(string \<Rightarrow> nat option) \<Rightarrow> string \<Rightarrow> bool \<times> net_action list" where
  "probe ask base = probe_paths ask base [''/v1/models'', ''/health'']"

fun start_loop :: "nat \<Rightarrow> server_process \<Rightarrow> string \<Rightarrow> nat \<Rightarrow> ((string + unit) \<times> net_action list) option" where
  "start_loop 0 p base i = None"
| "start_loop (Suc fuel) p base i =
     (let (ready, gets) = probe (ps_probe p i) base in
      if ready then Some (Inr (), gets)
      else if map_option fst (ps_exit p i) = Some False
      then Some (Inl (''local server command exited with '' @ snd (the (ps_exit p i))
                        @ '' before becoming ready''), gets)
      else if ps_now p i \<ge> ps_start p + STARTUP_TIMEOUT
      then Some (Inl (''local server at '' @ base @ '' did not become ready within ''
                        @ nat_to_string (STARTUP_TIMEOUT div 1000) @ ''s''), gets @ [NA_Kill])
      else map_option (\<lambda>(r, acts). (r, gets @ NA_Sleep STARTUP_POLL_INTERVAL # acts))
             (start_loop fuel p base (Suc i)))"

definition start_server ::
    "nat \<Rightarrow> server_process \<Rightarrow> string \<Rightarrow> ((llm_error + unit) \<times> net_action list) option" where
  "start_server fuel p base =
     (case ps_spawn_error p of
        Some e \<Rightarrow> Some (Inl (Llm_Config (''failed to spawn local server command: '' @ e)), [])
      | None \<Rightarrow>
          map_option (\<lambda>(r, acts).
              ((case r of
                  Inr _ \<Rightarrow> Inr ()
                | Inl failure \<Rightarrow>
                    Inl (Llm_Config (failure @ ''; stderr: ''
                      @ trim (from_utf8_lossy (foldl push_tail [] (ps_stderr p)))))), acts))
            (start_loop fuel p base 0))"

definition local_create ::
    "nat \<Rightarrow> llm_net \<Rightarrow> server_process \<Rightarrow> llm_config
      \<Rightarrow> ((llm_error + local_backend) \<times> net_action list) option" where
  "local_create fuel net p cfg =
     (let base = trim_end_matches (CHR ''/'')
                   (case lc_base_url cfg of Some u \<Rightarrow> u | None \<Rightarrow> ''http://127.0.0.1:8080'');
          backend = (\<lambda>child.
            \<lparr>lo_model = lc_model cfg, lo_base_url = base,
             lo_meter = usage_meter_new
               (case lc_pricing cfg of Some pr \<Rightarrow> pr | None \<Rightarrow> pricing_default) (lc_quota cfg),
             lo_child = child\<rparr>)
      in case llm_http_client net of
           Inl e \<Rightarrow> Some (Inl e, [])
         | Inr _ \<Rightarrow>
             (case lc_local_server_command cfg of
                None \<Rightarrow> Some (Inr (backend False), [])
              | Some command \<Rightarrow>
                  map_option (\<lambda>(r, acts).
                      ((case r of Inl e \<Rightarrow> Inl e | Inr _ \<Rightarrow> Inr (backend True)), acts))
                    (start_server fuel p base)))"

definition local_drop :: "local_backend \<Rightarrow> net_action list" where
  "local_drop b = (if lo_child b then [NA_Kill] else [])"

definition local_tool :: "tool_def \<Rightarrow> json" where
  "local_tool t =
     json_obj [(''type'', JString ''function''),
       (''function'', json_obj
          [(''name'', JString (def_name t)), (''description'', JString (def_description t)),
           (''parameters'', def_input_schema t)])]"

definition tool_message :: "string \<Rightarrow> string \<Rightarrow> json" where
  "tool_message i c =
     json_obj [(''role'', JString ''tool''), (''tool_call_id'', JString i), (''content'', JString c)]"

definition tool_call_value :: "(json \<Rightarrow> string) \<Rightarrow> string \<Rightarrow> string \<Rightarrow> json \<Rightarrow> json" where
  "tool_call_value print i n inp =
     json_obj [(''id'', JString i), (''type'', JString ''function''),
       (''function'', json_obj [(''name'', JString n), (''arguments'', JString (print inp))])]"

fun result_message :: "content_block \<Rightarrow> json option" where
  "result_message (CB_ToolResult i c _) = Some (tool_message i c)"
| "result_message _ = None"

fun call_value :: "(json \<Rightarrow> string) \<Rightarrow> content_block \<Rightarrow> json option" where
  "call_value print (CB_ToolUse i n inp) = Some (tool_call_value print i n inp)"
| "call_value print _ = None"

text \<open>\<open>append_message\<close>: the values it pushes.\<close>

definition local_messages :: "(json \<Rightarrow> string) \<Rightarrow> message \<Rightarrow> json list" where
  "local_messages print m =
     (let texts = List.map_filter text_block (msg_content m) in
      case msg_role m of
        User \<Rightarrow>
          List.map_filter result_message (msg_content m)
          @ (if texts \<noteq> []
             then [json_obj [(''role'', JString ''user''),
                             (''content'', JString (join_with [CHR 0x0A] texts))]]
             else [])
      | Assistant \<Rightarrow>
          (let calls = List.map_filter (call_value print) (msg_content m);
               m0 = json_obj [(''role'', JString ''assistant'')];
               m1 = (if texts = [] then json_insert ''content'' JNull m0
                     else json_insert ''content'' (JString (join_with [CHR 0x0A] texts)) m0)
           in [if calls \<noteq> [] then json_insert ''tool_calls'' (JArray calls) m1 else m1]))"

definition local_body :: "(json \<Rightarrow> string) \<Rightarrow> string \<Rightarrow> completion_request \<Rightarrow> json" where
  "local_body print model req =
     (let messages =
            (if req_system req \<noteq> []
             then [json_obj [(''role'', JString ''system''), (''content'', JString (req_system req))]]
             else [])
            @ concat (map (local_messages print) (req_messages req));
          body = json_obj [(''model'', JString model),
                           (''max_tokens'', json_nat (unat (req_max_tokens req))),
                           (''messages'', JArray messages)]
      in if req_tools req \<noteq> []
         then json_insert ''tool_choice'' (JString ''auto'')
                (json_insert ''tools'' (JArray (map local_tool (req_tools req))) body)
         else body)"

fun local_calls :: "(string \<Rightarrow> string + json) \<Rightarrow> json list \<Rightarrow> content_block list \<Rightarrow> llm_error + content_block list" where
  "local_calls parse [] acc = Inr acc"
| "local_calls parse (c # cs) acc =
     (case call_block parse ''tool_call arguments are not valid JSON: ''
             (str_or ''tool_call has no id'' (json_get c ''id''))
             (str_or ''tool_call has no function name'' (json_pointer [''function'', ''name''] c))
             (str_or ''tool_call has no arguments string'' (json_pointer [''function'', ''arguments''] c)) of
        Inl e \<Rightarrow> Inl e
      | Inr b \<Rightarrow> local_calls parse cs (acc @ [b]))"

definition local_parse :: "(string \<Rightarrow> string + json) \<Rightarrow> json \<Rightarrow> llm_error + completion_response" where
  "local_parse parse v =
     (case json_pointer [''choices'', ''0''] v of
        None \<Rightarrow> Inl (Llm_Malformed ''response has no choices'')
      | Some choice \<Rightarrow>
          (case json_get choice ''message'' of
             None \<Rightarrow> Inl (Llm_Malformed ''choice has no message'')
           | Some message \<Rightarrow>
               (case local_calls parse (array_field message ''tool_calls'')
                       (case json_get_str message ''content'' of
                          Some t \<Rightarrow> if t \<noteq> [] then [CB_Text t] else []
                        | None \<Rightarrow> []) of
                  Inl e \<Rightarrow> Inl e
                | Inr content \<Rightarrow>
                    Inr \<lparr>resp_content = content,
                         resp_stop_reason =
                           (if json_get_str choice ''finish_reason'' = Some ''tool_calls'' then SR_ToolUse
                            else if json_get_str choice ''finish_reason'' = Some ''length'' then SR_MaxTokens
                            else SR_EndTurn),
                         resp_usage = usage_of ''prompt_tokens'' ''completion_tokens'' v\<rparr>)))"

definition local_send_once ::
    "llm_net \<Rightarrow> string \<Rightarrow> json \<Rightarrow> nat \<Rightarrow> (llm_error + json) \<times> net_action list" where
  "local_send_once net url body n = http_once net snippet (body_value net) url [] body n"

definition local_complete ::
    "f64_ops \<Rightarrow> llm_net \<Rightarrow> completion_request \<Rightarrow> local_backend
      \<Rightarrow> (llm_error + completion_response) \<times> net_action list \<times> local_backend" where
  "local_complete fo net req b =
     (case check_quota fo (lo_meter b) of
        Inl e \<Rightarrow> (Inl e, [], b)
      | Inr _ \<Rightarrow>
          (let url = lo_base_url b @ ''/v1/chat/completions'';
               body = local_body (ln_print net) (lo_model b) req
           in case retry_with_backoff RETRY_ATTEMPTS RETRY_BASE_DELAY (local_send_once net url body) of
                (Inl e, acts) \<Rightarrow> (Inl e, acts, b)
              | (Inr v, acts) \<Rightarrow>
                  (case local_parse (ln_parse net) v of
                     Inl e \<Rightarrow> (Inl e, acts, b)
                   | Inr resp \<Rightarrow>
                       (Inr resp, acts, b\<lparr>lo_meter := record_usage (resp_usage resp) (lo_meter b)\<rparr>))))"

end
