(* ===== verification/Silo_Backend.thy ===== *)
theory Silo_Backend
  imports Silo_Wire Silo_Mock
begin

text \<open>
  What the backends of \<open>Silo_Wire\<close> promise the agent loop. All of them, the scripted one included,
  meter a completion in the same way, which a contract states once: a reached quota refuses before
  anything is sent, a failed completion charges nothing, a successful one exactly its usage, and at
  most three identical requests are made. Then the wire formats: what of a conversation the provider
  sees, and that what it answers is read back.
\<close>

section \<open>The backend behind the trait\<close>

datatype backend =
    BE_Anthropic anthropic_backend
  | BE_Responses responses_backend
  | BE_Websocket ws_backend
  | BE_Local local_backend
  | BE_Mock mock_backend

definition create_backend ::
    "nat \<Rightarrow> llm_net \<Rightarrow> server_process \<Rightarrow> llm_config \<Rightarrow> script_state option
      \<Rightarrow> ((llm_error + backend) \<times> net_action list) option" where
  "create_backend fuel net p cfg script =
     (case lc_backend cfg of
        LB_Anthropic \<Rightarrow> Some (map_sum id BE_Anthropic (anthropic_create net cfg), [])
      | LB_OpenaiResponses \<Rightarrow> Some (map_sum id BE_Responses (responses_create net cfg), [])
      | LB_OpenaiWebsocket \<Rightarrow> Some (map_sum id BE_Websocket (ws_create net cfg), [])
      | LB_Local \<Rightarrow> map_option (apfst (map_sum id BE_Local)) (local_create fuel net p cfg)
      | LB_Mock \<Rightarrow>
          (case script of
             None \<Rightarrow> Some (Inl (Llm_Config ''the mock backend requires a test script''), [])
           | Some st \<Rightarrow>
               Some (Inr (BE_Mock (mock_backend_new
                   (case lc_pricing cfg of Some pr \<Rightarrow> pr | None \<Rightarrow> pricing_default)
                   (lc_quota cfg) st)), [])))"

fun complete ::
    "f64_ops \<Rightarrow> llm_net \<Rightarrow> completion_request \<Rightarrow> backend
      \<Rightarrow> (llm_error + completion_response) \<times> net_action list \<times> backend" where
  "complete fo net req (BE_Anthropic b) = apsnd (apsnd BE_Anthropic) (anthropic_complete fo net req b)"
| "complete fo net req (BE_Responses b) = apsnd (apsnd BE_Responses) (responses_complete fo net req b)"
| "complete fo net req (BE_Websocket b) = apsnd (apsnd BE_Websocket) (ws_complete fo net req b)"
| "complete fo net req (BE_Local b) = apsnd (apsnd BE_Local) (local_complete fo net req b)"
| "complete fo net req (BE_Mock b) = (let (r, b') = mock_complete fo req b in (r, [], BE_Mock b'))"

fun backend_meter :: "backend \<Rightarrow> usage_meter" where
  "backend_meter (BE_Anthropic b) = ab_meter b"
| "backend_meter (BE_Responses b) = rb_meter b"
| "backend_meter (BE_Websocket b) = wb_meter b"
| "backend_meter (BE_Local b) = lo_meter b"
| "backend_meter (BE_Mock b) = mb_meter b"

section \<open>What retrying does\<close>

fun retryable_failure :: "llm_error + 'a \<Rightarrow> bool" where
  "retryable_failure (Inl e) = is_retryable e"
| "retryable_failure (Inr _) = False"

lemma retry_loop_exact:
  assumes "tries \<le> mx - 1"
  shows "\<exists>i\<ge>tries. i \<le> mx - 1 \<and> fst (retry_loop mx att tries d) = fst (att i) \<and>
    (\<forall>j. tries \<le> j \<and> j < i \<longrightarrow> retryable_failure (fst (att j))) \<and>
    (i = mx - 1 \<or> \<not> retryable_failure (fst (att i))) \<and>
    snd (retry_loop mx att tries d) =
      concat (map (\<lambda>j. snd (att j) @ [NA_Sleep (d * 2 ^ (j - tries))]) [tries..<i]) @ snd (att i)"
  using assms
proof (induction mx att tries d rule: retry_loop.induct)
  case (1 mx att tries d)
  obtain r acts where a: "att tries = (r, acts)" by (cases "att tries")
  show ?case
  proof (cases "Suc tries < mx \<and> retryable_failure r")
    case False
    then have "retry_loop mx att tries d = (r, acts)"
      by (subst retry_loop.simps) (auto simp: a split: sum.splits)
    with False a "1.prems" show ?thesis by (intro exI [of _ tries]) auto
  next
    case True
    then obtain e where e: "r = Inl e" "is_retryable e" by (cases r) auto
    let ?rec = "retry_loop mx att (Suc tries) (2 * d)"
    have eq: "retry_loop mx att tries d = (fst ?rec, acts @ NA_Sleep d # snd ?rec)"
      using True e by (subst retry_loop.simps) (simp add: a split_beta)
    from True have "Suc tries \<le> mx - 1" by linarith
    with True e "1.IH" [OF a [symmetric] e(1)] obtain i where i: "Suc tries \<le> i" "i \<le> mx - 1"
      "fst ?rec = fst (att i)" "\<forall>j. Suc tries \<le> j \<and> j < i \<longrightarrow> retryable_failure (fst (att j))"
      "i = mx - 1 \<or> \<not> retryable_failure (fst (att i))"
      "snd ?rec = concat (map (\<lambda>j. snd (att j) @ [NA_Sleep (2 * d * 2 ^ (j - Suc tries))]) [Suc tries..<i])
        @ snd (att i)" by auto
    have sl: "map (\<lambda>j. snd (att j) @ [NA_Sleep (2 * d * 2 ^ (j - Suc tries))]) [Suc tries..<i]
        = map (\<lambda>j. snd (att j) @ [NA_Sleep (d * 2 ^ (j - tries))]) [Suc tries..<i]"
    proof (rule map_cong [OF refl])
      fix j assume "j \<in> set [Suc tries..<i]"
      then have "j - tries = Suc (j - Suc tries)" by auto
      then show "snd (att j) @ [NA_Sleep (2 * d * 2 ^ (j - Suc tries))]
        = snd (att j) @ [NA_Sleep (d * 2 ^ (j - tries))]" by simp
    qed
    have "[tries..<i] = tries # [Suc tries..<i]" using i(1) by (simp add: upt_conv_Cons)
    with i(6) [unfolded sl] have snd_eq: "snd (retry_loop mx att tries d) =
        concat (map (\<lambda>j. snd (att j) @ [NA_Sleep (d * 2 ^ (j - tries))]) [tries..<i]) @ snd (att i)"
      by (simp add: eq a)
    moreover have "\<forall>j. tries \<le> j \<and> j < i \<longrightarrow> retryable_failure (fst (att j))"
      using i(4) True a by (metis Suc_leI fst_conv le_neq_implies_less)
    ultimately show ?thesis
      using i eq by (intro exI [of _ i]) auto
  qed
qed

fun is_net_request :: "net_action \<Rightarrow> bool" where
  "is_net_request (NA_Post _ _ _) = True"
| "is_net_request (NA_Connect _ _) = True"
| "is_net_request _ = False"

text \<open>Attempts that each make at most one request, always the same, are made at most three times.\<close>

definition one_request :: "net_action \<Rightarrow> net_action list \<Rightarrow> bool" where
  "one_request q acts = (filter is_net_request acts \<in> {[], [q]})"

lemma retry_requests:
  assumes "\<And>n. one_request q (snd (att n))"
    and "retry_with_backoff RETRY_ATTEMPTS RETRY_BASE_DELAY att = (r, acts)"
  shows "\<exists>k\<le>3. filter is_net_request acts = replicate k q"
proof -
  let ?step = "\<lambda>j. snd (att j) @ [NA_Sleep (RETRY_BASE_DELAY * 2 ^ (j - 0))]"
  have "acts = snd (retry_loop 3 att 0 RETRY_BASE_DELAY)"
    using assms(2) by (simp add: retry_with_backoff_def RETRY_ATTEMPTS_def)
  with retry_loop_exact [of 0 3 att RETRY_BASE_DELAY, OF le0] obtain i where
    i: "i \<le> 3 - 1" "acts = concat (map ?step [0..<i]) @ snd (att i)" by blast
  have one: "\<exists>k\<le>1. filter is_net_request (snd (att n)) = replicate k q" for n
    using assms(1) [of n] unfolding one_request_def
    by (metis empty_iff insert_iff le0 le_refl replicate_0 replicate_Suc One_nat_def)
  have "\<exists>k\<le>m. filter is_net_request (concat (map (\<lambda>j. snd (att j) @ [NA_Sleep (f j)]) [0..<m])) = replicate k q"
    for m and f :: "nat \<Rightarrow> nat"
  proof (induction m)
    case (Suc m)
    then obtain k where k: "k \<le> m"
      "filter is_net_request (concat (map (\<lambda>j. snd (att j) @ [NA_Sleep (f j)]) [0..<m])) = replicate k q" by blast
    obtain k' where k': "k' \<le> 1" "filter is_net_request (snd (att m)) = replicate k' q" using one by blast
    show ?case using k k' by (intro exI [of _ "k + k'"]) (simp add: replicate_add)
  qed simp
  from this [of i "\<lambda>j. RETRY_BASE_DELAY * 2 ^ (j - 0)"] obtain k where
    k: "k \<le> i" "filter is_net_request (concat (map ?step [0..<i])) = replicate k q" by blast
  obtain k' where k': "k' \<le> 1" "filter is_net_request (snd (att i)) = replicate k' q" using one by blast
  show ?thesis
    unfolding i(2) using k k' i(1) by (intro exI [of _ "k + k'"]) (simp add: replicate_add)
qed

section \<open>The contract of a backend\<close>

text \<open>Completions one after the other, each with the network as it is then.\<close>

fun completions ::
    "(llm_net \<Rightarrow> completion_request \<Rightarrow> 'b \<Rightarrow> 'r \<times> net_action list \<times> 'b)
      \<Rightarrow> (llm_net \<times> completion_request) list \<Rightarrow> 'b \<Rightarrow> ('r \<times> net_action list) list \<times> 'b" where
  "completions f [] b = ([], b)"
| "completions f ((net, req) # qs) b =
     (let (r, acts, b1) = f net req b; (rs, b2) = completions f qs b1 in ((r, acts) # rs, b2))"

fun charged :: "(llm_error + completion_response) \<times> net_action list \<Rightarrow> token_delta option" where
  "charged (Inr resp, _) = Some (resp_usage resp)"
| "charged (Inl _, _) = None"

lemma completions_append:
  "completions f (qs @ qs') b =
     (let (rs, b1) = completions f qs b; (rs', b2) = completions f qs' b1 in (rs @ rs', b2))"
  by (induction f qs b rule: completions.induct) (auto simp: Let_def split: prod.splits)

lemma completions_length: "completions f qs b = (rs, b') \<Longrightarrow> length rs = length qs"
  by (induction f qs b arbitrary: rs b' rule: completions.induct) (auto split: prod.splits)

locale metered_backend =
  fixes comp :: "f64_ops \<Rightarrow> llm_net \<Rightarrow> completion_request \<Rightarrow> 'b
      \<Rightarrow> (llm_error + completion_response) \<times> net_action list \<times> 'b"
    and meter :: "'b \<Rightarrow> usage_meter"
  assumes refuses: "check_quota fo (meter b) = Inl e \<Longrightarrow> comp fo net req b = (Inl e, [], b)"
    and charges: "comp fo net req b = (r, acts, b') \<Longrightarrow>
      meter b' = (case r of Inl _ \<Rightarrow> meter b | Inr resp \<Rightarrow> record_usage (resp_usage resp) (meter b))"
    and requests: "comp fo net req b = (r, acts, b') \<Longrightarrow> \<exists>q. \<exists>k\<le>3. filter is_net_request acts = replicate k q"
begin

lemma meter_after:
  "completions (comp fo) qs b = (rs, b') \<Longrightarrow>
     meter b' = fold record_usage (List.map_filter charged rs) (meter b)"
  by (induction "comp fo" qs b arbitrary: rs b' rule: completions.induct)
     (auto dest!: charges split: prod.splits sum.splits)

lemma requests_after:
  "completions (comp fo) qs b = (rs, b') \<Longrightarrow>
     \<forall>r acts. (r, acts) \<in> set rs \<longrightarrow> (\<exists>q. \<exists>k\<le>3. filter is_net_request acts = replicate k q)"
proof (induction "comp fo" qs b arbitrary: rs b' rule: completions.induct)
  case (2 net req qs b)
  obtain r acts b1 where one: "comp fo net req b = (r, acts, b1)" by (cases "comp fo net req b")
  obtain rs1 b2 where rest: "completions (comp fo) qs b1 = (rs1, b2)"
    by (cases "completions (comp fo) qs b1")
  from 2 one rest requests [OF one] show ?case by auto
qed simp

lemma refused_for_good:
  "check_quota fo (meter b) = Inl e \<Longrightarrow>
     completions (comp fo) qs b = (map (\<lambda>_. (Inl e, [])) qs, b)"
  by (induction "comp fo" qs b rule: completions.induct) (simp_all add: refuses)

lemma refused_from:
  assumes "completions (comp fo) qs b = (rs, b')" and "i \<le> j" and "j < length qs"
    and "check_quota fo (meter (snd (completions (comp fo) (take i qs) b))) = Inl e"
  shows "rs ! j = (Inl e, [])"
proof -
  obtain rs1 b1 where one: "completions (comp fo) (take i qs) b = (rs1, b1)"
    by (cases "completions (comp fo) (take i qs) b")
  have "completions (comp fo) qs b = (rs1 @ map (\<lambda>_. (Inl e, [])) (drop i qs), b1)"
    using refused_for_good [of fo b1 e "drop i qs"] assms(4) one
      completions_append [of "comp fo" "take i qs" "drop i qs" b] by simp
  moreover have "length rs1 = i" using completions_length [OF one] assms(2,3) by simp
  ultimately show ?thesis using assms(1-3) by (auto simp: nth_append)
qed

end

lemma http_once_one_request: "one_request (NA_Post url hs body) (snd (http_once net sh h url hs body n))"
  by (simp add: one_request_def http_once_def)

lemma requests_none: "\<exists>q. \<exists>k\<le>3. filter is_net_request [] = replicate k q"
  by (intro exI [of _ undefined] exI [of _ 0]) simp

lemma responses_once_one_request:
  "one_request (NA_Post url [(''authorization'', ''Bearer '' @ key)] body) (snd (responses_send_once net key url body n))"
  by (simp add: responses_send_once_def http_once_one_request)

lemma local_once_one_request:
  "one_request (NA_Post url [] body) (snd (local_send_once net url body n))"
  by (simp add: local_send_once_def http_once_one_request)

interpretation anthropic: metered_backend anthropic_complete ab_meter
proof
  fix fo net req b r acts b' 
  assume c: "anthropic_complete fo net req b = (r, acts, b')"
  then show "\<exists>q. \<exists>k\<le>3. filter is_net_request acts = replicate k q"
    using retry_requests [OF http_once_one_request] requests_none
    by (fastforce simp: anthropic_complete_def Let_def split: sum.splits prod.splits)
qed (auto simp: anthropic_complete_def Let_def split: sum.splits prod.splits)

interpretation responses: metered_backend responses_complete rb_meter
proof
  fix fo net req b r acts b' 
  assume c: "responses_complete fo net req b = (r, acts, b')"
  then show "\<exists>q. \<exists>k\<le>3. filter is_net_request acts = replicate k q"
    using retry_requests [OF responses_once_one_request] requests_none
    by (fastforce simp: responses_complete_def Let_def split: sum.splits prod.splits)
qed (auto simp: responses_complete_def Let_def split: sum.splits prod.splits)

interpretation local: metered_backend local_complete lo_meter
proof
  fix fo net req b r acts b' 
  assume c: "local_complete fo net req b = (r, acts, b')"
  then show "\<exists>q. \<exists>k\<le>3. filter is_net_request acts = replicate k q"
    using retry_requests [OF local_once_one_request] requests_none
    by (fastforce simp: local_complete_def Let_def split: sum.splits prod.splits)
qed (auto simp: local_complete_def Let_def split: sum.splits prod.splits)

lemma send_events_no_request: "filter is_net_request (snd (send_events fails k evs)) = []"
  by (induction fails k evs rule: send_events.induct) (auto split: option.splits prod.splits)

lemma recv_no_request: "filter is_net_request (replicate k NA_Recv) = []"
  by simp

definition ws_request :: "ws_backend \<Rightarrow> net_action" where
  "ws_request b =
     NA_Connect (wb_base_url b @ ''/v1/realtime?model='' @ wb_model b)
       [(''authorization'', ''Bearer '' @ wb_api_key b), (''openai-beta'', ''realtime=v1'')]"

lemma connect_one_request: "one_request (ws_request b) (snd (connect net b n))"
  by (simp add: one_request_def connect_def Let_def ws_request_def split: option.splits)

lemma run_session_one_request: "one_request (ws_request b) (snd (run_session net req b n))"
proof -
  have "filter is_net_request (snd (run_session net req b n)) = filter is_net_request (snd (connect net b n))"
    using send_events_no_request [of _ 0 "session_events (ln_print net) req"]
    by (auto simp: run_session_def split: prod.splits sum.splits) (metis snd_conv)+
  with connect_one_request show ?thesis by (simp add: one_request_def)
qed

lemma requests_take:
  assumes "\<exists>k\<le>3. filter is_net_request acts = replicate k q"
  shows "\<exists>q. \<exists>k\<le>3. filter is_net_request (take n acts) = replicate k q"
proof -
  from assms obtain k where k: "k \<le> 3" "filter is_net_request acts = replicate k q" by blast
  have eq: "replicate k q = filter is_net_request (take n acts) @ filter is_net_request (drop n acts)"
    using k(2) by (metis append_take_drop_id filter_append)
  then have "length (filter is_net_request (take n acts)) \<le> k"
    by (metis length_append length_replicate le_add1)
  moreover have "filter is_net_request (take n acts) = replicate (length (filter is_net_request (take n acts))) q"
    using eq by (metis append_eq_append_conv_if append_take_drop_id length_replicate
        replicate_length_same in_set_replicate Un_iff set_append)
  ultimately show ?thesis using k(1) by (meson le_trans)
qed

interpretation websocket: metered_backend ws_complete wb_meter
proof
  fix fo net req b r acts b' 
  assume c: "ws_complete fo net req b = (r, acts, b')"
  obtain r0 acts0 where ra: "retry_with_backoff RETRY_ATTEMPTS RETRY_BASE_DELAY (run_session net req b) = (r0, acts0)"
    by (cases "retry_with_backoff RETRY_ATTEMPTS RETRY_BASE_DELAY (run_session net req b)")
  have "acts = [] \<or> (\<exists>n. acts = take n acts0)"
    using c by (auto simp: ws_complete_def ra split: sum.splits option.splits if_splits)
      (metis take_all_iff order_refl)+
  then show "\<exists>q. \<exists>k\<le>3. filter is_net_request acts = replicate k q"
    using requests_take [OF retry_requests [OF run_session_one_request ra]] requests_none by auto
qed (auto simp: ws_complete_def Let_def split: sum.splits prod.splits option.splits if_splits)

interpretation any_backend: metered_backend complete backend_meter
proof
  fix fo b e net req
  assume "check_quota fo (backend_meter b) = Inl e"
  then show "complete fo net req b = (Inl e, [], b)"
    by (cases b) (simp_all add: anthropic.refuses responses.refuses websocket.refuses local.refuses mock_complete_def)
next
  fix fo net req b r acts b'
  assume c: "complete fo net req b = (r, acts, b')"
  show "backend_meter b' = (case r of Inl _ \<Rightarrow> backend_meter b
      | Inr resp \<Rightarrow> record_usage (resp_usage resp) (backend_meter b))"
    using c by (cases b) (auto simp: mock_complete_def split: prod.splits sum.splits
        dest!: anthropic.charges responses.charges websocket.charges local.charges
        simp: apsnd_def map_prod_def)
  show "\<exists>q. \<exists>k\<le>3. filter is_net_request acts = replicate k q"
    using c requests_none by (cases b) (auto simp: apsnd_def map_prod_def split: prod.splits
        dest!: anthropic.requests responses.requests websocket.requests local.requests)
qed


text \<open>
  A provider that is overloaded, then answers with 7 and 5 tokens, and a quota of 10: the second
  completion is refused.
\<close>

definition demo_net :: llm_net where
  "demo_net = \<lparr>ln_http = (\<lambda>n url body. if n = 0 then Net_Answer 529 ''busy'' else Net_Answer 200 ''{}''),
     ln_connect = (\<lambda>n url. Inl ''refused''), ln_bad_url = (\<lambda>_. None), ln_header_value = (\<lambda>_. True),
     ln_timeout = None, ln_client_error = None, ln_env = (\<lambda>_. Some ''key''),
     ln_parse = (\<lambda>s. if s = ''{}'' then Inr (JObject []) else Inl ''?''), ln_print = (\<lambda>v. ''{}''),
     ln_decode = (\<lambda>s. Inr \<lparr>wr_content = [WC_Text ''hi'', WC_Unknown], wr_stop_reason = Some ''end_turn'',
       wr_usage = \<lparr>wu_input_tokens = 7, wu_output_tokens = 5\<rparr>\<rparr>)\<rparr>"

definition demo_backend :: backend where
  "demo_backend = BE_Anthropic
     \<lparr>ab_base_url = ''u'', ab_api_key = ''key'', ab_model = ''m'', ab_max_tokens = 8192,
      ab_meter = usage_meter_new pricing_default \<lparr>max_total_tokens = Some 10, max_usd = None\<rparr>\<rparr>"

definition demo_request :: completion_request where
  "demo_request = \<lparr>req_system = ''s'', req_messages = [user_text ''hello''], req_tools = [agent_tool_def],
     req_max_tokens = 0\<rparr>"


section \<open>Values by key\<close>

lemma obj_get_fold:
  "obj_get (foldl (\<lambda>m kv. obj_insert (fst kv) (snd kv) m) m kvs) k = map_of (rev kvs @ m) k"
proof (induction kvs arbitrary: m)
  case (Cons kv kvs)
  show ?case
    by (cases "fst kv = k") (auto simp: Cons.IH map_add_def obj_get_def [symmetric] map_of_append
        split: option.splits)
qed (simp add: obj_get_def)

lemma json_get_obj [simp]: "json_get (json_obj kvs) k = map_of (rev kvs) k"
  by (simp add: json_get_def json_obj_def obj_get_fold)

lemma json_get_str_obj [simp]: "json_get_str (json_obj kvs) k = Option.bind (map_of (rev kvs) k) json_as_str"
  by (simp add: json_get_str_def)

lemma json_as_str_simps [simp]:
  "json_as_str (JString s) = Some s" "json_as_str JNull = None" "json_as_str (JArray xs) = None"
  "json_as_str (JObject m) = None"
  by (simp_all add: json_as_str_def)

lemma pointer_obj [simp]: "json_pointer (t # ts) (json_obj kvs) = Option.bind (map_of (rev kvs) t) (json_pointer ts)"
  by (simp add: json_obj_def obj_get_fold)

lemma json_insert_obj [simp]: "json_insert k x (json_obj kvs) = json_obj (kvs @ [(k, x)])"
  by (simp add: json_obj_def)

section \<open>What is said is read back\<close>

fun is_use :: "content_block \<Rightarrow> bool" where
  "is_use (CB_ToolUse _ _ _) = True"
| "is_use _ = False"

fun is_result :: "content_block \<Rightarrow> bool" where
  "is_result (CB_ToolResult _ _ _) = True"
| "is_result _ = False"

text \<open>The arguments of every call of a message survive printing and parsing.\<close>

definition inputs_survive :: "(string \<Rightarrow> string + json) \<Rightarrow> (json \<Rightarrow> string) \<Rightarrow> content_block list \<Rightarrow> bool" where
  "inputs_survive parse print bs =
     (\<forall>b\<in>set bs. case b of CB_ToolUse _ _ inp \<Rightarrow> parse (print inp) = Inr inp | _ \<Rightarrow> True)"

lemma output_items_history:
  assumes "said \<in> set texts"
    and "\<And>i n inp. CB_ToolUse i n inp \<in> set bs \<Longrightarrow>
      call (item_of print said Assistant (CB_ToolUse i n inp)) = Inr (CB_ToolUse i n inp)"
  shows "output_items texts bad call (map (item_of print said Assistant) bs) acc saw =
    Inr (acc @ filter (\<lambda>b. \<not> is_result b) bs, saw \<or> list_ex is_use bs)"
  using assms(2)
proof (induction bs arbitrary: acc saw)
  case (Cons b bs)
  then show ?case
    using assms(1) by (cases b) (simp_all add: item_of_def array_field_def str_or_def)
qed simp

lemma call_block_item:
  assumes "parse (print inp) = Inr inp"
  shows "parse_function_call parse (item_of print said rl (CB_ToolUse i n inp)) = Inr (CB_ToolUse i n inp)"
    and "ws_function_call parse (item_of print said rl (CB_ToolUse i n inp)) = Inr (CB_ToolUse i n inp)"
  using assms
  by (simp_all add: parse_function_call_def ws_function_call_def call_block_def str_or_def item_of_def)

lemma local_calls_history:
  assumes "inputs_survive parse print bs"
  shows "local_calls parse (List.map_filter (call_value print) bs) acc = Inr (acc @ filter is_use bs)"
  using assms
proof (induction bs arbitrary: acc)
  case (Cons b bs)
  then show ?case
    by (cases b) (simp_all add: inputs_survive_def tool_call_value_def call_block_def str_or_def)
qed simp

lemma local_assistant_message:
  fixes content :: "content_block list"
  defines "texts \<equiv> List.map_filter text_block content"
    and "calls \<equiv> \<lambda>print. List.map_filter (call_value print) content"
  shows "\<exists>v. local_messages print (assistant content) = [v] \<and>
    json_get v ''content'' = Some (if texts = [] then JNull else JString (blocks_text content)) \<and>
    array_field v ''tool_calls'' = calls print \<and> json_get_str v ''role'' = Some ''assistant''"
  unfolding assms
  by (simp add: local_messages_def assistant_def Let_def blocks_text_def array_field_def)

definition zero_usage :: token_delta where
  "zero_usage = \<lparr>td_input_tokens = 0, td_output_tokens = 0\<rparr>"

text \<open>
  C19: a reply in the history is sent to the provider in the form in which the provider's own replies
  are read: as the output of a Responses call or of a Realtime session it is read back block for
  block, with the stop reason its calls call for. On the chat-completions wire the texts come back
  as one block and the calls after it, in order.
\<close>

theorem history_roundtrip:
  assumes "inputs_survive parse print content" and "list_all (\<lambda>b. \<not> is_result b) content"
  shows "responses_parse parse
      (json_obj [(''output'', JArray (build_input print [assistant content]))]) =
      Inr \<lparr>resp_content = content, resp_stop_reason = if list_ex is_use content then SR_ToolUse else SR_EndTurn,
           resp_usage = zero_usage\<rparr> \<and>
    parse_response_done parse (json_obj [(''response'',
      json_obj [(''output'', JArray (conversation_items print [assistant content]))])]) =
      Inr \<lparr>resp_content = content, resp_stop_reason = if list_ex is_use content then SR_ToolUse else SR_EndTurn,
           resp_usage = zero_usage\<rparr> \<and>
    local_parse parse (json_obj [(''choices'',
      JArray [json_obj [(''message'', hd (local_messages print (assistant content)))]])]) =
      Inr \<lparr>resp_content = (if blocks_text content = [] then [] else [CB_Text (blocks_text content)])
             @ filter is_use content,
           resp_stop_reason = SR_EndTurn, resp_usage = zero_usage\<rparr>"
proof -
  have keep: "filter (\<lambda>b. \<not> is_result b) content = content"
    using assms(2) by (simp add: list_all_iff)
  have inp: "parse (print x) = Inr x" if "CB_ToolUse i n x \<in> set content" for i n x
    using assms(1) that by (force simp: inputs_survive_def)
  have one: "responses_parse parse
      (json_obj [(''output'', JArray (build_input print [assistant content]))]) =
      Inr \<lparr>resp_content = content, resp_stop_reason = if list_ex is_use content then SR_ToolUse else SR_EndTurn,
           resp_usage = zero_usage\<rparr>"
    using output_items_history [of "''output_text''" "[''output_text'']" content "parse_function_call parse" print]
    by (simp add: responses_parse_def build_input_def assistant_def call_block_item inp keep openai_stop_def
        usage_of_def pointer_u64_def zero_usage_def)
  have two: "parse_response_done parse (json_obj [(''response'',
      json_obj [(''output'', JArray (conversation_items print [assistant content]))])]) =
      Inr \<lparr>resp_content = content, resp_stop_reason = if list_ex is_use content then SR_ToolUse else SR_EndTurn,
           resp_usage = zero_usage\<rparr>"
    using output_items_history [of "''text''" "[''text'', ''output_text'']" content "ws_function_call parse" print]
    by (simp add: parse_response_done_def conversation_items_def assistant_def call_block_item inp keep
        openai_stop_def usage_of_def pointer_u64_def zero_usage_def)
  obtain v where v: "local_messages print (assistant content) = [v]"
    "json_get v ''content'' = Some (if List.map_filter text_block content = [] then JNull else JString (blocks_text content))"
    "array_field v ''tool_calls'' = List.map_filter (call_value print) content"
    using local_assistant_message by blast
  have empty: "blocks_text content = []" if "List.map_filter text_block content = []"
    using that by (simp add: blocks_text_def)
  have zero: "array_index ''0'' = Some 0"
    by (simp add: array_index_def parse_uint_def digit_val_def)
  have "local_parse parse (json_obj [(''choices'', JArray [json_obj [(''message'', v)]])]) =
      Inr \<lparr>resp_content = (if blocks_text content = [] then [] else [CB_Text (blocks_text content)])
             @ filter is_use content,
           resp_stop_reason = SR_EndTurn, resp_usage = zero_usage\<rparr>"
    using v empty local_calls_history [OF assms(1)]
    by (auto simp: local_parse_def zero json_get_str_def usage_of_def pointer_u64_def zero_usage_def)
  with one two v(1) show ?thesis by simp
qed

definition demo_input :: json where
  "demo_input = JObject [(''path'', JString ''a'')]"

definition demo_reply :: "content_block list" where
  "demo_reply = [CB_Text ''first'', CB_ToolUse ''t1'' ''Read'' demo_input, CB_Text ''then'', CB_ToolUse ''t2'' ''Read'' demo_input]"

theorem history_roundtrip_witness:
  "\<exists>resp. local_parse (\<lambda>s. Inr demo_input) (json_obj [(''choices'',
      JArray [json_obj [(''message'', hd (local_messages (\<lambda>v. ''{}'') (assistant demo_reply)))]])]) = Inr resp \<and>
    resp_content resp = [CB_Text ''first\<newline>then'', CB_ToolUse ''t1'' ''Read'' demo_input, CB_ToolUse ''t2'' ''Read'' demo_input]"
  using history_roundtrip [of "\<lambda>s. Inr demo_input" "\<lambda>v. ''{}''" demo_reply]
  by (simp add: inputs_survive_def demo_reply_def blocks_text_def)

section \<open>Every call is answered on the wire\<close>

text \<open>
  What chat completions require of a message list: the calls of an assistant message are answered
  by the tool messages right after it, in order, and a tool message answers nothing else. \<open>ids\<close>
  are the calls still to be answered.
\<close>

definition call_ids :: "json \<Rightarrow> string option list" where
  "call_ids v = map (\<lambda>c. json_get_str c ''id'') (array_field v ''tool_calls'')"

fun calls_answered :: "string option list \<Rightarrow> json list \<Rightarrow> bool" where
  "calls_answered ids [] = (ids = [])"
| "calls_answered ids (v # vs) =
     (if json_get_str v ''role'' = Some ''tool''
      then (case ids of
              [] \<Rightarrow> False
            | i # is \<Rightarrow> json_get_str v ''tool_call_id'' = i \<and> calls_answered is vs)
      else ids = [] \<and> calls_answered (call_ids v) vs)"

lemma answers_texts:
  "answers [] bs \<Longrightarrow> List.map_filter result_message bs = []"
  by (induction bs) (auto simp: is_text.simps elim!: is_text.elims)

lemma user_message_answers:
  assumes "answers ids bs" and "\<And>ws. calls_answered [] (texts @ ws) = calls_answered [] ws"
  shows "calls_answered (map Some ids) (List.map_filter result_message bs @ texts @ vs) = calls_answered [] vs"
  using assms(1)
proof (induction ids bs rule: answers.induct)
  case (1 bs)
  then show ?case using assms(2) by (simp add: answers_texts)
next
  case (3 i ids b bs)
  then show ?case by (cases b) (simp_all add: tool_message_def)
qed simp

lemma call_value_ids:
  "map (\<lambda>c. json_get_str c ''id'') (List.map_filter (call_value print) content) = map Some (use_ids content)"
  unfolding use_ids_def
proof (induction content)
  case (Cons b bs)
  then show ?case by (cases b) (simp_all add: tool_call_value_def)
qed simp

lemma call_ids_assistant:
  "array_field v ''tool_calls'' = List.map_filter (call_value print) content \<Longrightarrow>
     call_ids v = map Some (use_ids content)"
  by (simp add: call_ids_def call_value_ids)

lemma local_user_answers:
  assumes "msg_role m = User" and "answers ids (msg_content m)"
  shows "calls_answered (map Some ids) (local_messages print m @ vs) = calls_answered [] vs"
proof -
  let ?texts = "List.map_filter text_block (msg_content m)"
  let ?said = "if ?texts \<noteq> [] then [json_obj [(''role'', JString ''user''),
    (''content'', JString (join_with [CHR 0x0A] ?texts))]] else []"
  have "calls_answered [] (?said @ ws) = calls_answered [] ws" for ws
    by (simp add: call_ids_def array_field_def)
  from user_message_answers [OF assms(2) this] show ?thesis
    by (simp add: local_messages_def assms(1) Let_def)
qed

lemma local_assistant_asks:
  assumes "msg_role m = Assistant"
  shows "calls_answered [] (local_messages print m @ vs) = calls_answered (map Some (use_ids (msg_content m))) vs"
proof -
  have m: "m = assistant (msg_content m)" using assms by (simp add: assistant_def)
  obtain v where v: "local_messages print (assistant (msg_content m)) = [v]"
    "array_field v ''tool_calls'' = List.map_filter (call_value print) (msg_content m)"
    "json_get_str v ''role'' = Some ''assistant''"
    using local_assistant_message by blast
  then show ?thesis using call_ids_assistant [OF v(2)] m by simp
qed

lemma local_conversation_answered:
  "conv_from ids ms \<Longrightarrow> calls_answered (map Some ids) (concat (map (local_messages print) ms))"
proof (induction ids ms rule: conv_from.induct)
  case (2 ids u)
  then show ?case using local_user_answers [of u ids print "[]"] by simp
next
  case (3 ids u a ms)
  then show ?case by (simp add: local_user_answers local_assistant_asks)
qed simp

lemma local_body_messages:
  "array_field (local_body print model req) ''messages'' =
     (if req_system req \<noteq> [] then [json_obj [(''role'', JString ''system''), (''content'', JString (req_system req))]] else [])
     @ concat (map (local_messages print) (req_messages req))"
  by (simp add: local_body_def array_field_def Let_def)

text \<open>
  C20: a request of the agent loop, whose conversation is always well formed, reaches a local server
  as a message list in which the tool messages after each assistant message answer exactly its
  calls, in order.
\<close>

theorem local_calls_answered:
  assumes "ready (req_messages req)"
  shows "calls_answered [] (array_field (local_body print model req) ''messages'')"
  using local_conversation_answered [of "[]" "req_messages req" print] assms
  by (simp add: local_body_messages ready_def call_ids_def array_field_def [of "json_obj _"])

theorem local_calls_answered_witness:
  "calls_answered [] (array_field (local_body (\<lambda>v. ''{}'') ''m''
     (demo_request\<lparr>req_messages := [user_text ''go'', assistant demo_reply,
       \<lparr>msg_role = User, msg_content = [CB_ToolResult ''t1'' ''x'' False, CB_ToolResult ''t2'' ''y'' True]\<rparr>]\<rparr>)) ''messages'')"
  by (rule local_calls_answered)
     (simp add: ready_def user_text_def assistant_def demo_reply_def use_ids_def)

section \<open>The Anthropic wire\<close>

text \<open>The reference reading of a message list: what the Messages API takes a value to say.\<close>

definition read_wire_block :: "json \<Rightarrow> content_block option" where
  "read_wire_block v =
     (case json_get_str v ''type'' of
        Some ty \<Rightarrow>
          if ty = ''text'' then map_option CB_Text (json_get_str v ''text'')
          else if ty = ''tool_use'' then
            (case (json_get_str v ''id'', json_get_str v ''name'', json_get v ''input'') of
               (Some i, Some n, Some inp) \<Rightarrow> Some (CB_ToolUse i n inp)
             | _ \<Rightarrow> None)
          else if ty = ''tool_result'' then
            (case (json_get_str v ''tool_use_id'', json_get_str v ''content'', json_get v ''is_error'') of
               (Some i, Some c, Some (JBool er)) \<Rightarrow> Some (CB_ToolResult i c er)
             | _ \<Rightarrow> None)
          else None
      | None \<Rightarrow> None)"

definition read_wire_message :: "json \<Rightarrow> message option" where
  "read_wire_message v =
     (let bs = List.map_filter read_wire_block (array_field v ''content'') in
      if length bs \<noteq> length (array_field v ''content'') then None
      else if json_get_str v ''role'' = Some ''user'' then Some \<lparr>msg_role = User, msg_content = bs\<rparr>
      else if json_get_str v ''role'' = Some ''assistant'' then Some \<lparr>msg_role = Assistant, msg_content = bs\<rparr>
      else None)"

lemma read_block_to_wire: "read_wire_block (block_to_wire b) = Some b"
  by (cases b) (simp_all add: read_wire_block_def)

lemma read_message_to_wire: "read_wire_message (message_to_wire m) = Some m"
proof -
  have "List.map_filter read_wire_block (map block_to_wire bs) = bs" for bs
    by (induction bs) (simp_all add: read_block_to_wire)
  then show ?thesis
    by (cases "msg_role m") (simp_all add: read_wire_message_def message_to_wire_def array_field_def Let_def)
qed

text \<open>
  Nothing of a request is lost on the Anthropic wire. The body names the model, a positive
  token limit whenever one is configured, the system prompt and the tools exactly when there are
  any, and its messages say, block for block and with the error flag of every tool result, what the
  conversation says.
\<close>

theorem anthropic_body_faithful:
  "map read_wire_message (array_field (anthropic_body model dflt req) ''messages'')
     = map Some (req_messages req) \<and>
   json_get_str (anthropic_body model dflt req) ''model'' = Some model \<and>
   json_get_str (anthropic_body model dflt req) ''system''
     = (if req_system req = [] then None else Some (req_system req)) \<and>
   pointer_u64 [''max_tokens''] (anthropic_body model dflt req)
     = (if req_max_tokens req = 0 then ucast dflt else ucast (req_max_tokens req)) \<and>
   (json_get (anthropic_body model dflt req) ''tools'' = None \<longleftrightarrow> req_tools req = []) \<and>
   map (\<lambda>t. (json_get_str t ''name'', json_get t ''input_schema''))
       (array_field (anthropic_body model dflt req) ''tools'')
     = map (\<lambda>t. (Some (def_name t), Some (def_input_schema t))) (req_tools req)"
proof -
  have num: "pointer_u64 [''max_tokens''] (anthropic_body model dflt req)
     = (if req_max_tokens req = 0 then ucast dflt else ucast (req_max_tokens req))"
    by (simp add: anthropic_body_def Let_def pointer_u64_def json_nat_def json_as_u64_def word_gt_0 unsigned_ucast_eq)
  show ?thesis
    unfolding num
    by (simp add: anthropic_body_def Let_def array_field_def read_message_to_wire comp_def)
qed

section \<open>Bodies are values\<close>

lemma json_obj_wf:
  assumes "\<forall>kv\<in>set kvs. json_wf (snd kv)"
  shows "json_wf (json_obj kvs)"
proof -
  have vals: "list_all (\<lambda>kv. json_wf (snd kv)) (obj_insert k v m)"
    if "json_wf v" "list_all (\<lambda>kv. json_wf (snd kv)) m" for k v m
    using that by (induction k v m rule: obj_insert.induct) auto
  have "obj_wf m \<Longrightarrow> list_all (\<lambda>kv. json_wf (snd kv)) m \<Longrightarrow> json_wf (JObject
      (foldl (\<lambda>m kv. obj_insert (fst kv) (snd kv) m) m kvs))" for m
    using assms
    by (induction kvs arbitrary: m) (auto simp: obj_wf_insert vals)
  from this [of "[]"] show ?thesis by (simp add: json_obj_def obj_wf_def)
qed

fun block_inputs_wf :: "content_block \<Rightarrow> bool" where
  "block_inputs_wf (CB_ToolUse _ _ inp) = json_wf inp"
| "block_inputs_wf _ = True"

definition request_wf :: "completion_request \<Rightarrow> bool" where
  "request_wf req =
     (list_all (\<lambda>m. list_all block_inputs_wf (msg_content m)) (req_messages req) \<and>
      list_all (\<lambda>t. json_wf (def_input_schema t)) (req_tools req))"

lemma block_to_wire_wf: "block_inputs_wf b \<Longrightarrow> json_wf (block_to_wire b)"
  by (cases b) (auto intro!: json_obj_wf)

lemma item_of_wf: "json_wf (item_of print said rl b)"
  by (cases b) (auto simp: item_of_def intro!: json_obj_wf)

lemma local_messages_wf: "v \<in> set (local_messages print m) \<Longrightarrow> json_wf v"
proof -
  have calls: "json_wf w" if "w \<in> set (List.map_filter (call_value print) bs)" for w bs
    using that by (auto simp: set_map_filter_iff tool_call_value_def elim!: call_value.elims intro!: json_obj_wf)
  have results: "json_wf w" if "w \<in> set (List.map_filter result_message bs)" for w bs
    using that by (auto simp: set_map_filter_iff tool_message_def elim!: result_message.elims intro!: json_obj_wf)
  assume "v \<in> set (local_messages print m)"
  then show ?thesis
    by (cases "msg_role m"; auto simp: local_messages_def Let_def list_all_iff split: if_splits
         intro!: json_obj_wf) (use calls results in blast)+
qed



section \<open>Retrying and the managed server\<close>

text \<open>
  The retry loop returns the result of the first attempt that succeeded or failed for good, or of
  the last one allowed. Every attempt before it failed in a way worth retrying, and between two
  attempts the loop sleeps, twice as long each time.
\<close>

theorem retry_first_final:
  "\<exists>i\<le>mx - 1. fst (retry_with_backoff mx d att) = fst (att i) \<and>
     (\<forall>j<i. retryable_failure (fst (att j))) \<and>
     (i = mx - 1 \<or> \<not> retryable_failure (fst (att i))) \<and>
     snd (retry_with_backoff mx d att) =
       concat (map (\<lambda>j. snd (att j) @ [NA_Sleep (d * 2 ^ j)]) [0..<i]) @ snd (att i)"
proof -
  have "0 \<le> mx - 1" by simp
  from retry_loop_exact [OF this, of att d] show ?thesis
    unfolding retry_with_backoff_def by (simp only: le0 simp_thms diff_zero)
qed

fun is_get :: "net_action \<Rightarrow> bool" where
  "is_get (NA_Get _) = True"
| "is_get _ = False"

lemma probe_gets: "length (filter is_get (snd (probe ask base))) \<le> 2"
  by (simp add: probe_def Let_def split: option.splits)

lemma start_loop_returns:
  assumes "\<forall>i. ps_start p + STARTUP_POLL_INTERVAL * i \<le> ps_now p i" and "i + fuel = Suc 240"
    and "0 < fuel"
  shows "\<exists>r acts. start_loop fuel p base i = Some (r, acts) \<and> length (filter is_get acts) \<le> 2 * fuel"
  using assms(2,3)
proof (induction fuel arbitrary: i)
  case (Suc fuel)
  obtain ok gets where pr: "probe (ps_probe p i) base = (ok, gets)" by (cases "probe (ps_probe p i) base")
  have g: "length (filter is_get gets) \<le> 2" using probe_gets [of "ps_probe p i" base] pr by simp
  show ?case
  proof (cases fuel)
    case 0
    with Suc.prems have "i = 240" by simp
    moreover have "ps_start p + 250 * 240 \<le> ps_now p 240"
      using spec [OF assms(1), of 240] unfolding STARTUP_POLL_INTERVAL_def .
    ultimately have "ps_start p + STARTUP_TIMEOUT \<le> ps_now p i" by (simp add: STARTUP_TIMEOUT_def)
    with g pr 0 show ?thesis by (auto simp: Let_def)
  next
    case (Suc n)
    with Suc.prems Suc.IH [of "Suc i"] obtain r acts where
      "start_loop fuel p base (Suc i) = Some (r, acts)" "length (filter is_get acts) \<le> 2 * fuel" by auto
    with g pr show ?thesis by (auto simp: Let_def)
  qed
qed simp

lemma start_loop_ready:
  "start_loop fuel p base i = Some (Inr u, acts) \<Longrightarrow> \<exists>j. fst (probe (ps_probe p j) base)"
proof (induction fuel arbitrary: i acts)
  case (Suc fuel)
  show ?case
  proof (cases "fst (probe (ps_probe p i) base)")
    case False
    with Suc show ?thesis by (auto simp: Let_def split: prod.splits if_splits)
  qed blast
qed simp

lemma probe_success:
  "fst (probe ask base) \<Longrightarrow>
     \<exists>path\<in>{''/v1/models'', ''/health''}. \<exists>st. ask (base @ path) = Some st \<and> status_success st"
  by (auto simp: probe_def Let_def split: option.splits if_splits)

text \<open>
  C21: waiting for a managed server ends. When every poll is at least 250 ms after the one before, 241
  rounds are enough to return, with at most 482 probes, and the server is taken for ready only when a
  probe of one of the two paths was answered with success.
\<close>

theorem start_server_returns:
  assumes "\<forall>i. ps_start p + STARTUP_POLL_INTERVAL * i \<le> ps_now p i"
  shows "\<exists>r acts. start_server 241 p base = Some (r, acts) \<and> length (filter is_get acts) \<le> 482 \<and>
    (r = Inr () \<longrightarrow> (\<exists>j. \<exists>path\<in>{''/v1/models'', ''/health''}. \<exists>st.
       ps_probe p j (base @ path) = Some st \<and> status_success st))"
proof -
  obtain r acts where l: "start_loop 241 p base 0 = Some (r, acts)" "length (filter is_get acts) \<le> 482"
    using start_loop_returns [OF assms, of 0 241 base] by auto
  have "\<exists>j. \<exists>path\<in>{''/v1/models'', ''/health''}. \<exists>st. ps_probe p j (base @ path) = Some st \<and> status_success st"
    if "r = Inr ()"
    using start_loop_ready [of 241 p base 0 "()" acts] l(1) that probe_success by blast
  with l show ?thesis
    by (cases r; cases "ps_spawn_error p") (auto simp: start_server_def simp del: start_loop.simps)
qed

definition demo_process :: server_process where
  "demo_process = \<lparr>ps_spawn_error = None, ps_probe = (\<lambda>i url. if i = 2 \<and> url = ''u/health'' then Some 200 else None),
     ps_exit = (\<lambda>i. None), ps_now = (\<lambda>i. 300 * i), ps_start = 0, ps_stderr = []\<rparr>"

theorem start_server_returns_witness:
  "\<exists>r acts. start_server 241 demo_process ''u'' = Some (r, acts) \<and> length (filter is_get acts) \<le> 482"
  using start_server_returns [of demo_process "''u''"]
  by (auto simp: demo_process_def STARTUP_POLL_INTERVAL_def)

section \<open>A Realtime session\<close>

fun sent_event :: "net_action \<Rightarrow> json option" where
  "sent_event (NA_Send v) = Some v"
| "sent_event _ = None"

lemma send_events_prefix:
  "send_events fails k evs = (r, acts) \<Longrightarrow>
     \<exists>n\<le>length evs. List.map_filter sent_event acts = take n evs \<and> (r = Inr () \<longrightarrow> n = length evs)"
proof (induction fails k evs arbitrary: r acts rule: send_events.induct)
  case (2 fails k ev evs)
  show ?case
  proof (cases "fails k")
    case None
    obtain r1 acts1 where rest: "send_events fails (Suc k) evs = (r1, acts1)"
      by (cases "send_events fails (Suc k) evs")
    with "2.IH" [OF None] obtain n where
      "n \<le> length evs" "List.map_filter sent_event acts1 = take n evs" "r1 = Inr () \<longrightarrow> n = length evs" by blast
    with "2.prems" None rest show ?thesis by (intro exI [of _ "Suc n"]) auto
  next
    case (Some e)
    with "2.prems" show ?thesis by (intro exI [of _ 1]) auto
  qed
qed simp

lemma map_filter_recv: "List.map_filter sent_event (replicate k NA_Recv) = []"
  by (induction k) simp_all

text \<open>
  A session sends the events of its request in order, each at most once, and it returns a response
  only when all of them have been sent.
\<close>

theorem run_session_sends:
  assumes "run_session net req b n = (r, acts)"
  shows "\<exists>k\<le>length (session_events (ln_print net) req).
    List.map_filter sent_event acts = take k (session_events (ln_print net) req) \<and>
    (\<forall>resp. r = Inr resp \<longrightarrow> k = length (session_events (ln_print net) req))"
proof -
  define rs where "rs link = fst (send_events (wl_send_error link) 0 (session_events (ln_print net) req))" for link :: ws_link
  define sends where "sends link = snd (send_events (wl_send_error link) 0 (session_events (ln_print net) req))" for link :: ws_link
  have s: "send_events (wl_send_error link) 0 (session_events (ln_print net) req) = (rs link, sends link)" for link
    by (simp add: rs_def sends_def)
  have c: "List.map_filter sent_event (snd (connect net b n)) = []"
    by (simp add: connect_def Let_def split: option.splits)
  note simps = run_session_def s map_filter_append map_filter_recv
  show ?thesis
  proof (cases "connect net b n")
    case (Pair r0 acts0)
    show ?thesis
    proof (cases r0)
      case (Inl e)
      with assms Pair c show ?thesis by (intro exI [of _ 0]) (auto simp: simps)
    next
      case (Inr link)
      obtain r1 fs k1 where w: "await_event net ''session.created'' (wl_frames link) = (r1, fs, k1)"
        by (cases "await_event net ''session.created'' (wl_frames link)")
      from send_events_prefix [OF s] obtain m where
        m: "m \<le> length (session_events (ln_print net) req)"
        "List.map_filter sent_event (sends link) = take m (session_events (ln_print net) req)"
        "rs link = Inr () \<longrightarrow> m = length (session_events (ln_print net) req)" by blast
      show ?thesis
      proof (cases r1)
        case Inl
        with assms Pair c Inr w show ?thesis by (intro exI [of _ 0]) (auto simp: simps)
      next
        case (Inr v)
        with assms Pair c \<open>r0 = Inr link\<close> w m show ?thesis
          by (intro exI [of _ m]) (auto simp: simps split: sum.splits prod.splits)
      qed
    qed
  qed
qed

section \<open>Error excerpts\<close>

lemma boundary_below_le: "boundary_below s n \<le> n"
  by (induction n) (auto simp: le_SucI)

lemma boundary_below_boundary: "is_char_boundary s (boundary_below s n)"
  by (induction n) (auto simp: is_char_boundary_def)

text \<open>The excerpt of an error body is valid UTF-8 and at most 612 bytes long.\<close>

theorem snippet_bounded:
  assumes "utf8_valid (trim s)"
  shows "utf8_valid (snippet s) \<and> length (snippet s) \<le> ERROR_BODY_SNIPPET_BYTES + 12"
proof -
  let ?t = "trim s" and ?n = "boundary_below (trim s) ERROR_BODY_SNIPPET_BYTES"
  have cut: "utf8_valid (take ?n ?t)"
  proof (rule utf8_valid_cut)
    show "utf8_valid (take ?n ?t @ drop ?n ?t)" using assms by simp
    show "drop ?n ?t = [] \<or> \<not> utf8_cont (hd (drop ?n ?t))"
      using boundary_below_boundary [of ?t ERROR_BODY_SNIPPET_BYTES] utf8_valid_head [OF assms]
      by (auto simp: is_char_boundary_def hd_drop_conv_nth hd_conv_nth)
  qed
  have tail: "utf8_valid '' [truncated]''" by code_simp
  with cut boundary_below_le [of ?t ERROR_BODY_SNIPPET_BYTES] assms show ?thesis
    by (simp add: snippet_def Let_def utf8_valid_append_iff)
qed

end
